(* ===== verification/Prelude.thy ===== *)
theory Prelude
  imports Main "HOL-Library.Word" "HOL-Library.AList"
begin

text \<open>
  What every component of the development shares.

  \<^item> Machine integers. Counters the Rust code adds to with \<open>saturating_add\<close> are \<^typ>\<open>nat\<close> with
    \<open>sat_add\<close>, which stops at \<open>u64::MAX\<close> (\<open>usize\<close> has the same width on the supported targets);
    \<open>saturating_sub\<close> is the truncating subtraction of \<^typ>\<open>nat\<close>. A counter that wraps
    (\<open>wrapping_add\<close>) is a \<open>64 word\<close>.
  \<^item> Bytes and strings. A byte (\<open>u8\<close>) is a \<^typ>\<open>char\<close>, HOL's type of 256 bytes; a Rust \<open>String\<close>
    or \<open>&str\<close> is the list of its Unicode scalar values, and \<open>utf8_encode\<close> gives its bytes, so
    that \<open>str::len\<close>, which counts bytes, is \<open>utf8_len\<close>.
  \<^item> Hash maps. A \<open>HashMap<K, V>\<close> is an association list with distinct keys, in the map's
    iteration order, with the operations of the library theory of association lists. The order is
    arbitrary in Rust; a theorem holds for every order because it holds for every list.
  \<^item> Interfaces used by several components: a map keyed by identifiers (\<open>keyed_store\<close>), a log
    of bounded length (\<open>bounded_log\<close>) and a machine that consumes a stream (\<open>stream_machine\<close>).
\<close>

section \<open>Machine integers\<close>

definition u64_max :: nat where
  "u64_max = 18446744073709551615"

lemma u64_max_pos [simp]: "0 < u64_max"
  by (simp add: u64_max_def)

definition sat_add :: "nat \<Rightarrow> nat \<Rightarrow> nat" where
  "sat_add a b = min (a + b) u64_max"

lemma sat_add_le [simp]: "sat_add a b \<le> a + b"
  by (simp add: sat_add_def)

lemma sat_add_exact: "a + b \<le> u64_max \<Longrightarrow> sat_add a b = a + b"
  by (simp add: sat_add_def)

lemma sat_add_bound: "sat_add a b \<le> u64_max"
  by (simp add: sat_add_def)

lemma sat_add_mono: "a \<le> u64_max \<Longrightarrow> a \<le> sat_add a b"
  by (simp add: sat_add_def)

lemma sat_add_limit: "sat_add a b \<le> l \<Longrightarrow> l < u64_max \<Longrightarrow> a + b \<le> l"
  by (simp add: sat_add_def split: if_splits)

definition clamp :: "nat \<Rightarrow> nat \<Rightarrow> nat \<Rightarrow> nat" where
  "clamp x lo hi = (if x < lo then lo else if hi < x then hi else x)"

lemma clamp_bounds: "lo \<le> hi \<Longrightarrow> lo \<le> clamp x lo hi \<and> clamp x lo hi \<le> hi"
  by (simp add: clamp_def)

lemma clamp_id: "lo \<le> x \<Longrightarrow> x \<le> hi \<Longrightarrow> clamp x lo hi = x"
  by (simp add: clamp_def)

text \<open>An unchecked \<open>u64\<close> addition, as the release build runs it.\<close>

definition wrap_add :: "nat \<Rightarrow> nat \<Rightarrow> nat" where
  "wrap_add a b = (a + b) mod 2 ^ 64"

lemma wrap_add_exact: "a + b \<le> u64_max \<Longrightarrow> wrap_add a b = a + b"
  by (simp add: wrap_add_def u64_max_def)

section \<open>Identifiers, bytes and strings\<close>

type_synonym uuid = nat
type_synonym byte = char
type_synonym bytes = "char list"
type_synonym scalar = nat
type_synonym ustring = "nat list"

abbreviation byte_val :: "byte \<Rightarrow> nat" where
  "byte_val \<equiv> of_char"

definition lit :: "string \<Rightarrow> ustring" where
  "lit s = map of_char s"

lemma lit_simps [simp]: "lit [] = []" "lit (c # s) = of_char c # lit s"
  by (simp_all add: lit_def)

text \<open>The number of bytes of a scalar value in UTF-8 (\<open>char::len_utf8\<close>) and its bytes.\<close>

definition scalar_width :: "scalar \<Rightarrow> nat" where
  "scalar_width c = (if c < 128 then 1 else if c < 2048 then 2 else if c < 65536 then 3 else 4)"

definition utf8_scalar :: "scalar \<Rightarrow> bytes" where
  "utf8_scalar c =
     (if c < 128 then [char_of c]
      else if c < 2048 then [char_of (192 + c div 64), char_of (128 + c mod 64)]
      else if c < 65536 then
        [char_of (224 + c div 4096), char_of (128 + c div 64 mod 64), char_of (128 + c mod 64)]
      else [char_of (240 + c div 262144), char_of (128 + c div 4096 mod 64),
            char_of (128 + c div 64 mod 64), char_of (128 + c mod 64)])"

definition utf8_encode :: "ustring \<Rightarrow> bytes" where
  "utf8_encode s = concat (map utf8_scalar s)"

fun utf8_len :: "ustring \<Rightarrow> nat" where
  "utf8_len [] = 0"
| "utf8_len (c # s) = scalar_width c + utf8_len s"

lemma length_utf8_scalar [simp]: "length (utf8_scalar c) = scalar_width c"
  by (simp add: utf8_scalar_def scalar_width_def)

lemma length_utf8_encode: "length (utf8_encode s) = utf8_len s"
  by (induction s) (simp_all add: utf8_encode_def)

lemma scalar_width_pos [simp]: "0 < scalar_width c" "Suc 0 \<le> scalar_width c" "scalar_width c \<noteq> 0"
  by (simp_all add: scalar_width_def)

lemma scalar_width_le [simp]: "scalar_width c \<le> 4"
  by (simp add: scalar_width_def)

lemma utf8_len_append [simp]: "utf8_len (s @ t) = utf8_len s + utf8_len t"
  by (induction s) simp_all

lemma length_le_utf8_len: "length s \<le> utf8_len s"
  by (induction s) (simp_all add: add_le_mono [of 1, simplified])

text \<open>\<open>u64::to_be_bytes\<close> and \<open>u64::from_be_bytes\<close>.\<close>

fun be_bytes :: "nat \<Rightarrow> nat \<Rightarrow> bytes" where
  "be_bytes 0 n = []"
| "be_bytes (Suc k) n = be_bytes k (n div 256) @ [char_of (n mod 256)]"

definition be64 :: "nat \<Rightarrow> bytes" where
  "be64 n = be_bytes 8 n"

definition from_be_bytes :: "bytes \<Rightarrow> nat" where
  "from_be_bytes bs = foldl (\<lambda>a b. a * 256 + of_char b) 0 bs"

lemma length_be_bytes [simp]: "length (be_bytes k n) = k"
  by (induction k arbitrary: n) simp_all

lemma be_bytes_inj: "be_bytes k n = be_bytes k m \<Longrightarrow> n < 256 ^ k \<Longrightarrow> m < 256 ^ k \<Longrightarrow> n = m"
proof (induction k arbitrary: n m)
  case (Suc k)
  have low: "n mod 256 = m mod 256"
    using Suc.prems(1) arg_cong [of "char_of (n mod 256) :: byte" "char_of (m mod 256)" byte_val] by simp
  have "n div 256 = m div 256"
    by (rule Suc.IH) (use Suc.prems in \<open>auto simp: less_mult_imp_div_less mult.commute\<close>)
  with low show ?case by (metis div_mult_mod_eq)
qed simp

lemma from_be_bytes_be: "from_be_bytes (be_bytes k n) = n mod 256 ^ k"
proof (induction k arbitrary: n)
  case (Suc k)
  have "n div 256 mod 256 ^ k * 256 + n mod 256 = n mod 256 ^ Suc k"
    using mod_mult2_eq [of n 256 "256 ^ k"] by (simp add: mult.commute)
  with Suc [of "n div 256"] show ?case by (simp add: from_be_bytes_def)
qed (simp add: from_be_bytes_def)

lemma length_be64 [simp]: "length (be64 n) = 8"
  by (simp add: be64_def)

lemma from_be64: "n \<le> u64_max \<Longrightarrow> from_be_bytes (be64 n) = n"
  by (simp add: be64_def from_be_bytes_be u64_max_def)

text \<open>\<open>char::is_whitespace\<close> (the property White_Space) and \<open>char::is_control\<close> (category Cc).\<close>

definition is_whitespace :: "scalar \<Rightarrow> bool" where
  "is_whitespace c \<longleftrightarrow> (9 \<le> c \<and> c \<le> 13) \<or> c = 32 \<or> c = 133 \<or> c = 160 \<or> c = 5760
     \<or> (8192 \<le> c \<and> c \<le> 8202) \<or> c = 8232 \<or> c = 8233 \<or> c = 8239 \<or> c = 8287 \<or> c = 12288"

definition is_control :: "scalar \<Rightarrow> bool" where
  "is_control c \<longleftrightarrow> c < 32 \<or> (127 \<le> c \<and> c < 160)"

definition is_ascii_alphabetic :: "scalar \<Rightarrow> bool" where
  "is_ascii_alphabetic c \<longleftrightarrow> (65 \<le> c \<and> c \<le> 90) \<or> (97 \<le> c \<and> c \<le> 122)"

definition is_ascii_digit :: "scalar \<Rightarrow> bool" where
  "is_ascii_digit c \<longleftrightarrow> 48 \<le> c \<and> c \<le> 57"

definition is_ascii_alphanumeric :: "scalar \<Rightarrow> bool" where
  "is_ascii_alphanumeric c \<longleftrightarrow> is_ascii_alphabetic c \<or> is_ascii_digit c"

definition ascii_upper :: "scalar \<Rightarrow> scalar" where
  "ascii_upper c = (if 97 \<le> c \<and> c \<le> 122 then c - 32 else c)"

definition ascii_lower :: "scalar \<Rightarrow> scalar" where
  "ascii_lower c = (if 65 \<le> c \<and> c \<le> 90 then c + 32 else c)"

definition trim_start :: "ustring \<Rightarrow> ustring" where
  "trim_start s = dropWhile is_whitespace s"

definition trim_end :: "ustring \<Rightarrow> ustring" where
  "trim_end s = rev (dropWhile is_whitespace (rev s))"

definition trim :: "ustring \<Rightarrow> ustring" where
  "trim s = trim_end (trim_start s)"

lemma set_dropWhile_sub: "set (dropWhile P s) \<subseteq> set s"
  by (induction s) auto

lemma set_trim: "set (trim s) \<subseteq> set s"
  using set_dropWhile_sub [of is_whitespace s]
    set_dropWhile_sub [of is_whitespace "rev (dropWhile is_whitespace s)"]
  by (auto simp: trim_def trim_end_def trim_start_def)

definition starts_with :: "'a list \<Rightarrow> 'a list \<Rightarrow> bool" where
  "starts_with s p \<longleftrightarrow> take (length p) s = p"

definition strip_prefix :: "'a list \<Rightarrow> 'a list \<Rightarrow> 'a list option" where
  "strip_prefix p s = (if starts_with s p then Some (drop (length p) s) else None)"

lemma starts_with_iff: "starts_with s p \<longleftrightarrow> (\<exists>r. s = p @ r)"
  unfolding starts_with_def by (metis append_eq_conv_conj)

text \<open>A number in decimal, as \<open>format!\<close> writes it.\<close>

fun dec_digits :: "nat \<Rightarrow> ustring" where
  "dec_digits n = (if n < 10 then [48 + n] else dec_digits (n div 10) @ [48 + n mod 10])"

declare dec_digits.simps [simp del]

text \<open>A decimal number, as \<open>str::parse\<close> reads an unsigned integer of 64 bits: a sign is allowed.\<close>

definition digits_value :: "ustring \<Rightarrow> nat" where
  "digits_value s = foldl (\<lambda>n c. 10 * n + (c - 48)) 0 s"

definition parse_usize :: "ustring \<Rightarrow> nat option" where
  "parse_usize s =
     (let digits = (case s of c # r \<Rightarrow> if c = 43 then r else s | [] \<Rightarrow> s) in
      if digits \<noteq> [] \<and> list_all is_ascii_digit digits \<and> digits_value digits \<le> u64_max
      then Some (digits_value digits) else None)"

lemma digits_value_snoc: "digits_value (s @ [c]) = 10 * digits_value s + (c - 48)"
  by (simp add: digits_value_def)

lemma digits_dec: "list_all is_ascii_digit (dec_digits n) \<and> digits_value (dec_digits n) = n"
proof (induction n rule: dec_digits.induct)
  case (1 n)
  have "n mod 10 < 10" by simp
  with 1 show ?case
    by (subst (1 2) dec_digits.simps)
      (auto simp: digits_value_snoc is_ascii_digit_def [of "48 + _"], simp add: digits_value_def)
qed

lemma dec_digits_nonempty [simp]: "dec_digits n \<noteq> []"
  by (subst dec_digits.simps) simp

text \<open>No number but zero is written with a leading zero.\<close>

lemma dec_digits_hd: "0 < n \<Longrightarrow> hd (dec_digits n) \<noteq> 48"
proof (induction n rule: dec_digits.induct)
  case (1 n)
  then show ?case
    by (cases "n < 10") (subst dec_digits.simps, simp add: hd_append)+
qed

lemma parse_dec: "n \<le> u64_max \<Longrightarrow> parse_usize (dec_digits n) = Some n"
proof -
  assume n: "n \<le> u64_max"
  obtain c r where d: "dec_digits n = c # r" by (cases "dec_digits n") auto
  moreover have "c \<noteq> 43" using digits_dec [of n] d by (auto simp: is_ascii_digit_def)
  ultimately show ?thesis using digits_dec [of n] n by (simp add: parse_usize_def)
qed

section \<open>Iterators\<close>

text \<open>\<open>min_by_key\<close> returns the first of the elements with the least key.\<close>

fun min_by_key :: "('a \<Rightarrow> nat) \<Rightarrow> 'a list \<Rightarrow> 'a option" where
  "min_by_key f [] = None"
| "min_by_key f (x # xs) =
     (case min_by_key f xs of None \<Rightarrow> Some x | Some y \<Rightarrow> if f x \<le> f y then Some x else Some y)"

lemma min_by_key_mem: "min_by_key f xs = Some x \<Longrightarrow> x \<in> set xs"
  by (induction xs arbitrary: x) (auto split: option.splits if_splits)

lemma min_by_key_None: "min_by_key f xs = None \<longleftrightarrow> xs = []"
  by (cases xs) (auto split: option.splits)

lemma min_by_key_least: "min_by_key f xs = Some x \<Longrightarrow> y \<in> set xs \<Longrightarrow> f x \<le> f y"
  by (induction xs arbitrary: x y) (fastforce split: option.splits if_splits simp: min_by_key_None)+

text \<open>\<open>str::split\<close> at a separator character: the parts between the separators, empty ones too.\<close>

fun split_on :: "'a \<Rightarrow> 'a list \<Rightarrow> 'a list list" where
  "split_on c [] = [[]]"
| "split_on c (x # xs) =
     (if x = c then [] # split_on c xs
      else case split_on c xs of [] \<Rightarrow> [[x]] | part # parts \<Rightarrow> (x # part) # parts)"

lemma split_on_nonempty [simp]: "split_on c xs \<noteq> []"
  by (induction xs) (auto split: list.splits)

lemma split_on_none: "c \<notin> set xs \<Longrightarrow> split_on c xs = [xs]"
  by (induction xs) auto

lemma split_on_append: "c \<notin> set xs \<Longrightarrow> split_on c (xs @ c # ys) = xs # split_on c ys"
  by (induction xs) auto

text \<open>The strings with a separator between them (\<open>join\<close>), and a string inside another (\<open>contains\<close>).\<close>

fun join_with :: "ustring \<Rightarrow> ustring list \<Rightarrow> ustring" where
  "join_with sep [] = []"
| "join_with sep [a] = a"
| "join_with sep (a # b # rest) = a @ sep @ join_with sep (b # rest)"

fun contains_str :: "'a list \<Rightarrow> 'a list \<Rightarrow> bool" where
  "contains_str p [] \<longleftrightarrow> p = []"
| "contains_str p (c # s) \<longleftrightarrow> starts_with (c # s) p \<or> contains_str p s"

text \<open>The parts joined with the separator are the string, and no part has the separator.\<close>

lemma split_on_parts: "c \<notin> \<Union> (set ` set (split_on c xs))"
  by (induction xs) (auto split: list.splits)

lemma split_on_join:
  "split_on c xs = part # parts \<Longrightarrow> xs = part @ concat (map (\<lambda>p. c # p) parts)"
  by (induction xs arbitrary: part parts) (auto split: list.splits if_splits)

lemma split_join:
  "parts \<noteq> [] \<Longrightarrow> c \<notin> \<Union> (set ` set parts) \<Longrightarrow> split_on c (join_with [c] parts) = parts"
  by (induction "[c]" parts rule: join_with.induct) (auto simp: split_on_none split_on_append)

end
