(* ===== verification/Interfaces.thy ===== *)
theory Interfaces
  imports Prelude
begin

text \<open>
  The interfaces that more than one component provides or relies on, as locales with the laws a
  provider promises and the lemmas every client needs, and the library's model of the Rust
  standard collections as the first provider of the map interface.
\<close>

section \<open>Maps keyed by identifiers\<close>

locale keyed_store =
  fixes empty :: "'m"
    and get :: "'m \<Rightarrow> 'k \<Rightarrow> 'v option"
    and put :: "'k \<Rightarrow> 'v \<Rightarrow> 'm \<Rightarrow> 'm"
    and del :: "'k \<Rightarrow> 'm \<Rightarrow> 'm"
    and ok :: "'m \<Rightarrow> bool"
  assumes get_empty: "get empty k = None"
    and get_put: "ok m \<Longrightarrow> get (put k v m) k' = (if k' = k then Some v else get m k')"
    and get_del: "ok m \<Longrightarrow> get (del k m) k' = (if k' = k then None else get m k')"
    and ok_empty: "ok empty"
    and ok_put: "ok m \<Longrightarrow> ok (put k v m)"
    and ok_del: "ok m \<Longrightarrow> ok (del k m)"
begin

lemma get_put_same: "ok m \<Longrightarrow> get (put k v m) k = Some v"
  by (simp add: get_put)

lemma get_put_other: "ok m \<Longrightarrow> k' \<noteq> k \<Longrightarrow> get (put k v m) k' = get m k'"
  by (simp add: get_put)

lemma get_del_put: "ok m \<Longrightarrow> get (del k (put k v m)) k' = get (del k m) k'"
  by (simp add: get_del get_put ok_put)

end

text \<open>
  A store whose values are combined with a join: an update reads the value under a key (or a
  default), joins the new one in and writes the result back. With an associative, commutative and
  idempotent join the order of two updates and their repetition do not matter.
\<close>

locale joined_store = keyed_store empty get put del ok
  for empty :: "'m" and get :: "'m \<Rightarrow> 'k \<Rightarrow> 'v option"
    and put :: "'k \<Rightarrow> 'v \<Rightarrow> 'm \<Rightarrow> 'm" and del :: "'k \<Rightarrow> 'm \<Rightarrow> 'm" and ok :: "'m \<Rightarrow> bool" +
  fixes bot :: "'v" and join :: "'v \<Rightarrow> 'v \<Rightarrow> 'v" and upd :: "'k \<Rightarrow> 'v \<Rightarrow> 'm \<Rightarrow> 'm"
  assumes join_assoc: "join (join a b) c = join a (join b c)"
    and join_comm: "join a b = join b a"
    and join_idem: "join a a = a"
    and join_bot: "join bot a = a"
    and get_upd: "ok m \<Longrightarrow> (case get (upd k v m) k' of None \<Rightarrow> bot | Some w \<Rightarrow> w)
        = (if k' = k then join (case get m k of None \<Rightarrow> bot | Some w \<Rightarrow> w) v
           else (case get m k' of None \<Rightarrow> bot | Some w \<Rightarrow> w))"
    and ok_upd: "ok m \<Longrightarrow> ok (upd k v m)"
begin

definition read :: "'m \<Rightarrow> 'k \<Rightarrow> 'v" where
  "read m k = (case get m k of None \<Rightarrow> bot | Some w \<Rightarrow> w)"

lemma read_upd: "ok m \<Longrightarrow> read (upd k v m) k' = (if k' = k then join (read m k) v else read m k')"
  by (simp add: read_def get_upd)

lemma upd_commute: "ok m \<Longrightarrow> read (upd k v (upd j w m)) i = read (upd j w (upd k v m)) i"
  by (simp add: read_upd ok_upd) (metis join_assoc join_comm)

lemma upd_idem: "ok m \<Longrightarrow> read (upd k v (upd k v m)) i = read (upd k v m) i"
  by (simp add: read_upd ok_upd join_assoc join_idem)

end

section \<open>Logs of bounded length\<close>

text \<open>\<open>entries\<close> lists a log from its newest entry; pushing drops what exceeds the limit.\<close>

locale bounded_log =
  fixes push :: "'e \<Rightarrow> 'l \<Rightarrow> 'l" and entries :: "'l \<Rightarrow> 'e list" and limit :: nat
  assumes entries_push: "length (entries l) \<le> limit \<Longrightarrow>
      entries (push e l) = take limit (e # entries l)"
begin

lemma length_push: "length (entries l) \<le> limit \<Longrightarrow> length (entries (push e l)) \<le> limit"
  by (simp add: entries_push)

lemma entries_fold:
  "length (entries l) \<le> limit \<Longrightarrow> entries (fold push es l) = take limit (rev es @ entries l)"
proof (induction es arbitrary: l)
  case Nil
  then show ?case by simp
next
  case (Cons e es)
  have "entries (fold push (e # es) l) = take limit (rev es @ take limit (e # entries l))"
    using Cons.IH [OF length_push [OF Cons.prems, of e]] entries_push [OF Cons.prems, of e] by simp
  then show ?case by (simp add: take_append min_def)
qed

lemma newest_kept: "length (entries l) \<le> limit \<Longrightarrow> 0 < limit \<Longrightarrow> e \<in> set (entries (push e l))"
  by (cases limit) (simp_all add: entries_push)

end

section \<open>Machines that consume a stream\<close>

locale stream_machine =
  fixes step :: "'s \<Rightarrow> 'b \<Rightarrow> 's" and run :: "'s \<Rightarrow> 'b list \<Rightarrow> 's"
  assumes run_Nil: "run s [] = s"
    and run_Cons: "run s (b # bs) = run (step s b) bs"
begin

lemma run_append: "run s (bs @ cs) = run (run s bs) cs"
  by (induction bs arbitrary: s) (simp_all add: run_Nil run_Cons)

text \<open>How a stream is cut into chunks does not change the state it leads to.\<close>

lemma run_concat: "run s (concat chunks) = foldl run s chunks"
  by (induction chunks arbitrary: s) (simp_all add: run_Nil run_append)

lemma run_invariant:
  "(\<And>s b. P s \<Longrightarrow> P (step s b)) \<Longrightarrow> P s \<Longrightarrow> P (run s bs)"
  by (induction bs arbitrary: s) (simp_all add: run_Nil run_Cons)

end

section \<open>Documents in files\<close>

text \<open>
  Several components keep their state in a JSON document that is replaced whole: written to a
  temporary file, renamed over the old one, the directory synced. What the file system answers is
  an argument: an attempt ends before the rename, after it, or well. Reading answers the parsed
  document (None for text that is not one), that there is no file, or an error.
\<close>

datatype 'e persist_outcome = Fails_before_rename 'e | Fails_after_rename 'e | Persisted

datatype 'd read_outcome = Read_ok "'d option" | Not_found | Read_error

definition persist_document :: "'e persist_outcome \<Rightarrow> 'd \<Rightarrow> 'd option \<Rightarrow> ('e + unit) \<times> 'd option" where
  "persist_document outcome doc file =
     (case outcome of
        Fails_before_rename e \<Rightarrow> (Inl e, file)
      | Fails_after_rename e \<Rightarrow> (Inl e, Some doc)
      | Persisted \<Rightarrow> (Inr (), Some doc))"

text \<open>What the next start of the server reads.\<close>

definition reread :: "'d option \<Rightarrow> 'd read_outcome" where
  "reread file = (case file of None \<Rightarrow> Not_found | Some d \<Rightarrow> Read_ok (Some d))"

lemma persist_Inr:
  "fst (persist_document p d file) = Inr u \<Longrightarrow> snd (persist_document p d file) = Some d"
  by (auto simp: persist_document_def split: persist_outcome.splits)

lemma persist_Persisted [simp]: "persist_document Persisted d file = (Inr (), Some d)"
  by (simp add: persist_document_def)

locale document_store =
  fixes encode :: "'m \<Rightarrow> 'd" and decode :: "'d read_outcome \<Rightarrow> 'm"
  assumes decode_encode: "decode (Read_ok (Some (encode m))) = m"
begin

text \<open>The file is worth what memory holds.\<close>

definition durable :: "'m \<Rightarrow> 'd option \<Rightarrow> bool" where
  "durable m file \<longleftrightarrow> decode (reread file) = m"

lemma durable_written: "durable m (Some (encode m))"
  by (simp add: durable_def reread_def decode_encode)

text \<open>Memory that changes exactly when the write succeeds stays durable unless the write fails late.\<close>

lemma durable_persist:
  assumes "durable m file" "\<And>e. p \<noteq> Fails_after_rename e"
  shows "durable (case fst (persist_document p (encode m') file) of Inl _ \<Rightarrow> m | Inr _ \<Rightarrow> m')
    (snd (persist_document p (encode m') file))"
  using assms by (cases p) (auto simp: persist_document_def durable_written)

end

section \<open>Hash maps as association lists\<close>

type_synonym ('k, 'v) hmap = "('k \<times> 'v) list"

definition hm_ok :: "('k, 'v) hmap \<Rightarrow> bool" where
  "hm_ok m \<longleftrightarrow> distinct (map fst m)"

definition hm_values :: "('k, 'v) hmap \<Rightarrow> 'v list" where
  "hm_values m = map snd m"

definition hm_retain :: "('k \<Rightarrow> 'v \<Rightarrow> bool) \<Rightarrow> ('k, 'v) hmap \<Rightarrow> ('k, 'v) hmap" where
  "hm_retain P m = filter (\<lambda>(k, v). P k v) m"

text \<open>\<open>values_mut\<close> with a closure applied to every value that satisfies a filter.\<close>

definition hm_map :: "('v \<Rightarrow> 'v) \<Rightarrow> ('k, 'v) hmap \<Rightarrow> ('k, 'v) hmap" where
  "hm_map f m = map (\<lambda>(k, v). (k, f v)) m"

interpretation hm: keyed_store "[] :: ('k, 'v) hmap" map_of AList.update AList.delete hm_ok
  by unfold_locales
    (auto simp: hm_ok_def AList.update_conv' AList.delete_conv' distinct_update distinct_delete)

lemma hm_ok_Nil [simp]: "hm_ok []"
  by (simp add: hm_ok_def)

lemma hm_ok_retain [simp]: "hm_ok m \<Longrightarrow> hm_ok (hm_retain P m)"
  by (induction m) (auto simp: hm_ok_def hm_retain_def)

lemma fst_hm_map [simp]: "map fst (hm_map f m) = map fst m"
  by (induction m) (auto simp: hm_map_def)

lemma hm_ok_map [simp]: "hm_ok (hm_map f m) = hm_ok m"
  by (simp add: hm_ok_def)

lemma map_of_hm_map [simp]: "map_of (hm_map f m) k = map_option f (map_of m k)"
  by (induction m) (auto simp: hm_map_def)

lemma fst_map_entry [simp]: "map fst (AList.map_entry k f m) = map fst m"
  by (induction m) auto

lemma hm_ok_map_entry [simp]: "hm_ok (AList.map_entry k f m) = hm_ok m"
  by (simp add: hm_ok_def)

lemma map_of_map_entry:
  "map_of (AList.map_entry k f m) k' = (if k' = k then map_option f (map_of m k) else map_of m k')"
  by (induction m) auto

lemma map_of_retain:
  "hm_ok m \<Longrightarrow> map_of (hm_retain P m) k
     = (case map_of m k of None \<Rightarrow> None | Some v \<Rightarrow> if P k v then Some v else None)"
proof (induction m)
  case Nil
  then show ?case by (simp add: hm_retain_def)
next
  case (Cons p m)
  obtain j v where p: "p = (j, v)" by (cases p)
  from Cons.prems have ok: "hm_ok m" and j: "map_of m j = None"
    by (auto simp: hm_ok_def p map_of_eq_None_iff)
  show ?case
    using Cons.IH [OF ok] j by (auto simp: hm_retain_def p split: option.splits)
qed

lemma hm_values_iff: "hm_ok m \<Longrightarrow> v \<in> set (hm_values m) \<longleftrightarrow> (\<exists>k. map_of m k = Some v)"
  by (force simp: hm_values_def hm_ok_def)

end
