(* ===== verification/TextClean.thy ===== *)
theory TextClean
  imports Interfaces
begin

text \<open>
  Turning raw terminal output into text: \<open>clean_terminal_text\<close> and \<open>truncate_utf8_with_flag\<close> of
  \<open>src/src/history.rs\<close> and \<open>sanitize_terminal_text\<close> of \<open>src/src/terminal.rs\<close>, over the standard
  library's lossy UTF-8 decoder. Both cleaners are small state machines; the lemmas say what the
  cleaned text can contain, that plain text passes unchanged and that complete control sequences
  disappear.
\<close>

section \<open>Lossy UTF-8 decoding\<close>

definition is_cont :: "byte \<Rightarrow> bool" where
  "is_cont b \<longleftrightarrow> 128 \<le> byte_val b \<and> byte_val b < 192"

definition cont_in :: "nat \<Rightarrow> nat \<Rightarrow> bytes \<Rightarrow> bool" where
  "cont_in lo hi bs \<longleftrightarrow> (case bs of [] \<Rightarrow> False | b # _ \<Rightarrow> lo \<le> byte_val b \<and> byte_val b \<le> hi)"

definition cont_bits :: "byte \<Rightarrow> nat" where
  "cont_bits b = byte_val b mod 64"

text \<open>
  The scalar that starts with byte \<open>b\<close>, and how many of the following bytes belong to it. An
  ill-formed sequence gives the replacement character U+FFFD for its maximal valid prefix, as
  \<open>String::from_utf8_lossy\<close> does.
\<close>

definition second_range :: "nat \<Rightarrow> nat \<times> nat" where
  "second_range v =
     (if v = 224 then (160, 191) else if v = 237 then (128, 159)
      else if v = 240 then (144, 191) else if v = 244 then (128, 143) else (128, 191))"

definition utf8_next :: "byte \<Rightarrow> bytes \<Rightarrow> scalar \<times> nat" where
  "utf8_next b bs =
     (let v = byte_val b; (lo, hi) = second_range v in
      if v < 128 then (v, 0)
      else if v < 194 \<or> 244 < v then (65533, 0)
      else if \<not> cont_in lo hi bs then (65533, 0)
      else if v < 224 then ((v - 192) * 64 + cont_bits (bs ! 0), 1)
      else if \<not> cont_in 128 191 (drop 1 bs) then (65533, 1)
      else if v < 240 then
        ((v - 224) * 4096 + cont_bits (bs ! 0) * 64 + cont_bits (bs ! 1), 2)
      else if \<not> cont_in 128 191 (drop 2 bs) then (65533, 2)
      else ((v - 240) * 262144 + cont_bits (bs ! 0) * 4096 + cont_bits (bs ! 1) * 64
              + cont_bits (bs ! 2), 3))"

fun utf8_lossy :: "bytes \<Rightarrow> ustring" where
  "utf8_lossy [] = []"
| "utf8_lossy (b # bs) = fst (utf8_next b bs) # utf8_lossy (drop (snd (utf8_next b bs)) bs)"

text \<open>\<open>String::from_utf8\<close>: a byte string is valid UTF-8 iff the lossy decoder loses nothing.\<close>

definition utf8_strict :: "bytes \<Rightarrow> ustring option" where
  "utf8_strict bs = (if utf8_encode (utf8_lossy bs) = bs then Some (utf8_lossy bs) else None)"

lemma utf8_next_ascii: "byte_val b < 128 \<Longrightarrow> utf8_next b bs = (byte_val b, 0)"
  by (simp add: utf8_next_def Let_def split: prod.splits)

lemma utf8_lossy_ascii:
  "list_all (\<lambda>b. byte_val b < 128) bs \<Longrightarrow> utf8_lossy (bs @ cs) = map of_char bs @ utf8_lossy cs"
  by (induction bs) (simp_all add: utf8_next_ascii)

section \<open>Truncation at a scalar boundary\<close>

text \<open>\<open>str::is_char_boundary\<close>: a byte offset at which a scalar starts, or the end.\<close>

fun is_char_boundary :: "ustring \<Rightarrow> nat \<Rightarrow> bool" where
  "is_char_boundary s 0 = True"
| "is_char_boundary [] (Suc n) = False"
| "is_char_boundary (c # s) (Suc n) =
     (if scalar_width c \<le> Suc n then is_char_boundary s (Suc n - scalar_width c) else False)"

text \<open>The prefix of a string that ends at a byte offset (\<open>&value[..end]\<close>), at a boundary.\<close>

fun str_prefix :: "ustring \<Rightarrow> nat \<Rightarrow> ustring" where
  "str_prefix [] n = []"
| "str_prefix (c # s) n =
     (if scalar_width c \<le> n then c # str_prefix s (n - scalar_width c) else [])"

fun floor_boundary :: "ustring \<Rightarrow> nat \<Rightarrow> nat" where
  "floor_boundary s 0 = 0"
| "floor_boundary s (Suc n) = (if is_char_boundary s (Suc n) then Suc n else floor_boundary s n)"

definition truncate_utf8_with_flag :: "ustring \<Rightarrow> nat \<Rightarrow> ustring \<times> bool" where
  "truncate_utf8_with_flag value maximum_bytes =
     (if utf8_len value \<le> maximum_bytes then (value, False)
      else (str_prefix value (floor_boundary value (min maximum_bytes (utf8_len value))), True))"

definition truncate_utf8 :: "ustring \<Rightarrow> nat \<Rightarrow> ustring" where
  "truncate_utf8 value maximum_bytes = fst (truncate_utf8_with_flag value maximum_bytes)"

lemma floor_boundary_le: "floor_boundary s n \<le> n"
  by (induction n) auto

lemma floor_boundary_ok: "is_char_boundary s (floor_boundary s n)"
  by (induction n) auto

lemma floor_boundary_max: "is_char_boundary s k \<Longrightarrow> k \<le> n \<Longrightarrow> k \<le> floor_boundary s n"
  by (induction n) (auto simp: le_Suc_eq)

lemma str_prefix_len: "utf8_len (str_prefix s n) \<le> n"
  by (induction s n rule: str_prefix.induct) auto

lemma str_prefix_boundary: "is_char_boundary s n \<Longrightarrow> utf8_len (str_prefix s n) = n"
proof (induction s n rule: is_char_boundary.induct)
  case (1 s)
  then show ?case by (cases s) auto
qed (auto split: if_splits)

lemma str_prefix_is_prefix: "\<exists>t. s = str_prefix s n @ t"
  by (induction s n rule: str_prefix.induct) auto

lemma boundary_append: "is_char_boundary (s @ t) (utf8_len s)"
proof (induction s)
  case Nil
  then show ?case by simp
next
  case (Cons c s)
  obtain n where n: "scalar_width c + utf8_len s = Suc n"
    using scalar_width_pos(1) [of c] by (cases "scalar_width c + utf8_len s") auto
  then have "Suc n - scalar_width c = utf8_len s" and "scalar_width c \<le> Suc n"
    by linarith+
  with Cons n show ?case by simp
qed

text \<open>The result fits, is a prefix, and no longer prefix of whole scalars fits.\<close>

lemma truncate_utf8_fits: "utf8_len (truncate_utf8 s n) \<le> n"
  by (auto simp: truncate_utf8_def truncate_utf8_with_flag_def
      intro: order_trans [OF str_prefix_len] order_trans [OF floor_boundary_le])

lemma truncate_utf8_prefix: "\<exists>t. s = truncate_utf8 s n @ t"
  by (auto simp: truncate_utf8_def truncate_utf8_with_flag_def str_prefix_is_prefix)

lemma truncate_utf8_longest:
  assumes "s = p @ t" and "utf8_len p \<le> n"
  shows "utf8_len p \<le> utf8_len (truncate_utf8 s n)"
proof (cases "utf8_len s \<le> n")
  case True
  then show ?thesis using assms by (simp add: truncate_utf8_def truncate_utf8_with_flag_def)
next
  case False
  let ?k = "floor_boundary s (min n (utf8_len s))"
  have "utf8_len p \<le> ?k"
    using boundary_append [of p t] assms by (intro floor_boundary_max) auto
  also have "?k = utf8_len (str_prefix s ?k)"
    by (simp add: str_prefix_boundary floor_boundary_ok)
  finally show ?thesis
    using False by (simp add: truncate_utf8_def truncate_utf8_with_flag_def)
qed

lemma truncate_flag: "snd (truncate_utf8_with_flag s n) \<longleftrightarrow> n < utf8_len s"
  by (auto simp: truncate_utf8_with_flag_def)


section \<open>\<open>clean_terminal_text\<close>\<close>

datatype clean_mode =
  CText | CEscape | CEscapeIntermediate | CCsi | CString | CStringEscape

record clean_state =
  cs_mode :: clean_mode
  cs_clean :: bytes
  cs_cont :: nat

definition clean_init :: clean_state where
  "clean_init = \<lparr>cs_mode = CText, cs_clean = [], cs_cont = 0\<rparr>"

text \<open>\<open>Vec::pop\<close> and the backspace branch: the last scalar goes, not its last byte.\<close>

definition erase_scalar :: "bytes \<Rightarrow> bytes" where
  "erase_scalar clean = butlast (rev (dropWhile is_cont (rev clean)))"

definition cont_expected :: "byte \<Rightarrow> nat" where
  "cont_expected b =
     (let v = byte_val b in
      if 194 \<le> v \<and> v \<le> 223 then 1 else if 224 \<le> v \<and> v \<le> 239 then 2
      else if 240 \<le> v \<and> v \<le> 244 then 3 else 0)"

text \<open>The \<open>State::Text\<close> arms; \<open>next\<close> is \<open>bytes.get(index)\<close>, the byte after this one.\<close>

definition clean_text_step :: "byte option \<Rightarrow> clean_state \<Rightarrow> byte \<Rightarrow> clean_state" where
  "clean_text_step next s b =
     (let v = byte_val b; s0 = s\<lparr>cs_cont := 0\<rparr> in
      if 0 < cs_cont s \<and> is_cont b
      then s\<lparr>cs_clean := cs_clean s @ [b], cs_cont := cs_cont s - 1\<rparr>
      else if v = 27 then s0\<lparr>cs_mode := CEscape\<rparr>
      else if v = 155 then s0\<lparr>cs_mode := CCsi\<rparr>
      else if v = 157 \<or> v = 144 \<or> v = 152 \<or> v = 158 \<or> v = 159 then s0\<lparr>cs_mode := CString\<rparr>
      else if v = 13 then
        (if next \<noteq> Some CHR 0x0A then s0\<lparr>cs_clean := cs_clean s @ [CHR 0x0A]\<rparr> else s0)
      else if v = 10 \<or> v = 9 then s0\<lparr>cs_clean := cs_clean s @ [b]\<rparr>
      else if v = 8 then s0\<lparr>cs_clean := erase_scalar (cs_clean s)\<rparr>
      else if (32 \<le> v \<and> v \<le> 126) \<or> 128 \<le> v
      then s0\<lparr>cs_clean := cs_clean s @ [b], cs_cont := cont_expected b\<rparr>
      else s0)"

definition escape_mode :: "byte \<Rightarrow> clean_mode" where
  "escape_mode b =
     (let v = byte_val b in
      if b = CHR ''['' then CCsi
      else if b = CHR '']'' \<or> b = CHR ''P'' \<or> b = CHR ''X'' \<or> b = CHR ''^'' \<or> b = CHR ''_''
      then CString
      else if 32 \<le> v \<and> v \<le> 47 then CEscapeIntermediate
      else if v = 27 then CEscape else CText)"

fun clean_step :: "byte option \<Rightarrow> clean_state \<Rightarrow> byte \<Rightarrow> clean_state" where
  "clean_step next s b =
     (let v = byte_val b in
      case cs_mode s of
        CText \<Rightarrow> clean_text_step next s b
      | CEscape \<Rightarrow> s\<lparr>cs_mode := escape_mode b\<rparr>
      | CEscapeIntermediate \<Rightarrow>
          s\<lparr>cs_mode := if 32 \<le> v \<and> v \<le> 47 then CEscapeIntermediate
                     else if v = 27 then CEscape else CText\<rparr>
      | CCsi \<Rightarrow>
          s\<lparr>cs_mode := if v = 27 then CEscape else if 64 \<le> v \<and> v \<le> 126 then CText else CCsi\<rparr>
      | CString \<Rightarrow>
          s\<lparr>cs_mode := if v = 7 then CText else if v = 27 then CStringEscape else CString\<rparr>
      | CStringEscape \<Rightarrow>
          s\<lparr>cs_mode := if b = CHR 0x5C then CText
                     else if v = 27 then CStringEscape else CString\<rparr>)"

declare clean_step.simps [simp del]

fun clean_run :: "clean_state \<Rightarrow> bytes \<Rightarrow> clean_state" where
  "clean_run s [] = s"
| "clean_run s (b # bs) =
     clean_run (clean_step (case bs of [] \<Rightarrow> None | c # _ \<Rightarrow> Some c) s b) bs"

definition clean_bytes :: "bytes \<Rightarrow> bytes" where
  "clean_bytes bs = cs_clean (clean_run clean_init bs)"

definition clean_terminal_text :: "bytes \<Rightarrow> ustring" where
  "clean_terminal_text bs = utf8_lossy (clean_bytes bs)"

subsection \<open>What cleaned text contains\<close>

definition text_byte :: "byte \<Rightarrow> bool" where
  "text_byte b \<longleftrightarrow> byte_val b = 9 \<or> byte_val b = 10 \<or> (32 \<le> byte_val b \<and> byte_val b \<noteq> 127)"

lemma set_erase_scalar: "set (erase_scalar bs) \<subseteq> set bs"
proof
  fix x assume "x \<in> set (erase_scalar bs)"
  then have "x \<in> set (dropWhile is_cont (rev bs))"
    unfolding erase_scalar_def by (metis in_set_butlastD set_rev)
  then show "x \<in> set bs" using set_dropWhileD by fastforce
qed

lemma clean_text_step_clean:
  assumes "\<forall>b \<in> set (cs_clean s). text_byte b"
  shows "\<forall>b \<in> set (cs_clean (clean_text_step next s c)). text_byte b"
  using assms set_erase_scalar [of "cs_clean s"]
  by (auto simp: clean_text_step_def Let_def text_byte_def is_cont_def)

lemma clean_step_text_bytes:
  assumes "\<forall>b \<in> set (cs_clean s). text_byte b"
  shows "\<forall>b \<in> set (cs_clean (clean_step next s c)). text_byte b"
  using assms clean_text_step_clean [OF assms, of "next" c]
  by (auto simp: clean_step.simps Let_def split: clean_mode.splits)

lemma clean_run_text_bytes:
  "\<forall>b \<in> set (cs_clean s). text_byte b \<Longrightarrow> \<forall>b \<in> set (cs_clean (clean_run s bs)). text_byte b"
proof (induction bs arbitrary: s)
  case (Cons c bs)
  show ?case unfolding clean_run.simps by (intro Cons.IH clean_step_text_bytes Cons.prems)
qed simp

lemma clean_bytes_text_bytes: "\<forall>b \<in> set (clean_bytes bs). text_byte b"
  unfolding clean_bytes_def by (rule clean_run_text_bytes) (simp add: clean_init_def)

subsection \<open>Plain text and complete sequences\<close>

definition plain_byte :: "byte \<Rightarrow> bool" where
  "plain_byte b \<longleftrightarrow> byte_val b = 9 \<or> byte_val b = 10 \<or> (32 \<le> byte_val b \<and> byte_val b \<le> 126)"

lemma clean_state_id [simp]:
  "cs_mode s = m \<Longrightarrow> s\<lparr>cs_mode := m\<rparr> = s"
  "cs_cont s = n \<Longrightarrow> s\<lparr>cs_cont := n\<rparr> = s"
  by (cases s; simp)+

lemma clean_state_back [simp]:
  "cs_mode s = m \<Longrightarrow> s\<lparr>cs_cont := n, cs_mode := m\<rparr> = s\<lparr>cs_cont := n\<rparr>"
  "cs_cont s = n \<Longrightarrow> s\<lparr>cs_cont := n, cs_clean := x\<rparr> = s\<lparr>cs_clean := x\<rparr>"
  by (cases s; simp)+

lemma clean_step_plain:
  assumes "cs_mode s = CText" and "plain_byte b"
  shows "clean_step next s b = s\<lparr>cs_cont := 0, cs_clean := cs_clean s @ [b]\<rparr>"
proof -
  have "\<not> is_cont b" "cont_expected b = 0"
    and "byte_val b \<noteq> 27" "byte_val b \<noteq> 13" "byte_val b \<noteq> 8" "byte_val b \<le> 126"
    and "byte_val b = 10 \<or> byte_val b = 9 \<or> 32 \<le> byte_val b"
    using assms(2) by (auto simp: plain_byte_def is_cont_def cont_expected_def Let_def)
  then show ?thesis
    using assms(1) by (simp add: clean_step.simps clean_text_step_def Let_def) auto
qed

lemma clean_run_plain:
  "cs_mode s = CText \<Longrightarrow> cs_cont s = 0 \<Longrightarrow> list_all plain_byte xs \<Longrightarrow>
     clean_run s (xs @ ys) = clean_run (s\<lparr>cs_clean := cs_clean s @ xs\<rparr>) ys"
  by (induction xs arbitrary: s) (simp_all add: clean_step_plain)

definition csi_param :: "byte \<Rightarrow> bool" where
  "csi_param b \<longleftrightarrow> byte_val b \<noteq> 27 \<and> \<not> (64 \<le> byte_val b \<and> byte_val b \<le> 126)"

lemma clean_run_csi_body:
  "cs_mode s = CCsi \<Longrightarrow> list_all csi_param ps \<Longrightarrow> 64 \<le> byte_val f \<Longrightarrow> byte_val f \<le> 126 \<Longrightarrow>
     clean_run s (ps @ f # ys) = clean_run (s\<lparr>cs_mode := CText\<rparr>) ys"
  by (induction ps arbitrary: s) (auto simp: clean_step.simps csi_param_def)

lemma clean_run_csi:
  assumes "cs_mode s = CText" "cs_cont s = 0" "list_all csi_param ps"
    and "64 \<le> byte_val f" "byte_val f \<le> 126"
  shows "clean_run s (CHR 0x1B # CHR ''['' # ps @ f # ys) = clean_run s ys"
  using assms
  by (simp add: clean_step.simps clean_text_step_def escape_mode_def is_cont_def Let_def
      clean_run_csi_body)

definition string_body :: "byte \<Rightarrow> bool" where
  "string_body b \<longleftrightarrow> byte_val b \<noteq> 27 \<and> byte_val b \<noteq> 7"

lemma clean_run_string_body:
  "cs_mode s = CString \<Longrightarrow> list_all string_body ps \<Longrightarrow> clean_run s (ps @ ys) = clean_run s ys"
  by (induction ps arbitrary: s) (auto simp: clean_step.simps string_body_def)

lemma clean_run_osc:
  assumes "cs_mode s = CText" "cs_cont s = 0" "list_all string_body ps"
  shows "clean_run s (CHR 0x1B # CHR '']'' # ps @ CHR 0x07 # ys) = clean_run s ys"
  using assms
  by (simp add: clean_step.simps clean_text_step_def escape_mode_def is_cont_def Let_def
      clean_run_string_body)


section \<open>\<open>sanitize_terminal_text\<close>\<close>

text \<open>
  The cleaner for text that is already decoded. It has no look-ahead, so it is a stream machine: a
  text sanitized in pieces is the text sanitized at once, which \<open>clean_terminal_text\<close> does not
  give for a carriage return at the end of a piece.
\<close>

record sanitize_state =
  ss_mode :: clean_mode
  ss_output :: ustring

definition sanitize_init :: sanitize_state where
  "sanitize_init = \<lparr>ss_mode = CText, ss_output = []\<rparr>"

definition sanitize_step :: "sanitize_state \<Rightarrow> scalar \<Rightarrow> sanitize_state" where
  "sanitize_step s c =
     (case ss_mode s of
        CText \<Rightarrow>
          (if c = 27 then s\<lparr>ss_mode := CEscape\<rparr>
           else if c = 13 then s\<lparr>ss_output := ss_output s @ [10]\<rparr>
           else if c = 10 \<or> c = 9 then s\<lparr>ss_output := ss_output s @ [c]\<rparr>
           else if \<not> is_control c then s\<lparr>ss_output := ss_output s @ [c]\<rparr> else s)
      | CEscape \<Rightarrow>
          s\<lparr>ss_mode := if c = 91 then CCsi
                     else if c = 93 \<or> c = 80 \<or> c = 88 \<or> c = 94 \<or> c = 95 then CString
                     else if 32 \<le> c \<and> c \<le> 47 then CEscapeIntermediate
                     else if c = 27 then CEscape else CText\<rparr>
      | CEscapeIntermediate \<Rightarrow>
          s\<lparr>ss_mode := if 32 \<le> c \<and> c \<le> 47 then CEscapeIntermediate
                     else if c = 27 then CEscape else CText\<rparr>
      | CCsi \<Rightarrow>
          s\<lparr>ss_mode := if c = 27 then CEscape else if 64 \<le> c \<and> c \<le> 126 then CText else CCsi\<rparr>
      | CString \<Rightarrow>
          s\<lparr>ss_mode := if c = 7 then CText else if c = 27 then CStringEscape else CString\<rparr>
      | CStringEscape \<Rightarrow>
          s\<lparr>ss_mode := if c = 92 then CText else if c = 27 then CStringEscape else CString\<rparr>)"

fun sanitize_run :: "sanitize_state \<Rightarrow> ustring \<Rightarrow> sanitize_state" where
  "sanitize_run s [] = s"
| "sanitize_run s (c # cs) = sanitize_run (sanitize_step s c) cs"

definition sanitize_terminal_text :: "ustring \<Rightarrow> ustring" where
  "sanitize_terminal_text input = ss_output (sanitize_run sanitize_init input)"

interpretation sanitizer: stream_machine sanitize_step sanitize_run
  by unfold_locales simp_all

definition text_scalar :: "scalar \<Rightarrow> bool" where
  "text_scalar c \<longleftrightarrow> c = 9 \<or> c = 10 \<or> \<not> is_control c"

lemma sanitize_step_text:
  "\<forall>c \<in> set (ss_output s). text_scalar c \<Longrightarrow> \<forall>c \<in> set (ss_output (sanitize_step s b)). text_scalar c"
  by (auto simp: sanitize_step_def text_scalar_def split: clean_mode.splits)

lemma sanitize_text_scalars: "\<forall>c \<in> set (sanitize_terminal_text cs). text_scalar c"
  unfolding sanitize_terminal_text_def
  by (rule sanitizer.run_invariant [where P = "\<lambda>s. \<forall>c \<in> set (ss_output s). text_scalar c"])
    (simp_all add: sanitize_step_text sanitize_init_def)

lemma sanitize_step_plain:
  "ss_mode s = CText \<Longrightarrow> text_scalar c \<Longrightarrow> sanitize_step s c = s\<lparr>ss_output := ss_output s @ [c]\<rparr>"
  by (auto simp: sanitize_step_def text_scalar_def is_control_def)

lemma sanitize_run_plain:
  "ss_mode s = CText \<Longrightarrow> list_all text_scalar cs \<Longrightarrow>
     sanitize_run s cs = s\<lparr>ss_output := ss_output s @ cs\<rparr>"
  by (induction cs arbitrary: s) (simp_all add: sanitize_step_plain)

text \<open>Sanitizing is idempotent: sanitized text has nothing left to remove.\<close>

lemma sanitize_idem: "sanitize_terminal_text (sanitize_terminal_text cs) = sanitize_terminal_text cs"
  using sanitize_text_scalars [of cs]
  by (simp add: sanitize_terminal_text_def [of "sanitize_terminal_text cs"] sanitize_run_plain
      sanitize_init_def list_all_iff)


section \<open>Well-formed UTF-8\<close>

definition valid_scalar :: "scalar \<Rightarrow> bool" where
  "valid_scalar c \<longleftrightarrow> c < 55296 \<or> (57344 \<le> c \<and> c < 1114112)"

lemma byte_val_of [simp]: "n < 256 \<Longrightarrow> byte_val (char_of n) = n"
  by simp

lemma cont_byte_of [simp]:
  assumes "r < 64"
  shows "cont_bits (char_of (128 + r)) = r"
proof -
  have "(r + 2 * 64) mod 64 = r" using assms by (simp only: mod_mult_self1 mod_less)
  then show ?thesis using assms by (simp add: cont_bits_def add.commute)
qed

lemma utf8_lossy_scalar:
  assumes "valid_scalar c"
  shows "utf8_lossy (utf8_scalar c @ bs) = c # utf8_lossy bs"
proof -
  have "c < 1114112" using assms by (auto simp: valid_scalar_def)
  then consider "c < 128" | "128 \<le> c" "c < 2048" | "2048 \<le> c" "c < 65536" | "65536 \<le> c" "c < 1114112"
    by linarith
  then show ?thesis
  proof cases
    case 1
    then show ?thesis by (simp add: utf8_scalar_def utf8_next_ascii)
  next
    case 2
    obtain q r where q: "c div 64 = q" "c mod 64 = r" by blast
    have "2 \<le> q" "q < 32" "r < 64" "q * 64 + r = c" using 2 by (auto simp: q [symmetric])
    then show ?thesis
      using 2 by (simp add: utf8_scalar_def q utf8_next_def second_range_def cont_in_def Let_def)
  next
    case 3
    obtain p q r where q: "c div 4096 = p" "c div 64 mod 64 = q" "c mod 64 = r" by blast
    have "p < 16" "q < 64" "r < 64" using 3 by (auto simp: q [symmetric])
    moreover have "p = 0 \<longrightarrow> 32 \<le> q" using 3 by (auto simp: q [symmetric])
    moreover have "p = 13 \<longrightarrow> q < 32"
    proof
      assume p: "p = 13"
      have x: "c div 64 = p * 64 + q"
        using div_mult_mod_eq [of "c div 64" 64] q by (simp add: div_mult2_eq [symmetric])
      have "c mod 4096 < 4096" by simp
      then have "c < 14 * 4096" using div_mult_mod_eq [of c 4096] p q(1) by linarith
      then have "c < 864 * 64" using assms unfolding valid_scalar_def by linarith
      then have "c div 64 < 864" by (rule less_mult_imp_div_less)
      with p x show "q < 32" by simp
    qed
    moreover have "p * 4096 + q * 64 + r = c"
      using div_mult_mod_eq [of "c div 64" 64] div_mult_mod_eq [of c 64] q
      by (simp add: div_mult2_eq [symmetric])
    ultimately show ?thesis
      using 3 by (cases "p = 0"; cases "p = 13")
        (auto simp: utf8_scalar_def q utf8_next_def second_range_def cont_in_def Let_def)
  next
    case 4
    obtain o' p q r where q: "c div 262144 = o'" "c div 4096 mod 64 = p" "c div 64 mod 64 = q"
      "c mod 64 = r" by blast
    have x: "c div 4096 = o' * 64 + p"
      using div_mult_mod_eq [of "c div 4096" 64] q by (simp add: div_mult2_eq [symmetric])
    have "o' < 5" "p < 64" "q < 64" "r < 64" using 4 by (auto simp: q [symmetric])
    moreover have "o' = 0 \<longrightarrow> 16 \<le> p" using 4 by (auto simp: q [symmetric])
    moreover have "o' = 4 \<longrightarrow> p < 16"
    proof
      assume "o' = 4"
      have "c < 272 * 4096" using 4 by simp
      then have "c div 4096 < 272" by (rule less_mult_imp_div_less)
      with x \<open>o' = 4\<close> show "p < 16" by simp
    qed
    moreover have "o' * 262144 + p * 4096 + q * 64 + r = c"
      using x div_mult_mod_eq [of "c div 64" 64] div_mult_mod_eq [of c 64] q
      by (simp add: div_mult2_eq [symmetric])
    ultimately show ?thesis
      using 4 by (cases "o' = 0"; cases "o' = 4")
        (auto simp: utf8_scalar_def q utf8_next_def second_range_def cont_in_def Let_def)
  qed
qed

lemma utf8_lossy_encode: "list_all valid_scalar s \<Longrightarrow> utf8_lossy (utf8_encode s) = s"
  by (induction s) (simp_all add: utf8_encode_def utf8_lossy_scalar)


subsection \<open>Cleaning a stream of text and control sequences\<close>

lemma clean_run_conts:
  "cs_mode s = CText \<Longrightarrow> cs_cont s = length ks \<Longrightarrow> list_all is_cont ks \<Longrightarrow>
     clean_run s (ks @ ys) = clean_run (s\<lparr>cs_clean := cs_clean s @ ks, cs_cont := 0\<rparr>) ys"
proof (induction ks arbitrary: s)
  case Nil
  then show ?case by (cases s) simp
next
  case (Cons k ks)
  have "clean_step nxt s k = s\<lparr>cs_clean := cs_clean s @ [k], cs_cont := length ks\<rparr>" for nxt
    using Cons.prems by (simp add: clean_step.simps clean_text_step_def Let_def)
  then show ?case
    using Cons.IH [of "s\<lparr>cs_clean := cs_clean s @ [k], cs_cont := length ks\<rparr>"] Cons.prems by simp
qed

lemma clean_run_multi:
  assumes "cs_mode s = CText" "cs_cont s = 0" "194 \<le> byte_val b" "byte_val b \<le> 244"
    and "list_all is_cont ks" "length ks = cont_expected b"
  shows "clean_run s (b # ks @ ys) = clean_run (s\<lparr>cs_clean := cs_clean s @ b # ks\<rparr>) ys"
proof -
  have "clean_step nxt s b = s\<lparr>cs_cont := length ks, cs_clean := cs_clean s @ [b]\<rparr>" for nxt
    using assms by (simp add: clean_step.simps clean_text_step_def Let_def)
  moreover have "s\<lparr>cs_clean := cs_clean s @ b # ks, cs_cont := 0\<rparr> = s\<lparr>cs_clean := cs_clean s @ b # ks\<rparr>"
    using assms(2) by (cases s) simp
  ultimately show ?thesis
    using assms(1,5) clean_run_conts [of "s\<lparr>cs_cont := length ks, cs_clean := cs_clean s @ [b]\<rparr>" ks ys]
    by simp
qed

text \<open>Text that is not a C0 control other than tab and line feed, and not DEL.\<close>

definition shown_scalar :: "scalar \<Rightarrow> bool" where
  "shown_scalar c \<longleftrightarrow> valid_scalar c \<and> (c = 9 \<or> c = 10 \<or> (32 \<le> c \<and> c \<noteq> 127))"

lemma clean_run_scalar:
  assumes s: "cs_mode s = CText" "cs_cont s = 0" and c: "shown_scalar c"
  shows "clean_run s (utf8_scalar c @ ys) = clean_run (s\<lparr>cs_clean := cs_clean s @ utf8_scalar c\<rparr>) ys"
proof -
  have "c < 1114112" using c by (auto simp: shown_scalar_def valid_scalar_def)
  then consider "c < 128" | "128 \<le> c" "c < 2048" | "2048 \<le> c" "c < 65536" | "65536 \<le> c" "c < 1114112"
    by linarith
  then show ?thesis
  proof cases
    case 1
    then have "list_all plain_byte [char_of c :: byte]"
      using c by (auto simp: shown_scalar_def plain_byte_def)
    from clean_run_plain [OF s this, of ys] 1 show ?thesis by (simp add: utf8_scalar_def)
  next
    case 2
    then have "2 \<le> c div 64" "c div 64 < 32" by auto
    then show ?thesis
      using 2 clean_run_multi [OF s, of "char_of (192 + c div 64)" "[char_of (128 + c mod 64)]" ys]
      by (simp add: utf8_scalar_def is_cont_def cont_expected_def)
  next
    case 3
    then have "c div 4096 < 16" "c div 64 mod 64 < 64" by auto
    then show ?thesis
      using 3 clean_run_multi [OF s, of "char_of (224 + c div 4096)"
          "[char_of (128 + c div 64 mod 64), char_of (128 + c mod 64)]" ys]
      by (simp add: utf8_scalar_def is_cont_def cont_expected_def)
  next
    case 4
    then have "c div 262144 < 5" by auto
    then show ?thesis
      using 4 clean_run_multi [OF s, of "char_of (240 + c div 262144)"
          "[char_of (128 + c div 4096 mod 64), char_of (128 + c div 64 mod 64), char_of (128 + c mod 64)]" ys]
      by (simp add: utf8_scalar_def is_cont_def cont_expected_def)
  qed
qed

lemma clean_run_text:
  "cs_mode s = CText \<Longrightarrow> cs_cont s = 0 \<Longrightarrow> list_all shown_scalar t \<Longrightarrow>
     clean_run s (utf8_encode t @ ys) = clean_run (s\<lparr>cs_clean := cs_clean s @ utf8_encode t\<rparr>) ys"
proof (induction t arbitrary: s)
  case Nil
  then show ?case by (cases s) (simp add: utf8_encode_def)
next
  case (Cons c t)
  then show ?case
    using clean_run_scalar [of s c "utf8_encode t @ ys"]
      Cons.IH [of "s\<lparr>cs_clean := cs_clean s @ utf8_scalar c\<rparr>"]
    by (simp add: utf8_encode_def)
qed

text \<open>
  The pieces of terminal output: text, a control sequence \<open>CSI ... final\<close>, a string sequence
  (\<open>OSC\<close>, \<open>DCS\<close>, \<open>SOS\<close>, \<open>PM\<close>, \<open>APC\<close>) ended by BEL or by ST, and an escape sequence with
  intermediates such as a charset selection.
\<close>

datatype piece =
    Shown ustring
  | Csi bytes byte
  | Str byte bytes bool
  | Esc bytes byte

fun piece_ok :: "piece \<Rightarrow> bool" where
  "piece_ok (Shown t) \<longleftrightarrow> list_all shown_scalar t"
| "piece_ok (Csi ps f) \<longleftrightarrow> list_all csi_param ps \<and> 64 \<le> byte_val f \<and> byte_val f \<le> 126"
| "piece_ok (Str k ps bel) \<longleftrightarrow> k \<in> set '']PX^_'' \<and> list_all string_body ps"
| "piece_ok (Esc is f) \<longleftrightarrow> is \<noteq> [] \<and> list_all (\<lambda>b. 32 \<le> byte_val b \<and> byte_val b \<le> 47) is
     \<and> \<not> (32 \<le> byte_val f \<and> byte_val f \<le> 47) \<and> byte_val f \<noteq> 27"

fun piece_bytes :: "piece \<Rightarrow> bytes" where
  "piece_bytes (Shown t) = utf8_encode t"
| "piece_bytes (Csi ps f) = CHR 0x1B # CHR ''['' # ps @ [f]"
| "piece_bytes (Str k ps bel) =
     CHR 0x1B # k # ps @ (if bel then [CHR 0x07] else [CHR 0x1B, CHR 0x5C])"
| "piece_bytes (Esc is f) = CHR 0x1B # is @ [f]"

fun piece_text :: "piece \<Rightarrow> ustring" where
  "piece_text (Shown t) = t"
| "piece_text _ = []"

lemma clean_run_string:
  assumes "cs_mode s = CText" "cs_cont s = 0" "k \<in> set '']PX^_''" "list_all string_body ps"
  shows "clean_run s (CHR 0x1B # k # ps @ (if bel then [CHR 0x07] else [CHR 0x1B, CHR 0x5C]) @ ys)
    = clean_run s ys"
  using assms
  by (auto simp: clean_step.simps clean_text_step_def escape_mode_def is_cont_def Let_def
      clean_run_string_body)

lemma clean_run_esc_body:
  "cs_mode s = CEscapeIntermediate \<Longrightarrow> list_all (\<lambda>b. 32 \<le> byte_val b \<and> byte_val b \<le> 47) is \<Longrightarrow>
     \<not> (32 \<le> byte_val f \<and> byte_val f \<le> 47) \<Longrightarrow> byte_val f \<noteq> 27 \<Longrightarrow>
     clean_run s (is @ f # ys) = clean_run (s\<lparr>cs_mode := CText\<rparr>) ys"
  by (induction "is" arbitrary: s) (auto simp: clean_step.simps)

lemma clean_run_esc:
  assumes "cs_mode s = CText" "cs_cont s = 0" "piece_ok (Esc is f)"
  shows "clean_run s (CHR 0x1B # is @ f # ys) = clean_run s ys"
proof (cases "is")
  case (Cons i is')
  then have i: "32 \<le> byte_val i" "byte_val i \<le> 47" using assms(3) by auto
  then have "escape_mode i = CEscapeIntermediate"
    by (auto simp: escape_mode_def Let_def)
  then show ?thesis
    using assms Cons clean_run_esc_body [of "s\<lparr>cs_mode := CEscapeIntermediate\<rparr>" is' f ys]
    by (simp add: clean_step.simps clean_text_step_def is_cont_def Let_def)
qed (use assms in simp)

lemma clean_run_piece:
  assumes "cs_mode s = CText" "cs_cont s = 0" "piece_ok p"
  shows "clean_run s (piece_bytes p @ ys)
    = clean_run (s\<lparr>cs_clean := cs_clean s @ utf8_encode (piece_text p)\<rparr>) ys"
proof (cases p)
  case (Shown t)
  with assms show ?thesis by (simp add: clean_run_text)
next
  case (Csi ps f)
  with assms clean_run_csi [of s ps f ys] show ?thesis
    by (cases s) (simp add: utf8_encode_def)
next
  case (Str k ps bel)
  with assms clean_run_string [of s k ps bel ys] show ?thesis
    by (cases s) (simp add: utf8_encode_def)
next
  case (Esc i f)
  with assms clean_run_esc [of s i f ys] show ?thesis
    by (cases s) (simp add: utf8_encode_def)
qed

lemma clean_run_pieces:
  "cs_mode s = CText \<Longrightarrow> cs_cont s = 0 \<Longrightarrow> list_all piece_ok ps \<Longrightarrow>
     cs_clean (clean_run s (concat (map piece_bytes ps)))
       = cs_clean s @ utf8_encode (concat (map piece_text ps))"
proof (induction ps arbitrary: s)
  case Nil
  then show ?case by (simp add: utf8_encode_def)
next
  case (Cons p ps)
  then show ?case by (simp add: clean_run_piece) (simp add: utf8_encode_def)
qed

lemma piece_text_valid: "piece_ok p \<Longrightarrow> list_all valid_scalar (piece_text p)"
  by (cases p) (auto simp: shown_scalar_def list_all_iff)

section \<open>Properties\<close>

text \<open>
  Cleaning terminal output keeps the text and removes the control sequences: for a stream of
  any UTF-8 text (the characters whose encoding contains a C1 byte included), CSI sequences,
  BEL- or ST-terminated strings and escape sequences with intermediates, in any order,
  \<open>clean_terminal_text\<close> is exactly the concatenation of the texts.
\<close>

theorem clean_terminal_text_pieces:
  assumes "list_all piece_ok ps"
  shows "clean_terminal_text (concat (map piece_bytes ps)) = concat (map piece_text ps)"
proof -
  have "list_all valid_scalar (concat (map piece_text ps))"
    using assms piece_text_valid by (fastforce simp: list_all_iff)
  moreover have "clean_bytes (concat (map piece_bytes ps)) = utf8_encode (concat (map piece_text ps))"
    using assms by (simp add: clean_bytes_def clean_run_pieces clean_init_def)
  ultimately show ?thesis by (simp add: clean_terminal_text_def utf8_lossy_encode)
qed

text \<open>A prompt character, a colour, a title ended by ST, a charset selection and a word.\<close>

lemma clean_terminal_text_pieces_witness:
  "clean_terminal_text (concat (map piece_bytes
     [Shown [10095, 32], Csi ''1;31'' CHR ''m'', Str CHR '']'' ''0;t'' False, Esc ''('' CHR ''B'',
      Shown [108, 115]])) = [10095, 32, 108, 115]"
  by (subst clean_terminal_text_pieces)
    (simp_all add: shown_scalar_def valid_scalar_def csi_param_def string_body_def)

text \<open>
  Whatever bytes a program writes, \<open>sanitize_terminal_text\<close> returns text without any control
  character except tab and line feed, and sanitizing it again, or after it was cut into pieces
  and the pieces were sanitized in sequence by one machine, changes nothing.
\<close>

theorem sanitize_removes_controls:
  "(\<forall>c \<in> set (sanitize_terminal_text input). is_control c \<longrightarrow> c = 9 \<or> c = 10)
   \<and> sanitize_terminal_text (sanitize_terminal_text input) = sanitize_terminal_text input
   \<and> (concat chunks = input \<longrightarrow>
        sanitize_terminal_text input = ss_output (foldl sanitize_run sanitize_init chunks))"
  using sanitize_text_scalars [of input] sanitize_idem [of input]
    sanitizer.run_concat [of sanitize_init chunks]
  by (auto simp: text_scalar_def sanitize_terminal_text_def)

lemma sanitize_removes_controls_witness:
  "sanitize_terminal_text [27, 91, 109, 97, 7]
     = ss_output (foldl sanitize_run sanitize_init [[27, 91], [109, 97, 7]])"
  using sanitize_removes_controls [of "[27, 91, 109, 97, 7]" "[[27, 91], [109, 97, 7]]"]
  unfolding concat.simps append.simps by blast

text \<open>
  Truncation to a byte budget never cuts a character: the result is a prefix that fits, it is
  the longest prefix of whole characters that fits, and the flag says exactly whether anything
  was cut.
\<close>

theorem truncate_utf8_greatest:
  "utf8_len (truncate_utf8 s n) \<le> n
   \<and> (\<exists>t. s = truncate_utf8 s n @ t)
   \<and> (\<forall>p t. s = p @ t \<and> utf8_len p \<le> n \<longrightarrow> utf8_len p \<le> utf8_len (truncate_utf8 s n))
   \<and> (snd (truncate_utf8_with_flag s n) \<longleftrightarrow> truncate_utf8 s n \<noteq> s)"
proof (intro conjI)
  show "snd (truncate_utf8_with_flag s n) \<longleftrightarrow> truncate_utf8 s n \<noteq> s"
    using truncate_utf8_fits [of s n] by (auto simp: truncate_utf8_def truncate_utf8_with_flag_def)
qed (use truncate_utf8_fits truncate_utf8_prefix truncate_utf8_longest in blast)+

lemma truncate_utf8_greatest_witness:
  "truncate_utf8 [97, 10095, 98] 3 = [97] \<and> utf8_len (truncate_utf8 [97, 10095, 98] 3) \<le> 3
   \<and> utf8_len [97] \<le> utf8_len (truncate_utf8 [97, 10095, 98] 3)"
proof -
  have "truncate_utf8 [97, 10095, 98] 3 = [97]"
    by (simp add: truncate_utf8_def truncate_utf8_with_flag_def scalar_width_def numeral_3_eq_3)
  moreover have "[97, 10095, 98] = [97] @ [10095, 98] \<and> utf8_len [97] \<le> 3"
    by (simp add: scalar_width_def)
  ultimately show ?thesis
    using truncate_utf8_greatest [of "[97, 10095, 98]" 3] by blast
qed

end
