(* ===== verification/DeltaRing.thy ===== *)
theory DeltaRing
  imports TextClean
begin

text \<open>
  The delta ring of \<open>src/src/terminal_state.rs\<close>: \<open>SequencedOutput\<close> and \<open>DeltaBuffer\<close>. The ring
  retains the most recent bytes a terminal published, in chunks that carry the sequence number of
  their first byte, and charges a fixed overhead per chunk against its budget.

  Its contract is stated against the whole stream of bytes published so far, which the code never
  keeps: \<open>ring_holds d s\<close> says that the ring is a suffix of the stream \<open>s\<close>. The locale
  \<open>replay_ring\<close> is the interface the terminal's output state relies on; the ring provides it.
  Sequence numbers are byte counts of one session's output, far below \<open>2^64\<close>, and modelled as
  \<^typ>\<open>nat\<close>.
\<close>

section \<open>Sequenced output\<close>

record sequenced_output =
  out_seq :: nat
  out_bytes :: bytes

definition end_sequence :: "sequenced_output \<Rightarrow> nat" where
  "end_sequence c = out_seq c + length (out_bytes c)"

definition slice_from :: "sequenced_output \<Rightarrow> nat \<Rightarrow> sequenced_output option" where
  "slice_from c sequence =
     (if end_sequence c \<le> sequence then None
      else (let offset = sequence - out_seq c in
            Some \<lparr>out_seq = out_seq c + offset, out_bytes = drop offset (out_bytes c)\<rparr>))"

definition replayed :: "sequenced_output list \<Rightarrow> bytes" where
  "replayed cs = concat (map out_bytes cs)"

lemma replayed_simps [simp]:
  "replayed [] = []" "replayed (c # cs) = out_bytes c @ replayed cs"
  "replayed (cs @ ds) = replayed cs @ replayed ds"
  by (simp_all add: replayed_def)

text \<open>\<open>linked a cs b\<close>: non-empty chunks that follow each other from sequence \<open>a\<close> to \<open>b\<close>.\<close>

fun linked :: "nat \<Rightarrow> sequenced_output list \<Rightarrow> nat \<Rightarrow> bool" where
  "linked a [] b \<longleftrightarrow> a = b"
| "linked a (c # cs) b \<longleftrightarrow> out_seq c = a \<and> out_bytes c \<noteq> [] \<and> linked (end_sequence c) cs b"

lemma linked_append: "linked a (cs @ ds) b \<longleftrightarrow> (\<exists>m. linked a cs m \<and> linked m ds b)"
  by (induction cs arbitrary: a) auto

lemma linked_length: "linked a cs b \<Longrightarrow> b = a + length (replayed cs)"
proof (induction cs arbitrary: a)
  case (Cons c cs)
  then have "b = end_sequence c + length (replayed cs)" by auto
  with Cons.prems show ?case by (simp add: end_sequence_def)
qed simp

lemma linked_ends: "linked a cs b \<Longrightarrow> c \<in> set cs \<Longrightarrow> a < end_sequence c \<and> end_sequence c \<le> b"
proof (induction cs arbitrary: a)
  case (Cons d cs)
  have "end_sequence d \<le> b"
    using linked_length [of "end_sequence d" cs b] Cons.prems(1) by simp
  moreover have "a < end_sequence d"
    using Cons.prems(1) by (cases "out_bytes d") (auto simp: end_sequence_def)
  ultimately show ?case
    using Cons by (cases "c = d") (force dest: Cons.IH)+
qed simp

section \<open>The ring\<close>

definition DELTA_CHUNK_OVERHEAD_BYTES :: nat where
  "DELTA_CHUNK_OVERHEAD_BYTES = 64"

record delta_buffer =
  db_chunks :: "sequenced_output list"
  db_bytes :: nat
  db_max :: nat

definition delta_new :: "nat \<Rightarrow> delta_buffer" where
  "delta_new maximum_bytes = \<lparr>db_chunks = [], db_bytes = 0, db_max = maximum_bytes\<rparr>"

definition charged_bytes :: "delta_buffer \<Rightarrow> nat" where
  "charged_bytes d = sat_add (db_bytes d) (length (db_chunks d) * DELTA_CHUNK_OVERHEAD_BYTES)"

text \<open>The eviction loop of \<open>push\<close>: whole chunks go first, the front chunk is then trimmed.\<close>

function delta_trim :: "delta_buffer \<Rightarrow> delta_buffer" where
  "delta_trim d =
     (if db_max d < charged_bytes d then
        (let excess = charged_bytes d - db_max d in
         case db_chunks d of
           [] \<Rightarrow> d
         | front # rest \<Rightarrow>
             (if length (out_bytes front) \<le> excess
              then delta_trim (d\<lparr>db_bytes := db_bytes d - length (out_bytes front), db_chunks := rest\<rparr>)
              else delta_trim (d\<lparr>
                     db_chunks := front\<lparr>out_seq := out_seq front + excess,
                                        out_bytes := drop excess (out_bytes front)\<rparr> # rest,
                     db_bytes := db_bytes d - excess\<rparr>)))
      else d)"
  by pat_completeness auto
termination
  by (relation "measure (\<lambda>d. length (db_chunks d) + length (replayed (db_chunks d)))") auto

declare delta_trim.simps [simp del]

definition delta_push :: "delta_buffer \<Rightarrow> sequenced_output \<Rightarrow> delta_buffer" where
  "delta_push d chunk =
     (if out_bytes chunk = [] then d
      else (let offset = length (out_bytes chunk) - db_max d;
                chunk' = (if db_max d < length (out_bytes chunk)
                          then \<lparr>out_seq = out_seq chunk + offset,
                                out_bytes = drop offset (out_bytes chunk)\<rparr>
                          else chunk)
            in delta_trim (d\<lparr>db_bytes := db_bytes d + length (out_bytes chunk'),
                             db_chunks := db_chunks d @ [chunk']\<rparr>)))"

definition earliest_sequence :: "delta_buffer \<Rightarrow> nat \<Rightarrow> nat" where
  "earliest_sequence d current = (case db_chunks d of [] \<Rightarrow> current | c # _ \<Rightarrow> out_seq c)"

definition can_replay_from :: "delta_buffer \<Rightarrow> nat \<Rightarrow> nat \<Rightarrow> bool" where
  "can_replay_from d sequence current \<longleftrightarrow>
     sequence \<le> current \<and> earliest_sequence d current \<le> sequence"

text \<open>
  \<open>partition_point\<close> returns the length of the prefix that satisfies the predicate; it is specified
  only where the predicate holds for a prefix and for nothing after it.
\<close>

definition partition_point :: "('a \<Rightarrow> bool) \<Rightarrow> 'a list \<Rightarrow> nat" where
  "partition_point P xs = length (takeWhile P xs)"

definition first_chunk_index :: "delta_buffer \<Rightarrow> nat \<Rightarrow> nat" where
  "first_chunk_index d sequence = partition_point (\<lambda>c. end_sequence c \<le> sequence) (db_chunks d)"

definition outputs_since :: "delta_buffer \<Rightarrow> nat \<Rightarrow> nat \<Rightarrow> sequenced_output list option" where
  "outputs_since d sequence current =
     (if \<not> can_replay_from d sequence current then None
      else Some (List.map_filter (\<lambda>c. slice_from c sequence)
                   (drop (first_chunk_index d sequence) (db_chunks d))))"

fun page_loop :: "nat \<Rightarrow> nat \<Rightarrow> bytes \<Rightarrow> sequenced_output list \<Rightarrow> nat \<times> bytes" where
  "page_loop maximum e bs [] = (e, bs)"
| "page_loop maximum e bs (c # cs) =
     (if bs \<noteq> [] \<and> maximum < sat_add (length bs) (length (out_bytes c)) then (e, bs)
      else page_loop maximum (end_sequence c) (bs @ out_bytes c) cs)"

definition page_from :: "delta_buffer \<Rightarrow> nat \<Rightarrow> nat \<Rightarrow> nat \<Rightarrow> nat \<times> bytes" where
  "page_from d sequence latest maximum =
     (case outputs_since d sequence latest of
        None \<Rightarrow> (sequence, [])
      | Some output \<Rightarrow> page_loop maximum sequence [] output)"

definition text_from :: "delta_buffer \<Rightarrow> nat \<Rightarrow> nat \<Rightarrow> ustring" where
  "text_from d sequence latest =
     sanitize_terminal_text (utf8_lossy (snd (page_from d sequence latest u64_max)))"

section \<open>The ring is a suffix of the stream\<close>

definition ring_holds :: "delta_buffer \<Rightarrow> bytes \<Rightarrow> bool" where
  "ring_holds d s \<longleftrightarrow>
     (let a = earliest_sequence d (length s) in
      a \<le> length s \<and> linked a (db_chunks d) (length s) \<and> replayed (db_chunks d) = drop a s
        \<and> db_bytes d = length (replayed (db_chunks d)))"

lemma ring_holds_new: "ring_holds (delta_new n) []"
  by (simp add: ring_holds_def delta_new_def earliest_sequence_def)

lemma trim_step_holds:
  assumes "ring_holds d s" and c: "db_chunks d = f # rest"
  shows "ring_holds (if length (out_bytes f) \<le> x
          then d\<lparr>db_bytes := db_bytes d - length (out_bytes f), db_chunks := rest\<rparr>
          else d\<lparr>db_chunks := f\<lparr>out_seq := out_seq f + x, out_bytes := drop x (out_bytes f)\<rparr> # rest,
                 db_bytes := db_bytes d - x\<rparr>) s"
proof -
  from assms have seq: "out_seq f \<le> length s" and f: "out_bytes f \<noteq> []"
    and l: "linked (end_sequence f) rest (length s)"
    and r: "out_bytes f @ replayed rest = drop (out_seq f) s"
    and b: "db_bytes d = length (out_bytes f) + length (replayed rest)"
    by (auto simp: ring_holds_def earliest_sequence_def Let_def)
  have rest: "replayed rest = drop (end_sequence f) s"
    using r by (metis append_eq_conv_conj add.commute drop_drop end_sequence_def)
  have len: "length s = end_sequence f + length (replayed rest)"
    using linked_length [OF l] .
  then have le: "end_sequence f \<le> length s" by simp
  show ?thesis
  proof (cases "length (out_bytes f) \<le> x")
    case True
    then show ?thesis
      using l rest le b
      by (cases rest) (simp_all add: ring_holds_def earliest_sequence_def Let_def)
  next
    case False
    have "drop x (out_bytes f) @ replayed rest = drop (out_seq f + x) s"
      using r False by (metis drop_append drop_drop add.commute diff_is_0_eq' drop0 nat_le_linear)
    then show ?thesis
      using l len b False by (auto simp: ring_holds_def earliest_sequence_def end_sequence_def Let_def)
  qed
qed

lemma ring_holds_trim: "ring_holds d s \<Longrightarrow> ring_holds (delta_trim d) s"
proof (induction d rule: delta_trim.induct)
  case (1 d)
  show ?case
  proof (cases "db_max d < charged_bytes d \<and> db_chunks d \<noteq> []")
    case False
    then have "delta_trim d = d" by (subst delta_trim.simps) (auto split: list.split)
    with "1.prems" show ?thesis by simp
  next
    case True
    then obtain f rest where c: "db_chunks d = f # rest" by (cases "db_chunks d") auto
    show ?thesis
      using "1.IH" True c trim_step_holds [OF "1.prems" c, of "charged_bytes d - db_max d"]
      by (subst delta_trim.simps) (simp split: if_splits)
  qed
qed

text \<open>Trimming ends within the budget.\<close>

lemma delta_trim_charged: "ring_holds d s \<Longrightarrow> charged_bytes (delta_trim d) \<le> db_max d"
proof (induction d rule: delta_trim.induct)
  case (1 d)
  show ?case
  proof (cases "db_max d < charged_bytes d")
    case False
    then show ?thesis by (subst delta_trim.simps) simp
  next
    case over: True
    show ?thesis
    proof (cases "db_chunks d")
      case Nil
      with "1.prems" over show ?thesis
        by (simp add: ring_holds_def earliest_sequence_def charged_bytes_def sat_add_def)
    next
      case (Cons f rest)
      let ?x = "charged_bytes d - db_max d"
      have step: "ring_holds (if length (out_bytes f) \<le> ?x
          then d\<lparr>db_bytes := db_bytes d - length (out_bytes f), db_chunks := rest\<rparr>
          else d\<lparr>db_chunks := f\<lparr>out_seq := out_seq f + ?x, out_bytes := drop ?x (out_bytes f)\<rparr> # rest,
                 db_bytes := db_bytes d - ?x\<rparr>) s"
        using trim_step_holds [OF "1.prems" Cons] .
      show ?thesis
        using "1.IH" over Cons step by (subst delta_trim.simps) (simp split: if_splits)
    qed
  qed
qed

lemma delta_trim_max [simp]: "db_max (delta_trim d) = db_max d"
proof (induction d rule: delta_trim.induct)
  case (1 d)
  then show ?case by (subst delta_trim.simps) (simp add: Let_def split: list.split)
qed

text \<open>
  A chunk larger than the whole budget replaces everything: the old chunks are popped one by one,
  although in between the ring is not contiguous.
\<close>

lemma delta_trim_drops_old:
  assumes "length (out_bytes c) = db_max d" "db_chunks d = old @ [c]"
    and "db_bytes d = length (replayed old) + db_max d"
    and "length (replayed old) + db_max d \<le> u64_max" "db_max d < u64_max"
  shows "delta_trim d = delta_trim (d\<lparr>db_chunks := [c], db_bytes := db_max d\<rparr>)"
  using assms
proof (induction old arbitrary: d)
  case Nil
  then have "d = d\<lparr>db_chunks := [c], db_bytes := db_max d\<rparr>" by (cases d) simp
  then show ?case by simp
next
  case (Cons f old)
  let ?pop = "d\<lparr>db_bytes := db_bytes d - length (out_bytes f), db_chunks := old @ [c]\<rparr>"
  have x: "db_max d < charged_bytes d" "length (out_bytes f) \<le> charged_bytes d - db_max d"
    using Cons.prems by (auto simp: charged_bytes_def sat_add_def DELTA_CHUNK_OVERHEAD_BYTES_def)
  have "delta_trim d = delta_trim ?pop"
    using x Cons.prems(2) by (subst delta_trim.simps) simp
  also have "\<dots> = delta_trim (?pop\<lparr>db_chunks := [c], db_bytes := db_max ?pop\<rparr>)"
    by (rule Cons.IH) (use Cons.prems in auto)
  finally show ?case by simp
qed

definition ring_ok :: "delta_buffer \<Rightarrow> bytes \<Rightarrow> bool" where
  "ring_ok d s \<longleftrightarrow> ring_holds d s \<and> charged_bytes d \<le> db_max d \<and> 2 * db_max d \<le> u64_max"

lemma ring_ok_new: "2 * n \<le> u64_max \<Longrightarrow> ring_ok (delta_new n) []"
  by (simp add: ring_ok_def ring_holds_new)
    (simp add: delta_new_def charged_bytes_def sat_add_def)

lemma half_u64: "2 * n \<le> u64_max \<Longrightarrow> n < u64_max"
  using u64_max_pos by linarith

lemma ring_ok_bytes: "ring_ok d s \<Longrightarrow> db_bytes d \<le> db_max d"
  using half_u64 [of "db_max d"]
  by (auto simp: ring_ok_def charged_bytes_def sat_add_def min_def split: if_splits)

lemma ring_holds_append:
  assumes "ring_holds d s" "out_seq c = length s" "out_bytes c \<noteq> []"
  shows "ring_holds (d\<lparr>db_bytes := db_bytes d + length (out_bytes c), db_chunks := db_chunks d @ [c]\<rparr>)
           (s @ out_bytes c)"
proof -
  have e: "earliest_sequence (d\<lparr>db_bytes := db_bytes d + length (out_bytes c),
      db_chunks := db_chunks d @ [c]\<rparr>) (length (s @ out_bytes c)) = earliest_sequence d (length s)"
    using assms(2) by (simp add: earliest_sequence_def split: list.split)
  show ?thesis
    using assms unfolding ring_holds_def e
    by (auto simp: Let_def linked_append end_sequence_def)
qed

lemma ring_ok_push:
  assumes ok: "ring_ok d s" and seq: "out_seq c = length s"
  shows "ring_ok (delta_push d c) (s @ out_bytes c)"
proof (cases "out_bytes c = []")
  case True
  with ok show ?thesis by (simp add: delta_push_def)
next
  case ne: False
  have holds: "ring_holds d s" and max: "2 * db_max d \<le> u64_max"
    using ok by (simp_all add: ring_ok_def)
  show ?thesis
  proof (cases "db_max d < length (out_bytes c)")
    case False
    let ?d = "d\<lparr>db_bytes := db_bytes d + length (out_bytes c), db_chunks := db_chunks d @ [c]\<rparr>"
    have h: "ring_holds ?d (s @ out_bytes c)" by (rule ring_holds_append [OF holds seq ne])
    have "delta_push d c = delta_trim ?d" using False ne by (simp add: delta_push_def)
    then show ?thesis
      using ring_holds_trim [OF h] delta_trim_charged [OF h] max by (simp add: ring_ok_def)
  next
    case True
    let ?o = "length (out_bytes c) - db_max d"
    let ?c = "\<lparr>out_seq = out_seq c + ?o, out_bytes = drop ?o (out_bytes c)\<rparr>"
    let ?d = "d\<lparr>db_bytes := db_bytes d + db_max d, db_chunks := db_chunks d @ [?c]\<rparr>"
    let ?e = "d\<lparr>db_chunks := [?c], db_bytes := db_max d\<rparr>"
    have len: "length (out_bytes ?c) = db_max d" using True by simp
    have bytes: "db_bytes d = length (replayed (db_chunks d))"
      using holds by (simp add: ring_holds_def Let_def)
    have "delta_push d c = delta_trim ?d" using True ne by (simp add: delta_push_def Let_def)
    also have "\<dots> = delta_trim (?d\<lparr>db_chunks := [?c], db_bytes := db_max ?d\<rparr>)"
      by (rule delta_trim_drops_old) (use len bytes max ring_ok_bytes [OF ok] half_u64 [OF max] in auto)
    finally have push: "delta_push d c = delta_trim ?e" by simp
    show ?thesis
    proof (cases "db_max d = 0")
      case True
      have "delta_trim ?e = d\<lparr>db_chunks := [], db_bytes := 0\<rparr>"
        using True by (subst delta_trim.simps, subst delta_trim.simps)
          (simp add: charged_bytes_def sat_add_def DELTA_CHUNK_OVERHEAD_BYTES_def u64_max_def)
      with True push show ?thesis
        using max by (simp add: ring_ok_def ring_holds_def earliest_sequence_def charged_bytes_def
            sat_add_def)
    next
      case False
      have h: "ring_holds ?e (s @ out_bytes c)"
        using False True seq
        by (simp add: ring_holds_def earliest_sequence_def end_sequence_def Let_def)
      then show ?thesis
        using push ring_holds_trim [OF h] delta_trim_charged [OF h] max by (simp add: ring_ok_def)
    qed
  qed
qed


section \<open>Replaying\<close>

lemma partition_point_drop: "drop (partition_point P xs) xs = dropWhile P xs"
  by (simp add: partition_point_def dropWhile_eq_drop)

text \<open>Slicing every chunk that ends after a sequence inside the ring gives the stream from there.\<close>

lemma slices_replay:
  "linked a cs b \<Longrightarrow> a \<le> q \<Longrightarrow> q \<le> b \<Longrightarrow>
     replayed (List.map_filter (\<lambda>c. slice_from c q) (dropWhile (\<lambda>c. end_sequence c \<le> q) cs))
       = drop (q - a) (replayed cs) \<and>
     linked q (List.map_filter (\<lambda>c. slice_from c q) (dropWhile (\<lambda>c. end_sequence c \<le> q) cs)) b"
proof (induction cs arbitrary: a)
  case Nil
  then show ?case by (simp add: List.map_filter_def)
next
  case (Cons c cs)
  from Cons.prems(1) have a: "out_seq c = a" and l: "linked (end_sequence c) cs b" by auto
  show ?case
  proof (cases "end_sequence c \<le> q")
    case True
    moreover have "drop (q - a) (out_bytes c) = []" "q - a - length (out_bytes c) = q - end_sequence c"
      using True a by (auto simp: end_sequence_def)
    ultimately show ?thesis using Cons.IH [OF l True Cons.prems(3)] by simp
  next
    case False
    have later: "List.map_filter (\<lambda>c. slice_from c q) cs = cs"
      using l False
    proof (induction cs arbitrary: c)
      case Nil
      then show ?case by (simp add: List.map_filter_def)
    next
      case (Cons d cs)
      have "end_sequence c < end_sequence d"
        using linked_ends [OF Cons.prems(1), of d] by simp
      moreover have "out_seq d = end_sequence c" using Cons.prems(1) by simp
      ultimately have "slice_from d q = Some d"
        using Cons.prems(2) by (simp add: slice_from_def Let_def)
      moreover have "List.map_filter (\<lambda>c. slice_from c q) cs = cs"
        using Cons.prems \<open>end_sequence c < end_sequence d\<close> by (intro Cons.IH [of d]) auto
      ultimately show ?case by (simp add: List.map_filter_simps)
    qed
    let ?c = "\<lparr>out_seq = out_seq c + (q - out_seq c), out_bytes = drop (q - out_seq c) (out_bytes c)\<rparr>"
    have s: "slice_from c q = Some ?c" using False by (simp add: slice_from_def Let_def)
    have ne: "q - a < length (out_bytes c)" using False a Cons.prems(2) by (simp add: end_sequence_def)
    have e: "end_sequence ?c = end_sequence c"
      using ne a by (simp add: end_sequence_def)
    show ?thesis
      using False s later l ne a Cons.prems(2) e
      by (simp add: List.map_filter_simps)
  qed
qed

theorem outputs_since_replay:
  assumes "ring_holds d s" and "outputs_since d q (length s) = Some outs"
  shows "replayed outs = drop q s \<and> linked q outs (length s)"
proof -
  let ?a = "earliest_sequence d (length s)"
  from assms have q: "?a \<le> q" "q \<le> length s"
    and outs: "outs = List.map_filter (\<lambda>c. slice_from c q) (dropWhile (\<lambda>c. end_sequence c \<le> q) (db_chunks d))"
    by (auto simp: outputs_since_def can_replay_from_def first_chunk_index_def partition_point_drop
        split: if_splits)
  from assms(1) have l: "linked ?a (db_chunks d) (length s)" and r: "replayed (db_chunks d) = drop ?a s"
    by (auto simp: ring_holds_def Let_def)
  from slices_replay [OF l q] r q show ?thesis by (simp add: outs)
qed

lemma outputs_since_total:
  "can_replay_from d q n \<longleftrightarrow> (\<exists>outs. outputs_since d q n = Some outs)"
  by (auto simp: outputs_since_def)

text \<open>The predicate given to \<open>partition_point\<close> is partitioned, as its specification demands.\<close>

lemma first_chunk_partitioned:
  "linked a cs b \<Longrightarrow> c \<in> set (dropWhile (\<lambda>c. end_sequence c \<le> q) cs) \<Longrightarrow> q < end_sequence c"
proof (induction cs arbitrary: a)
  case (Cons d cs)
  show ?case
  proof (cases "end_sequence d \<le> q")
    case True
    with Cons show ?thesis by auto
  next
    case False
    have "c = d \<or> end_sequence d < end_sequence c"
      using Cons.prems False linked_ends [of "end_sequence d" cs b c] by auto
    with False show ?thesis by auto
  qed
qed simp

section \<open>Chunk ends\<close>

text \<open>
  A sequence at which one published chunk ended and the next began stays such a sequence for as
  long as the ring reaches back to it.
\<close>

definition chunk_ends :: "sequenced_output list \<Rightarrow> nat set" where
  "chunk_ends cs = end_sequence ` set cs"

lemma chunk_ends_simps [simp]:
  "chunk_ends [] = {}" "chunk_ends (c # cs) = insert (end_sequence c) (chunk_ends cs)"
  "chunk_ends (cs @ ds) = chunk_ends cs \<union> chunk_ends ds"
  by (auto simp: chunk_ends_def)

definition ring_cut :: "delta_buffer \<Rightarrow> nat \<Rightarrow> nat \<Rightarrow> bool" where
  "ring_cut d n q \<longleftrightarrow> q \<le> earliest_sequence d n \<or> q \<in> chunk_ends (db_chunks d)"

lemma linked_last: "linked a cs b \<Longrightarrow> b = a \<or> b \<in> chunk_ends cs"
  by (induction cs arbitrary: a) auto

lemma ring_cut_latest: "ring_ok d s \<Longrightarrow> ring_cut d (length s) (length s)"
  using linked_last by (fastforce simp: ring_ok_def ring_holds_def ring_cut_def Let_def)

lemma trim_step_cut:
  assumes h: "ring_holds d s" and c: "db_chunks d = f # rest" and cut: "ring_cut d (length s) q"
  shows "ring_cut (if length (out_bytes f) \<le> x
          then d\<lparr>db_bytes := db_bytes d - length (out_bytes f), db_chunks := rest\<rparr>
          else d\<lparr>db_chunks := f\<lparr>out_seq := out_seq f + x, out_bytes := drop x (out_bytes f)\<rparr> # rest,
                 db_bytes := db_bytes d - x\<rparr>) (length s) q"
proof -
  have l: "linked (end_sequence f) rest (length s)"
    using h c by (simp add: ring_holds_def earliest_sequence_def Let_def)
  then have first: "(case rest of [] \<Rightarrow> length s | g # _ \<Rightarrow> out_seq g) = end_sequence f"
    by (cases rest) auto
  have "out_seq f \<le> end_sequence f" by (simp add: end_sequence_def)
  then show ?thesis
    using cut c first by (auto simp: ring_cut_def earliest_sequence_def end_sequence_def)
qed

lemma ring_cut_trim:
  "ring_holds d s \<Longrightarrow> ring_cut d (length s) q \<Longrightarrow> ring_cut (delta_trim d) (length s) q"
proof (induction d rule: delta_trim.induct)
  case (1 d)
  show ?case
  proof (cases "db_max d < charged_bytes d \<and> db_chunks d \<noteq> []")
    case False
    then have "delta_trim d = d" by (subst delta_trim.simps) (auto split: list.split)
    with "1.prems" show ?thesis by simp
  next
    case True
    then obtain f rest where c: "db_chunks d = f # rest" by (cases "db_chunks d") auto
    let ?x = "charged_bytes d - db_max d"
    show ?thesis
      using "1.IH" True c trim_step_holds [OF "1.prems"(1) c, of ?x]
        trim_step_cut [OF "1.prems"(1) c "1.prems"(2), of ?x]
      by (subst delta_trim.simps) (simp split: if_splits)
  qed
qed

lemma ring_cut_push:
  assumes ok: "ring_ok d s" and seq: "out_seq c = length s" and cut: "ring_cut d (length s) q"
  shows "ring_cut (delta_push d c) (length (s @ out_bytes c)) q"
proof (cases "out_bytes c = []")
  case True
  with cut show ?thesis by (simp add: delta_push_def)
next
  case ne: False
  have h: "ring_holds d s" and max: "2 * db_max d \<le> u64_max"
    using ok by (simp_all add: ring_ok_def)
  have le: "q \<le> length s"
    using cut linked_ends [of "earliest_sequence d (length s)" "db_chunks d" "length s"] h
    by (auto simp: ring_cut_def ring_holds_def Let_def chunk_ends_def)
  show ?thesis
  proof (cases "db_max d < length (out_bytes c)")
    case False
    let ?d = "d\<lparr>db_bytes := db_bytes d + length (out_bytes c), db_chunks := db_chunks d @ [c]\<rparr>"
    have "ring_cut ?d (length (s @ out_bytes c)) q"
      using cut seq by (auto simp: ring_cut_def earliest_sequence_def split: list.splits)
    then show ?thesis
      using False ne ring_cut_trim [OF ring_holds_append [OF h seq ne]] by (simp add: delta_push_def)
  next
    case True
    have "ring_ok (delta_push d c) (s @ out_bytes c)" by (rule ring_ok_push [OF ok seq])
    then have "ring_holds (delta_push d c) (s @ out_bytes c)"
      and "charged_bytes (delta_push d c) \<le> db_max (delta_push d c)" by (auto simp: ring_ok_def)
    moreover have "db_max (delta_push d c) = db_max d"
      using ne by (simp add: delta_push_def Let_def)
    moreover have "db_bytes (delta_push d c) \<le> db_max (delta_push d c)"
      by (rule ring_ok_bytes [OF \<open>ring_ok (delta_push d c) (s @ out_bytes c)\<close>])
    ultimately have "length s + length (out_bytes c)
        - earliest_sequence (delta_push d c) (length s + length (out_bytes c)) \<le> db_max d"
      by (simp add: ring_holds_def Let_def)
    with True le have "q \<le> earliest_sequence (delta_push d c) (length s + length (out_bytes c))"
      by linarith
    then show ?thesis by (simp add: ring_cut_def)
  qed
qed

text \<open>The replay from a sequence ends its slices where the chunks end.\<close>

lemma outputs_since_ends:
  assumes "ring_ok d s" "outputs_since d q (length s) = Some outs" "x \<in> chunk_ends (db_chunks d)" "q < x"
  shows "x \<in> chunk_ends outs"
proof -
  have l: "linked (earliest_sequence d (length s)) (db_chunks d) (length s)"
    using assms(1) by (auto simp: ring_ok_def ring_holds_def Let_def)
  have q: "earliest_sequence d (length s) \<le> q"
    using assms(2) by (auto simp: outputs_since_def can_replay_from_def split: if_splits)
  have outs: "outs = List.map_filter (\<lambda>c. slice_from c q) (dropWhile (\<lambda>c. end_sequence c \<le> q) (db_chunks d))"
    using assms(2) by (auto simp: outputs_since_def first_chunk_index_def partition_point_drop split: if_splits)
  obtain c where c: "c \<in> set (db_chunks d)" "end_sequence c = x"
    using assms(3) by (auto simp: chunk_ends_def)
  have "c \<in> set (takeWhile (\<lambda>c. end_sequence c \<le> q) (db_chunks d)
      @ dropWhile (\<lambda>c. end_sequence c \<le> q) (db_chunks d))"
    using c by simp
  then have "c \<in> set (dropWhile (\<lambda>c. end_sequence c \<le> q) (db_chunks d))"
    using c(2) assms(4) unfolding set_append by (auto dest: set_takeWhileD simp del: takeWhile_dropWhile_id)
  moreover obtain d' where "slice_from c q = Some d'" "end_sequence d' = x"
    using c(2) assms(4) by (auto simp: slice_from_def end_sequence_def Let_def)
  ultimately have "d' \<in> set outs"
    unfolding outs List.map_filter_def by (auto intro!: image_eqI [of _ _ c])
  with \<open>end_sequence d' = x\<close> show ?thesis by (auto simp: chunk_ends_def)
qed

section \<open>The replay interface\<close>

text \<open>
  What the output state relies on: after publishing, the store still holds a suffix of the
  stream, and whatever it agrees to replay is exactly the stream from the requested sequence.
\<close>

locale replay_ring =
  fixes push :: "'r \<Rightarrow> sequenced_output \<Rightarrow> 'r"
    and since :: "'r \<Rightarrow> nat \<Rightarrow> nat \<Rightarrow> sequenced_output list option"
    and earliest :: "'r \<Rightarrow> nat \<Rightarrow> nat"
    and holds :: "'r \<Rightarrow> bytes \<Rightarrow> bool"
  assumes holds_push: "holds r s \<Longrightarrow> out_seq c = length s \<Longrightarrow> holds (push r c) (s @ out_bytes c)"
    and since_exact: "holds r s \<Longrightarrow> since r q (length s) = Some outs \<Longrightarrow>
        replayed outs = drop q s \<and> linked q outs (length s)"
    and since_total: "since r q (length s) \<noteq> None \<longleftrightarrow> earliest r (length s) \<le> q \<and> q \<le> length s"
    and earliest_le: "holds r s \<Longrightarrow> earliest r (length s) \<le> length s"
begin

text \<open>A client that has the stream up to \<open>q\<close> has all of it after appending a replay.\<close>

lemma resume_completes:
  assumes "holds r s" "since r q (length s) = Some outs"
  shows "take q s @ replayed outs = s"
  using since_exact [OF assms] by simp

lemma replay_length: "holds r s \<Longrightarrow> since r q (length s) = Some outs \<Longrightarrow>
    length (replayed outs) = length s - q"
  using since_exact by fastforce

lemma replay_empty_iff: "holds r s \<Longrightarrow> since r q (length s) = Some outs \<Longrightarrow>
    outs = [] \<longleftrightarrow> q = length s"
  using since_exact [of r s q outs] linked_length [of q outs "length s"]
  by (cases outs) (auto simp: end_sequence_def dest: linked_length)

lemma holds_pushes:
  "holds r s \<Longrightarrow> linked (length s) cs b \<Longrightarrow> holds (foldl push r cs) (s @ replayed cs)"
proof (induction cs arbitrary: r s)
  case (Cons c cs)
  then have "holds (push r c) (s @ out_bytes c)" by (intro holds_push) auto
  moreover have "linked (length (s @ out_bytes c)) cs b"
    using Cons.prems(2) by (auto simp: end_sequence_def)
  ultimately show ?case using Cons.IH by fastforce
qed simp

end

interpretation ring: replay_ring delta_push outputs_since earliest_sequence ring_ok
proof (unfold_locales, goal_cases)
  case (1 r s c)
  then show ?case by (rule ring_ok_push)
next
  case (2 r s q outs)
  then show ?case by (intro outputs_since_replay) (simp_all add: ring_ok_def)
next
  case (3 r q s)
  then show ?case by (auto simp: outputs_since_def can_replay_from_def)
next
  case (4 r s)
  then show ?case by (simp add: ring_ok_def ring_holds_def Let_def)
qed

end
