(* ===== verification/OutputState.thy ===== *)
theory OutputState
  imports DeltaRing
begin

text \<open>
  \<open>TerminalOutputState\<close> of \<open>src/src/terminal_state.rs\<close>: the sequence counter, the grid epoch, the
  delta ring, the browser checkpoint with the parser-safe sequences it may end on, and the
  operations the session and the terminal sockets call.

  The canonical terminal inside it is the parameter \<open>ops\<close>: a record of the operations this state
  calls on it (\<open>process\<close>, \<open>can_store_browser_checkpoint\<close>, the screen size, \<open>resize\<close>, \<open>snapshot\<close>,
  \<open>drain_responses\<close>), which rest on the third-party \<open>vt100\<close> screen. Nothing is assumed about them.
\<close>

section \<open>State\<close>

record 't term_ops =
  tm_new :: "nat \<Rightarrow> nat \<Rightarrow> nat \<Rightarrow> 't"
  tm_process :: "'t \<Rightarrow> bytes \<Rightarrow> 't"
  tm_safe :: "'t \<Rightarrow> bool"
  tm_size :: "'t \<Rightarrow> nat \<times> nat"
  tm_resize :: "'t \<Rightarrow> nat \<Rightarrow> nat \<Rightarrow> nat \<Rightarrow> nat \<Rightarrow> nat \<Rightarrow> 't"
  tm_snapshot :: "'t \<Rightarrow> bytes"
  tm_drain :: "'t \<Rightarrow> bytes list \<times> 't"
  tm_cell_bytes :: nat

record browser_checkpoint =
  cp_sequence :: nat
  cp_epoch :: nat
  cp_bytes :: bytes

record 't output_state =
  os_sequence :: nat
  os_epoch :: nat
  os_delta :: delta_buffer
  os_state_bytes :: nat
  os_checkpoint_bytes :: nat
  os_checkpoint :: "browser_checkpoint option"
  os_safe :: "nat list"
  os_terminal :: 't
  os_exit :: "nat option"

datatype sync_mode = Snapshot | Resume

record terminal_resume =
  rs_sequence :: nat
  rs_epoch :: nat

record terminal_sync =
  sy_mode :: sync_mode
  sy_sequence :: nat
  sy_snapshot :: "bytes option"
  sy_output :: "sequenced_output list"

definition MIN_CHECKPOINT_BYTES :: nat where "MIN_CHECKPOINT_BYTES = 64 * 1024"
definition MAX_CHECKPOINT_BYTES :: nat where "MAX_CHECKPOINT_BYTES = 4 * 1024 * 1024"
definition MIN_RESERVED_VIEWPORT_COLS :: nat where "MIN_RESERVED_VIEWPORT_COLS = 128"
definition MAX_SAFE_START_SKIP_BYTES :: nat where "MAX_SAFE_START_SKIP_BYTES = 4 * 1024"
definition TERMINAL_OUTPUT_FRAME_BYTES :: nat where "TERMINAL_OUTPUT_FRAME_BYTES = 60 * 1024"
definition MAX_SCROLLBACK_BYTES :: nat where "MAX_SCROLLBACK_BYTES = 512 * 1024"

definition scrollback_capacity :: "'t term_ops \<Rightarrow> nat \<Rightarrow> nat \<Rightarrow> nat" where
  "scrollback_capacity ops state_bytes cols =
     state_bytes div (max cols MIN_RESERVED_VIEWPORT_COLS * tm_cell_bytes ops)"

section \<open>Operations\<close>

definition os_new :: "'t term_ops \<Rightarrow> nat \<Rightarrow> nat \<Rightarrow> nat \<Rightarrow> 't output_state" where
  "os_new ops maximum_bytes rows cols =
     (let delta_bytes = max (maximum_bytes div 2) (64 * 1024);
          state_bytes = maximum_bytes - delta_bytes in
      \<lparr>os_sequence = 0, os_epoch = 0, os_delta = delta_new delta_bytes,
       os_state_bytes = state_bytes,
       os_checkpoint_bytes = clamp (maximum_bytes div 16) MIN_CHECKPOINT_BYTES MAX_CHECKPOINT_BYTES,
       os_checkpoint = None, os_safe = [0],
       os_terminal = tm_new ops rows cols (scrollback_capacity ops state_bytes cols),
       os_exit = None\<rparr>)"

definition os_publish ::
    "'t term_ops \<Rightarrow> 't output_state \<Rightarrow> bytes \<Rightarrow> sequenced_output \<times> 't output_state" where
  "os_publish ops s bs =
     (let output = \<lparr>out_seq = os_sequence s, out_bytes = bs\<rparr>;
          sequence = end_sequence output;
          terminal = tm_process ops (os_terminal s) bs;
          delta = delta_push (os_delta s) output;
          earliest = earliest_sequence delta sequence;
          safe = dropWhile (\<lambda>q. q < earliest) (os_safe s);
          safe' = (if tm_safe ops terminal \<and> (safe = [] \<or> last safe \<noteq> sequence)
                   then safe @ [sequence] else safe)
      in (output, s\<lparr>os_sequence := sequence, os_terminal := terminal, os_delta := delta,
                    os_safe := safe'\<rparr>))"

definition os_resize ::
    "'t term_ops \<Rightarrow> 't output_state \<Rightarrow> nat \<Rightarrow> nat \<Rightarrow> nat \<Rightarrow> nat \<Rightarrow> 't output_state" where
  "os_resize ops s rows cols pixel_width pixel_height =
     (let grid_changed = (tm_size ops (os_terminal s) \<noteq> (rows, cols));
          s1 = (if grid_changed
                then s\<lparr>os_epoch := sat_add (os_epoch s) 1, os_checkpoint := None\<rparr> else s);
          s2 = s1\<lparr>os_terminal := tm_resize ops (os_terminal s1) rows cols
                     (scrollback_capacity ops (os_state_bytes s1) cols) pixel_width pixel_height\<rparr>
      in if grid_changed
         then s2\<lparr>os_safe := if tm_safe ops (os_terminal s2) then [os_sequence s2] else []\<rparr>
         else s2)"

definition os_store_checkpoint ::
    "'t output_state \<Rightarrow> nat \<Rightarrow> nat \<Rightarrow> bytes \<Rightarrow> bool \<times> 't output_state" where
  "os_store_checkpoint s sequence epoch bs =
     (if bs = [] \<or> os_checkpoint_bytes s < length bs \<or> epoch \<noteq> os_epoch s
         \<or> sequence \<notin> set (os_safe s)
         \<or> \<not> can_replay_from (os_delta s) sequence (os_sequence s)
         \<or> (case os_checkpoint s of None \<Rightarrow> False | Some c \<Rightarrow> sequence < cp_sequence c)
      then (False, s)
      else (True, s\<lparr>os_checkpoint := Some \<lparr>cp_sequence = sequence, cp_epoch = epoch, cp_bytes = bs\<rparr>\<rparr>))"

definition os_drain_responses :: "'t term_ops \<Rightarrow> 't output_state \<Rightarrow> bytes list \<times> 't output_state" where
  "os_drain_responses ops s =
     (let (responses, terminal) = tm_drain ops (os_terminal s)
      in (responses, s\<lparr>os_terminal := terminal\<rparr>))"

definition browser_snapshot :: "'t output_state \<Rightarrow> bytes option" where
  "browser_snapshot s =
     (case os_checkpoint s of
        None \<Rightarrow> None
      | Some c \<Rightarrow>
          (if cp_epoch c \<noteq> os_epoch s then None
           else (case outputs_since (os_delta s) (cp_sequence c) (os_sequence s) of
                   None \<Rightarrow> None
                 | Some output \<Rightarrow>
                     (if output = [] then Some (cp_bytes c)
                      else Some (cp_bytes c @ replayed output)))))"

definition os_sync :: "'t term_ops \<Rightarrow> 't output_state \<Rightarrow> terminal_resume option \<Rightarrow> terminal_sync" where
  "os_sync ops s requested =
     (let resume = (case requested of
                      None \<Rightarrow> None
                    | Some r \<Rightarrow> (if rs_epoch r = os_epoch s
                                then outputs_since (os_delta s) (rs_sequence r) (os_sequence s)
                                else None))
      in case resume of
           Some output \<Rightarrow> \<lparr>sy_mode = Resume, sy_sequence = os_sequence s, sy_snapshot = None,
                           sy_output = output\<rparr>
         | None \<Rightarrow>
             (case browser_snapshot s of
                Some snapshot \<Rightarrow> \<lparr>sy_mode = Snapshot, sy_sequence = os_sequence s,
                                  sy_snapshot = Some snapshot, sy_output = []\<rparr>
              | None \<Rightarrow> \<lparr>sy_mode = Snapshot, sy_sequence = os_sequence s,
                         sy_snapshot = Some (tm_snapshot ops (os_terminal s)), sy_output = []\<rparr>))"

definition safe_start_sequence :: "'t output_state \<Rightarrow> nat \<Rightarrow> nat \<Rightarrow> nat" where
  "safe_start_sequence s sequence latest =
     (let index = partition_point (\<lambda>c. c < sequence) (os_safe s) in
      if index < length (os_safe s) then
        (let safe = os_safe s ! index in
         if safe \<le> latest \<and> safe - sequence \<le> MAX_SAFE_START_SKIP_BYTES then safe else sequence)
      else sequence)"

definition safe_end_sequence :: "'t output_state \<Rightarrow> nat \<Rightarrow> nat \<Rightarrow> nat \<Rightarrow> nat" where
  "safe_end_sequence s start_seq end_seq latest =
     (if latest \<le> end_seq then end_seq
      else (let index = partition_point (\<lambda>c. c \<le> end_seq) (os_safe s) in
            if 0 < index \<and> start_seq < os_safe s ! (index - 1) then os_safe s ! (index - 1)
            else if index < length (os_safe s) then
              (let next = os_safe s ! index in
               if next \<le> latest \<and> next - end_seq \<le> TERMINAL_OUTPUT_FRAME_BYTES then next
               else end_seq)
            else end_seq))"

definition os_text_tail :: "'t output_state \<Rightarrow> nat \<Rightarrow> ustring" where
  "os_text_tail s maximum_bytes =
     (let latest = os_sequence s; earliest = earliest_sequence (os_delta s) latest;
          start = max (latest - maximum_bytes) earliest
      in text_from (os_delta s) (safe_start_sequence s start latest) latest)"

record scrollback_page =
  pg_earliest :: nat
  pg_start :: nat
  pg_end :: nat
  pg_latest :: nat
  pg_truncated :: bool
  pg_has_more :: bool
  pg_text :: ustring

definition page_start :: "'t output_state \<Rightarrow> nat option \<Rightarrow> nat" where
  "page_start s from_sequence =
     (let latest = os_sequence s; earliest = earliest_sequence (os_delta s) latest;
          requested = (case from_sequence of None \<Rightarrow> earliest | Some q \<Rightarrow> q);
          clamped = clamp requested earliest latest
      in if requested \<le> earliest then safe_start_sequence s clamped latest else clamped)"

definition page_span :: "'t output_state \<Rightarrow> nat \<Rightarrow> nat \<Rightarrow> nat \<times> bytes" where
  "page_span s start limit_bytes =
     (let latest = os_sequence s;
          (e, bs) = page_from (os_delta s) start latest (clamp limit_bytes 1 MAX_SCROLLBACK_BYTES);
          safe_end = safe_end_sequence s start e latest
      in if safe_end \<noteq> e then page_from (os_delta s) start latest (safe_end - start) else (e, bs))"

definition os_scrollback_page :: "'t output_state \<Rightarrow> nat option \<Rightarrow> nat \<Rightarrow> scrollback_page" where
  "os_scrollback_page s from_sequence limit_bytes =
     (let latest = os_sequence s; earliest = earliest_sequence (os_delta s) latest;
          requested = (case from_sequence of None \<Rightarrow> earliest | Some q \<Rightarrow> q);
          start = page_start s from_sequence;
          (e, bs) = page_span s start limit_bytes
      in \<lparr>pg_earliest = earliest, pg_start = start, pg_end = e, pg_latest = latest,
          pg_truncated = (requested < start), pg_has_more = (e < latest),
          pg_text = clean_terminal_text bs\<rparr>)"

definition os_mark_exited :: "'t output_state \<Rightarrow> nat \<Rightarrow> 't output_state" where
  "os_mark_exited s code = s\<lparr>os_exit := Some code\<rparr>"

section \<open>Reachable states\<close>

text \<open>
  \<open>os_reach ops s st G\<close>: the state \<open>s\<close> is reached from a new one by the operations above, \<open>st\<close> is
  every byte published on the way, and \<open>G\<close> the sequences at which the canonical terminal stood
  between two control sequences since the grid last changed.
\<close>

inductive os_reach :: "'t term_ops \<Rightarrow> 't output_state \<Rightarrow> bytes \<Rightarrow> nat set \<Rightarrow> bool"
  for ops :: "'t term_ops" where
  new: "2 * max (maximum div 2) (64 * 1024) \<le> u64_max \<Longrightarrow>
      os_reach ops (os_new ops maximum rows cols) [] {0}"
| publish: "os_reach ops s st G \<Longrightarrow> s' = snd (os_publish ops s bs) \<Longrightarrow>
      os_reach ops s' (st @ bs)
        (if tm_safe ops (os_terminal s') then insert (length (st @ bs)) G else G)"
| resize: "os_reach ops s st G \<Longrightarrow> s' = os_resize ops s rows cols px py \<Longrightarrow>
      os_reach ops s' st
        (if tm_size ops (os_terminal s) \<noteq> (rows, cols)
         then (if tm_safe ops (os_terminal s') then {length st} else {}) else G)"
| store: "os_reach ops s st G \<Longrightarrow> os_reach ops (snd (os_store_checkpoint s q e bs)) st G"
| drain: "os_reach ops s st G \<Longrightarrow> os_reach ops (snd (os_drain_responses ops s)) st G"
| exit: "os_reach ops s st G \<Longrightarrow> os_reach ops (os_mark_exited s code) st G"

definition checkpoint_ok :: "'t output_state \<Rightarrow> nat set \<Rightarrow> browser_checkpoint \<Rightarrow> bool" where
  "checkpoint_ok s G c \<longleftrightarrow>
     cp_epoch c = os_epoch s \<and> cp_sequence c \<le> os_sequence s \<and> cp_sequence c \<in> G
       \<and> cp_bytes c \<noteq> [] \<and> length (cp_bytes c) \<le> os_checkpoint_bytes s"

definition os_ok :: "'t output_state \<Rightarrow> bytes \<Rightarrow> nat set \<Rightarrow> bool" where
  "os_ok s st G \<longleftrightarrow>
     ring_ok (os_delta s) st \<and> os_sequence s = length st
       \<and> sorted_wrt (<) (os_safe s) \<and> set (os_safe s) \<subseteq> G
       \<and> (\<forall>q \<in> set (os_safe s). earliest_sequence (os_delta s) (length st) \<le> q \<and> q \<le> length st
            \<and> ring_cut (os_delta s) (length st) q)
       \<and> (case os_checkpoint s of None \<Rightarrow> True | Some c \<Rightarrow> checkpoint_ok s G c)"


section \<open>Every operation keeps the invariant\<close>

lemma os_ok_new:
  "2 * max (maximum div 2) (64 * 1024) \<le> u64_max \<Longrightarrow> os_ok (os_new ops maximum rows cols) [] {0}"
  by (simp add: os_ok_def os_new_def Let_def ring_ok_new)
    (simp add: delta_new_def earliest_sequence_def ring_cut_def)

lemma sorted_snoc:
  fixes xs :: "nat list"
  assumes "sorted_wrt (<) xs" "\<forall>x \<in> set xs. x \<le> q" "xs = [] \<or> last xs \<noteq> q"
  shows "sorted_wrt (<) (xs @ [q])"
proof (cases xs rule: rev_cases)
  case (snoc ys y)
  then have "y < q" "\<forall>x \<in> set ys. x < y" using assms by (auto simp: sorted_wrt_append)
  then show ?thesis using assms(1) snoc by (auto simp: sorted_wrt_append)
qed simp

lemma sorted_dropWhile:
  fixes xs :: "nat list"
  assumes "sorted_wrt (<) xs"
  shows "sorted_wrt (<) (dropWhile P xs)"
  by (metis assms dropWhile_eq_drop sorted_wrt_drop)

lemma dropWhile_sorted_ge:
  fixes xs :: "nat list"
  assumes "sorted_wrt (<) xs" "x \<in> set (dropWhile (\<lambda>q. q < e) xs)"
  shows "e \<le> x"
  using assms by (induction xs) (auto split: if_splits)

lemma os_ok_publish:
  assumes ok: "os_ok s st G" and s': "s' = snd (os_publish ops s bs)"
  shows "os_ok s' (st @ bs) (if tm_safe ops (os_terminal s') then insert (length (st @ bs)) G else G)"
proof -
  let ?d = "delta_push (os_delta s) \<lparr>out_seq = os_sequence s, out_bytes = bs\<rparr>"
  let ?n = "length st + length bs"
  let ?e = "earliest_sequence ?d ?n"
  let ?safe = "dropWhile (\<lambda>q. q < ?e) (os_safe s)"
  have seq: "os_sequence s = length st" using ok by (simp add: os_ok_def)
  have ring: "ring_ok ?d (st @ bs)"
    using ring.holds_push [of "os_delta s" st "\<lparr>out_seq = os_sequence s, out_bytes = bs\<rparr>"] ok
    by (simp add: os_ok_def)
  have e: "?e \<le> ?n" using ring.earliest_le [OF ring] by simp
  have sub: "set ?safe \<subseteq> set (os_safe s)" by (rule set_dropWhile_sub)
  have srt: "sorted_wrt (<) ?safe" using ok by (simp add: os_ok_def sorted_dropWhile)
  have ge: "q \<in> set ?safe \<Longrightarrow> ?e \<le> q" for q
    using ok dropWhile_sorted_ge by (auto simp: os_ok_def)
  have le: "q \<in> set ?safe \<Longrightarrow> q \<le> ?n" for q
    using ok sub by (fastforce simp: os_ok_def)
  have cut: "q \<in> set ?safe \<Longrightarrow> ring_cut ?d ?n q" for q
    using ring_cut_push [of "os_delta s" st "\<lparr>out_seq = os_sequence s, out_bytes = bs\<rparr>" q] ok sub
    by (auto simp: os_ok_def)
  have new: "ring_cut ?d ?n ?n" using ring_cut_latest [OF ring] by simp
  have G: "q \<in> set ?safe \<Longrightarrow> q \<in> G" for q
    using ok sub by (auto simp: os_ok_def)
  have cp: "os_checkpoint s = Some c \<Longrightarrow> checkpoint_ok s G c" for c
    using ok by (simp add: os_ok_def)
  show ?thesis
    using ring seq e srt ge le cut new G cp sorted_snoc [OF srt, of ?n]
    by (auto simp: s' os_publish_def Let_def os_ok_def end_sequence_def checkpoint_ok_def
        split: option.split)
qed

lemma os_ok_resize:
  assumes ok: "os_ok s st G" and s': "s' = os_resize ops s rows cols px py"
  shows "os_ok s' st (if tm_size ops (os_terminal s) \<noteq> (rows, cols)
         then (if tm_safe ops (os_terminal s') then {length st} else {}) else G)"
proof -
  have "earliest_sequence (os_delta s) (length st) \<le> length st"
      "ring_cut (os_delta s) (length st) (length st)"
    using ok ring.earliest_le ring_cut_latest by (auto simp: os_ok_def)
  with ok show ?thesis
    by (auto simp: s' os_resize_def Let_def os_ok_def checkpoint_ok_def split: option.splits)
qed

lemma os_ok_store:
  "os_ok s st G \<Longrightarrow> os_ok (snd (os_store_checkpoint s q e bs)) st G"
  by (auto simp: os_store_checkpoint_def os_ok_def checkpoint_ok_def split: option.splits)

lemma os_ok_drain: "os_ok s st G \<Longrightarrow> os_ok (snd (os_drain_responses ops s)) st G"
  by (auto simp: os_drain_responses_def os_ok_def checkpoint_ok_def split: prod.splits option.splits)

lemma os_ok_exit: "os_ok s st G \<Longrightarrow> os_ok (os_mark_exited s code) st G"
  by (auto simp: os_mark_exited_def os_ok_def checkpoint_ok_def split: option.splits)

lemma os_reach_ok: "os_reach ops s st G \<Longrightarrow> os_ok s st G"
proof (induction rule: os_reach.induct)
  case (new maximum rows cols)
  then show ?case by (rule os_ok_new)
next
  case (publish s st G s' bs)
  show ?case by (rule os_ok_publish) (use publish in auto)
next
  case (resize s st G s' rows cols px py)
  show ?case by (rule os_ok_resize) (use resize in auto)
next
  case (store s st G q e bs)
  then show ?case by (intro os_ok_store)
next
  case (drain s st G)
  then show ?case by (intro os_ok_drain)
next
  case (exit s st G code)
  then show ?case by (intro os_ok_exit)
qed

section \<open>Pages\<close>

lemma page_loop_prefix:
  "linked e cs b \<Longrightarrow> page_loop maximum e bs cs = (e', bs') \<Longrightarrow>
     \<exists>k. e' = e + k \<and> k \<le> length (replayed cs) \<and> bs' = bs @ take k (replayed cs)"
proof (induction maximum e bs cs rule: page_loop.induct)
  case (1 maximum e bs)
  then show ?case by simp
next
  case (2 maximum e bs c cs)
  show ?case
  proof (cases "bs \<noteq> [] \<and> maximum < sat_add (length bs) (length (out_bytes c))")
    case True
    with 2 show ?thesis by (intro exI [of _ 0]) simp
  next
    case False
    have "linked (end_sequence c) cs b"
      "page_loop maximum (end_sequence c) (bs @ out_bytes c) cs = (e', bs')"
      using "2.prems" False by auto
    from "2.IH" [OF False this] obtain k where k: "e' = end_sequence c + k"
        "k \<le> length (replayed cs)" "bs' = (bs @ out_bytes c) @ take k (replayed cs)"
      by blast
    with 2 show ?thesis
      by (intro exI [of _ "length (out_bytes c) + k"]) (auto simp: end_sequence_def)
  qed
qed

text \<open>A page always takes the first chunk, and then whole chunks within the limit.\<close>

lemma page_loop_progress:
  "linked e (c # cs) b \<Longrightarrow> page_loop maximum e [] (c # cs) = (e', bs') \<Longrightarrow> e < e'"
  using page_loop_prefix [of "end_sequence c" cs b maximum "out_bytes c" e' bs']
  by (cases "out_bytes c") (auto simp: end_sequence_def)



lemma page_from_exact:
  assumes ring: "ring_ok d s" and q: "can_replay_from d q (length s)"
    and p: "page_from d q (length s) m = (e, bs)"
  shows "q \<le> e \<and> e \<le> length s \<and> bs = take (e - q) (drop q s) \<and> (q < length s \<longrightarrow> q < e)"
proof -
  obtain outs where outs: "outputs_since d q (length s) = Some outs"
    using q outputs_since_total by blast
  have rep: "replayed outs = drop q s" and l: "linked q outs (length s)"
    using ring.since_exact [OF ring outs] by auto
  have loop: "page_loop m q [] outs = (e, bs)" using p outs by (simp add: page_from_def)
  have progress: "q < e" if "q < length s"
  proof (cases outs)
    case Nil
    with l that show ?thesis by simp
  next
    case (Cons c cs)
    with loop l page_loop_progress show ?thesis by blast
  qed
  from page_loop_prefix [OF l loop] progress q rep show ?thesis
    by (auto simp: can_replay_from_def)
qed

lemma partition_point_first:
  assumes "partition_point P xs < length xs"
  shows "\<not> P (xs ! partition_point P xs)"
  using assms unfolding partition_point_def by (simp add: nth_length_takeWhile)

lemma partition_point_before:
  "i < partition_point P xs \<Longrightarrow> P (xs ! i)"
  unfolding partition_point_def
  by (metis nth_mem set_takeWhileD takeWhile_nth)

lemma safe_start_bounds:
  "q \<le> latest \<Longrightarrow> q \<le> safe_start_sequence s q latest \<and> safe_start_sequence s q latest \<le> latest"
  using partition_point_first [of "\<lambda>c. c < q" "os_safe s"]
  by (auto simp: safe_start_sequence_def Let_def)

lemma safe_start_skip: "safe_start_sequence s q latest \<le> q + MAX_SAFE_START_SKIP_BYTES"
  by (auto simp: safe_start_sequence_def Let_def)

lemma safe_end_bounds:
  assumes "start < e" "e \<le> latest"
  shows "start < safe_end_sequence s start e latest \<and> safe_end_sequence s start e latest \<le> latest"
  using partition_point_first [of "\<lambda>c. c \<le> e" "os_safe s"] assms
    partition_point_before [of "partition_point (\<lambda>c. c \<le> e) (os_safe s) - 1" "\<lambda>c. c \<le> e" "os_safe s"]
  by (auto simp: safe_end_sequence_def Let_def intro: less_le_trans)

lemma page_start_bounds:
  assumes "os_ok s st G"
  shows "earliest_sequence (os_delta s) (length st) \<le> page_start s from_sequence
    \<and> page_start s from_sequence \<le> length st"
proof -
  let ?e = "earliest_sequence (os_delta s) (length st)"
  have e: "?e \<le> length st" "os_sequence s = length st"
    using assms ring.earliest_le by (auto simp: os_ok_def)
  let ?r = "case from_sequence of None \<Rightarrow> ?e | Some q \<Rightarrow> q"
  have "?e \<le> clamp ?r ?e (length st)" "clamp ?r ?e (length st) \<le> length st"
    using clamp_bounds [OF e(1)] by auto
  with safe_start_bounds [OF this(2), of s] e show ?thesis
    by (auto simp: page_start_def Let_def)
qed

lemma page_span_exact:
  assumes ok: "os_ok s st G"
    and start: "earliest_sequence (os_delta s) (length st) \<le> start" "start \<le> length st"
    and span: "page_span s start limit = (e, bs)"
  shows "start \<le> e \<and> e \<le> length st \<and> bs = take (e - start) (drop start st)
    \<and> (start < length st \<longrightarrow> start < e)"
proof -
  have ring: "ring_ok (os_delta s) st" and seq: "os_sequence s = length st"
    using ok by (auto simp: os_ok_def)
  have can: "can_replay_from (os_delta s) start (length st)"
    using start by (simp add: can_replay_from_def)
  obtain e1 bs1 where first: "page_from (os_delta s) start (length st)
      (clamp limit 1 MAX_SCROLLBACK_BYTES) = (e1, bs1)"
    by (cases "page_from (os_delta s) start (length st) (clamp limit 1 MAX_SCROLLBACK_BYTES)")
  show ?thesis
    using span seq first page_from_exact [OF ring can first]
      page_from_exact [OF ring can, of "safe_end_sequence s start e1 (length st) - start" e bs]
    by (auto simp: page_span_def Let_def split: if_splits)
qed


text \<open>Asked for exactly the bytes up to the end of some chunk, a page ends there.\<close>

lemma page_loop_cut:
  "linked e cs b \<Longrightarrow> e = q + length bs \<Longrightarrow> x \<in> chunk_ends cs \<Longrightarrow> x - q < u64_max \<Longrightarrow>
     fst (page_loop (x - q) e bs cs) = x"
proof (induction cs arbitrary: e bs)
  case Nil
  then show ?case by simp
next
  case (Cons c cs)
  have l: "linked (end_sequence c) cs b" using Cons.prems(1) by simp
  have end_c: "end_sequence c = q + length (bs @ out_bytes c)"
    using Cons.prems(1,2) by (simp add: end_sequence_def)
  have le: "end_sequence c \<le> x"
    using Cons.prems(3) linked_ends [OF l] by (auto simp: chunk_ends_def less_imp_le)
  have "\<not> x - q < sat_add (length bs) (length (out_bytes c))"
    using le end_c sat_add_le [of "length bs" "length (out_bytes c)"] unfolding length_append by linarith
  then have go: "page_loop (x - q) e bs (c # cs)
      = page_loop (x - q) (end_sequence c) (bs @ out_bytes c) cs"
    by simp
  show ?case
  proof (cases "x \<in> chunk_ends cs")
    case True
    show ?thesis unfolding go by (rule Cons.IH [OF l end_c True Cons.prems(4)])
  next
    case False
    with Cons.prems(3) have x: "x = end_sequence c" by simp
    have ne: "bs @ out_bytes c \<noteq> []" using Cons.prems(1) by simp
    show ?thesis
    proof (cases cs)
      case Nil
      then show ?thesis unfolding go by (simp add: x)
    next
      case (Cons d ds)
      then have "0 < length (out_bytes d)" using l by simp
      then have "x - q < sat_add (length (bs @ out_bytes c)) (length (out_bytes d))"
        using x end_c Cons.prems(4) by (simp add: sat_add_def)
      with ne Cons show ?thesis unfolding go by (simp add: x)
    qed
  qed
qed

lemma page_from_cut:
  assumes ring: "ring_ok d s" and q: "can_replay_from d q (length s)"
    and x: "ring_cut d (length s) x" "q < x"
  shows "fst (page_from d q (length s) (x - q)) = x"
proof -
  obtain outs where outs: "outputs_since d q (length s) = Some outs"
    using q outputs_since_total by blast
  have l: "linked q outs (length s)"
    using ring.since_exact [OF ring outs] by auto
  have e: "earliest_sequence d (length s) \<le> q" using q by (simp add: can_replay_from_def)
  then have ends: "x \<in> chunk_ends (db_chunks d)" using x by (auto simp: ring_cut_def)
  then have xo: "x \<in> chunk_ends outs" using outputs_since_ends [OF ring outs] x by blast
  have "x \<le> length s" using xo linked_ends [OF l] by (auto simp: chunk_ends_def)
  moreover have "length s - earliest_sequence d (length s) = db_bytes d"
    using ring by (simp add: ring_ok_def ring_holds_def Let_def)
  moreover have "db_bytes d < u64_max"
    using ring_ok_bytes [OF ring] half_u64 [of "db_max d"] ring by (simp add: ring_ok_def)
  ultimately have "x - q < u64_max" using e by linarith
  from page_loop_cut [OF l _ xo this] show ?thesis
    using outs by (simp add: page_from_def)
qed

lemma partition_point_sorted:
  fixes xs :: "nat list"
  assumes "sorted_wrt (<) xs" "x \<in> set xs" "x \<le> e"
  shows "0 < partition_point (\<lambda>c. c \<le> e) xs \<and> x \<le> xs ! (partition_point (\<lambda>c. c \<le> e) xs - 1)"
  using assms
proof (induction xs)
  case (Cons y xs)
  have y: "y \<le> e" using Cons.prems by (auto dest: bspec)
  show ?case
  proof (cases "x = y")
    case True
    have later: "z \<in> set (takeWhile (\<lambda>c. c \<le> e) xs) \<Longrightarrow> y \<le> z" for z
      using Cons.prems(1) by (auto dest!: set_takeWhileD intro: less_imp_le)
    have "y \<le> (y # takeWhile (\<lambda>c. c \<le> e) xs) ! length (takeWhile (\<lambda>c. c \<le> e) xs)"
      using later nth_mem by (cases "length (takeWhile (\<lambda>c. c \<le> e) xs)") auto
    moreover have "(y # takeWhile (\<lambda>c. c \<le> e) xs) ! length (takeWhile (\<lambda>c. c \<le> e) xs)
        = (y # xs) ! length (takeWhile (\<lambda>c. c \<le> e) xs)"
      by (cases "length (takeWhile (\<lambda>c. c \<le> e) xs)") (auto simp: takeWhile_nth)
    ultimately show ?thesis using y True by (simp add: partition_point_def)
  next
    case False
    then have "0 < partition_point (\<lambda>c. c \<le> e) xs
        \<and> x \<le> xs ! (partition_point (\<lambda>c. c \<le> e) xs - 1)"
      using Cons by auto
    then show ?thesis using y by (simp add: partition_point_def nth_Cons')
  qed
qed simp

lemma safe_end_member:
  assumes "safe_end_sequence s start e latest \<noteq> e"
  shows "safe_end_sequence s start e latest \<in> set (os_safe s)"
proof -
  define i where "i = partition_point (\<lambda>c. c \<le> e) (os_safe s)"
  have "i \<le> length (os_safe s)"
    unfolding i_def partition_point_def by (rule length_takeWhile_le)
  then have "0 < i \<Longrightarrow> os_safe s ! (i - 1) \<in> set (os_safe s)"
    "i < length (os_safe s) \<Longrightarrow> os_safe s ! i \<in> set (os_safe s)"
    by simp_all
  with assms show ?thesis
    unfolding safe_end_sequence_def Let_def i_def [symmetric]
    by (simp only: split: if_split if_split_asm) simp_all
qed

text \<open>A page that could end between two control sequences does.\<close>

lemma page_span_safe:
  assumes ok: "os_ok s st G"
    and start: "earliest_sequence (os_delta s) (length st) \<le> start"
    and span: "page_span s start limit = (e, bs)" and more: "e < length st"
    and x: "x \<in> set (os_safe s)" "start < x" "x \<le> e"
  shows "e \<in> set (os_safe s)"
proof -
  have ring: "ring_ok (os_delta s) st" and seq: "os_sequence s = length st"
    and srt: "sorted_wrt (<) (os_safe s)"
    and safe: "\<And>q. q \<in> set (os_safe s) \<Longrightarrow> q \<le> length st \<and> ring_cut (os_delta s) (length st) q"
    using ok by (auto simp: os_ok_def)
  have le: "start \<le> length st" using more x by simp
  have can: "can_replay_from (os_delta s) start (length st)"
    using start le by (simp add: can_replay_from_def)
  obtain e1 bs1 where first: "page_from (os_delta s) start (length st)
      (clamp limit 1 MAX_SCROLLBACK_BYTES) = (e1, bs1)"
    by (cases "page_from (os_delta s) start (length st) (clamp limit 1 MAX_SCROLLBACK_BYTES)")
  let ?se = "safe_end_sequence s start e1 (length st)"
  let ?i = "partition_point (\<lambda>c. c \<le> e1) (os_safe s)"
  have e1: "start < e1" "e1 \<le> length st"
    using page_from_exact [OF ring can first] more x by auto
  have i_mem: "0 < ?i \<Longrightarrow> os_safe s ! (?i - 1) \<in> set (os_safe s)"
    using length_takeWhile_le [of "\<lambda>c. c \<le> e1" "os_safe s"]
    unfolding partition_point_def by (intro nth_mem) linarith
  have at: "?se \<noteq> e1 \<Longrightarrow> ?se \<in> set (os_safe s)"
    by (rule safe_end_member)
  have e_se: "e = ?se"
  proof (cases "?se = e1")
    case True
    with span seq first show ?thesis by (simp add: page_span_def)
  next
    case False
    then have "page_from (os_delta s) start (length st) (?se - start) = (e, bs)"
      using span seq first by (simp add: page_span_def Let_def)
    with page_from_cut [OF ring can, of ?se] safe [OF at [OF False]] safe_end_bounds [OF e1, of s]
    show ?thesis by auto
  qed
  show ?thesis
  proof (cases "?se = e1")
    case False
    with at e_se show ?thesis by simp
  next
    case True
    then have "x \<le> e1" "e1 < length st" using x e_se more by auto
    then have "0 < ?i \<and> start < os_safe s ! (?i - 1)"
      using partition_point_sorted [OF srt x(1), of e1] x(2) by auto
    then show ?thesis
      using True e_se i_mem \<open>e1 < length st\<close> by (auto simp: safe_end_sequence_def Let_def)
  qed
qed


text \<open>What a resumption sends.\<close>

lemma os_sync_resume:
  assumes "os_reach ops s st G" and "sy_mode (os_sync ops s (Some r)) = Resume"
  shows "rs_epoch r = os_epoch s
    \<and> sy_sequence (os_sync ops s (Some r)) = length st
    \<and> sy_snapshot (os_sync ops s (Some r)) = None
    \<and> linked (rs_sequence r) (sy_output (os_sync ops s (Some r))) (length st)
    \<and> take (rs_sequence r) st @ replayed (sy_output (os_sync ops s (Some r))) = st"
proof -
  have ring: "ring_ok (os_delta s) st" and seq: "os_sequence s = length st"
    using os_reach_ok [OF assms(1)] by (auto simp: os_ok_def)
  from assms(2) obtain outs where e: "rs_epoch r = os_epoch s"
    and o: "outputs_since (os_delta s) (rs_sequence r) (length st) = Some outs"
    and y: "sy_output (os_sync ops s (Some r)) = outs"
    by (auto simp: os_sync_def Let_def seq split: if_splits option.splits)
  have "os_sync ops s (Some r) = \<lparr>sy_mode = Resume, sy_sequence = length st, sy_snapshot = None,
      sy_output = outs\<rparr>"
    using e o by (simp add: os_sync_def Let_def seq)
  then show ?thesis
    using e ring.since_exact [OF ring o] ring.resume_completes [OF ring o] by simp
qed

section \<open>Properties\<close>

text \<open>
  C4. A terminal socket that reconnects with the sequence and the epoch of what it has already
  drawn is either sent the missing output or redrawn. When the answer is a resumption, the chunks
  follow each other from exactly the requested sequence to the current one, and what the client
  had, followed by them, is every byte the terminal published: nothing is lost, repeated or
  reordered, whatever was evicted, resized or checkpointed in between.
\<close>

theorem sync_resume_complete:
  assumes "os_reach ops s st G" and "sy_mode (os_sync ops s (Some r)) = Resume"
  shows "rs_epoch r = os_epoch s
    \<and> sy_sequence (os_sync ops s (Some r)) = length st
    \<and> sy_snapshot (os_sync ops s (Some r)) = None
    \<and> linked (rs_sequence r) (sy_output (os_sync ops s (Some r))) (length st)
    \<and> take (rs_sequence r) st @ replayed (sy_output (os_sync ops s (Some r))) = st"
  by (rule os_sync_resume [OF assms])

text \<open>A terminal that only remembers its bytes, to run the output state on.\<close>

definition echo_ops :: "bytes term_ops" where
  "echo_ops = \<lparr>tm_new = \<lambda>_ _ _. [], tm_process = (@), tm_safe = \<lambda>_. True, tm_size = \<lambda>_. (24, 80),
     tm_resize = \<lambda>t _ _ _ _ _. t, tm_snapshot = id, tm_drain = \<lambda>t. ([], t), tm_cell_bytes = 32\<rparr>"

definition echo_run :: "bytes list \<Rightarrow> bytes output_state" where
  "echo_run = foldl (\<lambda>s bs. snd (os_publish echo_ops s bs)) (os_new echo_ops 131072 24 80)"

lemma echo_reach: "\<exists>G. os_reach echo_ops (echo_run chunks) (concat chunks) G"
proof (induction chunks rule: rev_induct)
  case Nil
  have "2 * max (131072 div 2) (64 * 1024) \<le> u64_max" by (simp add: u64_max_def)
  from os_reach.new [OF this] show ?case by (auto simp: echo_run_def)
next
  case (snoc bs chunks)
  then obtain G where "os_reach echo_ops (echo_run chunks) (concat chunks) G" by blast
  from os_reach.publish [OF this refl, of bs] show ?case by (auto simp: echo_run_def)
qed

lemmas echo_eval = echo_run_def os_new_def os_publish_def delta_new_def delta_push_def
  delta_trim.simps charged_bytes_def sat_add_def end_sequence_def earliest_sequence_def echo_ops_def
  DELTA_CHUNK_OVERHEAD_BYTES_def u64_max_def Let_def

lemma echo_two: "echo_run [''abc'', ''de''] =
   \<lparr>os_sequence = 5, os_epoch = 0,
    os_delta = \<lparr>db_chunks = [\<lparr>out_seq = 0, out_bytes = ''abc''\<rparr>, \<lparr>out_seq = 3, out_bytes = ''de''\<rparr>],
                db_bytes = 5, db_max = 65536\<rparr>,
    os_state_bytes = 65536, os_checkpoint_bytes = 65536, os_checkpoint = None,
    os_safe = [0, 3, 5], os_terminal = ''abcde'', os_exit = None\<rparr>"
  by (simp add: echo_eval clamp_def MIN_CHECKPOINT_BYTES_def MAX_CHECKPOINT_BYTES_def)

lemmas sync_eval = os_sync_def outputs_since_def can_replay_from_def first_chunk_index_def
  partition_point_def slice_from_def end_sequence_def earliest_sequence_def List.map_filter_simps
  Let_def

lemma sync_resume_complete_witness:
  "let y = os_sync echo_ops (echo_run [''abc'', ''de'']) (Some \<lparr>rs_sequence = 2, rs_epoch = 0\<rparr>) in
   sy_mode y = Resume \<and> take 2 ''abcde'' @ replayed (sy_output y) = ''abcde''"
proof -
  obtain G where r: "os_reach echo_ops (echo_run [''abc'', ''de'']) (concat [''abc'', ''de'']) G"
    using echo_reach by blast
  have m: "sy_mode (os_sync echo_ops (echo_run [''abc'', ''de''])
      (Some \<lparr>rs_sequence = 2, rs_epoch = 0\<rparr>)) = Resume"
    by (simp add: echo_two sync_eval)
  from sync_resume_complete [OF r m] m show ?thesis by (simp add: Let_def)
qed


text \<open>
  C6. When no resumption is possible but a browser checkpoint of the current grid is still inside
  the ring, the redraw is that checkpoint followed by every byte published after the sequence it
  was taken at, and that sequence is one at which the canonical terminal stood between control
  sequences since the grid last changed: the bytes replayed on it never start inside one.
\<close>

theorem browser_snapshot_exact:
  assumes "os_reach ops s st G" and "browser_snapshot s = Some b"
  shows "\<exists>c. os_checkpoint s = Some c \<and> cp_epoch c = os_epoch s \<and> cp_sequence c \<in> G
    \<and> b = cp_bytes c @ drop (cp_sequence c) st"
proof -
  have ok: "os_ok s st G" by (rule os_reach_ok [OF assms(1)])
  then have ring: "ring_ok (os_delta s) st" and seq: "os_sequence s = length st"
    by (auto simp: os_ok_def)
  obtain c outs where c: "os_checkpoint s = Some c"
    and o: "outputs_since (os_delta s) (cp_sequence c) (length st) = Some outs"
    and b: "b = cp_bytes c @ replayed outs"
    using assms(2) seq by (auto simp: browser_snapshot_def split: option.splits if_splits)
  have "checkpoint_ok s G c" using ok c by (simp add: os_ok_def)
  then show ?thesis
    using c b ring.since_exact [OF ring o] by (simp add: checkpoint_ok_def)
qed

text \<open>
  C14. A checkpoint is accepted exactly when it is not empty and within its budget, was taken on
  the current grid at a sequence the state recorded as parser-safe, and is not older than the
  stored one. The code also asks whether the ring can replay from that sequence: the recorded
  sequences always can be. What is accepted is what the next full redraw shows, followed by the
  bytes published since.
\<close>

theorem checkpoint_accepted:
  assumes "os_reach ops s st G"
  shows "(fst (os_store_checkpoint s q e b) \<longleftrightarrow>
      b \<noteq> [] \<and> length b \<le> os_checkpoint_bytes s \<and> e = os_epoch s \<and> q \<in> set (os_safe s)
      \<and> (case os_checkpoint s of None \<Rightarrow> True | Some c \<Rightarrow> cp_sequence c \<le> q))
    \<and> (fst (os_store_checkpoint s q e b) \<longrightarrow>
      sy_snapshot (os_sync ops (snd (os_store_checkpoint s q e b)) None) = Some (b @ drop q st))"
    (is "?accepted \<and> (?acc \<longrightarrow> ?shown)")
proof
  have ring: "ring_ok (os_delta s) st" and seq: "os_sequence s = length st"
    and safe: "\<And>q. q \<in> set (os_safe s) \<Longrightarrow> can_replay_from (os_delta s) q (length st)"
    using os_reach_ok [OF assms] by (auto simp: os_ok_def can_replay_from_def)
  show ?accepted
    using safe seq by (auto simp: os_store_checkpoint_def not_less split: option.splits)
  show "?acc \<longrightarrow> ?shown"
  proof
    assume acc: ?acc
    let ?s = "s\<lparr>os_checkpoint := Some \<lparr>cp_sequence = q, cp_epoch = os_epoch s, cp_bytes = b\<rparr>\<rparr>"
    from acc have s': "snd (os_store_checkpoint s q e b) = ?s" and q: "q \<in> set (os_safe s)"
      by (auto simp: os_store_checkpoint_def split: if_splits option.splits)
    from safe [OF q] obtain outs where o: "outputs_since (os_delta s) q (length st) = Some outs"
      using outputs_since_total by blast
    then have "browser_snapshot ?s = Some (b @ drop q st)"
      using ring.since_exact [OF ring o] seq by (auto simp: browser_snapshot_def)
    then show ?shown unfolding s' by (simp add: os_sync_def)
  qed
qed

lemma echo_stored: "fst (os_store_checkpoint (echo_run [''abc'', ''de'']) 3 0 ''XY'')
   \<and> os_checkpoint_bytes (echo_run [''abc'', ''de'']) = 65536"
  by (simp add: echo_two os_store_checkpoint_def can_replay_from_def earliest_sequence_def)

lemma checkpoint_accepted_witness:
  "sy_snapshot (os_sync echo_ops
     (snd (os_store_checkpoint (echo_run [''abc'', ''de'']) 3 0 ''XY'')) None) = Some ''XYde''"
proof -
  obtain G where r: "os_reach echo_ops (echo_run [''abc'', ''de'']) (concat [''abc'', ''de'']) G"
    using echo_reach by blast
  from checkpoint_accepted [OF r, of 3 0 "''XY''"] echo_stored show ?thesis by simp
qed

lemma browser_snapshot_exact_witness:
  "\<exists>c. os_checkpoint (snd (os_store_checkpoint (echo_run [''abc'', ''de'']) 3 0 ''XY'')) = Some c
     \<and> ''XYde'' = cp_bytes c @ drop (cp_sequence c) ''abcde''"
proof -
  let ?s = "snd (os_store_checkpoint (echo_run [''abc'', ''de'']) 3 0 ''XY'')"
  obtain G where "os_reach echo_ops (echo_run [''abc'', ''de'']) (concat [''abc'', ''de'']) G"
    using echo_reach by blast
  then have r: "os_reach echo_ops ?s (concat [''abc'', ''de'']) G" by (rule os_reach.store)
  have b: "browser_snapshot ?s = Some ''XYde''"
    by (simp add: echo_two os_store_checkpoint_def browser_snapshot_def sync_eval)
  from browser_snapshot_exact [OF r b] show ?thesis by auto
qed



text \<open>
  The output state stays within its budget: in every reachable state the bytes retained for
  replay, with the overhead charged for each chunk, fit the ring's share, what is retained is a
  suffix of the published stream, and every recorded parser-safe sequence can be replayed from.
\<close>

theorem output_budget:
  assumes "os_reach ops s st G"
  shows "length (replayed (db_chunks (os_delta s)))
      + length (db_chunks (os_delta s)) * DELTA_CHUNK_OVERHEAD_BYTES \<le> db_max (os_delta s)
    \<and> replayed (db_chunks (os_delta s)) = drop (earliest_sequence (os_delta s) (length st)) st
    \<and> (\<forall>q \<in> set (os_safe s). q \<in> G \<and> can_replay_from (os_delta s) q (os_sequence s))"
proof -
  have ok: "os_ok s st G" by (rule os_reach_ok [OF assms])
  then have ring: "ring_ok (os_delta s) st" by (simp add: os_ok_def)
  then have "charged_bytes (os_delta s) < u64_max"
    using half_u64 [of "db_max (os_delta s)"] by (simp add: ring_ok_def)
  then have "charged_bytes (os_delta s) = length (replayed (db_chunks (os_delta s)))
      + length (db_chunks (os_delta s)) * DELTA_CHUNK_OVERHEAD_BYTES"
    using ring by (simp add: charged_bytes_def sat_add_def ring_ok_def ring_holds_def Let_def min_def
        split: if_splits)
  with ring ok show ?thesis
    by (auto simp: ring_ok_def ring_holds_def os_ok_def can_replay_from_def Let_def)
qed

lemma output_budget_witness:
  "length (replayed (db_chunks (os_delta (echo_run [''abc'', ''de'']))))
     + length (db_chunks (os_delta (echo_run [''abc'', ''de'']))) * DELTA_CHUNK_OVERHEAD_BYTES
     \<le> db_max (os_delta (echo_run [''abc'', ''de'']))"
proof -
  obtain G where r: "os_reach echo_ops (echo_run [''abc'', ''de'']) (concat [''abc'', ''de'']) G"
    using echo_reach by blast
  from output_budget [OF r] show ?thesis by (rule conjunct1)
qed

end
