(* ===== verification/AccessText.thy ===== *)
theory AccessText
  imports TextClean
begin

text \<open>
  The text that goes into and out of the access manager, from \<open>src/src/access.rs\<close>: the validators
  of names, descriptions, agents, values, passwords and commands, the shell quoting of a command
  for display, the length-prefixed input of the request hashes, and the generator of secrets.

  What the code asks of the world is the parameter \<open>ext\<close>: SHA-256 (crate \<open>sha2\<close>) and the base64
  encoders (crate \<open>base64\<close>), the text of a UUID (crate \<open>uuid\<close>), and the file system. Paths are
  byte strings.
\<close>

section \<open>Errors and the outside world\<close>

datatype access_error =
    Invalid ustring
  | NotFound
  | Conflict ustring
  | Stale
  | Unavailable ustring
  | Gone ustring

type_synonym path = bytes

record file_identity =
  fi_device :: nat
  fi_inode :: nat

record file_metadata =
  md_uid :: nat
  md_mode :: nat
  md_identity :: file_identity

record access_ext =
  ax_sha256 :: "bytes \<Rightarrow> bytes"
  ax_sha512 :: "bytes \<Rightarrow> bytes"
  ax_base64 :: "bytes \<Rightarrow> bytes"
  ax_base64_url :: "bytes \<Rightarrow> bytes"
  ax_uuid_text :: "uuid \<Rightarrow> ustring"
  ax_canonicalize :: "path \<Rightarrow> ustring + path"
  ax_is_file :: "path \<Rightarrow> bool"
  ax_metadata :: "path \<Rightarrow> ustring + file_metadata"
  ax_contents :: "path \<Rightarrow> ustring + bytes"

text \<open>A small world to evaluate examples in: root owns every file, all of mode \<open>0o755\<close>.\<close>

definition example_ext :: access_ext where
  "example_ext = \<lparr>ax_sha256 = \<lambda>bs. bs, ax_sha512 = \<lambda>bs. bs, ax_base64 = \<lambda>bs. bs,
     ax_base64_url = \<lambda>bs. bs, ax_uuid_text = \<lambda>u. [48 + u], ax_canonicalize = Inr,
     ax_is_file = \<lambda>_. True,
     ax_metadata = \<lambda>_. Inr \<lparr>md_uid = 0, md_mode = 493, md_identity = \<lparr>fi_device = 1, fi_inode = 2\<rparr>\<rparr>,
     ax_contents = Inr\<rparr>"

section \<open>Validators\<close>

definition MAX_DESCRIPTION_BYTES :: nat where "MAX_DESCRIPTION_BYTES = 2 * 1024"
definition MAX_COMMAND_ARGUMENTS :: nat where "MAX_COMMAND_ARGUMENTS = 256"
definition MAX_COMMAND_BYTES :: nat where "MAX_COMMAND_BYTES = 64 * 1024"

definition validate_environment_name :: "ustring \<Rightarrow> access_error + unit" where
  "validate_environment_name value =
     (case value of
        [] \<Rightarrow> Inl (Invalid (lit ''secret name is required''))
      | first # rest \<Rightarrow>
          (if 128 < utf8_len value \<or> \<not> (first = 95 \<or> is_ascii_alphabetic first)
              \<or> \<not> list_all (\<lambda>b. b = 95 \<or> is_ascii_alphanumeric b) rest
           then Inl (Invalid (lit ''secret name must be a valid environment variable name''))
           else Inr ()))"

definition validate_secret_name :: "ustring \<Rightarrow> access_error + ustring" where
  "validate_secret_name value =
     (let value' = map ascii_upper (trim value) in
      case validate_environment_name value' of Inl e \<Rightarrow> Inl e | Inr _ \<Rightarrow> Inr value')"

definition validate_optional_description :: "ustring \<Rightarrow> access_error + ustring option" where
  "validate_optional_description value =
     (let value' = trim value in
      if value' = [] then Inr None
      else if MAX_DESCRIPTION_BYTES < utf8_len value'
              \<or> list_ex (\<lambda>c. is_control c \<and> c \<noteq> 10) value'
      then Inl (Invalid (lit ''description is too long or contains control characters''))
      else Inr (Some value'))"

definition validate_description :: "ustring \<Rightarrow> access_error + ustring" where
  "validate_description value =
     (case validate_optional_description value of
        Inl e \<Rightarrow> Inl e
      | Inr None \<Rightarrow> Inl (Invalid (lit ''a description of why access is needed is required''))
      | Inr (Some d) \<Rightarrow> Inr d)"

text \<open>\<open>as_deref().map(validate_optional_description).transpose()?.flatten()\<close>\<close>

definition validate_comment :: "ustring option \<Rightarrow> access_error + ustring option" where
  "validate_comment c = (case c of None \<Rightarrow> Inr None | Some d \<Rightarrow> validate_optional_description d)"

definition validate_agent :: "ustring \<Rightarrow> access_error + ustring" where
  "validate_agent value =
     (let value' = trim value in
      if value' = [] \<or> 64 < utf8_len value'
         \<or> \<not> list_all (\<lambda>c. is_ascii_alphanumeric c \<or> c = 45 \<or> c = 95 \<or> c = 46) value'
      then Inl (Invalid (lit ''invalid agent name'')) else Inr value')"

definition validate_secret_value :: "ustring \<Rightarrow> access_error + ustring" where
  "validate_secret_value value =
     (if value = [] then Inl (Invalid (lit ''secret value is required''))
      else if 64 * 1024 < utf8_len value then Inl (Invalid (lit ''secret value is too large''))
      else Inr value)"

definition validate_sudo_password_value :: "ustring \<Rightarrow> access_error + ustring" where
  "validate_sudo_password_value value =
     (if list_ex (\<lambda>b. b = 0 \<or> b = 10 \<or> b = 13) value
      then Inl (Invalid (lit ''sudo password cannot contain line breaks or NUL bytes''))
      else validate_secret_value value)"

definition validate_command :: "access_ext \<Rightarrow> ustring list \<Rightarrow> access_error + ustring list" where
  "validate_command ext command =
     (case command of
        [] \<Rightarrow> Inl (Invalid (lit ''invalid command argument count''))
      | first # rest \<Rightarrow>
          (if MAX_COMMAND_ARGUMENTS < length command
           then Inl (Invalid (lit ''invalid command argument count''))
           else if MAX_COMMAND_BYTES < sum_list (map utf8_len command) \<or> list_ex (\<lambda>a. a = []) command
           then Inl (Invalid (lit ''command is empty or too large''))
           else if \<not> starts_with first (lit ''/'')
           then Inl (Invalid (lit ''command executable must be an absolute path''))
           else (case ax_canonicalize ext (utf8_encode first) of
                   Inl e \<Rightarrow> Inl (Invalid (lit ''command executable is unavailable: '' @ e))
                 | Inr executable \<Rightarrow>
                     (if \<not> ax_is_file ext executable
                      then Inl (Invalid (lit ''command executable must be a regular file''))
                      else (case utf8_strict executable of
                              None \<Rightarrow> Inl (Invalid (lit ''command path is not valid UTF-8''))
                            | Some p \<Rightarrow> Inr (p # rest))))))"

definition validate_cwd :: "access_ext \<Rightarrow> path \<Rightarrow> access_error + path" where
  "validate_cwd ext cwd =
     (case ax_canonicalize ext cwd of
        Inl e \<Rightarrow> Inl (Invalid (lit ''command directory is unavailable: '' @ e)) | Inr p \<Rightarrow> Inr p)"

section \<open>Digests\<close>

definition hex_digit :: "bool \<Rightarrow> nat \<Rightarrow> byte" where
  "hex_digit upper n =
     (if upper then ''0123456789ABCDEF'' else ''0123456789abcdef'') ! n"

definition encode_hex :: "bytes \<Rightarrow> bool \<Rightarrow> bytes" where
  "encode_hex value upper =
     concat (map (\<lambda>b. [hex_digit upper (byte_val b div 16), hex_digit upper (byte_val b mod 16)]) value)"

definition executable_digest :: "access_ext \<Rightarrow> path \<Rightarrow> access_error + ustring" where
  "executable_digest ext p =
     (case ax_contents ext p of
        Inl e \<Rightarrow> Inl (Invalid (lit ''command executable is unavailable: '' @ e))
      | Inr content \<Rightarrow> Inr (lit (encode_hex (ax_sha256 ext content) False)))"

definition file_identity_of :: "access_ext \<Rightarrow> path \<Rightarrow> access_error + file_identity" where
  "file_identity_of ext p =
     (case ax_metadata ext p of
        Inl e \<Rightarrow> Inl (Invalid (lit ''command filesystem object is unavailable: '' @ e))
      | Inr md \<Rightarrow> Inr (md_identity md))"

text \<open>A sudo executable must be owned by root and writable by nobody else (mode bits \<open>0o022\<close>).\<close>

definition others_may_write :: "nat \<Rightarrow> bool" where
  "others_may_write mode \<longleftrightarrow> mode div 16 mod 2 = 1 \<or> mode div 2 mod 2 = 1"

definition validate_sudo_command ::
    "access_ext \<Rightarrow> ustring list \<Rightarrow> access_error + ustring list \<times> ustring \<times> file_identity" where
  "validate_sudo_command ext command =
     (case validate_command ext command of
        Inl e \<Rightarrow> Inl e
      | Inr command' \<Rightarrow>
          (let executable = utf8_encode (hd command') in
           case ax_metadata ext executable of
             Inl e \<Rightarrow> Inl (Invalid (lit ''command executable is unavailable: '' @ e))
           | Inr md \<Rightarrow>
               (if md_uid md \<noteq> 0 \<or> others_may_write (md_mode md)
                then Inl (Invalid (lit ''sudo executable must be root-owned and not group- or world-writable''))
                else (case executable_digest ext executable of
                        Inl e \<Rightarrow> Inl e
                      | Inr digest \<Rightarrow>
                          (case file_identity_of ext executable of
                             Inl e \<Rightarrow> Inl e
                           | Inr i \<Rightarrow> Inr (command', digest, i))))))"

definition validate_sudo_cwd :: "access_ext \<Rightarrow> path \<Rightarrow> access_error + path \<times> file_identity" where
  "validate_sudo_cwd ext cwd =
     (case validate_cwd ext cwd of
        Inl e \<Rightarrow> Inl e
      | Inr cwd' \<Rightarrow>
          (case file_identity_of ext cwd' of Inl e \<Rightarrow> Inl e | Inr i \<Rightarrow> Inr (cwd', i)))"

section \<open>Hash input\<close>

definition hash_input :: "ustring list \<Rightarrow> bytes" where
  "hash_input parts = concat (map (\<lambda>p. be64 (utf8_len p) @ utf8_encode p) parts)"

definition hash_parts :: "access_ext \<Rightarrow> ustring list \<Rightarrow> ustring" where
  "hash_parts ext parts = lit (encode_hex (ax_sha256 ext (hash_input parts)) False)"

section \<open>Shell quoting\<close>

definition shell_plain :: "scalar \<Rightarrow> bool" where
  "shell_plain c \<longleftrightarrow> is_ascii_alphanumeric c \<or> c \<in> set (lit ''_-./:@+=,'')"

definition shell_quote :: "ustring \<Rightarrow> ustring" where
  "shell_quote value =
     (if value \<noteq> [] \<and> list_all shell_plain value then value
      else 39 # concat (map (\<lambda>c. if c = 39 then [39, 92, 39, 39] else [c]) value) @ [39])"

definition command_display :: "ustring list \<Rightarrow> ustring" where
  "command_display command = join_with [32] (map shell_quote command)"

section \<open>Generated secrets\<close>

datatype secret_charset = Alnum | Ascii | Hex | Digits

definition charset_alphabet :: "secret_charset \<Rightarrow> string" where
  "charset_alphabet c =
     (case c of
        Alnum \<Rightarrow> ''ABCDEFGHIJKLMNOPQRSTUVWXYZabcdefghijklmnopqrstuvwxyz0123456789''
      | Ascii \<Rightarrow> ''ABCDEFGHIJKLMNOPQRSTUVWXYZabcdefghijklmnopqrstuvwxyz0123456789!#$%&()*+,-./:;<=>?@[]^_{|}~''
      | Hex \<Rightarrow> ''0123456789abcdef''
      | Digits \<Rightarrow> ''0123456789'')"

text \<open>\<open>draws\<close> are the values \<open>random_range(0..alphabet.len())\<close> returned, one for each character.\<close>

definition generate_secret_value :: "secret_charset \<Rightarrow> nat list \<Rightarrow> ustring" where
  "generate_secret_value charset draws =
     map (\<lambda>index. of_char (charset_alphabet charset ! index)) draws"


section \<open>What the validators accept\<close>

definition env_scalar :: "scalar \<Rightarrow> bool" where
  "env_scalar c \<longleftrightarrow> c = 95 \<or> (65 \<le> c \<and> c \<le> 90) \<or> is_ascii_digit c"

lemma ascii_upper_scalar:
  "ascii_upper c = 95 \<or> is_ascii_alphanumeric (ascii_upper c) \<Longrightarrow> env_scalar (ascii_upper c)"
  by (auto simp: ascii_upper_def env_scalar_def is_ascii_alphanumeric_def is_ascii_alphabetic_def
      is_ascii_digit_def split: if_splits)

lemma ascii_upper_idem [simp]: "ascii_upper (ascii_upper c) = ascii_upper c"
  by (auto simp: ascii_upper_def)

lemma env_scalar_upper: "env_scalar c \<Longrightarrow> ascii_upper c = c"
  by (auto simp: env_scalar_def ascii_upper_def is_ascii_digit_def)

lemma env_scalar_not_space: "env_scalar c \<Longrightarrow> \<not> is_whitespace c"
  by (auto simp: env_scalar_def is_whitespace_def is_ascii_digit_def)

lemma validate_secret_name_form:
  assumes "validate_secret_name v = Inr n"
  shows "n \<noteq> [] \<and> utf8_len n \<le> 128 \<and> list_all env_scalar n \<and> \<not> is_ascii_digit (hd n)"
proof -
  let ?v = "map ascii_upper (trim v)"
  from assms have n: "n = ?v" and ok: "validate_environment_name ?v = Inr ()"
    by (auto simp: validate_secret_name_def Let_def split: sum.splits)
  then obtain f r where f: "?v = f # r" by (auto simp: validate_environment_name_def split: list.splits)
  have "utf8_len ?v \<le> 128" "f = 95 \<or> is_ascii_alphabetic f"
    "list_all (\<lambda>b. b = 95 \<or> is_ascii_alphanumeric b) ?v"
    using ok unfolding f
    by (auto simp: validate_environment_name_def is_ascii_alphanumeric_def split: if_splits)
  moreover have "list_all env_scalar ?v"
    using calculation(3) ascii_upper_scalar by (auto simp: list_all_iff)
  ultimately show ?thesis
    unfolding n f by (auto simp: is_ascii_digit_def is_ascii_alphabetic_def)
qed

lemma dropWhile_none: "\<forall>c \<in> set s. \<not> P c \<Longrightarrow> dropWhile P s = s"
  by (cases s) simp_all

lemma trim_id: "list_all (\<lambda>c. \<not> is_whitespace c) s \<Longrightarrow> trim s = s"
  by (simp add: trim_def trim_start_def trim_end_def dropWhile_none list_all_iff)

text \<open>A validated name is a fixed point: validating it again gives the same name.\<close>

lemma validate_secret_name_idem:
  assumes "validate_secret_name v = Inr n"
  shows "validate_secret_name n = Inr n"
proof -
  note f = validate_secret_name_form [OF assms]
  then have "map ascii_upper n = n"
    by (intro map_idI) (auto simp: list_all_iff env_scalar_upper)
  moreover have "trim n = n"
    using f by (intro trim_id) (auto simp: list_all_iff env_scalar_not_space)
  moreover have "validate_environment_name n = Inr ()"
    using assms by (auto simp: validate_secret_name_def Let_def split: sum.splits)
  ultimately show ?thesis by (simp add: validate_secret_name_def)
qed

section \<open>The hash input is unambiguous\<close>

definition part_ok :: "ustring \<Rightarrow> bool" where
  "part_ok p \<longleftrightarrow> utf8_len p \<le> u64_max \<and> list_all valid_scalar p"

lemma utf8_encode_inj:
  "list_all valid_scalar s \<Longrightarrow> list_all valid_scalar t \<Longrightarrow> utf8_encode s = utf8_encode t \<Longrightarrow> s = t"
  by (metis utf8_lossy_encode)

lemma hash_input_Cons: "hash_input (p # ps) = be64 (utf8_len p) @ utf8_encode p @ hash_input ps"
  by (simp add: hash_input_def)

lemma hash_input_inj:
  "list_all part_ok ps \<Longrightarrow> list_all part_ok qs \<Longrightarrow> hash_input ps = hash_input qs \<Longrightarrow> ps = qs"
proof (induction ps arbitrary: qs)
  case Nil
  show ?case
  proof (cases qs)
    case (Cons q qs')
    with Nil.prems(3) have "length (hash_input (q # qs')) = 0" by (simp add: hash_input_def)
    then show ?thesis by (simp add: hash_input_Cons be64_def)
  qed simp
next
  case (Cons p ps)
  show ?case
  proof (cases qs)
    case Nil
    with Cons.prems(3) have "length (hash_input (p # ps)) = 0" by (simp add: hash_input_def)
    then show ?thesis by (simp add: hash_input_Cons be64_def)
  next
    case q: (Cons q qs')
    have eq: "be64 (utf8_len p) @ utf8_encode p @ hash_input ps
        = be64 (utf8_len q) @ utf8_encode q @ hash_input qs'"
      using Cons.prems(3) by (simp add: q hash_input_Cons)
    then have "be64 (utf8_len p) = be64 (utf8_len q)"
      and rest: "utf8_encode p @ hash_input ps = utf8_encode q @ hash_input qs'"
      by (simp_all add: be64_def append_eq_append_conv)
    then have "utf8_len p = utf8_len q"
      using Cons.prems(1,2) q be_bytes_inj [of 8 "utf8_len p" "utf8_len q"]
      by (simp add: be64_def part_ok_def u64_max_def)
    with rest have "utf8_encode p = utf8_encode q" "hash_input ps = hash_input qs'"
      by (simp_all add: append_eq_append_conv length_utf8_encode)
    with Cons q utf8_encode_inj show ?thesis by (auto simp: part_ok_def)
  qed
qed

section \<open>Shell quoting round trip\<close>

text \<open>How a POSIX shell splits a line of plain characters, single quotes and backslashes.\<close>

datatype sh_mode = ShPlain | ShQuoted | ShEscaped

record sh_state =
  sh_mode :: sh_mode
  sh_word :: "ustring option"
  sh_words :: "ustring list"

definition sh_add :: "scalar \<Rightarrow> sh_state \<Rightarrow> sh_state" where
  "sh_add c s = s\<lparr>sh_word := Some ((case sh_word s of None \<Rightarrow> [] | Some w \<Rightarrow> w) @ [c])\<rparr>"

definition sh_open :: "sh_state \<Rightarrow> sh_state" where
  "sh_open s = s\<lparr>sh_word := Some (case sh_word s of None \<Rightarrow> [] | Some w \<Rightarrow> w)\<rparr>"

definition sh_end :: "sh_state \<Rightarrow> sh_state" where
  "sh_end s = (case sh_word s of None \<Rightarrow> s
     | Some w \<Rightarrow> s\<lparr>sh_word := None, sh_words := sh_words s @ [w]\<rparr>)"

definition sh_step :: "sh_state \<Rightarrow> scalar \<Rightarrow> sh_state" where
  "sh_step s c =
     (case sh_mode s of
        ShPlain \<Rightarrow> (if c = 39 then (sh_open s)\<lparr>sh_mode := ShQuoted\<rparr>
                    else if c = 92 then (sh_open s)\<lparr>sh_mode := ShEscaped\<rparr>
                    else if c = 32 then sh_end s else sh_add c s)
      | ShQuoted \<Rightarrow> (if c = 39 then s\<lparr>sh_mode := ShPlain\<rparr> else sh_add c s)
      | ShEscaped \<Rightarrow> (sh_add c s)\<lparr>sh_mode := ShPlain\<rparr>)"

definition sh_run :: "sh_state \<Rightarrow> ustring \<Rightarrow> sh_state" where
  "sh_run = foldl sh_step"

definition sh_split :: "ustring \<Rightarrow> ustring list" where
  "sh_split line = sh_words (sh_end (sh_run \<lparr>sh_mode = ShPlain, sh_word = None, sh_words = []\<rparr> line))"

interpretation shell: stream_machine sh_step sh_run
  by unfold_locales (simp_all add: sh_run_def)

lemma sh_run_plain:
  "list_all shell_plain v \<Longrightarrow>
     sh_run \<lparr>sh_mode = ShPlain, sh_word = Some w, sh_words = ws\<rparr> v
       = \<lparr>sh_mode = ShPlain, sh_word = Some (w @ v), sh_words = ws\<rparr>"
proof (induction v arbitrary: w)
  case (Cons c v)
  then have "c \<noteq> 39" "c \<noteq> 92" "c \<noteq> 32"
    by (auto simp: shell_plain_def is_ascii_alphanumeric_def is_ascii_alphabetic_def is_ascii_digit_def)
  with Cons show ?case by (simp add: sh_run_def sh_step_def sh_add_def)
qed (simp add: sh_run_def)

lemma sh_run_body:
  "sh_run \<lparr>sh_mode = ShQuoted, sh_word = Some w, sh_words = ws\<rparr>
       (concat (map (\<lambda>c. if c = 39 then [39, 92, 39, 39] else [c]) v))
     = \<lparr>sh_mode = ShQuoted, sh_word = Some (w @ v), sh_words = ws\<rparr>"
  by (induction v arbitrary: w) (simp_all add: sh_run_def sh_step_def sh_add_def sh_open_def)

lemma sh_run_quote:
  "sh_run \<lparr>sh_mode = ShPlain, sh_word = None, sh_words = ws\<rparr> (shell_quote v)
     = \<lparr>sh_mode = ShPlain, sh_word = Some v, sh_words = ws\<rparr>"
proof (cases "v \<noteq> [] \<and> list_all shell_plain v")
  case True
  then obtain c u where v: "v = c # u" "shell_plain c" "list_all shell_plain u" by (cases v) auto
  then have "c \<noteq> 39" "c \<noteq> 92" "c \<noteq> 32"
    by (auto simp: shell_plain_def is_ascii_alphanumeric_def is_ascii_alphabetic_def is_ascii_digit_def)
  with v True show ?thesis
    using sh_run_plain [of u "[c]" ws]
    by (simp add: shell_quote_def shell.run_Cons sh_step_def sh_add_def)
next
  case False
  then have q: "shell_quote v
      = 39 # concat (map (\<lambda>c. if c = 39 then [39, 92, 39, 39] else [c]) v) @ [39]"
    by (auto simp: shell_quote_def)
  show ?thesis
    unfolding q by (simp add: shell.run_Cons shell.run_append sh_run_body sh_step_def sh_open_def)
      (simp add: sh_run_def sh_step_def)
qed

lemma sh_run_display:
  "args \<noteq> [] \<Longrightarrow>
     sh_end (sh_run \<lparr>sh_mode = ShPlain, sh_word = None, sh_words = ws\<rparr> (command_display args))
       = \<lparr>sh_mode = ShPlain, sh_word = None, sh_words = ws @ args\<rparr>"
proof (induction args arbitrary: ws)
  case (Cons a args)
  show ?case
  proof (cases args)
    case Nil
    then show ?thesis by (simp add: command_display_def sh_run_quote sh_end_def)
  next
    case (Cons b bs)
    then have d: "command_display (a # args) = shell_quote a @ [32] @ command_display args"
      by (simp add: command_display_def)
    have sp: "sh_run \<lparr>sh_mode = ShPlain, sh_word = Some a, sh_words = ws\<rparr> [32]
        = \<lparr>sh_mode = ShPlain, sh_word = None, sh_words = ws @ [a]\<rparr>"
      by (simp add: sh_run_def sh_step_def sh_end_def)
    show ?thesis
      unfolding d using Cons.IH [of "ws @ [a]"] Cons
      by (simp only: shell.run_append sh_run_quote sp) simp
  qed
qed simp

section \<open>Properties\<close>

text \<open>
  What the reviewer of a root command is shown is unambiguous: a POSIX shell splits the
  displayed line into exactly the argument vector that will run, whatever characters the
  arguments contain.
\<close>

theorem command_display_roundtrip:
  "sh_split (command_display args) = args"
proof (cases "args = []")
  case True
  then show ?thesis by (simp add: command_display_def sh_split_def sh_run_def sh_end_def)
next
  case False
  then show ?thesis by (simp add: sh_split_def sh_run_display)
qed

text \<open>
  The bytes a request hash and a sudo fingerprint are computed from determine their parts:
  two lists of parts with the same hash input are the same list, so no separator inside a name, a
  command or a description can make two different requests hash alike.
\<close>

theorem hash_input_unambiguous:
  assumes "list_all part_ok ps" "list_all part_ok qs"
  shows "hash_input ps = hash_input qs \<longleftrightarrow> ps = qs"
  using hash_input_inj assms by blast

lemma hash_input_unambiguous_witness:
  "hash_input [[97, 98], [99]] \<noteq> hash_input [[97], [98, 99]]"
proof -
  have "list_all part_ok [[97, 98], [99]]" "list_all part_ok [[97], [98, 99]]"
    by (simp_all add: part_ok_def valid_scalar_def scalar_width_def u64_max_def)
  from hash_input_unambiguous [OF this] show ?thesis by simp
qed

text \<open>
  A secret name the manager accepts, from whatever the caller typed, is a non-empty name of at
  most 128 upper-case letters, digits and underscores that does not start with a digit, and
  validating it again returns it unchanged, so a grant is found again under the name it was
  stored under.
\<close>

theorem secret_name_canonical:
  assumes "validate_secret_name v = Inr n"
  shows "n \<noteq> [] \<and> utf8_len n \<le> 128 \<and> list_all env_scalar n \<and> \<not> is_ascii_digit (hd n)
    \<and> validate_secret_name n = Inr n"
  using validate_secret_name_form [OF assms] validate_secret_name_idem [OF assms] by blast

lemma secret_name_canonical_witness:
  "validate_secret_name (lit '' db_pass1 '') = Inr (lit ''DB_PASS1'')
   \<and> validate_secret_name (lit ''DB_PASS1'') = Inr (lit ''DB_PASS1'')"
proof -
  have v: "validate_secret_name (lit '' db_pass1 '') = Inr (lit ''DB_PASS1'')"
    by (simp add: validate_secret_name_def trim_def trim_start_def trim_end_def is_whitespace_def
        ascii_upper_def validate_environment_name_def is_ascii_alphanumeric_def
        is_ascii_alphabetic_def is_ascii_digit_def scalar_width_def)
  from secret_name_canonical [OF v] v show ?thesis by simp
qed

end
