(* ===== verification/Redactor.thy ===== *)
theory Redactor
  imports AccessText
begin

text \<open>
  The output redactor of \<open>src/src/access.rs\<close>: the encodings of a secret it looks for, the marker it
  writes instead, and the streaming scan of \<open>OutputRedactor::push\<close>, which keeps back enough bytes
  that a match can span two reads.

  The scan is compared with a one-shot scan of the whole output (\<open>redact_all\<close>): what a program
  prints is redacted the same way however its output is cut into reads.
\<close>

section \<open>Encodings of a secret\<close>

definition MIN_DERIVED_SECRET_BYTES :: nat where "MIN_DERIVED_SECRET_BYTES = 4"
definition MAX_DERIVED_SECRET_BYTES :: nat where "MAX_DERIVED_SECRET_BYTES = 1024"

definition without_padding :: "bytes \<Rightarrow> bytes" where
  "without_padding value = rev (dropWhile (\<lambda>b. b = CHR ''='') (rev value))"

definition base32_alphabet :: bytes where
  "base32_alphabet = ''ABCDEFGHIJKLMNOPQRSTUVWXYZ234567''"

text \<open>
  \<open>encode_base32\<close>: the accumulator is a \<open>u16\<close>; \<open>bits\<close> counts the bits of it that are not written
  yet. The inner loop runs while at least five bits are left.
\<close>

function base32_emit :: "16 word \<Rightarrow> nat \<Rightarrow> bytes \<Rightarrow> nat \<times> bytes" where
  "base32_emit accumulator bits output =
     (if 5 \<le> bits
      then base32_emit accumulator (bits - 5)
             (output @ [base32_alphabet ! unat (and (drop_bit (bits - 5) accumulator) 0x1f)])
      else (bits, output))"
  by pat_completeness auto
termination by (relation "measure (\<lambda>(_, bits, _). bits)") auto

declare base32_emit.simps [simp del]

definition base32_step :: "16 word \<times> nat \<times> bytes \<Rightarrow> byte \<Rightarrow> 16 word \<times> nat \<times> bytes" where
  "base32_step s b =
     (case s of (accumulator, bits, output) \<Rightarrow>
        let accumulator' = or (push_bit 8 accumulator) (word_of_nat (byte_val b));
            (bits', output') = base32_emit accumulator' (bits + 8) output
        in (if bits' = 0 then 0 else and accumulator' (push_bit bits' 1 - 1), bits', output'))"

fun base32_pad :: "nat \<Rightarrow> bytes \<Rightarrow> bytes" where
  "base32_pad 0 output = output"
| "base32_pad (Suc fuel) output =
     (if length output mod 8 \<noteq> 0 then base32_pad fuel (output @ [CHR ''='']) else output)"

definition encode_base32 :: "bytes \<Rightarrow> bytes" where
  "encode_base32 value =
     (let (accumulator, bits, output) = foldl base32_step (0, 0, []) value;
          output' = (if 0 < bits
                     then output @ [base32_alphabet ! unat (and (push_bit (5 - bits) accumulator) 0x1f)]
                     else output)
      in base32_pad 8 output')"

text \<open>The hexadecimal digits of a byte string, two by two.\<close>

fun pairs_of :: "bytes \<Rightarrow> bytes list" where
  "pairs_of (a # b # r) = [a, b] # pairs_of r"
| "pairs_of _ = []"

definition encode_percent :: "bytes \<Rightarrow> bool \<Rightarrow> bytes" where
  "encode_percent value lower = concat (map (\<lambda>pr. CHR ''%'' # pr) (pairs_of (encode_hex value (\<not> lower))))"

definition encode_hex_escape :: "bytes \<Rightarrow> bool \<Rightarrow> bytes" where
  "encode_hex_escape value upper =
     concat (map (\<lambda>pr. [CHR 0x5C, CHR ''x''] @ pr) (pairs_of (encode_hex value upper)))"

definition encode_unicode_escape :: "bytes \<Rightarrow> bool \<Rightarrow> bytes" where
  "encode_unicode_escape value upper =
     concat (map (\<lambda>pr. [CHR 0x5C, CHR ''u'', CHR ''0'', CHR ''0''] @ pr) (pairs_of (encode_hex value upper)))"

definition digit_byte :: "nat \<Rightarrow> byte" where
  "digit_byte n = char_of (48 + n)"

definition octal_unit :: "bool \<Rightarrow> byte \<Rightarrow> bytes" where
  "octal_unit escaped b =
     (if escaped then [CHR 0x5C] else [])
       @ [digit_byte (byte_val b div 64 mod 4), digit_byte (byte_val b div 8 mod 8),
          digit_byte (byte_val b mod 8)]"

definition encode_octal :: "bytes \<Rightarrow> bool \<Rightarrow> bool \<Rightarrow> bytes" where
  "encode_octal value escaped spaced =
     concat (map (\<lambda>(index, b). (if spaced \<and> 0 < index then [CHR '' ''] else []) @ octal_unit escaped b)
       (enumerate 0 value))"

definition binary_unit :: "byte \<Rightarrow> bytes" where
  "binary_unit b = map (\<lambda>shift. digit_byte (byte_val b div 2 ^ shift mod 2)) [7, 6, 5, 4, 3, 2, 1, 0]"

definition encode_binary :: "bytes \<Rightarrow> bool \<Rightarrow> bytes" where
  "encode_binary value spaced =
     concat (map (\<lambda>(index, b). (if spaced \<and> 0 < index then [CHR '' ''] else []) @ binary_unit b)
       (enumerate 0 value))"

definition ascii_lower_byte :: "byte \<Rightarrow> byte" where
  "ascii_lower_byte b = char_of (ascii_lower (byte_val b))"

definition push_secret_variant :: "bytes list \<Rightarrow> bytes \<Rightarrow> bytes list" where
  "push_secret_variant variants value =
     (if value = [] \<or> value \<in> set variants then variants else variants @ [value])"

definition derived_variants :: "access_ext \<Rightarrow> bytes \<Rightarrow> bytes list" where
  "derived_variants ext secret =
     (let base64 = ax_base64 ext secret; base64_url = ax_base64_url ext secret;
          base32 = encode_base32 secret; base32_lower = map ascii_lower_byte base32
      in [without_padding base64, base64, without_padding base64_url, base64_url,
          without_padding base32, without_padding base32_lower, base32, base32_lower,
          encode_hex secret False, encode_hex secret True,
          encode_percent secret False, encode_percent secret True,
          encode_hex_escape secret False, encode_hex_escape secret True,
          encode_unicode_escape secret False, encode_unicode_escape secret True,
          encode_octal secret True False, encode_octal secret False False,
          encode_octal secret False True,
          encode_binary secret False, encode_binary secret True,
          encode_hex (ax_sha256 ext secret) False, encode_hex (ax_sha256 ext secret) True,
          encode_hex (ax_sha512 ext secret) False, encode_hex (ax_sha512 ext secret) True])"

definition secret_redaction_variants :: "access_ext \<Rightarrow> bytes \<Rightarrow> bytes list" where
  "secret_redaction_variants ext secret =
     (let variants = push_secret_variant [] secret in
      if length secret < MIN_DERIVED_SECRET_BYTES \<or> MAX_DERIVED_SECRET_BYTES < length secret
      then variants
      else foldl push_secret_variant variants (derived_variants ext secret))"

section \<open>The marker\<close>

definition contains_slice :: "bytes \<Rightarrow> bytes \<Rightarrow> bool" where
  "contains_slice haystack needle \<longleftrightarrow>
     needle \<noteq> [] \<and> length needle \<le> length haystack
       \<and> list_ex (\<lambda>i. take (length needle) (drop i haystack) = needle)
           [0..<length haystack - length needle + 1]"

definition marker_ok :: "bytes list \<Rightarrow> bytes \<Rightarrow> bool" where
  "marker_ok patterns candidate \<longleftrightarrow> \<not> list_ex (\<lambda>p. contains_slice candidate p) patterns"

definition redaction_marker :: "ustring \<Rightarrow> bytes list \<Rightarrow> bytes" where
  "redaction_marker name patterns =
     (case List.find (marker_ok patterns)
             [''[REDACTED: '' @ utf8_encode name @ '']'', ''[REDACTED: SECRET]'', ''[REDACTED]'', ''<filtered>''] of
        Some candidate \<Rightarrow> candidate
      | None \<Rightarrow>
          (case List.find (marker_ok patterns) (map (\<lambda>n. [char_of n]) [33..<127]) of
             Some candidate \<Rightarrow> candidate | None \<Rightarrow> []))"

section \<open>The redactor\<close>

record output_redactor =
  or_patterns :: "bytes list"
  or_replacement :: bytes
  or_pending :: bytes
  or_max_len :: nat

definition redactor_new :: "access_ext \<Rightarrow> (ustring \<times> bytes) option \<Rightarrow> output_redactor" where
  "redactor_new ext secret =
     (case (case secret of None \<Rightarrow> None | Some (name, value) \<Rightarrow> if value = [] then None else Some (name, value)) of
        None \<Rightarrow> \<lparr>or_patterns = [], or_replacement = ''[REDACTED]'', or_pending = [], or_max_len = 1\<rparr>
      | Some (name, value) \<Rightarrow>
          (let patterns = rev (sort_key length (rev (secret_redaction_variants ext value)));
               max_len = (if patterns = [] then 1 else Max (set (map length patterns)))
           in \<lparr>or_patterns = patterns, or_replacement = redaction_marker name patterns,
               or_pending = [], or_max_len = max_len\<rparr>))"

definition first_match :: "bytes list \<Rightarrow> bytes \<Rightarrow> nat option" where
  "first_match patterns rest = map_option length (List.find (\<lambda>p. starts_with rest p) patterns)"

text \<open>
  The scan: \<open>limit\<close> is how many more bytes of the pending buffer it may still start at. Patterns
  are never empty (\<open>push_secret_variant\<close> drops an empty one), so a match always advances.
\<close>

function redact_scan :: "bytes list \<Rightarrow> bytes \<Rightarrow> nat \<Rightarrow> bytes \<Rightarrow> bytes \<times> bytes" where
  "redact_scan patterns replacement limit pending =
     (if limit = 0 then ([], pending)
      else (case pending of
              [] \<Rightarrow> ([], [])
            | b # rest \<Rightarrow>
                (case first_match patterns pending of
                   Some n \<Rightarrow>
                     (let (out, left) = redact_scan patterns replacement (limit - max 1 n) (drop (max 1 n) pending)
                      in (replacement @ out, left))
                 | None \<Rightarrow>
                     (let (out, left) = redact_scan patterns replacement (limit - 1) rest
                      in (b # out, left)))))"
  by pat_completeness auto
termination by (relation "measure (\<lambda>(_, _, limit, _). limit)") auto

declare redact_scan.simps [simp del]

definition redactor_push :: "output_redactor \<Rightarrow> bytes \<Rightarrow> bool \<Rightarrow> bytes \<times> output_redactor" where
  "redactor_push r bs final_chunk =
     (if or_patterns r = [] then (bs, r)
      else (let pending = or_pending r @ bs;
                limit = (if final_chunk then length pending else length pending - (or_max_len r - 1));
                (out, left) = redact_scan (or_patterns r) (or_replacement r) limit pending
            in (out, r\<lparr>or_pending := left\<rparr>)))"

text \<open>The output loop of a command: every read is pushed, then the end is flushed.\<close>

fun redact_stream :: "output_redactor \<Rightarrow> bytes list \<Rightarrow> bytes" where
  "redact_stream r [] = fst (redactor_push r [] True)"
| "redact_stream r (c # cs) =
     (let (out, r') = redactor_push r c False in out @ redact_stream r' cs)"


section \<open>The scan and the one-shot scan\<close>

definition redact_all :: "bytes list \<Rightarrow> bytes \<Rightarrow> bytes \<Rightarrow> bytes" where
  "redact_all patterns replacement bs = fst (redact_scan patterns replacement (length bs) bs)"

definition patterns_ok :: "bytes list \<Rightarrow> nat \<Rightarrow> bool" where
  "patterns_ok patterns m \<longleftrightarrow> 1 \<le> m \<and> (\<forall>p \<in> set patterns. p \<noteq> [] \<and> length p \<le> m)"

lemma find_cong_set: "(\<And>x. x \<in> set xs \<Longrightarrow> P x = Q x) \<Longrightarrow> List.find P xs = List.find Q xs"
  by (induction xs) auto

lemma starts_with_more:
  "length p \<le> length bs \<Longrightarrow> starts_with (bs @ tail) p = starts_with bs p"
  by (simp add: starts_with_def)

lemma starts_with_length: "starts_with bs p \<Longrightarrow> length p \<le> length bs"
  by (auto simp: starts_with_iff)

lemma first_match_more:
  "patterns_ok patterns m \<Longrightarrow> m \<le> length bs \<Longrightarrow>
     first_match patterns (bs @ tail) = first_match patterns bs"
  unfolding first_match_def
  by (intro arg_cong [of _ _ "map_option length"] find_cong_set)
    (auto simp: patterns_ok_def starts_with_more intro: order_trans)

lemma first_match_Some:
  assumes "patterns_ok patterns m" "first_match patterns bs = Some n"
  shows "1 \<le> n \<and> n \<le> length bs \<and> take n bs \<in> set patterns"
proof -
  obtain p where "List.find (\<lambda>p. starts_with bs p) patterns = Some p" and n: "n = length p"
    using assms(2) by (auto simp: first_match_def)
  then have p: "p \<in> set patterns" "starts_with bs p" by (auto simp: find_Some_iff)
  then have "p \<noteq> []" using assms(1) by (auto simp: patterns_ok_def)
  with p starts_with_length [OF p(2)] n show ?thesis
    by (simp add: starts_with_def Suc_le_eq)
qed

lemma first_match_None: "first_match patterns bs = None \<Longrightarrow> p \<in> set patterns \<Longrightarrow> \<not> starts_with bs p"
  by (auto simp: first_match_def find_None_iff)

lemma redact_all_Nil [simp]: "redact_all patterns replacement [] = []"
  by (simp add: redact_all_def redact_scan.simps)

lemma redact_all_Cons:
  assumes "patterns_ok patterns m"
  shows "redact_all patterns replacement (b # rest) =
     (case first_match patterns (b # rest) of
        Some n \<Rightarrow> replacement @ redact_all patterns replacement (drop n (b # rest))
      | None \<Rightarrow> b # redact_all patterns replacement rest)"
proof (cases "first_match patterns (b # rest)")
  case None
  then show ?thesis by (simp add: redact_all_def redact_scan.simps [of _ _ "Suc _"] split: prod.splits)
next
  case (Some n)
  with first_match_Some [OF assms Some] have "max 1 n = n" by simp
  with Some show ?thesis
    by (simp add: redact_all_def redact_scan.simps [of _ _ "Suc _"] split: prod.splits)
qed

lemma redact_scan_more:
  "patterns_ok patterns m \<Longrightarrow> limit \<le> length pending - (m - 1) \<Longrightarrow>
     redact_scan patterns replacement limit pending = (out, left) \<Longrightarrow>
     redact_all patterns replacement (pending @ tail) = out @ redact_all patterns replacement (left @ tail)"
proof (induction patterns replacement limit pending arbitrary: out left rule: redact_scan.induct)
  case (1 patterns replacement limit pending)
  note ok = "1.prems"(1)
  show ?case
  proof (cases "limit = 0 \<or> pending = []")
    case True
    with "1.prems"(3) show ?thesis
      by (subst (asm) redact_scan.simps) (auto split: list.splits)
  next
    case False
    then obtain b rest where p: "pending = b # rest" by (cases pending) auto
    have "m \<le> length pending" using "1.prems"(2) False ok by (auto simp: patterns_ok_def)
    then have same: "first_match patterns (b # rest @ tail) = first_match patterns pending"
      using first_match_more [OF ok, of pending tail] p by simp
    show ?thesis
    proof (cases "first_match patterns pending")
      case None
      obtain out' left' where rec: "redact_scan patterns replacement (limit - 1) rest = (out', left')"
        by (cases "redact_scan patterns replacement (limit - 1) rest")
      have res: "out = b # out'" "left = left'"
        using "1.prems"(3) False p None rec by (subst (asm) redact_scan.simps; simp)+
      have "redact_all patterns replacement (rest @ tail) = out' @ redact_all patterns replacement (left' @ tail)"
        by (rule "1.IH"(1) [OF _ p None ok _ rec]) (use False p "1.prems"(2) ok in \<open>auto simp: patterns_ok_def\<close>)
      then show ?thesis
        using None same by (simp add: p res redact_all_Cons [OF ok])
    next
      case (Some n)
      then have n: "1 \<le> n" "n \<le> length pending" using first_match_Some [OF ok] by auto
      have mx: "max 1 n = n" using n by simp
      obtain out' left' where rec: "redact_scan patterns replacement (limit - max 1 n) (drop (max 1 n) pending) = (out', left')"
        by (cases "redact_scan patterns replacement (limit - max 1 n) (drop (max 1 n) pending)")
      have res: "out = replacement @ out'" "left = left'"
        using "1.prems"(3) False p Some rec by (subst (asm) redact_scan.simps; simp)+
      have "limit - max 1 n \<le> length (drop (max 1 n) pending) - (m - 1)"
        using "1.prems"(2) by simp
      then have "redact_all patterns replacement (drop (max 1 n) pending @ tail)
          = out' @ redact_all patterns replacement (left' @ tail)"
        by (intro "1.IH"(2) [OF _ p Some ok _ rec]) (use False in auto)
      then have "redact_all patterns replacement (drop n pending @ tail)
          = out' @ redact_all patterns replacement (left' @ tail)"
        by (simp only: mx)
      moreover have "drop n (b # rest @ tail) = drop n (b # rest) @ tail"
        using n(2) p by (cases n) simp_all
      ultimately show ?thesis
        using Some same p res by (simp add: redact_all_Cons [OF ok])
    qed
  qed
qed

lemma redact_scan_full_left:
  "patterns_ok patterns m \<Longrightarrow> redact_scan patterns replacement (length bs) bs = (out, left) \<Longrightarrow> left = []"
proof (induction "length bs" arbitrary: bs out rule: less_induct)
  case less
  show ?case
  proof (cases bs)
    case Nil
    with less.prems show ?thesis by (simp add: redact_scan.simps)
  next
    case (Cons b rest)
    show ?thesis
    proof (cases "first_match patterns bs")
      case None
      then show ?thesis
        using less.hyps [of rest] less.prems Cons
        by (subst (asm) redact_scan.simps) (auto split: prod.splits)
    next
      case (Some n)
      then have n: "1 \<le> n" "n \<le> length bs" "max 1 n = n"
        using first_match_Some [OF less.prems(1)] by auto
      then show ?thesis
        using less.hyps [of "drop n bs"] less.prems Cons Some
        by (subst (asm) redact_scan.simps) (auto split: prod.splits)
    qed
  qed
qed

definition redactor_ok :: "output_redactor \<Rightarrow> bool" where
  "redactor_ok r \<longleftrightarrow> (or_patterns r = [] \<longrightarrow> or_pending r = []) \<and> patterns_ok (or_patterns r) (or_max_len r)"

definition redact_of :: "output_redactor \<Rightarrow> bytes \<Rightarrow> bytes" where
  "redact_of r bs = redact_all (or_patterns r) (or_replacement r) bs"

lemma redact_of_no_patterns: "or_patterns r = [] \<Longrightarrow> redact_of r bs = bs"
proof (induction bs)
  case (Cons b bs)
  then have "first_match [] (b # bs) = None" by (simp add: first_match_def)
  with Cons show ?case
    using redact_all_Cons [of "[]" 1 "or_replacement r" b bs]
    by (simp add: redact_of_def patterns_ok_def)
qed (simp add: redact_of_def)

text \<open>How the output of a command is cut into reads does not change what is redacted.\<close>

lemma redact_stream_all:
  "redactor_ok r \<Longrightarrow> redact_stream r chunks = redact_of r (or_pending r @ concat chunks)"
proof (induction chunks arbitrary: r)
  case Nil
  show ?case
    using Nil redact_of_no_patterns [of r "[]"]
    by (auto simp: redactor_push_def redactor_ok_def redact_of_def redact_all_def Let_def split: prod.splits)
next
  case (Cons c cs)
  show ?case
  proof (cases "or_patterns r = []")
    case True
    then show ?thesis
      using Cons by (simp add: redactor_push_def redactor_ok_def redact_of_no_patterns)
  next
    case False
    obtain out left where sc: "redact_scan (or_patterns r) (or_replacement r)
        (length (or_pending r @ c) - (or_max_len r - 1)) (or_pending r @ c) = (out, left)"
      by (cases "redact_scan (or_patterns r) (or_replacement r)
        (length (or_pending r @ c) - (or_max_len r - 1)) (or_pending r @ c)")
    let ?r = "r\<lparr>or_pending := left\<rparr>"
    have "redactor_ok ?r" using Cons.prems False by (simp add: redactor_ok_def)
    then have "redact_stream ?r cs = redact_of r (left @ concat cs)"
      using Cons.IH [of ?r] by (simp add: redact_of_def)
    moreover have "redact_of r ((or_pending r @ c) @ concat cs) = out @ redact_of r (left @ concat cs)"
      unfolding redact_of_def
      by (rule redact_scan_more [OF _ _ sc, of "or_max_len r"]) (use Cons.prems in \<open>simp_all add: redactor_ok_def\<close>)
    moreover have "redactor_push r c False = (out, ?r)"
      using False sc by (simp add: redactor_push_def Let_def)
    ultimately show ?thesis by simp
  qed
qed


section \<open>The patterns of a secret\<close>

lemma push_secret_variant_set: "set (push_secret_variant vs v) = set vs \<union> (if v = [] then {} else {v})"
  by (auto simp: push_secret_variant_def)

lemma foldl_push_variant_set:
  "set (foldl push_secret_variant vs ws) = set vs \<union> (set ws - {[]})"
  by (induction ws arbitrary: vs) (auto simp: push_secret_variant_set)

lemma secret_variants_nonempty: "[] \<notin> set (secret_redaction_variants ext v)"
  by (auto simp: secret_redaction_variants_def Let_def foldl_push_variant_set push_secret_variant_set)

lemma secret_in_variants: "v \<noteq> [] \<Longrightarrow> v \<in> set (secret_redaction_variants ext v)"
  by (auto simp: secret_redaction_variants_def Let_def foldl_push_variant_set push_secret_variant_set)

lemma derived_in_variants:
  "MIN_DERIVED_SECRET_BYTES \<le> length v \<Longrightarrow> length v \<le> MAX_DERIVED_SECRET_BYTES \<Longrightarrow>
     w \<in> set (derived_variants ext v) \<Longrightarrow> w \<noteq> [] \<Longrightarrow> w \<in> set (secret_redaction_variants ext v)"
  by (auto simp: secret_redaction_variants_def Let_def foldl_push_variant_set)

lemma redactor_new_patterns:
  "v \<noteq> [] \<Longrightarrow> set (or_patterns (redactor_new ext (Some (n, v)))) = set (secret_redaction_variants ext v)"
  by (simp add: redactor_new_def Let_def)

lemma redactor_new_ok: "redactor_ok (redactor_new ext sec)"
proof (cases "case sec of None \<Rightarrow> True | Some (n, v) \<Rightarrow> v = []")
  case True
  then show ?thesis
    by (auto simp: redactor_new_def redactor_ok_def patterns_ok_def split: option.splits prod.splits)
next
  case False
  then obtain n v where s: "sec = Some (n, v)" and v: "v \<noteq> []" by (auto split: option.splits)
  let ?ps = "rev (sort_key length (rev (secret_redaction_variants ext v)))"
  have set: "set ?ps = set (secret_redaction_variants ext v)" by simp
  have ne: "?ps \<noteq> []" using secret_in_variants [OF v, of ext] set by (metis empty_iff set_empty)
  have "length p \<le> Max (set (map length ?ps))" if "p \<in> set ?ps" for p
    using that by (intro Max_ge) auto
  moreover have "p \<noteq> []" if "p \<in> set ?ps" for p
    using that set secret_variants_nonempty [of ext v] by auto
  moreover have "1 \<le> Max (set (map length ?ps))"
    using calculation secret_in_variants [OF v, of ext] v set
    by (metis One_nat_def Suc_leI length_greater_0_conv order_trans)
  ultimately show ?thesis
    using v ne by (simp add: s redactor_new_def redactor_ok_def patterns_ok_def Let_def)
qed

lemma redactor_new_pending [simp]: "or_pending (redactor_new ext sec) = []"
  by (auto simp: redactor_new_def Let_def split: option.splits)

lemma redaction_marker_ok: "redaction_marker name ps = [] \<or> marker_ok ps (redaction_marker name ps)"
  by (auto simp: redaction_marker_def find_Some_iff split: option.split)

section \<open>Segments\<close>

text \<open>The output of a redactor as segments of its input: a byte that is kept, or a match.\<close>

datatype segment = Kept byte | Hidden bytes

fun seg_in :: "segment \<Rightarrow> bytes" where
  "seg_in (Kept b) = [b]"
| "seg_in (Hidden p) = p"

fun seg_out :: "bytes \<Rightarrow> segment \<Rightarrow> bytes" where
  "seg_out replacement (Kept b) = [b]"
| "seg_out replacement (Hidden p) = replacement"

definition segs_in :: "segment list \<Rightarrow> bytes" where
  "segs_in segs = concat (map seg_in segs)"

definition segs_out :: "bytes \<Rightarrow> segment list \<Rightarrow> bytes" where
  "segs_out replacement segs = concat (map (seg_out replacement) segs)"

lemma segs_simps [simp]:
  "segs_in [] = []" "segs_in (s # ss) = seg_in s @ segs_in ss"
  "segs_out r [] = []" "segs_out r (s # ss) = seg_out r s @ segs_out r ss"
  by (simp_all add: segs_in_def segs_out_def)

text \<open>Every match is a pattern, and no pattern starts at a byte that is kept.\<close>

fun segs_ok :: "bytes list \<Rightarrow> segment list \<Rightarrow> bool" where
  "segs_ok patterns [] \<longleftrightarrow> True"
| "segs_ok patterns (Hidden p # ss) \<longleftrightarrow> p \<in> set patterns \<and> segs_ok patterns ss"
| "segs_ok patterns (Kept b # ss) \<longleftrightarrow>
     \<not> list_ex (\<lambda>p. starts_with (b # segs_in ss) p) patterns \<and> segs_ok patterns ss"

lemma redact_all_segments:
  "patterns_ok patterns m \<Longrightarrow>
     \<exists>segs. segs_in segs = bs \<and> segs_out r segs = redact_all patterns r bs \<and> segs_ok patterns segs"
proof (induction "length bs" arbitrary: bs rule: less_induct)
  case less
  show ?case
  proof (cases bs)
    case Nil
    then show ?thesis by (intro exI [of _ "[]"]) simp
  next
    case (Cons b rest)
    show ?thesis
    proof (cases "first_match patterns bs")
      case None
      obtain segs where "segs_in segs = rest" "segs_out r segs = redact_all patterns r rest"
        "segs_ok patterns segs"
        using less.hyps [of rest] less.prems Cons by auto
      then show ?thesis
        using None Cons first_match_None [OF None] redact_all_Cons [OF less.prems]
        by (intro exI [of _ "Kept b # segs"]) (auto simp: list_ex_iff)
    next
      case (Some n)
      note n = first_match_Some [OF less.prems Some]
      then have lt: "length (drop n bs) < length bs" by (cases bs) auto
      obtain segs where "segs_in segs = drop n bs" "segs_out r segs = redact_all patterns r (drop n bs)"
        "segs_ok patterns segs"
        using less.hyps [OF lt less.prems] by auto
      then show ?thesis
        using Some Cons n redact_all_Cons [OF less.prems, of r b rest]
        by (intro exI [of _ "Hidden (take n bs) # segs"]) simp
    qed
  qed
qed

section \<open>Properties\<close>



text \<open>
  \<open>stream_child\<close> sends the reads of standard output and of standard error through one redactor, in
  the order they arrive. The hypothesis under which the secret is found is therefore on the merged
  stream: a secret that a program writes to standard output in two reads is not redacted when a
  read of standard error arrives between them.
\<close>

lemma short_variants: "redactor_new ext (Some (n, ''pw'')) =
   \<lparr>or_patterns = [''pw''], or_replacement = redaction_marker n [''pw''], or_pending = [], or_max_len = 2\<rparr>"
  by (simp add: redactor_new_def secret_redaction_variants_def push_secret_variant_def
      MIN_DERIVED_SECRET_BYTES_def Let_def)

lemma interleaved_reads_not_redacted:
  "redact_stream (redactor_new ext (Some (n, ''pw''))) [''p'', ''!'', ''w''] = ''p!w''"
  by (simp add: short_variants redactor_push_def redact_scan.simps first_match_def starts_with_def Let_def)

lemma one_stream_redacted:
  "redact_stream (redactor_new ext (Some (n, ''pw''))) [''p'', ''w''] = redaction_marker n [''pw'']"
  by (simp add: short_variants redactor_push_def redact_scan.simps first_match_def starts_with_def Let_def)

end
