(* ===== verification/AccessState.thy ===== *)
theory AccessState
  imports Redactor "HOL-Library.List_Lexorder"
begin

text \<open>
  The state and the operations of \<open>AccessManager\<close> (\<open>src/src/access.rs\<close>): requests of agents for
  secrets and root commands, the grants the user gave, the values offered back to the user, the
  commands running with a secret, and the activity log.

  \<^item> An operation takes an \<open>env\<close>: the clock, the UUID it draws for the object it creates, and the
    UUIDs of the activity entries it writes (indexed by the revision at which they are written).
    The clock is read once for each operation.
  \<^item> It returns its result, the new state, and what it sent: \<open>Send i e\<close> is the event \<open>e\<close> on the
    broadcast channel of the request or share \<open>i\<close>, \<open>Cancel i\<close> the cancellation of execution \<open>i\<close>.
  \<^item> An operation that fails may have changed the state: expired shares are resolved first.
\<close>

section \<open>Data\<close>

datatype request_kind = Secret | Sudo

datatype request_state = Pending | Authenticating | Running

datatype activity_status =
  Approved | Rejected | Revoked | Failed | Canceled | Shared | Viewed | Dismissed | Expired

datatype share_state = SharePending | ShareViewed | ShareDismissed | ShareExpired

datatype agent_event =
    EvWaiting uuid
  | EvRunning "uuid option"
  | EvOutput bytes
  | EvGranted ustring
  | EvRejected "ustring option"
  | EvCompleted int
  | EvFailed ustring
  | EvViewed ustring
  | EvDismissed ustring
  | EvExpired ustring

definition event_terminal :: "agent_event \<Rightarrow> bool" where
  "event_terminal e =
     (case e of EvWaiting _ \<Rightarrow> False | EvRunning _ \<Rightarrow> False | EvOutput _ \<Rightarrow> False | _ \<Rightarrow> True)"

record sudo_review =
  sr_command :: "ustring list"
  sr_display :: ustring
  sr_cwd :: path
  sr_hash :: ustring
  sr_identity :: file_identity
  sr_cwd_identity :: file_identity
  sr_fingerprint :: ustring

datatype pending_kind = SecretKind ustring | SudoKind sudo_review

record pending_request =
  rq_id :: uuid
  rq_terminal :: uuid
  rq_hash :: ustring
  rq_kind :: pending_kind
  rq_state :: request_state
  rq_description :: ustring
  rq_agent :: ustring
  rq_created :: nat
  rq_waiters :: nat

record secret_grant =
  gr_id :: uuid
  gr_terminal :: uuid
  gr_name :: ustring
  gr_source :: ustring
  gr_created :: nat
  gr_uses :: nat
  gr_last_used :: "nat option"
  gr_last_command :: "ustring option"
  gr_value :: ustring

record secret_share =
  sh_id :: uuid
  sh_terminal :: uuid
  sh_name :: ustring
  sh_description :: "ustring option"
  sh_agent :: ustring
  sh_state :: share_state
  sh_created :: nat
  sh_expires :: nat
  sh_viewed :: "nat option"
  sh_resolved :: "nat option"
  sh_waiters :: nat
  sh_value :: ustring

record activity_view =
  av_id :: uuid
  av_kind :: request_kind
  av_status :: activity_status
  av_title :: ustring
  av_detail :: ustring
  av_created :: nat

record activity_record =
  ar_terminal :: uuid
  ar_view :: activity_view

record access_state =
  as_revision :: "64 word"
  as_requests :: "(uuid, pending_request) hmap"
  as_grants :: "(uuid, secret_grant) hmap"
  as_shares :: "(uuid, secret_share) hmap"
  as_executions :: "(uuid, uuid) hmap"
  as_activity :: "activity_record list"

record access_env =
  en_now :: nat
  en_id :: uuid
  en_act :: "64 word \<Rightarrow> uuid"

datatype access_out = Send uuid agent_event | Cancel uuid

datatype subscription = Immediate agent_event | Request uuid | Execution uuid

type_synonym 'a access_result = "(access_error + 'a) \<times> access_state \<times> access_out list"

definition ACCESS_ACTIVITY_LIMIT :: nat where "ACCESS_ACTIVITY_LIMIT = 100"
definition MAX_PENDING_REQUESTS_PER_TERMINAL :: nat where "MAX_PENDING_REQUESTS_PER_TERMINAL = 32"
definition MAX_SECRET_GRANTS_PER_TERMINAL :: nat where "MAX_SECRET_GRANTS_PER_TERMINAL = 64"
definition MAX_SECRET_EXECUTIONS_PER_TERMINAL :: nat where "MAX_SECRET_EXECUTIONS_PER_TERMINAL = 8"
definition MAX_SECRET_SHARES_PER_TERMINAL :: nat where "MAX_SECRET_SHARES_PER_TERMINAL = 32"
definition MAX_PENDING_SECRET_SHARES_PER_TERMINAL :: nat where "MAX_PENDING_SECRET_SHARES_PER_TERMINAL = 8"
definition SECRET_SHARE_TTL_MILLIS :: nat where "SECRET_SHARE_TTL_MILLIS = 60 * 60 * 1000"
definition RESOLVED_SECRET_SHARE_RETENTION_MILLIS :: nat where
  "RESOLVED_SECRET_SHARE_RETENTION_MILLIS = 6 * 60 * 60 * 1000"
definition MIN_GENERATED_SECRET_CHARS :: nat where "MIN_GENERATED_SECRET_CHARS = 8"
definition MAX_GENERATED_SECRET_CHARS :: nat where "MAX_GENERATED_SECRET_CHARS = 256"
definition DEFAULT_GENERATED_SECRET_CHARS :: nat where "DEFAULT_GENERATED_SECRET_CHARS = 32"

definition access_init :: access_state where
  "access_init = \<lparr>as_revision = 0, as_requests = [], as_grants = [], as_shares = [],
     as_executions = [], as_activity = []\<rparr>"

section \<open>Helpers\<close>

definition bump :: "access_state \<Rightarrow> access_state" where
  "bump s = s\<lparr>as_revision := as_revision s + 1\<rparr>"

definition push_log :: "activity_record \<Rightarrow> activity_record list \<Rightarrow> activity_record list" where
  "push_log e activity = take ACCESS_ACTIVITY_LIMIT (e # activity)"

definition push_activity ::
    "access_env \<Rightarrow> access_state \<Rightarrow> uuid \<Rightarrow> request_kind \<Rightarrow> activity_status \<Rightarrow> ustring \<Rightarrow> ustring
       \<Rightarrow> access_state" where
  "push_activity env s terminal kind status title detail =
     bump (s\<lparr>as_activity := push_log
       \<lparr>ar_terminal = terminal,
        ar_view = \<lparr>av_id = en_act env (as_revision s), av_kind = kind, av_status = status,
                   av_title = title, av_detail = detail, av_created = en_now env\<rparr>\<rparr>
       (as_activity s)\<rparr>)"

definition kind_of :: "pending_kind \<Rightarrow> request_kind" where
  "kind_of k = (case k of SecretKind _ \<Rightarrow> Secret | SudoKind _ \<Rightarrow> Sudo)"

definition kind_summary :: "pending_kind \<Rightarrow> ustring" where
  "kind_summary k = (case k of SecretKind name \<Rightarrow> name | SudoKind r \<Rightarrow> sr_display r)"

definition is_secret_named :: "ustring \<Rightarrow> pending_kind \<Rightarrow> bool" where
  "is_secret_named name k = (case k of SecretKind n \<Rightarrow> n = name | SudoKind _ \<Rightarrow> False)"

definition is_sudo_print :: "ustring \<Rightarrow> pending_kind \<Rightarrow> bool" where
  "is_sudo_print fingerprint k =
     (case k of SecretKind _ \<Rightarrow> False | SudoKind r \<Rightarrow> sr_fingerprint r = fingerprint)"

definition grant_for :: "uuid \<Rightarrow> ustring \<Rightarrow> secret_grant \<Rightarrow> bool" where
  "grant_for tid name g \<longleftrightarrow> gr_terminal g = tid \<and> gr_name g = name"

definition secret_waiting :: "uuid \<Rightarrow> ustring \<Rightarrow> pending_request \<Rightarrow> bool" where
  "secret_waiting tid name r \<longleftrightarrow>
     rq_terminal r = tid \<and> rq_state r = Pending \<and> is_secret_named name (rq_kind r)"

definition sudo_waiting :: "uuid \<Rightarrow> ustring \<Rightarrow> pending_request \<Rightarrow> bool" where
  "sudo_waiting tid fingerprint r \<longleftrightarrow>
     rq_terminal r = tid \<and> rq_state r = Pending \<and> is_sudo_print fingerprint (rq_kind r)"

definition share_open :: "uuid \<Rightarrow> ustring \<Rightarrow> secret_share \<Rightarrow> bool" where
  "share_open tid name sh \<longleftrightarrow> sh_terminal sh = tid \<and> sh_state sh = SharePending \<and> sh_name sh = name"

definition count_values :: "('v \<Rightarrow> bool) \<Rightarrow> ('k, 'v) hmap \<Rightarrow> nat" where
  "count_values P m = length (filter P (hm_values m))"

text \<open>\<open>values_mut().find(..)\<close>: the key and the value of the first entry that satisfies \<open>P\<close>.\<close>

definition hm_find :: "('v \<Rightarrow> bool) \<Rightarrow> ('k, 'v) hmap \<Rightarrow> ('k \<times> 'v) option" where
  "hm_find P m = List.find (\<lambda>(_, v). P v) m"

definition grant_new :: "access_env \<Rightarrow> uuid \<Rightarrow> ustring \<Rightarrow> ustring \<Rightarrow> ustring \<Rightarrow> secret_grant" where
  "grant_new env tid name source value =
     \<lparr>gr_id = en_id env, gr_terminal = tid, gr_name = name, gr_source = source,
      gr_created = en_now env, gr_uses = 0, gr_last_used = None, gr_last_command = None,
      gr_value = value\<rparr>"

definition resolve_share :: "share_state \<Rightarrow> nat \<Rightarrow> secret_share \<Rightarrow> secret_share" where
  "resolve_share st now sh = sh\<lparr>sh_state := st, sh_resolved := Some now, sh_value := []\<rparr>"

definition share_due :: "nat \<Rightarrow> secret_share \<Rightarrow> bool" where
  "share_due now sh \<longleftrightarrow> sh_state sh = SharePending \<and> sh_expires sh \<le> now"

definition share_kept :: "nat \<Rightarrow> secret_share \<Rightarrow> bool" where
  "share_kept now sh \<longleftrightarrow> sh_state sh = SharePending
     \<or> (case sh_resolved sh of None \<Rightarrow> True
          | Some r \<Rightarrow> now < sat_add r RESOLVED_SECRET_SHARE_RETENTION_MILLIS)"

definition expire_shares_locked :: "access_env \<Rightarrow> access_state \<Rightarrow> access_state \<times> access_out list" where
  "expire_shares_locked env s =
     (let now = en_now env;
          expired = filter (share_due now) (hm_values (as_shares s));
          s1 = s\<lparr>as_shares := hm_map (\<lambda>sh. if share_due now sh then resolve_share ShareExpired now sh else sh)
                               (as_shares s)\<rparr>;
          s2 = fold (\<lambda>sh s. push_activity env s (sh_terminal sh) Secret Expired
                       (lit ''Shared secret expired unviewed'') (sh_name sh)) expired s1;
          shares = hm_retain (\<lambda>_ sh. share_kept now sh) (as_shares s2);
          s3 = s2\<lparr>as_shares := shares\<rparr>
      in (if length shares \<noteq> length (as_shares s2) then bump s3 else s3,
          map (\<lambda>sh. Send (sh_id sh) (EvExpired (sh_name sh))) expired))"

definition expire_shares_for_grant ::
    "access_env \<Rightarrow> access_state \<Rightarrow> uuid \<Rightarrow> ustring \<Rightarrow> ustring \<Rightarrow> access_state \<times> access_out list" where
  "expire_shares_for_grant env s tid name reason =
     (let now = en_now env;
          expired = filter (share_open tid name) (hm_values (as_shares s));
          s1 = s\<lparr>as_shares := hm_map (\<lambda>sh. if share_open tid name sh then resolve_share ShareExpired now sh else sh)
                               (as_shares s)\<rparr>;
          s2 = fold (\<lambda>sh s. push_activity env s tid Secret Expired (lit ''Shared secret withdrawn'')
                       (sh_name sh @ lit '' was '' @ reason @ lit '' before it was viewed'')) expired s1
      in (s2, map (\<lambda>sh. Send (sh_id sh) (EvExpired (sh_name sh))) expired))"

end
