(* ===== verification/AccessOps.thy ===== *)
theory AccessOps
  imports AccessState
begin

text \<open>
  The operations of \<open>AccessManager\<close> (\<open>src/src/access.rs\<close>), one definition each, with the guards in
  the order of the code. \<open>approve_sudo\<close> and \<open>run_sudo\<close> are asynchronous: they take the state's lock
  several times, with the sudo program running in between, and are modelled as one operation for
  each critical section, so that other operations may come between them.
\<close>

section \<open>Requests\<close>

definition conflict :: "string \<Rightarrow> access_error" where
  "conflict msg = Conflict (lit msg)"

definition too_many_pending :: "uuid \<Rightarrow> access_state \<Rightarrow> bool" where
  "too_many_pending tid s \<longleftrightarrow> MAX_PENDING_REQUESTS_PER_TERMINAL
     \<le> count_values (\<lambda>r. rq_terminal r = tid \<and> rq_state r = Pending) (as_requests s)"

definition add_waiter :: "uuid \<Rightarrow> access_state \<Rightarrow> access_state" where
  "add_waiter k s =
     s\<lparr>as_requests := AList.map_entry k (\<lambda>r. r\<lparr>rq_waiters := rq_waiters r + 1\<rparr>) (as_requests s)\<rparr>"

definition insert_request ::
    "access_env \<Rightarrow> uuid \<Rightarrow> ustring \<Rightarrow> pending_kind \<Rightarrow> ustring \<Rightarrow> ustring \<Rightarrow> access_state \<Rightarrow> access_state" where
  "insert_request env tid hash kind description agent s =
     bump (s\<lparr>as_requests := AList.update (en_id env)
       \<lparr>rq_id = en_id env, rq_terminal = tid, rq_hash = hash, rq_kind = kind, rq_state = Pending,
        rq_description = description, rq_agent = agent, rq_created = en_now env, rq_waiters = 1\<rparr>
       (as_requests s)\<rparr>)"

definition request_secret ::
    "access_ext \<Rightarrow> access_env \<Rightarrow> access_state \<Rightarrow> uuid \<Rightarrow> ustring \<Rightarrow> ustring \<Rightarrow> ustring
       \<Rightarrow> subscription access_result" where
  "request_secret ext env s tid name_in description_in agent_in =
     (case validate_secret_name name_in of Inl e \<Rightarrow> (Inl e, s, []) | Inr name \<Rightarrow>
      (case validate_description description_in of Inl e \<Rightarrow> (Inl e, s, []) | Inr description \<Rightarrow>
      (case validate_agent agent_in of Inl e \<Rightarrow> (Inl e, s, []) | Inr agent \<Rightarrow>
        (if list_ex (grant_for tid name) (hm_values (as_grants s))
         then (Inr (Immediate (EvGranted name)), s, [])
         else (case hm_find (secret_waiting tid name) (as_requests s) of
                 Some (k, existing) \<Rightarrow>
                   (if rq_description existing \<noteq> description \<or> rq_agent existing \<noteq> agent
                    then (Inl (Conflict (name @ lit '' already has a pending request with a different purpose or agent'')), s, [])
                    else (Inr (Request (rq_id existing)), add_waiter k s, []))
               | None \<Rightarrow>
                   (if too_many_pending tid s
                    then (Inl (conflict ''this terminal already has too many pending access requests''), s, [])
                    else (let hash = hash_parts ext [lit ''secret'', ax_uuid_text ext tid,
                                       ax_uuid_text ext (en_id env), name, description]
                          in (Inr (Request (en_id env)),
                              insert_request env tid hash (SecretKind name) description agent s, []))))))))"

definition identity_label :: "file_identity \<Rightarrow> ustring" where
  "identity_label i = dec_digits (fi_device i) @ [58] @ dec_digits (fi_inode i)"

definition sudo_fingerprint ::
    "access_ext \<Rightarrow> uuid \<Rightarrow> path \<Rightarrow> ustring list \<Rightarrow> ustring \<Rightarrow> file_identity \<Rightarrow> file_identity \<Rightarrow> ustring" where
  "sudo_fingerprint ext tid cwd command digest i cwd_i =
     hash_parts ext [lit ''sudo'', ax_uuid_text ext tid, utf8_lossy cwd, command_display command,
       digest, identity_label i, identity_label cwd_i]"

definition request_sudo ::
    "access_ext \<Rightarrow> access_env \<Rightarrow> access_state \<Rightarrow> uuid \<Rightarrow> ustring \<Rightarrow> ustring \<Rightarrow> path \<Rightarrow> ustring list
       \<Rightarrow> subscription access_result" where
  "request_sudo ext env s tid description_in agent_in cwd_in command_in =
     (case validate_description description_in of Inl e \<Rightarrow> (Inl e, s, []) | Inr description \<Rightarrow>
      (case validate_agent agent_in of Inl e \<Rightarrow> (Inl e, s, []) | Inr agent \<Rightarrow>
      (case validate_sudo_command ext command_in of Inl e \<Rightarrow> (Inl e, s, []) | Inr (command, digest, i) \<Rightarrow>
      (case validate_sudo_cwd ext cwd_in of Inl e \<Rightarrow> (Inl e, s, []) | Inr (cwd, cwd_i) \<Rightarrow>
        (let fingerprint = sudo_fingerprint ext tid cwd command digest i cwd_i in
         case hm_find (sudo_waiting tid fingerprint) (as_requests s) of
           Some (k, existing) \<Rightarrow>
             (if rq_description existing \<noteq> description \<or> rq_agent existing \<noteq> agent
              then (Inl (conflict ''the same root command already has a pending request with a different purpose or agent''), s, [])
              else (Inr (Request (rq_id existing)), add_waiter k s, []))
         | None \<Rightarrow>
             (if too_many_pending tid s
              then (Inl (conflict ''this terminal already has too many pending access requests''), s, [])
              else (let hash = hash_parts ext [lit ''sudo-request'', ax_uuid_text ext tid,
                                 ax_uuid_text ext (en_id env), fingerprint, description];
                        review = \<lparr>sr_command = command, sr_display = command_display command,
                                  sr_cwd = cwd, sr_hash = digest, sr_identity = i,
                                  sr_cwd_identity = cwd_i, sr_fingerprint = fingerprint\<rparr>
                    in (Inr (Request (en_id env)),
                        insert_request env tid hash (SudoKind review) description agent s, []))))))))"

section \<open>Grants\<close>

text \<open>
  The end of \<open>add_secret\<close> and \<open>generate_secret\<close>: the grant goes in, the requests that wait for its
  name are answered and removed.
\<close>

definition grant_name :: "secret_grant \<Rightarrow> access_state \<Rightarrow> access_state \<times> access_out list" where
  "grant_name g s =
     (let waiting = secret_waiting (gr_terminal g) (gr_name g);
          answered = filter (\<lambda>(_, r). waiting r) (as_requests s)
      in (s\<lparr>as_grants := AList.update (gr_id g) g (as_grants s),
            as_requests := hm_retain (\<lambda>_ r. \<not> waiting r) (as_requests s)\<rparr>,
          map (\<lambda>(k, _). Send k (EvGranted (gr_name g))) answered))"

definition grants_full :: "uuid \<Rightarrow> access_state \<Rightarrow> bool" where
  "grants_full tid s \<longleftrightarrow>
     MAX_SECRET_GRANTS_PER_TERMINAL \<le> count_values (\<lambda>g. gr_terminal g = tid) (as_grants s)"

definition add_secret ::
    "access_env \<Rightarrow> access_state \<Rightarrow> uuid \<Rightarrow> ustring \<Rightarrow> ustring \<Rightarrow> ustring option
       \<Rightarrow> secret_grant access_result" where
  "add_secret env s tid name_in value_in description_in =
     (case validate_secret_name name_in of Inl e \<Rightarrow> (Inl e, s, []) | Inr name \<Rightarrow>
      (case validate_secret_value value_in of Inl e \<Rightarrow> (Inl e, s, []) | Inr value \<Rightarrow>
      (case validate_comment description_in of Inl e \<Rightarrow> (Inl e, s, []) | Inr description \<Rightarrow>
        (if list_ex (grant_for tid name) (hm_values (as_grants s))
         then (Inl (Conflict (name @ lit '' is already granted to this terminal'')), s, [])
         else if grants_full tid s
         then (Inl (conflict ''this terminal already has too many secret grants''), s, [])
         else (let g = grant_new env tid name (lit ''Added by you'') value;
                   (s1, out) = grant_name g s
               in (Inr g,
                   push_activity env s1 tid Secret Approved (lit ''Secret added and granted'')
                     (case description of None \<Rightarrow> name | Some d \<Rightarrow> d), out))))))"

definition approve_secret ::
    "access_env \<Rightarrow> access_state \<Rightarrow> uuid \<Rightarrow> uuid \<Rightarrow> ustring \<Rightarrow> ustring \<Rightarrow> secret_grant access_result" where
  "approve_secret env s tid rid hash value_in =
     (case validate_secret_value value_in of Inl e \<Rightarrow> (Inl e, s, []) | Inr value \<Rightarrow>
      (case map_of (as_requests s) rid of None \<Rightarrow> (Inl NotFound, s, []) | Some request \<Rightarrow>
        (if rq_terminal request \<noteq> tid then (Inl NotFound, s, [])
         else if rq_hash request \<noteq> hash then (Inl Stale, s, [])
         else if rq_state request \<noteq> Pending
         then (Inl (conflict ''access request is no longer pending''), s, [])
         else (case rq_kind request of
                 SudoKind _ \<Rightarrow> (Inl (Invalid (lit ''this request does not accept a secret'')), s, [])
               | SecretKind name \<Rightarrow>
                   (if list_ex (grant_for tid name) (hm_values (as_grants s))
                    then (Inl (Conflict (name @ lit '' is already granted to this terminal'')), s, [])
                    else if grants_full tid s
                    then (Inl (conflict ''this terminal already has too many secret grants''), s, [])
                    else (let g = grant_new env tid name (lit ''Approved request'') value;
                              s1 = s\<lparr>as_requests := AList.delete rid (as_requests s),
                                    as_grants := AList.update (gr_id g) g (as_grants s)\<rparr>
                          in (Inr g,
                              push_activity env s1 tid Secret Approved (lit ''Secret request approved'') name,
                              [Send rid (EvGranted name)])))))))"

definition reject ::
    "access_env \<Rightarrow> access_state \<Rightarrow> uuid \<Rightarrow> uuid \<Rightarrow> ustring \<Rightarrow> ustring option \<Rightarrow> unit access_result" where
  "reject env s tid rid hash comment_in =
     (case validate_comment comment_in of Inl e \<Rightarrow> (Inl e, s, []) | Inr comment \<Rightarrow>
      (case map_of (as_requests s) rid of None \<Rightarrow> (Inl NotFound, s, []) | Some request \<Rightarrow>
        (if rq_terminal request \<noteq> tid then (Inl NotFound, s, [])
         else if rq_hash request \<noteq> hash then (Inl Stale, s, [])
         else if rq_state request \<noteq> Pending
         then (Inl (conflict ''access request is no longer pending''), s, [])
         else (let s1 = s\<lparr>as_requests := AList.delete rid (as_requests s)\<rparr>;
                   detail = (case comment of None \<Rightarrow> kind_summary (rq_kind request) | Some c \<Rightarrow> c);
                   title = (case kind_of (rq_kind request) of
                              Secret \<Rightarrow> lit ''Secret request rejected''
                            | Sudo \<Rightarrow> lit ''Root command rejected'')
               in (Inr (),
                   push_activity env s1 tid (kind_of (rq_kind request)) Rejected title detail,
                   [Send rid (EvRejected comment)])))))"

definition revoke_grant :: "access_env \<Rightarrow> access_state \<Rightarrow> uuid \<Rightarrow> uuid \<Rightarrow> unit access_result" where
  "revoke_grant env s tid gid =
     (case map_of (as_grants s) gid of None \<Rightarrow> (Inl NotFound, s, []) | Some g \<Rightarrow>
        (if gr_terminal g \<noteq> tid then (Inl NotFound, s, [])
         else (let s1 = s\<lparr>as_grants := AList.delete gid (as_grants s)\<rparr>;
                   (s2, out) = expire_shares_for_grant env s1 tid (gr_name g) (lit ''revoked'')
               in (Inr (),
                   push_activity env s2 tid Secret Revoked (lit ''Secret grant revoked'') (gr_name g),
                   out))))"

definition drop_grant_by_name :: "access_env \<Rightarrow> access_state \<Rightarrow> uuid \<Rightarrow> ustring \<Rightarrow> unit access_result" where
  "drop_grant_by_name env s tid name_in =
     (case validate_secret_name name_in of Inl e \<Rightarrow> (Inl e, s, []) | Inr name \<Rightarrow>
      (case List.find (grant_for tid name) (hm_values (as_grants s)) of
         None \<Rightarrow> (Inl NotFound, s, [])
       | Some g \<Rightarrow> revoke_grant env s tid (gr_id g)))"

text \<open>\<open>draws i\<close> is the \<open>i\<close>th value drawn by \<open>generate_secret_value\<close>.\<close>

definition generate_secret ::
    "access_env \<Rightarrow> access_state \<Rightarrow> uuid \<Rightarrow> ustring \<Rightarrow> ustring \<Rightarrow> ustring option \<Rightarrow> nat option
       \<Rightarrow> secret_charset \<Rightarrow> bool \<Rightarrow> (nat \<Rightarrow> nat) \<Rightarrow> secret_grant access_result" where
  "generate_secret env s tid name_in agent_in description_in length_in charset replace draws =
     (case validate_secret_name name_in of Inl e \<Rightarrow> (Inl e, s, []) | Inr name \<Rightarrow>
      (case validate_agent agent_in of Inl e \<Rightarrow> (Inl e, s, []) | Inr agent \<Rightarrow>
      (case validate_comment description_in of Inl e \<Rightarrow> (Inl e, s, []) | Inr description \<Rightarrow>
        (let len = (case length_in of None \<Rightarrow> DEFAULT_GENERATED_SECRET_CHARS | Some n \<Rightarrow> n) in
         if len < MIN_GENERATED_SECRET_CHARS \<or> MAX_GENERATED_SECRET_CHARS < len
         then (Inl (Invalid (lit ''generated secret length must be between 8 and 256 characters'')), s, [])
         else (let value = generate_secret_value charset (map draws [0..<len]);
                   existing = List.find (grant_for tid name) (hm_values (as_grants s));
                   go = (\<lambda>s1 out1.
                     if grants_full tid s1
                     then (Inl (conflict ''this terminal already has too many secret grants''), s1, out1)
                     else (let g = grant_new env tid name (lit ''Generated for '' @ agent) value;
                               (s2, out2) = grant_name g s1
                           in (Inr g,
                               push_activity env s2 tid Secret Approved
                                 (lit ''Secret generated and granted'')
                                 (case description of None \<Rightarrow> name | Some d \<Rightarrow> d),
                               out1 @ out2)))
               in case existing of
                    None \<Rightarrow> go s []
                  | Some old \<Rightarrow>
                      (if \<not> replace
                       then (Inl (Conflict (name @ lit '' is already granted to this terminal; drop it or pass --replace to regenerate it'')), s, [])
                       else (let s1 = s\<lparr>as_grants := AList.delete (gr_id old) (as_grants s)\<rparr>;
                                 (s2, out) = expire_shares_for_grant env s1 tid name (lit ''replaced'')
                             in go (push_activity env s2 tid Secret Revoked
                                      (lit ''Secret grant replaced'') name) out)))))))"

section \<open>Shares\<close>

definition share_age :: "secret_share \<Rightarrow> nat" where
  "share_age sh = (case sh_resolved sh of None \<Rightarrow> sh_created sh | Some r \<Rightarrow> r)"

text \<open>The room for one more share: the oldest resolved one goes when the terminal is full.\<close>

definition make_room :: "uuid \<Rightarrow> access_state \<Rightarrow> access_error + access_state" where
  "make_room tid s =
     (if MAX_SECRET_SHARES_PER_TERMINAL \<le> count_values (\<lambda>sh. sh_terminal sh = tid) (as_shares s)
      then (case min_by_key share_age
                   (filter (\<lambda>sh. sh_terminal sh = tid \<and> sh_state sh \<noteq> SharePending) (hm_values (as_shares s))) of
              Some sh \<Rightarrow> Inr (s\<lparr>as_shares := AList.delete (sh_id sh) (as_shares s)\<rparr>)
            | None \<Rightarrow> Inl (conflict ''this terminal already has too many shared secrets''))
      else Inr s)"

definition share_secret_with_ttl ::
    "access_env \<Rightarrow> access_state \<Rightarrow> uuid \<Rightarrow> ustring \<Rightarrow> ustring \<Rightarrow> ustring option \<Rightarrow> nat
       \<Rightarrow> subscription access_result" where
  "share_secret_with_ttl env s tid name_in agent_in description_in ttl_millis =
     (case validate_secret_name name_in of Inl e \<Rightarrow> (Inl e, s, []) | Inr name \<Rightarrow>
      (case validate_agent agent_in of Inl e \<Rightarrow> (Inl e, s, []) | Inr agent \<Rightarrow>
      (case validate_comment description_in of Inl e \<Rightarrow> (Inl e, s, []) | Inr description \<Rightarrow>
        (let now = en_now env; (s1, out) = expire_shares_locked env s in
         case List.find (grant_for tid name) (hm_values (as_grants s1)) of
           None \<Rightarrow> (Inl (Conflict (name @ lit '' is not granted to this terminal; generate or request it first'')), s1, out)
         | Some g \<Rightarrow>
             (case hm_find (share_open tid name) (as_shares s1) of
                Some (k, existing) \<Rightarrow>
                  (if sh_agent existing \<noteq> agent \<or> sh_description existing \<noteq> description
                   then (Inl (Conflict (name @ lit '' is already shared with a different purpose or agent'')), s1, out)
                   else (Inr (Request (sh_id existing)),
                         bump (s1\<lparr>as_shares := AList.map_entry k (\<lambda>sh. sh\<lparr>sh_waiters := sh_waiters sh + 1\<rparr>)
                                               (as_shares s1)\<rparr>), out))
              | None \<Rightarrow>
                  (if MAX_PENDING_SECRET_SHARES_PER_TERMINAL
                        \<le> count_values (\<lambda>sh. sh_terminal sh = tid \<and> sh_state sh = SharePending) (as_shares s1)
                   then (Inl (conflict ''this terminal already has too many secrets waiting to be viewed''), s1, out)
                   else (case make_room tid s1 of
                           Inl e \<Rightarrow> (Inl e, s1, out)
                         | Inr s2 \<Rightarrow>
                             (let share = \<lparr>sh_id = en_id env, sh_terminal = tid, sh_name = name,
                                    sh_description = description, sh_agent = agent,
                                    sh_state = SharePending, sh_created = now,
                                    sh_expires = sat_add now ttl_millis, sh_viewed = None,
                                    sh_resolved = None, sh_waiters = 1, sh_value = gr_value g\<rparr>
                              in (Inr (Request (en_id env)),
                                  push_activity env
                                    (s2\<lparr>as_shares := AList.update (en_id env) share (as_shares s2)\<rparr>)
                                    tid Secret Shared (lit ''Secret shared with you'')
                                    (case description of None \<Rightarrow> name | Some d \<Rightarrow> d),
                                  out)))))))))"

definition share_secret ::
    "access_env \<Rightarrow> access_state \<Rightarrow> uuid \<Rightarrow> ustring \<Rightarrow> ustring \<Rightarrow> ustring option
       \<Rightarrow> subscription access_result" where
  "share_secret env s tid name agent description =
     share_secret_with_ttl env s tid name agent description SECRET_SHARE_TTL_MILLIS"

text \<open>\<open>shares.get_mut(&share_id).filter(|share| share.terminal_id == terminal_id)\<close>\<close>

definition share_of :: "uuid \<Rightarrow> uuid \<Rightarrow> access_state \<Rightarrow> secret_share option" where
  "share_of tid k s =
     (case map_of (as_shares s) k of None \<Rightarrow> None
      | Some sh \<Rightarrow> if sh_terminal sh = tid then Some sh else None)"

definition wait_share :: "access_env \<Rightarrow> access_state \<Rightarrow> uuid \<Rightarrow> uuid \<Rightarrow> subscription access_result" where
  "wait_share env s tid k =
     (let (s1, out) = expire_shares_locked env s in
      case share_of tid k s1 of
        None \<Rightarrow> (Inl NotFound, s1, out)
      | Some sh \<Rightarrow>
          (case sh_state sh of
             SharePending \<Rightarrow>
               (Inr (Request k),
                bump (s1\<lparr>as_shares := AList.map_entry k (\<lambda>sh. sh\<lparr>sh_waiters := sh_waiters sh + 1\<rparr>)
                                      (as_shares s1)\<rparr>), out)
           | ShareViewed \<Rightarrow> (Inr (Immediate (EvViewed (sh_name sh))), bump s1, out)
           | ShareDismissed \<Rightarrow> (Inr (Immediate (EvDismissed (sh_name sh))), bump s1, out)
           | ShareExpired \<Rightarrow> (Inr (Immediate (EvExpired (sh_name sh))), bump s1, out)))"

definition reveal_share ::
    "access_env \<Rightarrow> access_state \<Rightarrow> uuid \<Rightarrow> uuid \<Rightarrow> (uuid \<times> ustring \<times> ustring) access_result" where
  "reveal_share env s tid k =
     (let now = en_now env; (s1, out) = expire_shares_locked env s in
      case share_of tid k s1 of
        None \<Rightarrow> (Inl NotFound, s1, out)
      | Some sh \<Rightarrow>
          (case sh_state sh of
             ShareViewed \<Rightarrow>
               (Inl (Gone (sh_name sh @ lit '' was already revealed and is no longer available'')), s1, out)
           | ShareDismissed \<Rightarrow> (Inl (Gone (sh_name sh @ lit '' was dismissed'')), s1, out)
           | ShareExpired \<Rightarrow> (Inl (Gone (sh_name sh @ lit '' expired before it was revealed'')), s1, out)
           | SharePending \<Rightarrow>
               (let s2 = s1\<lparr>as_shares := AList.map_entry k
                              (\<lambda>sh. sh\<lparr>sh_value := [], sh_state := ShareViewed, sh_viewed := Some now,
                                       sh_resolved := Some now\<rparr>) (as_shares s1)\<rparr>
                in (Inr (k, sh_name sh, sh_value sh),
                    push_activity env s2 tid Secret Viewed (lit ''Shared secret revealed'') (sh_name sh),
                    out @ [Send k (EvViewed (sh_name sh))]))))"

definition dismiss_share :: "access_env \<Rightarrow> access_state \<Rightarrow> uuid \<Rightarrow> uuid \<Rightarrow> unit access_result" where
  "dismiss_share env s tid k =
     (let now = en_now env; (s1, out) = expire_shares_locked env s in
      case share_of tid k s1 of
        None \<Rightarrow> (Inl NotFound, s1, out)
      | Some sh \<Rightarrow>
          (if sh_state sh \<noteq> SharePending
           then (Inl (conflict ''this shared secret is no longer pending''), s1, out)
           else (let s2 = s1\<lparr>as_shares := AList.map_entry k (resolve_share ShareDismissed now) (as_shares s1)\<rparr>
                 in (Inr (),
                     push_activity env s2 tid Secret Dismissed (lit ''Shared secret dismissed'') (sh_name sh),
                     out @ [Send k (EvDismissed (sh_name sh))]))))"

definition expire_shares :: "access_env \<Rightarrow> access_state \<Rightarrow> access_state \<times> access_out list" where
  "expire_shares env s = expire_shares_locked env s"

section \<open>Root commands\<close>

record sudo_execution =
  se_request :: uuid
  se_terminal :: uuid
  se_review :: sudo_review
  se_password :: ustring

definition approve_sudo_begin ::
    "access_state \<Rightarrow> uuid \<Rightarrow> uuid \<Rightarrow> ustring \<Rightarrow> ustring \<Rightarrow> sudo_execution access_result" where
  "approve_sudo_begin s tid rid hash password_in =
     (case validate_sudo_password_value password_in of Inl e \<Rightarrow> (Inl e, s, []) | Inr password \<Rightarrow>
      (case map_of (as_requests s) rid of None \<Rightarrow> (Inl NotFound, s, []) | Some request \<Rightarrow>
        (if rq_terminal request \<noteq> tid then (Inl NotFound, s, [])
         else if rq_hash request \<noteq> hash then (Inl Stale, s, [])
         else if rq_state request \<noteq> Pending
         then (Inl (conflict ''access request is no longer pending''), s, [])
         else (case rq_kind request of
                 SecretKind _ \<Rightarrow>
                   (Inl (Invalid (lit ''this request does not accept sudo authentication'')), s, [])
               | SudoKind review \<Rightarrow>
                   (Inr \<lparr>se_request = rid, se_terminal = tid, se_review = review, se_password = password\<rparr>,
                    bump (s\<lparr>as_requests := AList.map_entry rid (\<lambda>r. r\<lparr>rq_state := Authenticating\<rparr>)
                                            (as_requests s)\<rparr>), [])))))"

definition fail_request :: "access_env \<Rightarrow> access_state \<Rightarrow> uuid \<Rightarrow> ustring \<Rightarrow> access_state \<times> access_out list" where
  "fail_request env s rid message =
     (case map_of (as_requests s) rid of
        None \<Rightarrow> (s, [])
      | Some request \<Rightarrow>
          (push_activity env (s\<lparr>as_requests := AList.delete rid (as_requests s)\<rparr>)
             (rq_terminal request) (kind_of (rq_kind request)) Failed
             (case kind_of (rq_kind request) of
                Secret \<Rightarrow> lit ''Secret request failed'' | Sudo \<Rightarrow> lit ''Root command failed'')
             message,
           [Send rid (EvFailed message)]))"

text \<open>What the world answers: the executable and the directory are still those reviewed.\<close>

definition sudo_objects_match :: "access_ext \<Rightarrow> sudo_execution \<Rightarrow> bool" where
  "sudo_objects_match ext e =
     (let r = se_review e; executable = utf8_encode (hd (sr_command r)) in
      executable_digest ext executable = Inr (sr_hash r)
      \<and> file_identity_of ext executable = Inr (sr_identity r)
      \<and> file_identity_of ext (sr_cwd r) = Inr (sr_cwd_identity r))"

text \<open>
  The rest of \<open>approve_sudo\<close>, once \<open>sudo -v\<close> has answered \<open>authenticated\<close>. A successful result is
  the execution that \<open>run_sudo\<close> is spawned with.
\<close>

definition approve_sudo_finish ::
    "access_ext \<Rightarrow> access_env \<Rightarrow> access_state \<Rightarrow> sudo_execution \<Rightarrow> ustring + unit
       \<Rightarrow> sudo_execution access_result" where
  "approve_sudo_finish ext env s e authenticated =
     (case authenticated of
        Inl message \<Rightarrow>
          (Inl (Invalid message),
           (if map_of (as_requests s) (se_request e) = None then s
            else bump (s\<lparr>as_requests := AList.map_entry (se_request e) (\<lambda>r. r\<lparr>rq_state := Pending\<rparr>)
                                          (as_requests s)\<rparr>)), [])
      | Inr _ \<Rightarrow>
          (if \<not> sudo_objects_match ext e
           then (let (s1, out) = fail_request env s (se_request e)
                       (lit ''sudo executable or working directory changed after review'')
                 in (Inl Stale, s1, out))
           else (case map_of (as_requests s) (se_request e) of
                   None \<Rightarrow> (Inl NotFound, s, [])
                 | Some _ \<Rightarrow>
                     (Inr e,
                      bump (s\<lparr>as_requests := AList.map_entry (se_request e) (\<lambda>r. r\<lparr>rq_state := Running\<rparr>)
                                              (as_requests s)\<rparr>),
                      [Send (se_request e) (EvRunning (Some (se_request e)))]))))"

text \<open>
  The end of \<open>run_sudo\<close>: the objects are compared again just before the command starts
  (\<open>started = None\<close> when they differ), then the command ran to a code or failed with a message.
\<close>

definition run_sudo_finish ::
    "access_env \<Rightarrow> access_state \<Rightarrow> sudo_execution \<Rightarrow> (ustring + int) option
       \<Rightarrow> access_state \<times> access_out list" where
  "run_sudo_finish env s e started =
     (case started of
        None \<Rightarrow> fail_request env s (se_request e)
                  (lit ''sudo executable or working directory changed after approval'')
      | Some (Inl message) \<Rightarrow> fail_request env s (se_request e) message
      | Some (Inr code) \<Rightarrow>
          (push_activity env (s\<lparr>as_requests := AList.delete (se_request e) (as_requests s)\<rparr>)
             (se_terminal e) Sudo (if code = 0 then Approved else Failed)
             (if code = 0 then lit ''Root command completed'' else lit ''Root command failed'')
             (sr_display (se_review e)),
           [Send (se_request e) (EvCompleted code)]))"

section \<open>Commands with a secret\<close>

datatype secret_delivery = EnvDelivery ustring | StdinDelivery

definition execute_secret ::
    "access_ext \<Rightarrow> access_env \<Rightarrow> access_state \<Rightarrow> uuid \<Rightarrow> ustring \<Rightarrow> path \<Rightarrow> ustring list \<Rightarrow> secret_delivery
       \<Rightarrow> (subscription \<times> ustring) access_result" where
  "execute_secret ext env s tid name_in cwd_in command_in delivery =
     (case validate_secret_name name_in of Inl e \<Rightarrow> (Inl e, s, []) | Inr name \<Rightarrow>
      (case validate_command ext command_in of Inl e \<Rightarrow> (Inl e, s, []) | Inr command \<Rightarrow>
      (case validate_cwd ext cwd_in of Inl e \<Rightarrow> (Inl e, s, []) | Inr cwd \<Rightarrow>
      (case (case delivery of EnvDelivery n \<Rightarrow> validate_environment_name n | StdinDelivery \<Rightarrow> Inr ()) of
         Inl e \<Rightarrow> (Inl e, s, [])
       | Inr _ \<Rightarrow>
          (if MAX_SECRET_EXECUTIONS_PER_TERMINAL \<le> count_values (\<lambda>t. t = tid) (as_executions s)
           then (Inl (conflict ''this terminal already has too many secret commands running''), s, [])
           else (case hm_find (grant_for tid name) (as_grants s) of
                   None \<Rightarrow> (Inl NotFound, s, [])
                 | Some (k, g) \<Rightarrow>
                     (Inr (Execution (en_id env), gr_value g),
                      bump (s\<lparr>as_grants := AList.map_entry k
                                 (\<lambda>g. g\<lparr>gr_uses := sat_add (gr_uses g) 1, gr_last_used := Some (en_now env),
                                         gr_last_command := Some (command_display command)\<rparr>) (as_grants s),
                              as_executions := AList.update (en_id env) tid (as_executions s)\<rparr>), [])))))))"

definition finish_secret_execution :: "access_state \<Rightarrow> uuid \<Rightarrow> access_state" where
  "finish_secret_execution s k = s\<lparr>as_executions := AList.delete k (as_executions s)\<rparr>"

section \<open>Terminals that close, and waiters that leave\<close>

text \<open>
  What \<open>clear_terminal\<close> and \<open>clear_inactive_terminals\<close> share: every request, execution, share and
  grant of a terminal in \<open>gone\<close> is removed, and those who wait for it are told.
\<close>

definition clear_gone :: "(uuid \<Rightarrow> bool) \<Rightarrow> ustring \<Rightarrow> access_state \<Rightarrow> access_state \<times> access_out list" where
  "clear_gone gone message s =
     (s\<lparr>as_requests := hm_retain (\<lambda>_ r. \<not> gone (rq_terminal r)) (as_requests s),
        as_executions := hm_retain (\<lambda>_ t. \<not> gone t) (as_executions s),
        as_shares := hm_retain (\<lambda>_ sh. \<not> gone (sh_terminal sh)) (as_shares s),
        as_grants := hm_retain (\<lambda>_ g. \<not> gone (gr_terminal g)) (as_grants s)\<rparr>,
      map (\<lambda>(k, _). Send k (EvFailed message)) (filter (\<lambda>(_, r). gone (rq_terminal r)) (as_requests s))
      @ map (\<lambda>(k, _). Send k (EvFailed message))
          (filter (\<lambda>(_, sh). gone (sh_terminal sh) \<and> sh_state sh = SharePending) (as_shares s))
      @ map (\<lambda>(k, _). Cancel k) (filter (\<lambda>(_, t). gone t) (as_executions s)))"

definition clear_terminal :: "access_state \<Rightarrow> uuid \<Rightarrow> access_state \<times> access_out list" where
  "clear_terminal s tid =
     (let (s1, out) = clear_gone (\<lambda>t. t = tid) (lit ''terminal closed'') s
      in (bump (s1\<lparr>as_activity := filter (\<lambda>a. ar_terminal a \<noteq> tid) (as_activity s1)\<rparr>), out))"

definition clear_inactive_terminals :: "access_state \<Rightarrow> uuid list \<Rightarrow> access_state \<times> access_out list" where
  "clear_inactive_terminals s active =
     (let gone = (\<lambda>t. t \<notin> set active);
          changed = list_ex (\<lambda>(_, r). gone (rq_terminal r)) (as_requests s)
            \<or> list_ex (\<lambda>(_, t). gone t) (as_executions s)
            \<or> list_ex (\<lambda>(_, sh). gone (sh_terminal sh)) (as_shares s)
            \<or> list_ex (\<lambda>(_, g). gone (gr_terminal g)) (as_grants s);
          (s1, out) = clear_gone gone (lit ''terminal exited'') s
      in (if changed then bump s1 else s1, out))"

definition detach_waiter :: "access_env \<Rightarrow> access_state \<Rightarrow> uuid \<Rightarrow> access_state" where
  "detach_waiter env s k =
     (case map_of (as_shares s) k of
        Some _ \<Rightarrow> bump (s\<lparr>as_shares := AList.map_entry k (\<lambda>sh. sh\<lparr>sh_waiters := sh_waiters sh - 1\<rparr>)
                                         (as_shares s)\<rparr>)
      | None \<Rightarrow>
          (case map_of (as_requests s) k of
             None \<Rightarrow> bump s
           | Some r \<Rightarrow>
               (if rq_waiters r - 1 = 0 \<and> rq_state r = Pending
                then push_activity env (s\<lparr>as_requests := AList.delete k (as_requests s)\<rparr>)
                       (rq_terminal r) (kind_of (rq_kind r)) Canceled
                       (case kind_of (rq_kind r) of
                          Secret \<Rightarrow> lit ''Secret request canceled'' | Sudo \<Rightarrow> lit ''Root command canceled'')
                       (kind_summary (rq_kind r))
                else bump (s\<lparr>as_requests := AList.map_entry k (\<lambda>r. r\<lparr>rq_waiters := rq_waiters r - 1\<rparr>)
                                              (as_requests s)\<rparr>))))"

section \<open>Views\<close>

record request_view =
  rv_id :: uuid
  rv_hash :: ustring
  rv_kind :: request_kind
  rv_state :: request_state
  rv_description :: ustring
  rv_agent :: ustring
  rv_created :: nat
  rv_waiters :: nat
  rv_secret_name :: "ustring option"
  rv_command :: "ustring option"
  rv_cwd :: "ustring option"
  rv_fingerprint :: "ustring option"

definition request_view_of :: "pending_request \<Rightarrow> request_view" where
  "request_view_of r =
     \<lparr>rv_id = rq_id r, rv_hash = rq_hash r, rv_kind = kind_of (rq_kind r), rv_state = rq_state r,
      rv_description = rq_description r, rv_agent = rq_agent r, rv_created = rq_created r,
      rv_waiters = rq_waiters r,
      rv_secret_name = (case rq_kind r of SecretKind n \<Rightarrow> Some n | SudoKind _ \<Rightarrow> None),
      rv_command = (case rq_kind r of SecretKind _ \<Rightarrow> None | SudoKind v \<Rightarrow> Some (sr_display v)),
      rv_cwd = (case rq_kind r of SecretKind _ \<Rightarrow> None | SudoKind v \<Rightarrow> Some (utf8_lossy (sr_cwd v))),
      rv_fingerprint = (case rq_kind r of SecretKind _ \<Rightarrow> None | SudoKind v \<Rightarrow> Some (sr_fingerprint v))\<rparr>"

record grant_view =
  gv_id :: uuid
  gv_name :: ustring
  gv_source :: ustring
  gv_created :: nat
  gv_uses :: nat
  gv_last_used :: "nat option"
  gv_last_command :: "ustring option"

definition grant_view_of :: "secret_grant \<Rightarrow> grant_view" where
  "grant_view_of g =
     \<lparr>gv_id = gr_id g, gv_name = gr_name g, gv_source = gr_source g, gv_created = gr_created g,
      gv_uses = gr_uses g, gv_last_used = gr_last_used g, gv_last_command = gr_last_command g\<rparr>"

record share_view =
  sv_id :: uuid
  sv_name :: ustring
  sv_description :: "ustring option"
  sv_agent :: ustring
  sv_state :: share_state
  sv_created :: nat
  sv_expires :: nat
  sv_viewed :: "nat option"
  sv_resolved :: "nat option"
  sv_waiters :: nat

definition share_view_of :: "secret_share \<Rightarrow> share_view" where
  "share_view_of sh =
     \<lparr>sv_id = sh_id sh, sv_name = sh_name sh, sv_description = sh_description sh,
      sv_agent = sh_agent sh, sv_state = sh_state sh, sv_created = sh_created sh,
      sv_expires = sh_expires sh, sv_viewed = sh_viewed sh, sv_resolved = sh_resolved sh,
      sv_waiters = sh_waiters sh\<rparr>"

record access_snapshot =
  sn_terminal :: uuid
  sn_revision :: "64 word"
  sn_requests :: "request_view list"
  sn_grants :: "grant_view list"
  sn_shares :: "share_view list"
  sn_activity :: "activity_view list"

definition shares_for_terminal :: "access_state \<Rightarrow> uuid \<Rightarrow> share_view list" where
  "shares_for_terminal s tid =
     sort_key sv_created (map share_view_of (filter (\<lambda>sh. sh_terminal sh = tid) (hm_values (as_shares s))))"

definition snapshot ::
    "access_env \<Rightarrow> access_state \<Rightarrow> uuid \<Rightarrow> access_snapshot \<times> access_state \<times> access_out list" where
  "snapshot env s tid =
     (let (s1, out) = expire_shares_locked env s in
      (\<lparr>sn_terminal = tid, sn_revision = as_revision s1,
        sn_requests = sort_key rv_created
          (map request_view_of (filter (\<lambda>r. rq_terminal r = tid) (hm_values (as_requests s1)))),
        sn_grants = sort_key gv_name
          (map grant_view_of (filter (\<lambda>g. gr_terminal g = tid) (hm_values (as_grants s1)))),
        sn_shares = shares_for_terminal s1 tid,
        sn_activity = map ar_view (filter (\<lambda>a. ar_terminal a = tid) (as_activity s1))\<rparr>, s1, out))"

definition list_shares ::
    "access_env \<Rightarrow> access_state \<Rightarrow> uuid \<Rightarrow> share_view list \<times> access_state \<times> access_out list" where
  "list_shares env s tid =
     (let (s1, out) = expire_shares_locked env s in (shares_for_terminal s1 tid, s1, out))"

text \<open>The badge of a terminal: the first entry with its id is counted up.\<close>

fun count_up :: "uuid \<Rightarrow> (uuid \<times> nat) list \<Rightarrow> (uuid \<times> nat) list" where
  "count_up tid [] = []"
| "count_up tid ((t, n) # ts) = (if t = tid then (t, sat_add n 1) # ts else (t, n) # count_up tid ts)"

definition populate_pending_request_counts ::
    "access_env \<Rightarrow> access_state \<Rightarrow> uuid list \<Rightarrow> (uuid \<times> nat) list" where
  "populate_pending_request_counts env s terminals =
     fold count_up
       (map rq_terminal (filter (\<lambda>r. rq_state r = Pending) (hm_values (as_requests s)))
        @ map sh_terminal (filter (\<lambda>sh. sh_state sh = SharePending \<and> en_now env < sh_expires sh)
                             (hm_values (as_shares s))))
       (map (\<lambda>t. (t, 0)) terminals)"

section \<open>Subscriptions\<close>

record access_subscription =
  su_initial :: "agent_event list"
  su_receiver :: bool
  su_request :: "uuid option"
  su_cancel :: "uuid option"
  su_terminal :: bool

fun subscribe :: "subscription \<Rightarrow> access_subscription" where
  "subscribe (Immediate e) = \<lparr>su_initial = [e], su_receiver = False, su_request = None,
     su_cancel = None, su_terminal = False\<rparr>"
| "subscribe (Request k) = \<lparr>su_initial = [EvWaiting k], su_receiver = True, su_request = Some k,
     su_cancel = None, su_terminal = False\<rparr>"
| "subscribe (Execution k) = \<lparr>su_initial = [EvRunning None], su_receiver = True, su_request = None,
     su_cancel = Some k, su_terminal = False\<rparr>"

datatype received = Received agent_event | Lagged | Closed

text \<open>\<open>next\<close>, with what the broadcast channel answers when it is asked.\<close>

definition sub_next :: "access_subscription \<Rightarrow> received \<Rightarrow> agent_event option \<times> access_subscription" where
  "sub_next su answer =
     (if su_terminal su then (None, su)
      else (case su_initial su of
              e # rest \<Rightarrow> (Some e, su\<lparr>su_initial := rest, su_terminal := event_terminal e\<rparr>)
            | [] \<Rightarrow>
                (if \<not> su_receiver su then (None, su)
                 else (case answer of
                         Received e \<Rightarrow> (Some e, su\<lparr>su_terminal := event_terminal e\<rparr>)
                       | Lagged \<Rightarrow>
                           (Some (EvFailed (lit ''command output exceeded the consumer buffer'')),
                            su\<lparr>su_terminal := True\<rparr>)
                       | Closed \<Rightarrow> (None, su)))))"

definition sub_drop :: "access_env \<Rightarrow> access_state \<Rightarrow> access_subscription \<Rightarrow> access_state \<times> access_out list" where
  "sub_drop env s su =
     (case su_request su of None \<Rightarrow> s | Some k \<Rightarrow> detach_waiter env s k,
      case su_cancel su of None \<Rightarrow> [] | Some k \<Rightarrow> [Cancel k])"

end
