(* ===== verification/AccessInv.thy ===== *)
theory AccessInv
  imports AccessOps
begin

text \<open>
  The invariant of the access manager and its preservation by every operation, then what the
  operations promise: limits, one grant for each name, a shared value that is revealed at most
  once and only while its grant exists, and views that do not contain values.
\<close>

section \<open>Counting in a hash map\<close>

lemma count_delete: "count_values P (AList.delete k m) \<le> count_values P m"
  by (induction m) (auto simp: count_values_def hm_values_def)

lemma count_retain: "count_values P (hm_retain Q m) \<le> count_values P m"
  by (induction m) (auto simp: count_values_def hm_values_def hm_retain_def)

lemma count_update: "count_values P (AList.update k v m) \<le> (if P v then Suc (count_values P m) else count_values P m)"
  by (induction m) (auto simp: count_values_def hm_values_def)

lemma count_map: "(\<And>v. P (f v) \<Longrightarrow> P v) \<Longrightarrow> count_values P (hm_map f m) \<le> count_values P m"
  by (induction m) (auto simp: count_values_def hm_values_def hm_map_def)

lemma count_map_entry: "(\<And>v. P (f v) \<Longrightarrow> P v) \<Longrightarrow> count_values P (AList.map_entry k f m) \<le> count_values P m"
  by (induction m) (auto simp: count_values_def hm_values_def)

lemma count_retain_map_le:
  "(\<And>v. P (f v) \<Longrightarrow> P v) \<Longrightarrow> count_values P (hm_retain Q (hm_map f m)) \<le> count_values P m"
  using count_map count_retain order_trans by blast

text \<open>A map from which a present key was removed counts one less.\<close>

lemma count_delete_present:
  assumes "hm_ok m" "map_of m k = Some v" "P v"
  shows "Suc (count_values P (AList.delete k m)) = count_values P m"
  using assms
proof (induction m)
  case (Cons a m)
  show ?case
  proof (cases "fst a = k")
    case True
    then have "k \<notin> fst ` set m" using Cons.prems(1) by (cases a) (auto simp: hm_ok_def)
    then have "AList.delete k m = m" by (rule AList.delete_id)
    with True Cons.prems show ?thesis by (cases a) (simp add: count_values_def hm_values_def)
  next
    case False
    with Cons show ?thesis by (cases a) (auto simp: count_values_def hm_values_def hm_ok_def)
  qed
qed simp

lemma hm_find_Some:
  "hm_find P m = Some (k, v) \<Longrightarrow> hm_ok m \<Longrightarrow> map_of m k = Some v \<and> P v"
  by (auto simp: hm_find_def hm_ok_def find_Some_iff in_set_conv_nth)

lemma hm_find_None: "hm_find P m = None \<longleftrightarrow> (\<forall>v \<in> set (hm_values m). \<not> P v)"
  by (auto simp: hm_find_def find_None_iff hm_values_def)

lemma values_find_Some:
  "List.find P (hm_values m) = Some v \<Longrightarrow> hm_ok m \<Longrightarrow> \<exists>k. map_of m k = Some v \<and> P v"
  using hm_values_iff [of m v] by (auto simp: find_Some_iff)

lemma values_ex: "hm_ok m \<Longrightarrow> list_ex P (hm_values m) \<longleftrightarrow> (\<exists>k v. map_of m k = Some v \<and> P v)"
  using hm_values_iff [of m] by (simp add: list_ex_iff Bex_def) blast

lemma values_find_None:
  "hm_ok m \<Longrightarrow> List.find P (hm_values m) = None \<longleftrightarrow> \<not> (\<exists>k v. map_of m k = Some v \<and> P v)"
  using hm_values_iff [of m] by (auto simp: find_None_iff)

lemma le_delete: "count_values P m \<le> n \<Longrightarrow> count_values P (AList.delete k m) \<le> n"
  using count_delete [of P k m] by simp

lemma le_retain: "count_values P m \<le> n \<Longrightarrow> count_values P (hm_retain Q m) \<le> n"
  using count_retain [of P Q m] by simp

lemma le_entry:
  "count_values P m \<le> n \<Longrightarrow> (\<And>v. P (f v) \<Longrightarrow> P v) \<Longrightarrow> count_values P (AList.map_entry k f m) \<le> n"
  using count_map_entry [of P f k m] by simp

lemma le_map: "count_values P m \<le> n \<Longrightarrow> (\<And>v. P (f v) \<Longrightarrow> P v) \<Longrightarrow> count_values P (hm_map f m) \<le> n"
  using count_map [of P f m] by simp

text \<open>Lookups of a changed map, as rules that give back a lookup of the map before.\<close>

lemma get_delD: "hm_ok m \<Longrightarrow> map_of (AList.delete k m) j = Some v \<Longrightarrow> j \<noteq> k \<and> map_of m j = Some v"
  by (simp add: hm.get_del split: if_splits)

lemma get_putD:
  "hm_ok m \<Longrightarrow> map_of (AList.update k w m) j = Some v \<Longrightarrow> j = k \<and> v = w \<or> j \<noteq> k \<and> map_of m j = Some v"
  by (simp add: hm.get_put split: if_splits)

lemma get_retainD: "hm_ok m \<Longrightarrow> map_of (hm_retain P m) j = Some v \<Longrightarrow> P j v \<and> map_of m j = Some v"
  by (auto simp: map_of_retain split: option.splits if_splits)
  
lemma get_entryD:
  "map_of (AList.map_entry k f m) j = Some v \<Longrightarrow>
     \<exists>u. map_of m j = Some u \<and> v = (if j = k then f u else u)"
  by (auto simp: map_of_map_entry split: if_splits)

lemma get_mapD: "map_of (hm_map f m) j = Some v \<Longrightarrow> \<exists>u. map_of m j = Some u \<and> v = f u"
  by auto

lemmas hm_get = hm.get_put hm.get_del map_of_map_entry map_of_retain map_of_hm_map
lemmas hm_keep = hm.ok_put hm.ok_del

section \<open>The invariant\<close>

definition granted :: "(uuid, secret_grant) hmap \<Rightarrow> uuid \<Rightarrow> ustring \<Rightarrow> bool" where
  "granted grants t n \<longleftrightarrow> (\<exists>k g. map_of grants k = Some g \<and> grant_for t n g)"

definition grant_value :: "(uuid, secret_grant) hmap \<Rightarrow> uuid \<Rightarrow> ustring \<Rightarrow> ustring \<Rightarrow> bool" where
  "grant_value grants t n v \<longleftrightarrow> (\<exists>k g. map_of grants k = Some g \<and> grant_for t n g \<and> gr_value g = v)"

definition grants_ok :: "(uuid, secret_grant) hmap \<Rightarrow> bool" where
  "grants_ok grants \<longleftrightarrow> hm_ok grants
     \<and> (\<forall>k g. map_of grants k = Some g \<longrightarrow> gr_id g = k)
     \<and> (\<forall>k g j h. map_of grants k = Some g \<and> map_of grants j = Some h
           \<and> gr_terminal g = gr_terminal h \<and> gr_name g = gr_name h \<longrightarrow> k = j)
     \<and> (\<forall>t. count_values (\<lambda>g. gr_terminal g = t) grants \<le> MAX_SECRET_GRANTS_PER_TERMINAL)"

definition request_ok :: "pending_request \<Rightarrow> bool" where
  "request_ok r \<longleftrightarrow>
     (case rq_kind r of SecretKind _ \<Rightarrow> rq_state r = Pending \<and> 0 < rq_waiters r | SudoKind _ \<Rightarrow> True)"

definition requests_ok :: "(uuid, pending_request) hmap \<Rightarrow> (uuid \<Rightarrow> ustring \<Rightarrow> bool) \<Rightarrow> bool" where
  "requests_ok requests gn \<longleftrightarrow> hm_ok requests
     \<and> (\<forall>k r. map_of requests k = Some r \<longrightarrow> rq_id r = k \<and> request_ok r)
     \<and> (\<forall>k r j q t n. map_of requests k = Some r \<and> map_of requests j = Some q
           \<and> secret_waiting t n r \<and> secret_waiting t n q \<longrightarrow> k = j)
     \<and> (\<forall>k r t n. map_of requests k = Some r \<and> secret_waiting t n r \<longrightarrow> \<not> gn t n)"

definition share_ok :: "secret_share \<Rightarrow> bool" where
  "share_ok sh \<longleftrightarrow>
     (if sh_state sh = SharePending then sh_resolved sh = None \<and> sh_viewed sh = None
      else sh_value sh = [] \<and> sh_resolved sh \<noteq> None)"

definition shares_ok :: "(uuid, secret_share) hmap \<Rightarrow> (uuid \<Rightarrow> ustring \<Rightarrow> ustring \<Rightarrow> bool) \<Rightarrow> bool" where
  "shares_ok shares gv \<longleftrightarrow> hm_ok shares
     \<and> (\<forall>k sh. map_of shares k = Some sh \<longrightarrow> sh_id sh = k \<and> share_ok sh
           \<and> (sh_state sh = SharePending \<longrightarrow> gv (sh_terminal sh) (sh_name sh) (sh_value sh)))
     \<and> (\<forall>k a j b t n. map_of shares k = Some a \<and> map_of shares j = Some b
           \<and> share_open t n a \<and> share_open t n b \<longrightarrow> k = j)
     \<and> (\<forall>t. count_values (\<lambda>sh. sh_terminal sh = t \<and> sh_state sh = SharePending) shares
              \<le> MAX_PENDING_SECRET_SHARES_PER_TERMINAL)
     \<and> (\<forall>t. count_values (\<lambda>sh. sh_terminal sh = t) shares \<le> MAX_SECRET_SHARES_PER_TERMINAL)"

definition executions_ok :: "(uuid, uuid) hmap \<Rightarrow> bool" where
  "executions_ok ex \<longleftrightarrow> hm_ok ex
     \<and> (\<forall>t. count_values (\<lambda>u. u = t) ex \<le> MAX_SECRET_EXECUTIONS_PER_TERMINAL)"

definition access_ok :: "access_state \<Rightarrow> bool" where
  "access_ok s \<longleftrightarrow> grants_ok (as_grants s) \<and> requests_ok (as_requests s) (granted (as_grants s))
     \<and> shares_ok (as_shares s) (grant_value (as_grants s)) \<and> executions_ok (as_executions s)
     \<and> length (as_activity s) \<le> ACCESS_ACTIVITY_LIMIT"

interpretation access_log: bounded_log push_log "\<lambda>l. l" ACCESS_ACTIVITY_LIMIT
  by unfold_locales (simp add: push_log_def)

lemma access_ok_init: "access_ok access_init"
  by (simp add: access_ok_def access_init_def grants_ok_def requests_ok_def shares_ok_def
      executions_ok_def count_values_def hm_values_def)

lemma access_ok_bump [simp]: "access_ok (bump s) = access_ok s"
  by (simp add: access_ok_def bump_def)

lemma bump_fields [simp]:
  "as_requests (bump s) = as_requests s" "as_grants (bump s) = as_grants s"
  "as_shares (bump s) = as_shares s" "as_executions (bump s) = as_executions s"
  "as_activity (bump s) = as_activity s"
  by (simp_all add: bump_def)

lemma push_activity_fields [simp]:
  "as_requests (push_activity env s t k st ti d) = as_requests s"
  "as_grants (push_activity env s t k st ti d) = as_grants s"
  "as_shares (push_activity env s t k st ti d) = as_shares s"
  "as_executions (push_activity env s t k st ti d) = as_executions s"
  by (simp_all add: push_activity_def)

lemma push_activity_length:
  "length (as_activity s) \<le> ACCESS_ACTIVITY_LIMIT \<Longrightarrow>
     length (as_activity (push_activity env s t k st ti d)) \<le> ACCESS_ACTIVITY_LIMIT"
  by (simp add: push_activity_def access_log.length_push)

lemma access_ok_push [simp]: "access_ok s \<Longrightarrow> access_ok (push_activity env s t k st ti d)"
  by (simp add: access_ok_def push_activity_length)

lemma fold_activity_fields [simp]:
  "as_requests (fold (\<lambda>x s. push_activity env s (f x) k st ti (d x)) xs s) = as_requests s"
  "as_grants (fold (\<lambda>x s. push_activity env s (f x) k st ti (d x)) xs s) = as_grants s"
  "as_shares (fold (\<lambda>x s. push_activity env s (f x) k st ti (d x)) xs s) = as_shares s"
  "as_executions (fold (\<lambda>x s. push_activity env s (f x) k st ti (d x)) xs s) = as_executions s"
  by (induction xs arbitrary: s) simp_all

lemma fold_activity_length:
  "length (as_activity s) \<le> ACCESS_ACTIVITY_LIMIT \<Longrightarrow>
     length (as_activity (fold (\<lambda>x s. push_activity env s (f x) k st ti (d x)) xs s)) \<le> ACCESS_ACTIVITY_LIMIT"
  by (induction xs arbitrary: s) (simp_all add: push_activity_length)

section \<open>Transformations that keep a part of the invariant\<close>

lemma grants_okI:
  assumes "hm_ok gs" "\<And>k g. map_of gs k = Some g \<Longrightarrow> gr_id g = k"
    and "\<And>k g j h. map_of gs k = Some g \<Longrightarrow> map_of gs j = Some h \<Longrightarrow> gr_terminal g = gr_terminal h \<Longrightarrow>
        gr_name g = gr_name h \<Longrightarrow> k = j"
    and "\<And>t. count_values (\<lambda>g. gr_terminal g = t) gs \<le> MAX_SECRET_GRANTS_PER_TERMINAL"
  shows "grants_ok gs"
  unfolding grants_ok_def using assms by blast

lemma grants_okD:
  assumes "grants_ok gs"
  shows "hm_ok gs" "map_of gs k = Some g \<Longrightarrow> gr_id g = k"
    "map_of gs k = Some g \<Longrightarrow> map_of gs j = Some h \<Longrightarrow> gr_terminal g = gr_terminal h \<Longrightarrow>
        gr_name g = gr_name h \<Longrightarrow> k = j"
    "count_values (\<lambda>g. gr_terminal g = t) gs \<le> MAX_SECRET_GRANTS_PER_TERMINAL"
  using assms unfolding grants_ok_def by blast+

lemma grants_ok_insert:
  assumes ok: "grants_ok gs" and new: "\<not> granted gs (gr_terminal g) (gr_name g)"
    and room: "count_values (\<lambda>h. gr_terminal h = gr_terminal g) gs < MAX_SECRET_GRANTS_PER_TERMINAL"
  shows "grants_ok (AList.update (gr_id g) g gs)"
proof (rule grants_okI)
  have hm: "hm_ok gs" by (rule grants_okD(1) [OF ok])
  show "hm_ok (AList.update (gr_id g) g gs)" by (rule hm.ok_put [OF hm])
  show "count_values (\<lambda>h. gr_terminal h = t) (AList.update (gr_id g) g gs) \<le> MAX_SECRET_GRANTS_PER_TERMINAL" for t
    using count_update [of "\<lambda>h. gr_terminal h = t" "gr_id g" g gs] grants_okD(4) [OF ok, of t] room
    by (cases "gr_terminal g = t") auto
  show "gr_id h = k" if "map_of (AList.update (gr_id g) g gs) k = Some h" for k h
    using get_putD [OF hm that] grants_okD(2) [OF ok] by auto
  show "k = j" if "map_of (AList.update (gr_id g) g gs) k = Some a" "map_of (AList.update (gr_id g) g gs) j = Some b"
    "gr_terminal a = gr_terminal b" "gr_name a = gr_name b" for k j a b
  proof -
    have "\<not> (gr_terminal h = gr_terminal g \<and> gr_name h = gr_name g)" if "map_of gs i = Some h" for i h
      using new that by (auto simp: granted_def grant_for_def)
    then show ?thesis
      using get_putD [OF hm that(1)] get_putD [OF hm that(2)] that(3,4) grants_okD(3) [OF ok, of k a j b]
      by metis
  qed
qed

lemma grants_ok_delete:
  assumes ok: "grants_ok gs"
  shows "grants_ok (AList.delete k gs)"
  by (rule grants_okI)
    (use grants_okD [OF ok] in \<open>auto intro: hm.ok_del le_delete dest!: get_delD [OF grants_okD(1) [OF ok]]\<close>)

lemma grants_ok_retain:
  assumes ok: "grants_ok gs"
  shows "grants_ok (hm_retain P gs)"
  by (rule grants_okI)
    (use grants_okD [OF ok] in \<open>auto intro: le_retain dest!: get_retainD [OF grants_okD(1) [OF ok]]\<close>)

lemma grants_ok_entry:
  assumes ok: "grants_ok gs"
    and f: "\<And>g. gr_id (f g) = gr_id g \<and> gr_terminal (f g) = gr_terminal g \<and> gr_name (f g) = gr_name g"
  shows "grants_ok (AList.map_entry k f gs)"
  by (rule grants_okI)
    (use grants_okD [OF ok] f in \<open>auto intro: le_entry dest!: get_entryD split: if_splits\<close>)

lemma granted_entry:
  assumes f: "\<And>g. gr_terminal (f g) = gr_terminal g \<and> gr_name (f g) = gr_name g \<and> gr_value (f g) = gr_value g"
  shows "grant_value (AList.map_entry k f gs) t n v = grant_value gs t n v"
proof -
  have "(\<exists>g. map_of (AList.map_entry k f gs) j = Some g \<and> grant_for t n g \<and> gr_value g = v)
      = (\<exists>g. map_of gs j = Some g \<and> grant_for t n g \<and> gr_value g = v)" for j
    by (cases "map_of gs j"; cases "j = k") (auto simp: map_of_map_entry grant_for_def f)
  then show ?thesis unfolding grant_value_def by simp
qed

lemma granted_value: "granted gs t n \<longleftrightarrow> (\<exists>v. grant_value gs t n v)"
  by (auto simp: granted_def grant_value_def)

lemma granted_del: "hm_ok gs \<Longrightarrow> granted (AList.delete k gs) t n \<Longrightarrow> granted gs t n"
  unfolding granted_def by (auto dest!: get_delD)

lemma granted_retain: "hm_ok gs \<Longrightarrow> granted (hm_retain P gs) t n \<Longrightarrow> granted gs t n"
  unfolding granted_def by (auto dest!: get_retainD)

lemma granted_put:
  "hm_ok gs \<Longrightarrow> granted (AList.update (gr_id g) g gs) t n \<Longrightarrow> granted gs t n \<or> grant_for t n g"
  unfolding granted_def by (auto dest!: get_putD)

subsection \<open>Requests\<close>

lemma requests_okI:
  assumes "hm_ok rs" "\<And>k r. map_of rs k = Some r \<Longrightarrow> rq_id r = k \<and> request_ok r"
    and "\<And>k r j q t n. map_of rs k = Some r \<Longrightarrow> map_of rs j = Some q \<Longrightarrow>
        secret_waiting t n r \<Longrightarrow> secret_waiting t n q \<Longrightarrow> k = j"
    and "\<And>k r t n. map_of rs k = Some r \<Longrightarrow> secret_waiting t n r \<Longrightarrow> \<not> gn t n"
  shows "requests_ok rs gn"
  unfolding requests_ok_def using assms by blast

lemma requests_okD:
  assumes "requests_ok rs gn"
  shows "hm_ok rs" "map_of rs k = Some r \<Longrightarrow> rq_id r = k \<and> request_ok r"
    "map_of rs k = Some r \<Longrightarrow> map_of rs j = Some q \<Longrightarrow> secret_waiting t n r \<Longrightarrow> secret_waiting t n q \<Longrightarrow> k = j"
    "map_of rs k = Some r \<Longrightarrow> secret_waiting t n r \<Longrightarrow> \<not> gn t n"
  using assms unfolding requests_ok_def by blast+

lemma requests_ok_delete:
  assumes ok: "requests_ok rs gn"
  shows "requests_ok (AList.delete k rs) gn"
proof (rule requests_okI)
  show "hm_ok (AList.delete k rs)" by (rule hm.ok_del [OF requests_okD(1) [OF ok]])
qed (use requests_okD [OF ok] in \<open>auto dest!: get_delD [OF requests_okD(1) [OF ok]]\<close>)

lemma requests_ok_retain:
  assumes ok: "requests_ok rs gn"
    and gm: "\<And>k r t n. map_of rs k = Some r \<Longrightarrow> P k r \<Longrightarrow> secret_waiting t n r \<Longrightarrow> gm t n \<Longrightarrow> gn t n"
  shows "requests_ok (hm_retain P rs) gm"
proof (rule requests_okI)
  show "hm_ok (hm_retain P rs)" by (rule hm_ok_retain [OF requests_okD(1) [OF ok]])
next
  fix k r t n assume "map_of (hm_retain P rs) k = Some r" "secret_waiting t n r"
  then show "\<not> gm t n"
    using get_retainD [OF requests_okD(1) [OF ok]] requests_okD(4) [OF ok] gm by blast
qed (use requests_okD(2,3) [OF ok] in \<open>auto dest!: get_retainD [OF requests_okD(1) [OF ok]]\<close>)

lemma requests_ok_fewer:
  "requests_ok rs gn \<Longrightarrow> (\<And>t n. gm t n \<Longrightarrow> gn t n) \<Longrightarrow> requests_ok rs gm"
  unfolding requests_ok_def by blast

lemma requests_ok_insert:
  assumes ok: "requests_ok rs gn" and r: "rq_id r = k" "request_ok r"
    and new: "\<And>t n. secret_waiting t n r \<Longrightarrow> \<not> gn t n"
      "\<And>t n j q. secret_waiting t n r \<Longrightarrow> map_of rs j = Some q \<Longrightarrow> \<not> secret_waiting t n q"
  shows "requests_ok (AList.update k r rs) gn"
proof (rule requests_okI)
  note hm = requests_okD(1) [OF ok]
  show "hm_ok (AList.update k r rs)" by (rule hm.ok_put [OF hm])
  show "rq_id q = j \<and> request_ok q" if "map_of (AList.update k r rs) j = Some q" for j q
    using get_putD [OF hm that] requests_okD(2) [OF ok] r by blast
  show "i = j" if "map_of (AList.update k r rs) i = Some p" "map_of (AList.update k r rs) j = Some q"
    "secret_waiting t n p" "secret_waiting t n q" for i j p q t n
    using get_putD [OF hm that(1)] get_putD [OF hm that(2)] requests_okD(3) [OF ok] new that(3,4) by blast
  show "\<not> gn t n" if "map_of (AList.update k r rs) i = Some p" "secret_waiting t n p" for i p t n
    using get_putD [OF hm that(1)] requests_okD(4) [OF ok] new that(2) by blast
qed

lemma requests_ok_entry:
  assumes ok: "requests_ok rs gn"
    and f: "\<And>r. map_of rs k = Some r \<Longrightarrow> rq_id (f r) = rq_id r \<and> request_ok (f r)"
      "\<And>r t n. map_of rs k = Some r \<Longrightarrow> secret_waiting t n (f r) \<Longrightarrow> secret_waiting t n r"
  shows "requests_ok (AList.map_entry k f rs) gn"
proof (rule requests_okI)
  let ?m = "AList.map_entry k f rs"
  have before: "\<exists>u. map_of rs j = Some u \<and> (secret_waiting t n q \<longrightarrow> secret_waiting t n u)"
    if "map_of ?m j = Some q" for j q t n
    using get_entryD [OF that] f(2) by (cases "j = k") auto
  show "hm_ok ?m" using requests_okD(1) [OF ok] by simp
  show "rq_id q = j \<and> request_ok q" if "map_of ?m j = Some q" for j q
    using get_entryD [OF that] requests_okD(2) [OF ok] f(1) by (cases "j = k") auto
  show "i = j" if "map_of ?m i = Some p" "map_of ?m j = Some q" "secret_waiting t n p" "secret_waiting t n q"
    for i j p q t n
    using before [OF that(1), of t n] before [OF that(2), of t n] requests_okD(3) [OF ok] that(3,4) by blast
  show "\<not> gn t n" if "map_of ?m i = Some p" "secret_waiting t n p" for i p t n
    using before [OF that(1), of t n] requests_okD(4) [OF ok] that(2) by blast
qed

subsection \<open>Executions\<close>

lemma executions_ok_delete: "executions_ok ex \<Longrightarrow> executions_ok (AList.delete k ex)"
  unfolding executions_ok_def by (blast intro: le_delete hm.ok_del)

lemma executions_ok_retain: "executions_ok ex \<Longrightarrow> executions_ok (hm_retain P ex)"
  unfolding executions_ok_def by (blast intro: le_retain hm_ok_retain)

lemma executions_ok_insert:
  assumes "executions_ok ex" "count_values (\<lambda>u. u = t) ex < MAX_SECRET_EXECUTIONS_PER_TERMINAL"
  shows "executions_ok (AList.update k t ex)"
proof -
  have "count_values (\<lambda>v. v = u) (AList.update k t ex) \<le> MAX_SECRET_EXECUTIONS_PER_TERMINAL" for u
  proof -
    have "count_values (\<lambda>v. v = u) ex \<le> MAX_SECRET_EXECUTIONS_PER_TERMINAL"
      using assms(1) by (simp add: executions_ok_def)
    then show ?thesis
      using count_update [of "\<lambda>v. v = u" k t ex] assms(2) by (cases "t = u") auto
  qed
  then show ?thesis using assms by (simp add: executions_ok_def hm.ok_put)
qed

subsection \<open>Shares\<close>

lemma shares_okI:
  assumes "hm_ok shs" "\<And>k sh. map_of shs k = Some sh \<Longrightarrow> sh_id sh = k \<and> share_ok sh"
    and "\<And>k sh. map_of shs k = Some sh \<Longrightarrow> sh_state sh = SharePending \<Longrightarrow>
        gv (sh_terminal sh) (sh_name sh) (sh_value sh)"
    and "\<And>k a j b t n. map_of shs k = Some a \<Longrightarrow> map_of shs j = Some b \<Longrightarrow>
        share_open t n a \<Longrightarrow> share_open t n b \<Longrightarrow> k = j"
    and "\<And>t. count_values (\<lambda>sh. sh_terminal sh = t \<and> sh_state sh = SharePending) shs
        \<le> MAX_PENDING_SECRET_SHARES_PER_TERMINAL"
    and "\<And>t. count_values (\<lambda>sh. sh_terminal sh = t) shs \<le> MAX_SECRET_SHARES_PER_TERMINAL"
  shows "shares_ok shs gv"
  unfolding shares_ok_def using assms by blast

lemma shares_okD:
  assumes "shares_ok shs gv"
  shows "hm_ok shs" "map_of shs k = Some sh \<Longrightarrow> sh_id sh = k \<and> share_ok sh"
    "map_of shs k = Some sh \<Longrightarrow> sh_state sh = SharePending \<Longrightarrow> gv (sh_terminal sh) (sh_name sh) (sh_value sh)"
    "map_of shs k = Some a \<Longrightarrow> map_of shs j = Some b \<Longrightarrow> share_open t n a \<Longrightarrow> share_open t n b \<Longrightarrow> k = j"
    "count_values (\<lambda>sh. sh_terminal sh = t \<and> sh_state sh = SharePending) shs
        \<le> MAX_PENDING_SECRET_SHARES_PER_TERMINAL"
    "count_values (\<lambda>sh. sh_terminal sh = t) shs \<le> MAX_SECRET_SHARES_PER_TERMINAL"
  using assms unfolding shares_ok_def by blast+

lemma shares_ok_delete:
  assumes ok: "shares_ok shs gv"
  shows "shares_ok (AList.delete k shs) gv"
proof (rule shares_okI)
  show "hm_ok (AList.delete k shs)" by (rule hm.ok_del [OF shares_okD(1) [OF ok]])
qed (use shares_okD [OF ok] in \<open>auto intro: le_delete dest!: get_delD [OF shares_okD(1) [OF ok]]\<close>)

lemma shares_ok_retain:
  assumes ok: "shares_ok shs gv"
    and gw: "\<And>k sh. map_of shs k = Some sh \<Longrightarrow> P k sh \<Longrightarrow> gv (sh_terminal sh) (sh_name sh) (sh_value sh)
      \<Longrightarrow> gw (sh_terminal sh) (sh_name sh) (sh_value sh)"
  shows "shares_ok (hm_retain P shs) gw"
proof (rule shares_okI)
  show "hm_ok (hm_retain P shs)" by (rule hm_ok_retain [OF shares_okD(1) [OF ok]])
  show "gw (sh_terminal sh) (sh_name sh) (sh_value sh)"
    if "map_of (hm_retain P shs) k = Some sh" "sh_state sh = SharePending" for k sh
    using get_retainD [OF shares_okD(1) [OF ok] that(1)] shares_okD(3) [OF ok _ that(2)] gw by blast
qed (use shares_okD(2,4,5,6) [OF ok] in \<open>auto intro: le_retain dest!: get_retainD [OF shares_okD(1) [OF ok]]\<close>)

text \<open>A change that keeps ids, terminals and names, and never reopens a share.\<close>

definition share_change :: "secret_share \<Rightarrow> secret_share \<Rightarrow> bool" where
  "share_change a b \<longleftrightarrow> sh_id b = sh_id a \<and> sh_terminal b = sh_terminal a \<and> sh_name b = sh_name a
     \<and> (share_ok a \<longrightarrow> share_ok b)
     \<and> (sh_state b = SharePending \<longrightarrow> sh_state a = SharePending \<and> sh_value b = sh_value a)"

lemma share_change_refl [simp]: "share_change a a"
  by (simp add: share_change_def)

lemma share_change_open: "share_change a b \<Longrightarrow> share_open t n b \<Longrightarrow> share_open t n a"
  by (auto simp: share_open_def share_change_def)

lemma shares_ok_change:
  assumes ok: "shares_ok shs gv" and hm: "hm_ok shs'"
    and get: "\<And>k b. map_of shs' k = Some b \<Longrightarrow> \<exists>a. map_of shs k = Some a \<and> share_change a b"
    and le: "\<And>P n. count_values P shs \<le> n \<Longrightarrow> (\<And>a b. share_change a b \<Longrightarrow> P b \<Longrightarrow> P a) \<Longrightarrow> count_values P shs' \<le> n"
    and gw: "\<And>k a b. map_of shs k = Some a \<Longrightarrow> map_of shs' k = Some b \<Longrightarrow> sh_state b = SharePending \<Longrightarrow>
        gv (sh_terminal a) (sh_name a) (sh_value a) \<Longrightarrow> gw (sh_terminal a) (sh_name a) (sh_value a)"
  shows "shares_ok shs' gw"
proof (rule shares_okI)
  show "hm_ok shs'" by (rule hm)
  show "sh_id b = k \<and> share_ok b" if b: "map_of shs' k = Some b" for k b
    using get [OF b] shares_okD(2) [OF ok] by (auto simp: share_change_def)
  show "gw (sh_terminal b) (sh_name b) (sh_value b)"
    if b: "map_of shs' k = Some b" "sh_state b = SharePending" for k b
  proof -
    obtain a where a: "map_of shs k = Some a" "share_change a b" using get [OF b(1)] by blast
    then have "gv (sh_terminal a) (sh_name a) (sh_value a)"
      using b(2) shares_okD(3) [OF ok a(1)] by (simp add: share_change_def)
    from gw [OF a(1) b this] a(2) b(2) show ?thesis by (simp add: share_change_def)
  qed
  show "k = j" if "map_of shs' k = Some a" "map_of shs' j = Some b" "share_open t n a" "share_open t n b"
    for k a j b t n
    using get [OF that(1)] get [OF that(2)] shares_okD(4) [OF ok] share_change_open that(3,4) by blast
  show "count_values (\<lambda>sh. sh_terminal sh = t \<and> sh_state sh = SharePending) shs'
      \<le> MAX_PENDING_SECRET_SHARES_PER_TERMINAL" for t
    by (rule le [OF shares_okD(5) [OF ok]]) (auto simp: share_change_def)
  show "count_values (\<lambda>sh. sh_terminal sh = t) shs' \<le> MAX_SECRET_SHARES_PER_TERMINAL" for t
    by (rule le [OF shares_okD(6) [OF ok]]) (auto simp: share_change_def)
qed

lemma shares_ok_map:
  assumes ok: "shares_ok shs gv" and f: "\<And>sh. share_change sh (f sh)"
    and gw: "\<And>k sh. map_of shs k = Some sh \<Longrightarrow> sh_state (f sh) = SharePending \<Longrightarrow>
        gv (sh_terminal sh) (sh_name sh) (sh_value sh) \<Longrightarrow> gw (sh_terminal sh) (sh_name sh) (sh_value sh)"
  shows "shares_ok (hm_map f shs) gw"
proof (rule shares_ok_change [OF ok])
  show "hm_ok (hm_map f shs)" using shares_okD(1) [OF ok] by simp
  show "\<exists>a. map_of shs k = Some a \<and> share_change a b" if "map_of (hm_map f shs) k = Some b" for k b
    using get_mapD [OF that] f by auto
  show "count_values P (hm_map f shs) \<le> n"
    if "count_values P shs \<le> n" "\<And>a b. share_change a b \<Longrightarrow> P b \<Longrightarrow> P a" for P n
    by (rule le_map [OF that(1)]) (rule that(2) [OF f])
qed (use gw in auto)

lemma shares_ok_entry:
  assumes ok: "shares_ok shs gv" and f: "\<And>sh. share_change sh (f sh)"
  shows "shares_ok (AList.map_entry k f shs) gv"
proof (rule shares_ok_change [OF ok])
  show "hm_ok (AList.map_entry k f shs)" using shares_okD(1) [OF ok] by simp
  show "\<exists>a. map_of shs j = Some a \<and> share_change a b" if "map_of (AList.map_entry k f shs) j = Some b" for j b
    using get_entryD [OF that] f by (cases "j = k") auto
  show "count_values P (AList.map_entry k f shs) \<le> n"
    if "count_values P shs \<le> n" "\<And>a b. share_change a b \<Longrightarrow> P b \<Longrightarrow> P a" for P n
    by (rule le_entry [OF that(1)]) (rule that(2) [OF f])
qed

lemma shares_ok_more: "shares_ok shs gv \<Longrightarrow> (\<And>t n v. gv t n v \<Longrightarrow> gw t n v) \<Longrightarrow> shares_ok shs gw"
  unfolding shares_ok_def by blast

lemma shares_ok_insert:
  assumes ok: "shares_ok shs gv" and sh: "sh_id sh = k" "share_ok sh"
      "gv (sh_terminal sh) (sh_name sh) (sh_value sh)"
    and fresh: "\<And>j b. map_of shs j = Some b \<Longrightarrow> \<not> share_open (sh_terminal sh) (sh_name sh) b"
    and pend: "count_values (\<lambda>b. sh_terminal b = sh_terminal sh \<and> sh_state b = SharePending) shs
        < MAX_PENDING_SECRET_SHARES_PER_TERMINAL"
    and room: "count_values (\<lambda>b. sh_terminal b = sh_terminal sh) shs < MAX_SECRET_SHARES_PER_TERMINAL"
  shows "shares_ok (AList.update k sh shs) gv"
proof (rule shares_okI)
  note hm = shares_okD(1) [OF ok]
  show "hm_ok (AList.update k sh shs)" by (rule hm.ok_put [OF hm])
  show "sh_id b = j \<and> share_ok b" if "map_of (AList.update k sh shs) j = Some b" for j b
    using get_putD [OF hm that] shares_okD(2) [OF ok] sh by blast
  show "gv (sh_terminal b) (sh_name b) (sh_value b)"
    if "map_of (AList.update k sh shs) j = Some b" "sh_state b = SharePending" for j b
    using get_putD [OF hm that(1)] shares_okD(3) [OF ok] sh that(2) by blast
  show "i = j" if "map_of (AList.update k sh shs) i = Some a" "map_of (AList.update k sh shs) j = Some b"
    "share_open t n a" "share_open t n b" for i a j b t n
  proof -
    have "share_open t n sh \<Longrightarrow> t = sh_terminal sh \<and> n = sh_name sh" by (auto simp: share_open_def)
    then show ?thesis
      using get_putD [OF hm that(1)] get_putD [OF hm that(2)] shares_okD(4) [OF ok] fresh that(3,4) by blast
  qed
  show "count_values (\<lambda>b. sh_terminal b = t \<and> sh_state b = SharePending) (AList.update k sh shs)
      \<le> MAX_PENDING_SECRET_SHARES_PER_TERMINAL" for t
    using count_update [of "\<lambda>b. sh_terminal b = t \<and> sh_state b = SharePending" k sh shs]
      shares_okD(5) [OF ok, of t] pend by (cases "sh_terminal sh = t \<and> sh_state sh = SharePending") auto
  show "count_values (\<lambda>b. sh_terminal b = t) (AList.update k sh shs) \<le> MAX_SECRET_SHARES_PER_TERMINAL" for t
    using count_update [of "\<lambda>b. sh_terminal b = t" k sh shs] shares_okD(6) [OF ok, of t] room
    by (cases "sh_terminal sh = t") auto
qed

lemma resolve_change: "st \<noteq> SharePending \<Longrightarrow> share_change sh (resolve_share st now sh)"
  by (simp add: share_change_def resolve_share_def share_ok_def)

lemma waiter_change: "share_change sh (sh\<lparr>sh_waiters := n\<rparr>)"
  by (simp add: share_change_def share_ok_def)

end
