(* ===== verification/AccessSteps.thy ===== *)
theory AccessSteps
  imports AccessInv
begin

text \<open>
  Every operation of the access manager keeps \<open>access_ok\<close>, and the reachable states of the manager
  under any interleaving of its operations.
\<close>

section \<open>Steps of the operations\<close>

lemma access_okI:
  assumes "grants_ok (as_grants s)" "requests_ok (as_requests s) (granted (as_grants s))"
    "shares_ok (as_shares s) (grant_value (as_grants s))" "executions_ok (as_executions s)"
    "length (as_activity s) \<le> ACCESS_ACTIVITY_LIMIT"
  shows "access_ok s"
  using assms by (simp add: access_ok_def)

lemma access_okD:
  assumes "access_ok s"
  shows "grants_ok (as_grants s)" "requests_ok (as_requests s) (granted (as_grants s))"
    "shares_ok (as_shares s) (grant_value (as_grants s))" "executions_ok (as_executions s)"
    "length (as_activity s) \<le> ACCESS_ACTIVITY_LIMIT"
  using assms by (simp_all add: access_ok_def)

lemma access_ok_requests:
  "access_ok s \<Longrightarrow> requests_ok rs (granted (as_grants s)) \<Longrightarrow> access_ok (s\<lparr>as_requests := rs\<rparr>)"
  by (simp add: access_ok_def)

lemma access_ok_shares:
  "access_ok s \<Longrightarrow> shares_ok shs (grant_value (as_grants s)) \<Longrightarrow> access_ok (s\<lparr>as_shares := shs\<rparr>)"
  by (simp add: access_ok_def)

lemma access_ok_del_request: "access_ok s \<Longrightarrow> access_ok (s\<lparr>as_requests := AList.delete k (as_requests s)\<rparr>)"
  by (intro access_ok_requests requests_ok_delete access_okD)

lemma access_ok_share_entry:
  "access_ok s \<Longrightarrow> (\<And>sh. share_change sh (f sh)) \<Longrightarrow>
     access_ok (s\<lparr>as_shares := AList.map_entry k f (as_shares s)\<rparr>)"
  by (intro access_ok_shares shares_ok_entry access_okD)

subsection \<open>Expiry\<close>

lemma expire_change: "share_change sh (if share_due now sh then resolve_share ShareExpired now sh else sh)"
  by (simp add: resolve_change)

lemma expire_shares_locked_fields [simp]:
  "as_requests (fst (expire_shares_locked env s)) = as_requests s"
  "as_grants (fst (expire_shares_locked env s)) = as_grants s"
  "as_executions (fst (expire_shares_locked env s)) = as_executions s"
  by (simp_all add: expire_shares_locked_def Let_def)

lemma expire_shares_locked_shares:
  "as_shares (fst (expire_shares_locked env s)) =
     hm_retain (\<lambda>_ sh. share_kept (en_now env) sh)
       (hm_map (\<lambda>sh. if share_due (en_now env) sh then resolve_share ShareExpired (en_now env) sh else sh)
         (as_shares s))"
  by (simp add: expire_shares_locked_def Let_def)

lemma access_ok_expire: "access_ok s \<Longrightarrow> access_ok (fst (expire_shares_locked env s))"
proof (rule access_okI)
  assume ok: "access_ok s"
  show "length (as_activity (fst (expire_shares_locked env s))) \<le> ACCESS_ACTIVITY_LIMIT"
    using access_okD(5) [OF ok] by (simp add: expire_shares_locked_def Let_def fold_activity_length)
  show "shares_ok (as_shares (fst (expire_shares_locked env s)))
      (grant_value (as_grants (fst (expire_shares_locked env s))))"
    unfolding expire_shares_locked_shares expire_shares_locked_fields
    by (rule shares_ok_retain [OF shares_ok_map [OF access_okD(3) [OF ok] expire_change]]) auto
qed (simp_all add: access_okD)

text \<open>
  Removing the grants that match a name, the shares that were open under that name being resolved:
  what \<open>revoke_grant\<close> and the replacement in \<open>generate_secret\<close> do.
\<close>

lemma access_ok_withdraw:
  assumes ok: "access_ok s" and g: "map_of (as_grants s) k = Some g"
    and tn: "gr_terminal g = tid" "gr_name g = name"
  shows "access_ok (fst (expire_shares_for_grant env
    (s\<lparr>as_grants := AList.delete k (as_grants s)\<rparr>) tid name reason))"
    (is "access_ok ?s")
proof (rule access_okI)
  let ?gs = "AList.delete k (as_grants s)"
  note gok = access_okD(1) [OF ok]
  note hm = grants_okD(1) [OF gok]
  have grants: "as_grants ?s = ?gs" and requests: "as_requests ?s = as_requests s"
    and ex: "as_executions ?s = as_executions s"
    and shs: "as_shares ?s = hm_map (\<lambda>sh. if share_open tid name sh then resolve_share ShareExpired (en_now env) sh
        else sh) (as_shares s)"
    by (simp_all add: expire_shares_for_grant_def Let_def)
  show "grants_ok (as_grants ?s)" unfolding grants by (rule grants_ok_delete [OF gok])
  show "requests_ok (as_requests ?s) (granted (as_grants ?s))"
    unfolding requests grants by (rule requests_ok_fewer [OF access_okD(2) [OF ok]]) (rule granted_del [OF hm])
  show "executions_ok (as_executions ?s)" unfolding ex by (rule access_okD(4) [OF ok])
  show "length (as_activity ?s) \<le> ACCESS_ACTIVITY_LIMIT"
    using access_okD(5) [OF ok] by (simp add: expire_shares_for_grant_def Let_def fold_activity_length)
  show "shares_ok (as_shares ?s) (grant_value (as_grants ?s))"
    unfolding shs grants
  proof (rule shares_ok_map [OF access_okD(3) [OF ok]])
    show "share_change sh (if share_open tid name sh then resolve_share ShareExpired (en_now env) sh else sh)" for sh
      by (simp add: resolve_change)
    fix j sh
    assume "sh_state (if share_open tid name sh then resolve_share ShareExpired (en_now env) sh else sh) = SharePending"
      and v: "grant_value (as_grants s) (sh_terminal sh) (sh_name sh) (sh_value sh)"
    then have other: "\<not> (sh_terminal sh = tid \<and> sh_name sh = name)"
      by (auto simp: resolve_share_def share_open_def split: if_splits)
    from v obtain i h where h: "map_of (as_grants s) i = Some h" "grant_for (sh_terminal sh) (sh_name sh) h"
      "gr_value h = sh_value sh" by (auto simp: grant_value_def)
    then have "i \<noteq> k" using g tn other by (auto simp: grant_for_def)
    then have "map_of ?gs i = Some h" using h(1) by (simp add: hm.get_del [OF hm])
    with h show "grant_value ?gs (sh_terminal sh) (sh_name sh) (sh_value sh)"
      unfolding grant_value_def by blast
  qed
qed

subsection \<open>Granting\<close>

lemma grant_value_put:
  assumes "hm_ok gs" "map_of gs (gr_id g) = None" "grant_value gs t n v"
  shows "grant_value (AList.update (gr_id g) g gs) t n v"
  using assms(2,3) unfolding grant_value_def by (auto simp: hm.get_put [OF assms(1)]) (metis option.distinct(1))

lemma access_ok_grant_name:
  assumes ok: "access_ok s" and fresh: "map_of (as_grants s) (gr_id g) = None"
    and new: "\<not> granted (as_grants s) (gr_terminal g) (gr_name g)"
    and room: "\<not> grants_full (gr_terminal g) s"
  shows "access_ok (fst (grant_name g s))"
proof (rule access_okI)
  note gok = access_okD(1) [OF ok]
  note hm = grants_okD(1) [OF gok]
  show "grants_ok (as_grants (fst (grant_name g s)))"
    using grants_ok_insert [OF gok new] room by (simp add: grant_name_def Let_def grants_full_def)
  show "requests_ok (as_requests (fst (grant_name g s))) (granted (as_grants (fst (grant_name g s))))"
    unfolding grant_name_def Let_def
  proof (simp, rule requests_ok_retain [OF access_okD(2) [OF ok]])
    fix k r t n
    assume "map_of (as_requests s) k = Some r" "\<not> secret_waiting (gr_terminal g) (gr_name g) r"
      "secret_waiting t n r" "granted (AList.update (gr_id g) g (as_grants s)) t n"
    then show "granted (as_grants s) t n"
      using granted_put [OF hm] by (auto simp: grant_for_def)
  qed
  show "shares_ok (as_shares (fst (grant_name g s))) (grant_value (as_grants (fst (grant_name g s))))"
    by (simp add: grant_name_def Let_def)
      (rule shares_ok_more [OF access_okD(3) [OF ok]], rule grant_value_put [OF hm fresh])
qed (use access_okD(4,5) [OF ok] in \<open>simp_all add: grant_name_def Let_def\<close>)

section \<open>What an operation may do to the entries\<close>

text \<open>
  \<open>ev_requests n\<close>, \<open>ev_grants n\<close> and \<open>ev_shares n\<close>: an entry after the operation is the new one, at
  the identifier \<open>n\<close>, or comes from the entry that had its identifier. A request keeps its kind, a
  share changes as \<open>share_change\<close> allows.
\<close>

definition ev_requests :: "uuid \<Rightarrow> (uuid, pending_request) hmap \<Rightarrow> (uuid, pending_request) hmap \<Rightarrow> bool" where
  "ev_requests n rs rs' \<longleftrightarrow> (\<forall>k r'. k \<noteq> n \<longrightarrow> map_of rs' k = Some r' \<longrightarrow>
     (\<exists>r. map_of rs k = Some r \<and> rq_kind r' = rq_kind r))"

definition ev_grants :: "uuid \<Rightarrow> (uuid, secret_grant) hmap \<Rightarrow> (uuid, secret_grant) hmap \<Rightarrow> bool" where
  "ev_grants n gs gs' \<longleftrightarrow> (\<forall>k g. k \<noteq> n \<longrightarrow> map_of gs' k = Some g \<longrightarrow> map_of gs k \<noteq> None)"

definition ev_shares :: "uuid \<Rightarrow> (uuid, secret_share) hmap \<Rightarrow> (uuid, secret_share) hmap \<Rightarrow> bool" where
  "ev_shares n shs shs' \<longleftrightarrow> (\<forall>k b. k \<noteq> n \<longrightarrow> map_of shs' k = Some b \<longrightarrow>
     (\<exists>a. map_of shs k = Some a \<and> share_change a b))"

definition evolves :: "uuid \<Rightarrow> access_state \<Rightarrow> access_state \<Rightarrow> bool" where
  "evolves n s s' \<longleftrightarrow> ev_requests n (as_requests s) (as_requests s')
     \<and> ev_grants n (as_grants s) (as_grants s') \<and> ev_shares n (as_shares s) (as_shares s')"

named_theorems evolve

lemma share_change_trans: "share_change a b \<Longrightarrow> share_change b c \<Longrightarrow> share_change a c"
  by (auto simp: share_change_def)

lemma ev_refl [evolve]: "ev_requests n rs rs" "ev_grants n gs gs" "ev_shares n shs shs"
  by (simp_all add: ev_requests_def ev_grants_def ev_shares_def)

lemma ev_requests_steps [evolve]:
  "hm_ok rs \<Longrightarrow> ev_requests n rs (AList.update n r rs)"
  "hm_ok rs \<Longrightarrow> ev_requests n rs (AList.delete k rs)"
  "hm_ok rs \<Longrightarrow> ev_requests n rs (hm_retain P rs)"
  "(\<And>r. rq_kind (f r) = rq_kind r) \<Longrightarrow> ev_requests n rs (AList.map_entry k f rs)"
  unfolding ev_requests_def
  by (auto simp: hm.get_put hm.get_del map_of_retain map_of_map_entry split: if_splits option.splits)

lemma ev_grants_steps [evolve]:
  "hm_ok gs \<Longrightarrow> ev_grants n gs (AList.update n g gs)"
  "hm_ok gs \<Longrightarrow> ev_grants n gs (AList.delete k gs)"
  "hm_ok gs \<Longrightarrow> ev_grants n gs (hm_retain Q gs)"
  "ev_grants n gs (AList.map_entry k h gs)"
  unfolding ev_grants_def
  by (auto simp: hm.get_put hm.get_del map_of_retain map_of_map_entry split: if_splits option.splits)

lemma ev_shares_steps [evolve]:
  "hm_ok shs \<Longrightarrow> ev_shares n shs (AList.update n sh shs)"
  "hm_ok shs \<Longrightarrow> ev_shares n shs (AList.delete k shs)"
  "hm_ok shs \<Longrightarrow> ev_shares n shs (hm_retain R shs)"
  "(\<And>sh. share_change sh (m sh)) \<Longrightarrow> ev_shares n shs (AList.map_entry k m shs)"
  "(\<And>sh. share_change sh (m sh)) \<Longrightarrow> ev_shares n shs (hm_map m shs)"
  unfolding ev_shares_def
  by (auto simp: hm.get_put hm.get_del map_of_retain map_of_map_entry split: if_splits option.splits)

lemma evolves_refl [simp]: "evolves n s s"
  by (simp add: evolves_def ev_refl)

lemma evolves_bump [simp]: "evolves n s (bump t) = evolves n s t" "evolves n (bump s) t = evolves n s t"
  by (simp_all add: evolves_def)

lemma evolves_push [simp]: "evolves n s (push_activity env t u k st ti d) = evolves n s t"
  by (simp add: evolves_def)

lemma ev_requests_trans: "ev_requests n rs ss \<Longrightarrow> ev_requests n ss ts \<Longrightarrow> ev_requests n rs ts"
  unfolding ev_requests_def by metis

lemma ev_grants_trans:
  assumes "ev_grants n rs ss" "ev_grants n ss ts"
  shows "ev_grants n rs ts"
  unfolding ev_grants_def
proof (intro allI impI)
  fix k g assume k: "k \<noteq> n" "map_of ts k = Some g"
  then obtain h where "map_of ss k = Some h" using assms(2) unfolding ev_grants_def by fastforce
  with k(1) show "map_of rs k \<noteq> None" using assms(1) unfolding ev_grants_def by blast
qed

lemma ev_shares_trans:
  assumes "ev_shares n rs ss" "ev_shares n ss ts"
  shows "ev_shares n rs ts"
  unfolding ev_shares_def
proof (intro allI impI)
  fix k c assume "k \<noteq> n" "map_of ts k = Some c"
  then obtain b where "map_of ss k = Some b" "share_change b c"
    using assms(2) unfolding ev_shares_def by blast
  moreover from this \<open>k \<noteq> n\<close> obtain a where "map_of rs k = Some a" "share_change a b"
    using assms(1) unfolding ev_shares_def by blast
  ultimately show "\<exists>a. map_of rs k = Some a \<and> share_change a c" using share_change_trans by blast
qed

lemma evolves_trans: "evolves n s t \<Longrightarrow> evolves n t u \<Longrightarrow> evolves n s u"
  unfolding evolves_def using ev_requests_trans ev_grants_trans ev_shares_trans by blast

lemma access_hm_ok:
  assumes "access_ok s"
  shows "hm_ok (as_requests s)" "hm_ok (as_grants s)" "hm_ok (as_shares s)" "hm_ok (as_executions s)"
  using access_okD(1-4) [OF assms] by (auto simp: grants_ok_def requests_ok_def shares_ok_def executions_ok_def)

lemma evolves_expire: "access_ok s \<Longrightarrow> evolves n s (fst (expire_shares_locked env s))"
proof -
  assume ok: "access_ok s"
  let ?m = "hm_map (\<lambda>sh. if share_due (en_now env) sh then resolve_share ShareExpired (en_now env) sh else sh) (as_shares s)"
  have shs: "ev_shares n (as_shares s) (hm_retain (\<lambda>_. share_kept (en_now env)) ?m)"
    unfolding ev_shares_def
  proof (intro allI impI)
    fix k b assume "map_of (hm_retain (\<lambda>_. share_kept (en_now env)) ?m) k = Some b"
    then have "map_of ?m k = Some b"
      using get_retainD [of ?m] access_hm_ok(3) [OF ok] by simp
    from get_mapD [OF this] obtain a where a: "map_of (as_shares s) k = Some a"
      and b: "b = (if share_due (en_now env) a then resolve_share ShareExpired (en_now env) a else a)"
      by auto
    have "share_change a b" unfolding b by (rule expire_change)
    with a show "\<exists>a. map_of (as_shares s) k = Some a \<and> share_change a b" by blast
  qed
  show ?thesis
    unfolding evolves_def expire_shares_locked_fields expire_shares_locked_shares
    by (intro conjI ev_refl(1,2) shs)
qed

lemma evolves_withdraw:
  "access_ok s \<Longrightarrow> evolves n s (fst (expire_shares_for_grant env
     (s\<lparr>as_grants := AList.delete k (as_grants s)\<rparr>) tid name reason))"
  unfolding evolves_def
  by (intro conjI; simp add: expire_shares_for_grant_def Let_def)
    (intro evolve access_hm_ok; simp add: resolve_change)+

lemma evolves_grant_name:
  "access_ok s \<Longrightarrow> evolves (gr_id g) s (fst (grant_name g s))"
  unfolding evolves_def
  by (intro conjI; simp add: grant_name_def Let_def) (intro evolve access_hm_ok; assumption)+

section \<open>Each operation\<close>

definition op_ok :: "uuid \<Rightarrow> access_state \<Rightarrow> access_state \<Rightarrow> bool" where
  "op_ok n s s' \<longleftrightarrow> access_ok s' \<and> evolves n s s'"

lemma op_ok_refl: "access_ok s \<Longrightarrow> op_ok n s s"
  by (simp add: op_ok_def)

lemma op_ok_bump [simp]: "op_ok n s (bump t) = op_ok n s t"
  by (simp add: op_ok_def)

lemma op_ok_push: "op_ok n s t \<Longrightarrow> op_ok n s (push_activity env t u k st ti d)"
  by (simp add: op_ok_def)

lemma op_ok_expire: "access_ok s \<Longrightarrow> op_ok n s (fst (expire_shares_locked env s))"
  by (simp add: op_ok_def access_ok_expire evolves_expire)

lemma op_ok_trans: "op_ok n s t \<Longrightarrow> op_ok n t u \<Longrightarrow> op_ok n s u"
  using evolves_trans by (auto simp: op_ok_def)

lemma op_ok_requests:
  "access_ok s \<Longrightarrow> requests_ok rs (granted (as_grants s)) \<Longrightarrow> ev_requests n (as_requests s) rs \<Longrightarrow>
     op_ok n s (s\<lparr>as_requests := rs\<rparr>)"
  by (simp add: op_ok_def access_ok_requests evolves_def ev_refl)

lemma op_ok_shares:
  "access_ok s \<Longrightarrow> shares_ok shs (grant_value (as_grants s)) \<Longrightarrow> ev_shares n (as_shares s) shs \<Longrightarrow>
     op_ok n s (s\<lparr>as_shares := shs\<rparr>)"
  by (simp add: op_ok_def access_ok_shares evolves_def ev_refl)

lemma op_ok_share_entry:
  "access_ok s \<Longrightarrow> (\<And>sh. share_change sh (f sh)) \<Longrightarrow>
     op_ok n s (s\<lparr>as_shares := AList.map_entry k f (as_shares s)\<rparr>)"
  by (intro op_ok_shares shares_ok_entry access_okD evolve)

lemma op_ok_del_request:
  "access_ok s \<Longrightarrow> op_ok n s (s\<lparr>as_requests := AList.delete k (as_requests s)\<rparr>)"
  by (intro op_ok_requests requests_ok_delete access_okD evolve access_hm_ok)

lemma op_ok_request_entry:
  assumes ok: "access_ok s"
    and f: "\<And>r. rq_id (f r) = rq_id r" "\<And>r. rq_kind (f r) = rq_kind r"
      "\<And>r. rq_terminal (f r) = rq_terminal r"
      "\<And>r. map_of (as_requests s) k = Some r \<Longrightarrow> request_ok (f r)"
  shows "op_ok n s (s\<lparr>as_requests := AList.map_entry k f (as_requests s)\<rparr>)"
proof (intro op_ok_requests ok evolve f(2))
  show "requests_ok (AList.map_entry k f (as_requests s)) (granted (as_grants s))"
  proof (rule requests_ok_entry [OF access_okD(2) [OF ok]])
    fix r t m assume r: "map_of (as_requests s) k = Some r" and w: "secret_waiting t m (f r)"
    then have "rq_kind r = SecretKind m"
      by (auto simp: secret_waiting_def is_secret_named_def f split: pending_kind.splits)
    moreover have "request_ok r" using requests_okD(2) [OF access_okD(2) [OF ok] r] by simp
    ultimately show "secret_waiting t m r"
      using w by (simp add: secret_waiting_def f request_ok_def)
  qed (simp add: f)
qed

lemma op_ok_add_waiter: "access_ok s \<Longrightarrow> op_ok n s (add_waiter k s)"
  unfolding add_waiter_def
proof (rule op_ok_request_entry)
  fix r assume "access_ok s" "map_of (as_requests s) k = Some r"
  then have "request_ok r" using requests_okD(2) [OF access_okD(2)] by blast
  then show "request_ok (r\<lparr>rq_waiters := rq_waiters r + 1\<rparr>)"
    by (auto simp: request_ok_def split: pending_kind.splits)
qed simp_all

lemma op_ok_insert_request:
  assumes ok: "access_ok s"
    and new: "\<And>m. kind = SecretKind m \<Longrightarrow> \<not> granted (as_grants s) tid m
      \<and> (\<forall>r \<in> set (hm_values (as_requests s)). \<not> secret_waiting tid m r)"
  shows "op_ok (en_id env) s (insert_request env tid h kind d a s)"
proof -
  let ?r = "\<lparr>rq_id = en_id env, rq_terminal = tid, rq_hash = h, rq_kind = kind, rq_state = Pending,
        rq_description = d, rq_agent = a, rq_created = en_now env, rq_waiters = 1\<rparr>"
  have w: "t = tid \<and> kind = SecretKind m" if "secret_waiting t m ?r" for t m
    using that by (auto simp: secret_waiting_def is_secret_named_def split: pending_kind.splits)
  have "requests_ok (AList.update (en_id env) ?r (as_requests s)) (granted (as_grants s))"
  proof (rule requests_ok_insert [OF access_okD(2) [OF ok]])
    show "request_ok ?r" by (simp add: request_ok_def split: pending_kind.split)
    show "\<not> granted (as_grants s) t m" if "secret_waiting t m ?r" for t m
      using w [OF that] new by blast
    show "\<not> secret_waiting t m q" if "secret_waiting t m ?r" "map_of (as_requests s) j = Some q" for t m j q
      using w [OF that(1)] new that(2) hm_values_iff [OF access_hm_ok(1) [OF ok], of q] by blast
  qed simp
  then show ?thesis
    unfolding insert_request_def op_ok_bump by (intro op_ok_requests ok evolve access_hm_ok)
qed

lemma request_secret_ok: "access_ok s \<Longrightarrow> op_ok (en_id env) s (fst (snd (request_secret ext env s tid nm d a)))"
  unfolding request_secret_def Let_def
  by (auto simp: op_ok_refl op_ok_add_waiter granted_def values_ex access_hm_ok hm_find_None
      split: sum.splits option.splits intro!: op_ok_insert_request)

lemma request_sudo_ok: "access_ok s \<Longrightarrow> op_ok (en_id env) s (fst (snd (request_sudo ext env s tid d a c cmd)))"
  unfolding request_sudo_def Let_def
  by (auto simp: op_ok_refl op_ok_add_waiter split: sum.splits option.splits intro!: op_ok_insert_request)

end
