(* ===== verification/AccessReach.thy ===== *)
theory AccessReach
  imports AccessSteps
begin

text \<open>
  The remaining operations keep the invariant, the reachable configurations of the manager, and
  the properties of the access component.
\<close>

section \<open>Grants and shares\<close>

lemma op_ok_grant_name:
  assumes ok: "access_ok s" and fresh: "map_of (as_grants s) (en_id env) = None"
    and new: "\<not> list_ex (grant_for tid name) (hm_values (as_grants s))" and room: "\<not> grants_full tid s"
  shows "op_ok (en_id env) s (fst (grant_name (grant_new env tid name source value) s))"
  using access_ok_grant_name [OF ok, of "grant_new env tid name source value"]
    evolves_grant_name [OF ok, of "grant_new env tid name source value"] assms
  by (simp add: op_ok_def grant_new_def granted_def values_ex access_hm_ok)

lemma add_secret_ok:
  assumes "access_ok s" "map_of (as_grants s) (en_id env) = None"
  shows "op_ok (en_id env) s (fst (snd (add_secret env s tid nm v d)))"
  using assms op_ok_grant_name [OF assms, of tid]
  unfolding add_secret_def Let_def
  by (auto simp: op_ok_refl case_prod_beta split: sum.splits intro!: op_ok_push)

lemma approve_secret_ok:
  assumes ok: "access_ok s" and fresh: "map_of (as_grants s) (en_id env) = None"
  shows "op_ok (en_id env) s (fst (snd (approve_secret env s tid rid h v)))"
proof -
  have "op_ok (en_id env) s (s\<lparr>as_requests := AList.delete rid (as_requests s),
      as_grants := AList.update (en_id env) (grant_new env tid name source value) (as_grants s)\<rparr>)"
    (is "op_ok _ _ (s\<lparr>as_requests := ?rs, as_grants := AList.update _ ?g _\<rparr>)")
    if r: "map_of (as_requests s) rid = Some r" "rq_kind r = SecretKind name" "rq_terminal r = tid"
      "rq_state r = Pending"
      and new: "\<not> list_ex (grant_for tid name) (hm_values (as_grants s))" and room: "\<not> grants_full tid s"
    for r name source "value"
  proof -
    have ng: "\<not> granted (as_grants s) tid name"
      using new by (simp add: granted_def values_ex access_hm_ok [OF ok])
    have gid: "gr_id ?g = en_id env" "gr_terminal ?g = tid" "gr_name ?g = name"
      by (simp_all add: grant_new_def)
    note hm = access_hm_ok [OF ok]
    have rw: "secret_waiting tid name r"
      using r by (simp add: secret_waiting_def is_secret_named_def)
    have "access_ok (s\<lparr>as_requests := ?rs, as_grants := AList.update (en_id env) ?g (as_grants s)\<rparr>)"
    proof (rule access_okI)
      show "grants_ok (as_grants (s\<lparr>as_requests := ?rs, as_grants := AList.update (en_id env) ?g (as_grants s)\<rparr>))"
        using grants_ok_insert [OF access_okD(1) [OF ok], of ?g] ng room gid
        by (simp add: grants_full_def)
      have "requests_ok ?rs (granted (AList.update (en_id env) ?g (as_grants s)))"
      proof (rule requests_okI)
        note d = requests_okD [OF requests_ok_delete [OF access_okD(2) [OF ok], of rid]]
        show "hm_ok ?rs" by (rule d(1))
        show "rq_id q = k \<and> request_ok q" if "map_of ?rs k = Some q" for k q using d(2) [OF that] .
        show "i = j" if "map_of ?rs i = Some p" "map_of ?rs j = Some q" "secret_waiting t n p" "secret_waiting t n q"
          for i p j q t n using d(3) [OF that] .
        show "\<not> granted (AList.update (en_id env) ?g (as_grants s)) t n"
          if q: "map_of ?rs k = Some q" "secret_waiting t n q" for k q t n
        proof
          assume "granted (AList.update (en_id env) ?g (as_grants s)) t n"
          then have "granted (as_grants s) t n \<or> grant_for t n ?g"
            using granted_put [OF hm(2), of ?g t n] gid by simp
          then have tn: "t = tid \<and> n = name"
            using d(4) [OF q] gid by (auto simp: grant_for_def)
          have k: "k \<noteq> rid" "map_of (as_requests s) k = Some q" using get_delD [OF hm(1) q(1)] by auto
          have "k = rid"
            by (rule requests_okD(3) [OF access_okD(2) [OF ok] k(2) r(1)]) (use q(2) rw tn in auto)
          with k(1) show False by simp
        qed
      qed
      then show "requests_ok (as_requests (s\<lparr>as_requests := ?rs, as_grants := AList.update (en_id env) ?g (as_grants s)\<rparr>))
          (granted (as_grants (s\<lparr>as_requests := ?rs, as_grants := AList.update (en_id env) ?g (as_grants s)\<rparr>)))"
        by simp
      have "shares_ok (as_shares s) (grant_value (AList.update (en_id env) ?g (as_grants s)))"
        using shares_ok_more [OF access_okD(3) [OF ok]] grant_value_put [OF hm(2), of ?g] fresh gid by auto
      then show "shares_ok (as_shares (s\<lparr>as_requests := ?rs, as_grants := AList.update (en_id env) ?g (as_grants s)\<rparr>))
          (grant_value (as_grants (s\<lparr>as_requests := ?rs, as_grants := AList.update (en_id env) ?g (as_grants s)\<rparr>)))"
        by simp
    qed (use access_okD(4,5) [OF ok] in simp_all)
    moreover have "evolves (en_id env) s (s\<lparr>as_requests := ?rs, as_grants := AList.update (en_id env) ?g (as_grants s)\<rparr>)"
      unfolding evolves_def by (intro conjI; simp) (intro evolve hm)+
    ultimately show ?thesis by (simp add: op_ok_def)
  qed
  then show ?thesis
    using ok unfolding approve_secret_def Let_def
    by (auto simp: op_ok_refl grant_new_def split: sum.splits option.splits pending_kind.splits intro!: op_ok_push)
qed

lemma reject_ok: "access_ok s \<Longrightarrow> op_ok n s (fst (snd (reject env s tid rid h c)))"
  unfolding reject_def Let_def
  by (auto simp: op_ok_refl op_ok_del_request split: sum.splits option.splits intro!: op_ok_push)

lemma op_ok_withdraw:
  "access_ok s \<Longrightarrow> map_of (as_grants s) k = Some g \<Longrightarrow> gr_terminal g = tid \<Longrightarrow> gr_name g = name \<Longrightarrow>
     op_ok n s (fst (expire_shares_for_grant env (s\<lparr>as_grants := AList.delete k (as_grants s)\<rparr>) tid name reason))"
  by (simp add: op_ok_def access_ok_withdraw evolves_withdraw)

lemma revoke_grant_ok: "access_ok s \<Longrightarrow> op_ok n s (fst (snd (revoke_grant env s tid gid)))"
  unfolding revoke_grant_def Let_def
  by (auto simp: op_ok_refl case_prod_beta split: option.splits intro!: op_ok_push op_ok_withdraw)

lemma drop_grant_by_name_ok: "access_ok s \<Longrightarrow> op_ok n s (fst (snd (drop_grant_by_name env s tid nm)))"
  unfolding drop_grant_by_name_def
  by (auto simp: op_ok_refl revoke_grant_ok split: sum.splits option.splits)

lemma withdraw_grants:
  "as_grants (fst (expire_shares_for_grant env s tid name reason)) = as_grants s"
  by (simp add: expire_shares_for_grant_def Let_def)

lemma generate_secret_ok:
  assumes ok: "access_ok s" and fresh: "map_of (as_grants s) (en_id env) = None"
  shows "op_ok (en_id env) s (fst (snd (generate_secret env s tid nm a d l c rep draws)))"
proof -
  note hm = access_hm_ok(2) [OF ok]
  let ?w = "\<lambda>k name. push_activity env (fst (expire_shares_for_grant env
      (s\<lparr>as_grants := AList.delete k (as_grants s)\<rparr>) tid name (lit ''replaced'')))
      tid Secret Revoked (lit ''Secret grant replaced'') name"
  have gone: "op_ok (en_id env) s (?w (gr_id old) name)
      \<and> map_of (as_grants (?w (gr_id old) name)) (en_id env) = None
      \<and> \<not> list_ex (grant_for tid name) (hm_values (as_grants (?w (gr_id old) name)))"
    if f: "List.find (grant_for tid name) (hm_values (as_grants s)) = Some old" for old name
  proof -
    obtain k where k: "map_of (as_grants s) k = Some old" "grant_for tid name old"
      using values_find_Some [OF f hm] by blast
    have gid: "gr_id old = k" by (rule grants_okD(2) [OF access_okD(1) [OF ok] k(1)])
    have w: "op_ok (en_id env) s (?w k name)"
      by (intro op_ok_push op_ok_withdraw [OF ok k(1)]) (use k(2) in \<open>auto simp: grant_for_def\<close>)
    have gs: "as_grants (?w k name) = AList.delete k (as_grants s)" by (simp add: withdraw_grants)
    have "map_of (AList.delete k (as_grants s)) (en_id env) = None"
      using fresh by (simp add: hm.get_del [OF hm])
    moreover have "\<not> (\<exists>j g. map_of (AList.delete k (as_grants s)) j = Some g \<and> grant_for tid name g)"
      using grants_okD(3) [OF access_okD(1) [OF ok] k(1)] k(2) by (auto simp: hm.get_del [OF hm] grant_for_def)
    ultimately show ?thesis
      using w unfolding gid gs by (simp add: values_ex hm.ok_del [OF hm])
  qed
  have grant: "op_ok (en_id env) s (push_activity env (fst (grant_name (grant_new env tid name src v) t))
        tid Secret st ti de)"
    if "op_ok (en_id env) s t" "map_of (as_grants t) (en_id env) = None"
      "\<not> list_ex (grant_for tid name) (hm_values (as_grants t))" "\<not> grants_full tid t"
    for t name src v st ti de
  proof -
    have "access_ok t" using that(1) by (simp add: op_ok_def)
    from op_ok_trans [OF that(1) op_ok_grant_name [OF this that(2,3,4)]] show ?thesis
      by (rule op_ok_push)
  qed
  have none: "\<not> list_ex (grant_for tid name) (hm_values (as_grants s))"
    if "List.find (grant_for tid name) (hm_values (as_grants s)) = None" for name
    using that by (auto simp: find_None_iff list_ex_iff)
  show ?thesis
    unfolding generate_secret_def Let_def case_prod_beta
    using ok fresh gone grant none
    by (auto simp: op_ok_refl split: sum.splits option.splits)
qed

lemma make_room_ok:
  assumes ok: "access_ok s" and m: "make_room tid s = Inr t"
  shows "op_ok n s t \<and> count_values (\<lambda>sh. sh_terminal sh = tid) (as_shares t) < MAX_SECRET_SHARES_PER_TERMINAL
    \<and> as_grants t = as_grants s
    \<and> (\<forall>k sh. map_of (as_shares t) k = Some sh \<longrightarrow> map_of (as_shares s) k = Some sh)
    \<and> count_values (\<lambda>sh. sh_terminal sh = tid \<and> sh_state sh = SharePending) (as_shares t)
        \<le> count_values (\<lambda>sh. sh_terminal sh = tid \<and> sh_state sh = SharePending) (as_shares s)"
proof (cases "MAX_SECRET_SHARES_PER_TERMINAL \<le> count_values (\<lambda>sh. sh_terminal sh = tid) (as_shares s)")
  case True
  note hm = access_hm_ok(3) [OF ok]
  from True m obtain sh where f: "min_by_key share_age
      (filter (\<lambda>sh. sh_terminal sh = tid \<and> sh_state sh \<noteq> SharePending) (hm_values (as_shares s))) = Some sh"
    and t: "t = s\<lparr>as_shares := AList.delete (sh_id sh) (as_shares s)\<rparr>"
    by (auto simp: make_room_def split: option.splits)
  from min_by_key_mem [OF f] have sh: "sh \<in> set (hm_values (as_shares s))" "sh_terminal sh = tid" by auto
  then obtain k where k: "map_of (as_shares s) k = Some sh" using hm_values_iff [OF hm, of sh] by blast
  have i: "sh_id sh = k" using shares_okD(2) [OF access_okD(3) [OF ok] k] by simp
  have "Suc (count_values (\<lambda>sh. sh_terminal sh = tid) (AList.delete k (as_shares s)))
      = count_values (\<lambda>sh. sh_terminal sh = tid) (as_shares s)"
    by (rule count_delete_present [OF hm k]) (rule sh(2))
  moreover have "count_values (\<lambda>sh. sh_terminal sh = tid) (as_shares s) \<le> MAX_SECRET_SHARES_PER_TERMINAL"
    by (rule shares_okD(6) [OF access_okD(3) [OF ok]])
  moreover have "op_ok n s t"
    unfolding t i by (intro op_ok_shares ok shares_ok_delete access_okD(3) evolve hm)
  ultimately show ?thesis
    unfolding t i by (auto simp: hm.get_del [OF hm] count_delete split: if_splits)
next
  case False
  with m have "t = s" by (simp add: make_room_def)
  with False op_ok_refl [OF ok] show ?thesis by simp
qed

lemma share_secret_ok:
  assumes ok: "access_ok s"
  shows "op_ok (en_id env) s (fst (snd (share_secret_with_ttl env s tid nm a d ttl)))"
proof -
  let ?t = "fst (expire_shares_locked env s)"
  have tok: "access_ok ?t" and te: "op_ok (en_id env) s ?t"
    using access_ok_expire [OF ok] op_ok_expire [OF ok] by auto
  have waiter: "op_ok (en_id env) s (?t\<lparr>as_shares := AList.map_entry k (\<lambda>sh. sh\<lparr>sh_waiters := sh_waiters sh + 1\<rparr>) (as_shares ?t)\<rparr>)" for k
    by (rule op_ok_trans [OF te op_ok_share_entry [OF tok waiter_change]])
  have insert: "op_ok (en_id env) s (u\<lparr>as_shares := AList.update (en_id env) sh (as_shares u)\<rparr>)"
    if room: "make_room tid ?t = Inr u"
      and g: "List.find (grant_for tid name) (hm_values (as_grants ?t)) = Some g"
      and none: "hm_find (share_open tid name) (as_shares ?t) = None"
      and few: "\<not> MAX_PENDING_SECRET_SHARES_PER_TERMINAL
          \<le> count_values (\<lambda>sh. sh_terminal sh = tid \<and> sh_state sh = SharePending) (as_shares ?t)"
      and sh: "sh_id sh = en_id env" "sh_terminal sh = tid" "sh_name sh = name" "sh_state sh = SharePending"
        "sh_viewed sh = None" "sh_resolved sh = None" "sh_value sh = gr_value g"
    for u name g sh
  proof -
    note r = make_room_ok [OF tok room, of "en_id env"]
    then have uok: "access_ok u" and ue: "op_ok (en_id env) s u"
      using op_ok_trans [OF te] by (auto simp: op_ok_def)
    have "\<not> share_open tid name b" if "map_of (as_shares u) j = Some b" for j b
    proof -
      have "map_of (as_shares ?t) j = Some b" using r that by blast
      then have "b \<in> set (hm_values (as_shares ?t))" using hm_values_iff [OF access_hm_ok(3) [OF tok]] by blast
      with none show ?thesis by (auto simp: hm_find_None)
    qed
    moreover have "grant_value (as_grants u) tid name (gr_value g)"
    proof -
      obtain k where k: "map_of (as_grants s) k = Some g" "grant_for tid name g"
        using values_find_Some [OF g] access_hm_ok(2) [OF tok] by auto
      moreover have "as_grants u = as_grants s" using r by simp
      ultimately show ?thesis unfolding grant_value_def by auto
    qed
    ultimately have "shares_ok (AList.update (en_id env) sh (as_shares u)) (grant_value (as_grants u))"
      using r few sh by (intro shares_ok_insert access_okD(3) uok) (auto simp: share_ok_def)
    then have "op_ok (en_id env) u (u\<lparr>as_shares := AList.update (en_id env) sh (as_shares u)\<rparr>)"
      by (intro op_ok_shares uok evolve access_hm_ok)
    then show ?thesis by (rule op_ok_trans [OF ue])
  qed
  show ?thesis
    unfolding share_secret_with_ttl_def Let_def case_prod_beta
    using te waiter insert
    by (auto simp: op_ok_refl [OF ok] split: sum.splits option.splits intro!: op_ok_push)
qed


lemma share_of_Some: "share_of tid k s = Some sh \<Longrightarrow> map_of (as_shares s) k = Some sh \<and> sh_terminal sh = tid"
  by (auto simp: share_of_def split: option.splits if_splits)

lemma op_ok_expire_entry:
  "access_ok s \<Longrightarrow> (\<And>sh. share_change sh (f sh)) \<Longrightarrow>
     op_ok n s ((fst (expire_shares_locked env s))\<lparr>as_shares :=
       AList.map_entry k f (as_shares (fst (expire_shares_locked env s)))\<rparr>)"
  by (rule op_ok_trans [OF op_ok_expire op_ok_share_entry [OF access_ok_expire]])

lemma wait_share_ok: "access_ok s \<Longrightarrow> op_ok n s (fst (snd (wait_share env s tid k)))"
  unfolding wait_share_def Let_def case_prod_beta
  using op_ok_expire [of s n env] op_ok_expire_entry [of s, OF _ waiter_change]
  by (auto split: option.splits share_state.splits)

lemma view_change: "share_change sh (sh\<lparr>sh_value := [], sh_state := ShareViewed, sh_viewed := Some now, sh_resolved := Some now\<rparr>)"
  by (simp add: share_change_def share_ok_def)

lemma reveal_share_ok: "access_ok s \<Longrightarrow> op_ok n s (fst (snd (reveal_share env s tid k)))"
  unfolding reveal_share_def Let_def case_prod_beta
  using op_ok_expire [of s n env] op_ok_expire_entry [of s, OF _ view_change]
  by (auto split: option.splits share_state.splits intro!: op_ok_push)

lemma dismiss_share_ok: "access_ok s \<Longrightarrow> op_ok n s (fst (snd (dismiss_share env s tid k)))"
  unfolding dismiss_share_def Let_def case_prod_beta
  using op_ok_expire [of s n env] op_ok_expire_entry [of s, OF _ resolve_change [of ShareDismissed]]
  by (auto split: option.splits intro!: op_ok_push)

section \<open>Root commands, executions, terminals, waiters\<close>

definition sudo_request :: "uuid \<Rightarrow> access_state \<Rightarrow> bool" where
  "sudo_request k s \<longleftrightarrow> (\<forall>r. map_of (as_requests s) k = Some r \<longrightarrow> (\<exists>v. rq_kind r = SudoKind v))"

lemma op_ok_sudo_state:
  assumes ok: "access_ok s" and k: "sudo_request k s"
  shows "op_ok n s (s\<lparr>as_requests := AList.map_entry k (\<lambda>r. r\<lparr>rq_state := st\<rparr>) (as_requests s)\<rparr>)"
  by (rule op_ok_request_entry [OF ok]) (use k in \<open>auto simp: request_ok_def sudo_request_def\<close>)

lemma approve_sudo_begin_ok: "access_ok s \<Longrightarrow> op_ok n s (fst (snd (approve_sudo_begin s tid rid h p)))"
  unfolding approve_sudo_begin_def
  by (auto simp: op_ok_refl sudo_request_def split: sum.splits option.splits pending_kind.splits
      intro!: op_ok_sudo_state)

lemma fail_request_ok: "access_ok s \<Longrightarrow> op_ok n s (fst (fail_request env s k m))"
  unfolding fail_request_def
  by (auto simp: op_ok_refl op_ok_del_request split: option.splits intro!: op_ok_push)

lemma approve_sudo_finish_ok:
  "access_ok s \<Longrightarrow> sudo_request (se_request e) s \<Longrightarrow>
     op_ok n s (fst (snd (approve_sudo_finish ext env s e a)))"
  unfolding approve_sudo_finish_def Let_def case_prod_beta
  by (auto simp: op_ok_refl fail_request_ok op_ok_sudo_state split: sum.splits option.splits)

lemma run_sudo_finish_ok: "access_ok s \<Longrightarrow> op_ok n s (fst (run_sudo_finish env s e r))"
  unfolding run_sudo_finish_def
  by (auto simp: fail_request_ok op_ok_del_request split: option.splits sum.splits intro!: op_ok_push)

lemma execute_secret_ok:
  assumes ok: "access_ok s"
  shows "op_ok n s (fst (snd (execute_secret ext env s tid nm cwd cmd d)))"
proof -
  have "op_ok n s (s\<lparr>as_grants := AList.map_entry k
          (\<lambda>g. g\<lparr>gr_uses := sat_add (gr_uses g) 1, gr_last_used := u, gr_last_command := c\<rparr>) (as_grants s),
        as_executions := AList.update i tid (as_executions s)\<rparr>)"
    if room: "\<not> MAX_SECRET_EXECUTIONS_PER_TERMINAL \<le> count_values (\<lambda>t. t = tid) (as_executions s)"
    for k u c i
  proof -
    let ?gs = "AList.map_entry k
          (\<lambda>g. g\<lparr>gr_uses := sat_add (gr_uses g) 1, gr_last_used := u, gr_last_command := c\<rparr>) (as_grants s)"
    have gv: "grant_value ?gs = grant_value (as_grants s)"
      by (intro ext granted_entry) simp
    have gd: "granted ?gs = granted (as_grants s)"
      by (intro ext) (simp only: granted_value gv)
    have "grants_ok ?gs" by (rule grants_ok_entry [OF access_okD(1) [OF ok]]) simp
    moreover have "executions_ok (AList.update i tid (as_executions s))"
      using executions_ok_insert [OF access_okD(4) [OF ok]] room by simp
    ultimately show ?thesis
      using access_okD [OF ok] gv gd ev_grants_steps(4) ev_refl
      by (simp only: op_ok_def access_ok_def evolves_def access_state.simps access_state.ext_inject) simp
  qed
  then show ?thesis
    unfolding execute_secret_def
    by (auto simp: op_ok_refl [OF ok] split: sum.splits option.splits prod.splits)
qed

lemma finish_secret_execution_ok: "access_ok s \<Longrightarrow> op_ok n s (finish_secret_execution s k)"
  using executions_ok_delete [of "as_executions s" k]
  by (simp add: finish_secret_execution_def op_ok_def access_ok_def evolves_def ev_refl)

lemma clear_gone_ok:
  assumes ok: "access_ok s"
  shows "op_ok n s (fst (clear_gone gone m s))"
proof -
  note hm = access_hm_ok [OF ok]
  let ?gs = "hm_retain (\<lambda>_ g. \<not> gone (gr_terminal g)) (as_grants s)"
  have v: "grant_value ?gs t na v" if gv: "grant_value (as_grants s) t na v" and ng: "\<not> gone t" for t na v
  proof -
    obtain k g where g: "map_of (as_grants s) k = Some g" "grant_for t na g" "gr_value g = v"
      using gv unfolding grant_value_def by blast
    then have "map_of ?gs k = Some g"
      using ng by (simp add: map_of_retain [OF hm(2)] grant_for_def)
    with g show ?thesis unfolding grant_value_def by blast
  qed
  have "shares_ok (hm_retain (\<lambda>_ sh. \<not> gone (sh_terminal sh)) (as_shares s)) (grant_value ?gs)"
    by (rule shares_ok_retain [OF access_okD(3) [OF ok]]) (rule v)
  moreover have "requests_ok (hm_retain (\<lambda>_ r. \<not> gone (rq_terminal r)) (as_requests s)) (granted ?gs)"
    by (rule requests_ok_retain [OF access_okD(2) [OF ok]]) (rule granted_retain [OF hm(2)])
  ultimately have "access_ok (fst (clear_gone gone m s))"
    using access_okD [OF ok]
    by (simp add: clear_gone_def access_ok_def grants_ok_retain executions_ok_retain)
  moreover have "evolves n s (fst (clear_gone gone m s))"
    unfolding evolves_def by (intro conjI; simp add: clear_gone_def) (intro evolve hm)+
  ultimately show ?thesis by (simp add: op_ok_def)
qed

lemma op_ok_activity:
  "op_ok n s t \<Longrightarrow> length a \<le> ACCESS_ACTIVITY_LIMIT \<Longrightarrow> op_ok n s (t\<lparr>as_activity := a\<rparr>)"
  by (simp add: op_ok_def access_ok_def evolves_def)

lemma clear_terminal_ok:
  assumes ok: "access_ok s"
  shows "op_ok n s (fst (clear_terminal s tid))"
proof -
  have o: "op_ok n s (fst (clear_gone (\<lambda>t. t = tid) (lit ''terminal closed'') s))"
    by (rule clear_gone_ok [OF ok])
  then have "length (as_activity (fst (clear_gone (\<lambda>t. t = tid) (lit ''terminal closed'') s)))
      \<le> ACCESS_ACTIVITY_LIMIT" by (simp add: op_ok_def access_ok_def)
  from op_ok_activity [OF o order_trans [OF length_filter_le this]] show ?thesis
    unfolding clear_terminal_def Let_def case_prod_beta fst_conv op_ok_bump .
qed

lemma clear_inactive_ok: "access_ok s \<Longrightarrow> op_ok n s (fst (clear_inactive_terminals s active))"
  unfolding clear_inactive_terminals_def Let_def case_prod_beta by (simp add: clear_gone_ok)

lemma detach_waiter_ok:
  assumes ok: "access_ok s"
  shows "op_ok n s (detach_waiter env s k)"
proof -
  have "op_ok n s (s\<lparr>as_requests := AList.map_entry k (\<lambda>r. r\<lparr>rq_waiters := rq_waiters r - 1\<rparr>) (as_requests s)\<rparr>)"
    if k: "map_of (as_requests s) k = Some r" "\<not> (rq_waiters r - 1 = 0 \<and> rq_state r = Pending)" for r
  proof (rule op_ok_request_entry [OF ok])
    fix q assume "map_of (as_requests s) k = Some q"
    then have "q = r" "request_ok r"
      using k(1) requests_okD(2) [OF access_okD(2) [OF ok] k(1)] by auto
    then show "request_ok (q\<lparr>rq_waiters := rq_waiters q - 1\<rparr>)"
      using k(2) by (auto simp: request_ok_def split: pending_kind.splits)
  qed simp_all
  moreover have "op_ok n s (s\<lparr>as_shares := AList.map_entry k (\<lambda>sh. sh\<lparr>sh_waiters := sh_waiters sh - 1\<rparr>) (as_shares s)\<rparr>)"
    by (rule op_ok_share_entry [OF ok waiter_change])
  ultimately show ?thesis
    unfolding detach_waiter_def
    by (auto simp: op_ok_refl [OF ok] op_ok_del_request [OF ok] split: option.splits intro!: op_ok_push)
qed


section \<open>Reachable configurations\<close>

text \<open>
  A call of the manager. \<open>CallApproveBegin\<close> and \<open>CallApproveFinish\<close> are the two critical sections
  of \<open>approve_sudo\<close>, \<open>CallRunFinish\<close> the one of \<open>run_sudo\<close>.
\<close>

datatype access_call =
    CallRequestSecret uuid ustring ustring ustring
  | CallRequestSudo uuid ustring ustring path "ustring list"
  | CallAddSecret uuid ustring ustring "ustring option"
  | CallApproveSecret uuid uuid ustring ustring
  | CallReject uuid uuid ustring "ustring option"
  | CallRevoke uuid uuid
  | CallDrop uuid ustring
  | CallGenerate uuid ustring ustring "ustring option" "nat option" secret_charset bool "nat \<Rightarrow> nat"
  | CallShare uuid ustring ustring "ustring option" nat
  | CallWaitShare uuid uuid
  | CallReveal uuid uuid
  | CallDismiss uuid uuid
  | CallExpire
  | CallApproveBegin uuid uuid ustring ustring
  | CallApproveFinish sudo_execution "ustring + unit"
  | CallRunFinish sudo_execution "(ustring + int) option"
  | CallExecute uuid ustring path "ustring list" secret_delivery
  | CallFinishExecution uuid
  | CallClear uuid
  | CallClearInactive "uuid list"
  | CallDetach uuid

fun access_apply :: "access_ext \<Rightarrow> access_env \<Rightarrow> access_state \<Rightarrow> access_call \<Rightarrow> access_state \<times> access_out list" where
  "access_apply ext env s (CallRequestSecret t n d a) = snd (request_secret ext env s t n d a)"
| "access_apply ext env s (CallRequestSudo t d a c cmd) = snd (request_sudo ext env s t d a c cmd)"
| "access_apply ext env s (CallAddSecret t n v d) = snd (add_secret env s t n v d)"
| "access_apply ext env s (CallApproveSecret t k h v) = snd (approve_secret env s t k h v)"
| "access_apply ext env s (CallReject t k h c) = snd (reject env s t k h c)"
| "access_apply ext env s (CallRevoke t g) = snd (revoke_grant env s t g)"
| "access_apply ext env s (CallDrop t n) = snd (drop_grant_by_name env s t n)"
| "access_apply ext env s (CallGenerate t n a d l c r draws) = snd (generate_secret env s t n a d l c r draws)"
| "access_apply ext env s (CallShare t n a d ttl) = snd (share_secret_with_ttl env s t n a d ttl)"
| "access_apply ext env s (CallWaitShare t k) = snd (wait_share env s t k)"
| "access_apply ext env s (CallReveal t k) = snd (reveal_share env s t k)"
| "access_apply ext env s (CallDismiss t k) = snd (dismiss_share env s t k)"
| "access_apply ext env s CallExpire = expire_shares env s"
| "access_apply ext env s (CallApproveBegin t k h p) = snd (approve_sudo_begin s t k h p)"
| "access_apply ext env s (CallApproveFinish e a) = snd (approve_sudo_finish ext env s e a)"
| "access_apply ext env s (CallRunFinish e r) = run_sudo_finish env s e r"
| "access_apply ext env s (CallExecute t n c cmd d) = snd (execute_secret ext env s t n c cmd d)"
| "access_apply ext env s (CallFinishExecution k) = (finish_secret_execution s k, [])"
| "access_apply ext env s (CallClear t) = clear_terminal s t"
| "access_apply ext env s (CallClearInactive active) = clear_inactive_terminals s active"
| "access_apply ext env s (CallDetach k) = (detach_waiter env s k, [])"

text \<open>The execution that a call starts, and the executions a call may belong to.\<close>

definition begun :: "access_state \<Rightarrow> access_call \<Rightarrow> sudo_execution set" where
  "begun s call = (case call of
     CallApproveBegin t k h p \<Rightarrow> (case fst (approve_sudo_begin s t k h p) of Inl _ \<Rightarrow> {} | Inr e \<Rightarrow> {e})
   | _ \<Rightarrow> {})"

definition call_allowed :: "sudo_execution set \<Rightarrow> access_call \<Rightarrow> bool" where
  "call_allowed E call = (case call of
     CallApproveFinish e _ \<Rightarrow> e \<in> E | CallRunFinish e _ \<Rightarrow> e \<in> E | _ \<Rightarrow> True)"

text \<open>
  \<open>U\<close> collects the UUIDs drawn so far: \<open>Uuid::new_v4\<close> returns one that was not drawn before. \<open>E\<close>
  collects the root commands whose approval has begun.
\<close>

type_synonym access_conf = "uuid set \<times> sudo_execution set \<times> access_state"

inductive access_step :: "access_ext \<Rightarrow> access_conf \<Rightarrow> access_conf \<Rightarrow> bool" for ext where
  call: "en_id env \<notin> U \<Longrightarrow> call_allowed E c \<Longrightarrow>
      access_step ext (U, E, s) (insert (en_id env) U, E \<union> begun s c, fst (access_apply ext env s c))"

inductive access_steps :: "access_ext \<Rightarrow> access_conf \<Rightarrow> access_conf \<Rightarrow> bool" for ext where
  refl: "access_steps ext c c"
| step: "access_steps ext c d \<Longrightarrow> access_step ext d e \<Longrightarrow> access_steps ext c e"

definition access_reach :: "access_ext \<Rightarrow> access_conf \<Rightarrow> bool" where
  "access_reach ext c \<longleftrightarrow> access_steps ext ({}, {}, access_init) c"

fun conf_ok :: "access_conf \<Rightarrow> bool" where
  "conf_ok (U, E, s) \<longleftrightarrow> access_ok s
     \<and> (\<forall>k. map_of (as_requests s) k \<noteq> None \<or> map_of (as_grants s) k \<noteq> None
            \<or> map_of (as_shares s) k \<noteq> None \<longrightarrow> k \<in> U)
     \<and> (\<forall>e \<in> E. se_request e \<in> U \<and> sudo_request (se_request e) s)"

lemma access_apply_ok:
  assumes "access_ok s" "map_of (as_grants s) (en_id env) = None"
    and "call_allowed E c" "\<forall>e \<in> E. sudo_request (se_request e) s"
  shows "op_ok (en_id env) s (fst (access_apply ext env s c))"
  using assms
  by (cases c)
    (simp_all add: request_secret_ok request_sudo_ok add_secret_ok approve_secret_ok reject_ok
      revoke_grant_ok drop_grant_by_name_ok generate_secret_ok share_secret_ok wait_share_ok
      reveal_share_ok dismiss_share_ok op_ok_expire expire_shares_def approve_sudo_begin_ok
      approve_sudo_finish_ok run_sudo_finish_ok execute_secret_ok finish_secret_execution_ok
      clear_terminal_ok clear_inactive_ok detach_waiter_ok call_allowed_def)

lemma begun_sudo:
  "e \<in> begun s c \<Longrightarrow> map_of (as_requests s) (se_request e) \<noteq> None \<and> sudo_request (se_request e) s"
  by (auto simp: begun_def approve_sudo_begin_def sudo_request_def
      split: access_call.splits sum.splits option.splits if_splits pending_kind.splits)

lemma conf_ok_step:
  assumes "access_step ext c d" "conf_ok c"
  shows "conf_ok d"
  using assms
proof cases
  case (call env U E a s)
  from assms(2) call(1) have ok: "access_ok s" and inU: "\<And>k. map_of (as_requests s) k \<noteq> None
      \<or> map_of (as_grants s) k \<noteq> None \<or> map_of (as_shares s) k \<noteq> None \<Longrightarrow> k \<in> U"
    and E: "\<And>e. e \<in> E \<Longrightarrow> se_request e \<in> U \<and> sudo_request (se_request e) s" by auto
  let ?n = "en_id env" and ?s = "fst (access_apply ext env s a)"
  have fresh: "map_of (as_grants s) ?n = None" using call(3) inU by blast
  have "op_ok ?n s ?s" by (rule access_apply_ok [OF ok fresh call(4)]) (use E in blast)
  then have ok': "access_ok ?s" and ev: "evolves ?n s ?s" by (simp_all add: op_ok_def)
  have keys: "k \<in> insert ?n U" if "map_of (as_requests ?s) k \<noteq> None
      \<or> map_of (as_grants ?s) k \<noteq> None \<or> map_of (as_shares ?s) k \<noteq> None" for k
  proof (cases "k = ?n")
    case False
    then have "map_of (as_requests s) k \<noteq> None \<or> map_of (as_grants s) k \<noteq> None \<or> map_of (as_shares s) k \<noteq> None"
      using that ev unfolding evolves_def ev_requests_def ev_grants_def ev_shares_def by fastforce
    with inU show ?thesis by blast
  qed simp
  have sudo: "se_request e \<in> insert ?n U \<and> sudo_request (se_request e) ?s" if "e \<in> E \<union> begun s a" for e
  proof -
    have "se_request e \<in> U \<and> sudo_request (se_request e) s"
      using that E begun_sudo inU by blast
    moreover from this have "se_request e \<noteq> ?n" using call(3) by auto
    ultimately show ?thesis
      using ev unfolding evolves_def ev_requests_def sudo_request_def by fastforce
  qed
  show ?thesis using call(2) ok' keys sudo by auto
qed

lemma conf_ok_steps: "access_steps ext c d \<Longrightarrow> conf_ok c \<Longrightarrow> conf_ok d"
  by (induction rule: access_steps.induct) (auto intro: conf_ok_step)

lemma conf_ok_reach: "access_reach ext c \<Longrightarrow> conf_ok c"
  unfolding access_reach_def using access_ok_init
  by (rule_tac conf_ok_steps) (assumption, simp, simp add: access_init_def)

lemma reach_ok: "access_reach ext (U, E, s) \<Longrightarrow> access_ok s"
  using conf_ok_reach by fastforce

text \<open>A share that is resolved, or gone, never opens again.\<close>

definition share_closed :: "uuid \<Rightarrow> access_state \<Rightarrow> bool" where
  "share_closed k s \<longleftrightarrow> (\<forall>sh. map_of (as_shares s) k = Some sh \<longrightarrow> sh_state sh \<noteq> SharePending)"

lemma share_closed_evolves: "evolves n s t \<Longrightarrow> k \<noteq> n \<Longrightarrow> share_closed k s \<Longrightarrow> share_closed k t"
  unfolding evolves_def ev_shares_def share_closed_def share_change_def by metis

lemma share_closed_step:
  assumes "access_step ext (U, E, s) (U', E', s')" "conf_ok (U, E, s)" "k \<in> U" "share_closed k s"
  shows "k \<in> U' \<and> share_closed k s'"
  using assms(1)
proof cases
  case (call env a)
  have "map_of (as_grants s) (en_id env) = None" using call assms(2) by auto
  then have "evolves (en_id env) s s'"
    using access_apply_ok [of s env E a ext] assms(2) call by (auto simp: op_ok_def)
  moreover have "k \<noteq> en_id env" using assms(3) call by auto
  ultimately have "share_closed k s'" using share_closed_evolves assms(4) by blast
  then show ?thesis using assms(3) call by simp
qed

lemma share_closed_steps:
  "access_steps ext c d \<Longrightarrow> conf_ok c \<Longrightarrow> k \<in> fst c \<Longrightarrow> share_closed k (snd (snd c)) \<Longrightarrow>
     k \<in> fst d \<and> share_closed k (snd (snd d)) \<and> conf_ok d"
proof (induction rule: access_steps.induct)
  case (step c d e)
  obtain U E s where d: "d = (U, E, s)" by (cases d)
  obtain U' E' s' where e: "e = (U', E', s')" by (cases e)
  from step share_closed_step [of ext U E s U' E' s' k] conf_ok_step [of ext d e] show ?case
    by (auto simp: d e)
qed auto

end
