(* ===== verification/AccessProps.thy ===== *)
theory AccessProps
  imports AccessReach
begin

text \<open>
  The properties of the access manager, over its reachable configurations: limits and uniqueness
  of grants, the life of a shared value, decisions on requests, what a root command may run, the
  secrecy of the views, and the events a subscriber sees.
\<close>

section \<open>An example run\<close>

text \<open>The user adds the secret \<open>K\<close>; the agent \<open>a\<close> offers it back; everything on terminal 7.\<close>

definition example_env :: "nat \<Rightarrow> nat \<Rightarrow> access_env" where
  "example_env now i = \<lparr>en_now = now, en_id = i, en_act = \<lambda>_. 0\<rparr>"

definition example_granted :: access_state where
  "example_granted = fst (access_apply example_ext (example_env 10 1) access_init
     (CallAddSecret 7 (lit ''k'') (lit ''pw'') None))"

definition example_shared :: access_state where
  "example_shared = fst (access_apply example_ext (example_env 20 2) example_granted
     (CallShare 7 (lit ''K'') (lit ''a'') None 1000))"

lemma reach_init: "access_reach ext ({}, {}, access_init)"
  by (simp add: access_reach_def access_steps.refl)

lemma reach_step:
  "access_reach ext c \<Longrightarrow> access_step ext c d \<Longrightarrow> access_reach ext d"
  unfolding access_reach_def by (rule access_steps.step)

lemma example_granted_reach: "access_reach example_ext ({1}, {}, example_granted)"
proof -
  have "access_step example_ext ({}, {}, access_init)
      (insert (en_id (example_env 10 1)) {}, {} \<union> begun access_init (CallAddSecret 7 (lit ''k'') (lit ''pw'') None),
       fst (access_apply example_ext (example_env 10 1) access_init (CallAddSecret 7 (lit ''k'') (lit ''pw'') None)))"
    by (rule access_step.call) (simp_all add: call_allowed_def)
  then have "access_step example_ext ({}, {}, access_init) ({1}, {}, example_granted)"
    by (simp add: example_granted_def begun_def example_env_def del: access_apply.simps)
  from reach_step [OF reach_init this] show ?thesis .
qed

lemma example_shared_reach: "access_reach example_ext ({1, 2}, {}, example_shared)"
proof -
  let ?c = "CallShare 7 (lit ''K'') (lit ''a'') None 1000"
  have "access_step example_ext ({1}, {}, example_granted)
      (insert (en_id (example_env 20 2)) {1}, {} \<union> begun example_granted ?c,
       fst (access_apply example_ext (example_env 20 2) example_granted ?c))"
    by (rule access_step.call) (simp_all add: call_allowed_def example_env_def)
  then have "access_step example_ext ({1}, {}, example_granted) ({1, 2}, {}, example_shared)"
    by (simp add: example_shared_def begun_def example_env_def insert_commute del: access_apply.simps)
  from reach_step [OF example_granted_reach this] show ?thesis .
qed

lemmas name_eval = validate_secret_name_def trim_def trim_start_def trim_end_def is_whitespace_def
  ascii_upper_def validate_environment_name_def is_ascii_alphanumeric_def is_ascii_alphabetic_def
  is_ascii_digit_def scalar_width_def Let_def

lemma example_name: "validate_secret_name [107] = Inr [75]" "validate_secret_name [75] = Inr [75]"
  by (simp_all add: name_eval)

lemma example_granted_eval: "as_grants example_granted = [(1, \<lparr>gr_id = 1, gr_terminal = 7, gr_name = [75],
     gr_source = lit ''Added by you'', gr_created = 10, gr_uses = 0, gr_last_used = None,
     gr_last_command = None, gr_value = lit ''pw''\<rparr>)]
   \<and> as_shares example_granted = [] \<and> as_requests example_granted = [] \<and> as_executions example_granted = []"
  by (simp add: example_granted_def add_secret_def example_name validate_secret_value_def scalar_width_def
      validate_comment_def access_init_def hm_values_def grants_full_def count_values_def
      MAX_SECRET_GRANTS_PER_TERMINAL_def grant_name_def grant_new_def example_env_def hm_retain_def
      push_activity_def bump_def Let_def)

lemma example_agent: "validate_agent [97] = Inr [97]"
  by (simp add: validate_agent_def name_eval)

lemma example_shared_eval: "as_shares example_shared = [(2, \<lparr>sh_id = 2, sh_terminal = 7, sh_name = [75],
     sh_description = None, sh_agent = [97], sh_state = SharePending, sh_created = 20,
     sh_expires = 1020, sh_viewed = None, sh_resolved = None, sh_waiters = 1, sh_value = lit ''pw''\<rparr>)]
   \<and> as_grants example_shared = as_grants example_granted \<and> as_requests example_shared = []"
proof -
  have e: "as_shares (fst (expire_shares_locked env example_granted)) = []" for env
    by (simp add: expire_shares_locked_shares example_granted_eval hm_map_def hm_retain_def)
  show ?thesis
    by (simp add: example_shared_def share_secret_with_ttl_def example_name example_agent
        validate_comment_def case_prod_beta Let_def example_granted_eval hm_values_def grant_for_def
        e hm_find_def count_values_def MAX_PENDING_SECRET_SHARES_PER_TERMINAL_def make_room_def
        MAX_SECRET_SHARES_PER_TERMINAL_def example_env_def sat_add_def u64_max_def)
qed

section \<open>Properties\<close>



text \<open>
  In every reachable configuration the broker holds the value of a share only while the share
  waits to be viewed, and then the value is the one of the grant with that name on that terminal:
  revoking or replacing a grant withdraws its offers, and a share that was viewed, dismissed or
  expired holds no value.
\<close>

theorem share_value_lifetime:
  assumes "access_reach ext (U, E, s)" and "map_of (as_shares s) k = Some sh"
  shows "if sh_state sh = SharePending
    then \<exists>j g. map_of (as_grants s) j = Some g \<and> gr_terminal g = sh_terminal sh
        \<and> gr_name g = sh_name sh \<and> gr_value g = sh_value sh
    else sh_value sh = []"
proof -
  note ok = access_okD(3) [OF reach_ok [OF assms(1)]]
  show ?thesis
    using shares_okD(2) [OF ok assms(2)] shares_okD(3) [OF ok assms(2)]
    by (auto simp: share_ok_def grant_value_def grant_for_def)
qed

lemma share_value_lifetime_witness:
  "\<exists>j g. map_of (as_grants example_shared) j = Some g \<and> gr_terminal g = 7 \<and> gr_name g = [75]
     \<and> gr_value g = lit ''pw''"
proof -
  have m: "map_of (as_shares example_shared) 2 = Some \<lparr>sh_id = 2, sh_terminal = 7, sh_name = [75],
     sh_description = None, sh_agent = [97], sh_state = SharePending, sh_created = 20,
     sh_expires = 1020, sh_viewed = None, sh_resolved = None, sh_waiters = 1, sh_value = lit ''pw''\<rparr>"
    by (simp add: example_shared_eval)
  from share_value_lifetime [OF example_shared_reach m] show ?thesis by simp
qed

lemma expire_closed: "access_ok s \<Longrightarrow> share_closed k s \<Longrightarrow> share_closed k (fst (expire_shares_locked env s))"
  using share_closed_evolves [OF evolves_expire [of s "Suc k"], of k] by simp

lemma reveal_closed:
  assumes "access_ok s" "share_closed k s"
  shows "\<exists>e. fst (reveal_share env s tid k) = Inl e"
  using expire_closed [OF assms, of env]
  by (auto simp: reveal_share_def Let_def case_prod_beta share_closed_def share_of_def
      split: option.splits share_state.splits)

lemma evolves_from:
  assumes "evolves n s t" "k \<noteq> n"
  shows "map_of (as_requests t) k \<noteq> None \<Longrightarrow> map_of (as_requests s) k \<noteq> None"
    and "map_of (as_grants t) k \<noteq> None \<Longrightarrow> map_of (as_grants s) k \<noteq> None"
    and "map_of (as_shares t) k \<noteq> None \<Longrightarrow> map_of (as_shares s) k \<noteq> None"
proof -
  have r: "map_of (as_requests t) k = Some r \<Longrightarrow> \<exists>q. map_of (as_requests s) k = Some q" for r
    using assms unfolding evolves_def ev_requests_def by blast
  have g: "map_of (as_grants t) k = Some r \<Longrightarrow> map_of (as_grants s) k \<noteq> None" for r
    using assms unfolding evolves_def ev_grants_def by blast
  have sh: "map_of (as_shares t) k = Some r \<Longrightarrow> \<exists>q. map_of (as_shares s) k = Some q" for r
    using assms unfolding evolves_def ev_shares_def by blast
  show "map_of (as_requests t) k \<noteq> None \<Longrightarrow> map_of (as_requests s) k \<noteq> None" using r by fastforce
  show "map_of (as_grants t) k \<noteq> None \<Longrightarrow> map_of (as_grants s) k \<noteq> None" using g by blast
  show "map_of (as_shares t) k \<noteq> None \<Longrightarrow> map_of (as_shares s) k \<noteq> None" using sh by fastforce
qed

lemma evolves_sudo: "evolves n s t \<Longrightarrow> k \<noteq> n \<Longrightarrow> sudo_request k s \<Longrightarrow> sudo_request k t"
  unfolding evolves_def ev_requests_def sudo_request_def by metis

lemma reveal_success:
  assumes ok: "access_ok s" and r: "reveal_share env s tid k = (Inr (i, name, v), s1, out)"
  shows "grant_value (as_grants s) tid name v \<and> map_of (as_shares s) k \<noteq> None \<and> share_closed k s1"
proof -
  let ?t = "fst (expire_shares_locked env s)"
  from r obtain sh where sh: "share_of tid k ?t = Some sh" "sh_state sh = SharePending"
    and v: "name = sh_name sh" "v = sh_value sh"
    and s1: "as_shares s1 = AList.map_entry k (\<lambda>sh. sh\<lparr>sh_value := [], sh_state := ShareViewed,
        sh_viewed := Some (en_now env), sh_resolved := Some (en_now env)\<rparr>) (as_shares ?t)"
    by (auto simp: reveal_share_def Let_def case_prod_beta split: option.splits share_state.splits)
  from share_of_Some [OF sh(1)] have m: "map_of (as_shares ?t) k = Some sh" "sh_terminal sh = tid" by auto
  have "grant_value (as_grants ?t) (sh_terminal sh) (sh_name sh) (sh_value sh)"
    by (rule shares_okD(3) [OF access_okD(3) [OF access_ok_expire [OF ok]] m(1) sh(2)])
  moreover have "map_of (as_shares s) k \<noteq> None"
    using evolves_from(3) [OF evolves_expire [OF ok, of "Suc k" env], of k] m(1) by simp
  moreover have "share_closed k s1"
    using m(1) by (auto simp: share_closed_def s1 map_of_map_entry)
  ultimately show ?thesis using v m(2) by simp
qed

text \<open>A configuration after an operation that draws no identifier.\<close>

lemma conf_ok_same_ids:
  assumes ok: "conf_ok (U, E, s)" and op: "\<And>n. op_ok n s t"
  shows "conf_ok (U, E, t)"
proof -
  have ev: "evolves (Suc k) s t" for k using op [of "Suc k"] by (simp add: op_ok_def)
  have "access_ok t" using op [of 0] by (simp add: op_ok_def)
  moreover have "k \<in> U" if "map_of (as_requests t) k \<noteq> None \<or> map_of (as_grants t) k \<noteq> None
      \<or> map_of (as_shares t) k \<noteq> None" for k
    using that evolves_from [OF ev [of k], of k] ok unfolding conf_ok.simps by (metis n_not_Suc_n)
  moreover have "se_request e \<in> U \<and> sudo_request (se_request e) t" if "e \<in> E" for e
    using that ok evolves_sudo [OF ev [of "se_request e"], of "se_request e"] unfolding conf_ok.simps by simp
  ultimately show ?thesis unfolding conf_ok.simps by blast
qed

text \<open>
  C27. A shared secret is revealed at most once. In every reachable configuration, when a reveal
  succeeds it returns the value of the grant with that name on that terminal; and after any
  sequence of further operations, by any callers, every later attempt to reveal the same share
  fails.
\<close>

theorem share_revealed_once:
  assumes "access_reach ext (U, E, s)"
    and "reveal_share env s tid k = (Inr (i, name, v), s1, out)"
    and "access_steps ext (U, E, s1) (U', E', s2)"
  shows "(\<exists>j g. map_of (as_grants s) j = Some g \<and> gr_terminal g = tid \<and> gr_name g = name \<and> gr_value g = v)
    \<and> (\<exists>e. fst (reveal_share env' s2 tid' k) = Inl e)"
proof -
  have ok: "access_ok s" and conf: "conf_ok (U, E, s)"
    using reach_ok conf_ok_reach assms(1) by blast+
  note r = reveal_success [OF ok assms(2)]
  have "op_ok n s s1" for n using reveal_share_ok [OF ok, of n env tid k] assms(2) by simp
  then have c1: "conf_ok (U, E, s1)" by (rule conf_ok_same_ids [OF conf])
  have "k \<in> U" using conf r by auto
  with share_closed_steps [OF assms(3) c1, of k] r have "share_closed k s2" "access_ok s2" by auto
  from reveal_closed [OF this(2,1)] r show ?thesis
    by (auto simp: grant_value_def grant_for_def)
qed

lemma example_reveal:
  "fst (reveal_share (example_env 30 0) example_shared 7 2) = Inr (2, [75], lit ''pw'')"
proof -
  have e: "as_shares (fst (expire_shares_locked (example_env 30 0) example_shared)) = as_shares example_shared"
    by (simp add: expire_shares_locked_shares example_shared_eval hm_map_def hm_retain_def
        share_due_def share_kept_def example_env_def)
  show ?thesis
    by (simp add: reveal_share_def case_prod_beta Let_def share_of_def e example_shared_eval)
qed

lemma share_revealed_once_witness:
  "\<exists>e. fst (reveal_share (example_env 40 0)
     (fst (snd (reveal_share (example_env 30 0) example_shared 7 2))) 7 2) = Inl e"
proof -
  obtain s1 out where r: "reveal_share (example_env 30 0) example_shared 7 2
      = (Inr (2, [75], lit ''pw''), s1, out)"
    using example_reveal by (cases "reveal_share (example_env 30 0) example_shared 7 2") auto
  have "access_steps example_ext ({1, 2}, {}, s1) ({1, 2}, {}, s1)" by (rule access_steps.refl)
  from share_revealed_once [OF example_shared_reach r this] show ?thesis by (simp add: r)
qed


text \<open>
  A request for a secret is always pending, has a waiter, and is the only one for its name on
  its terminal; and no agent waits for a secret that its terminal has already been granted.
\<close>

theorem secret_requests_wait:
  assumes "access_reach ext (U, E, s)"
    and "map_of (as_requests s) k = Some r" "rq_kind r = SecretKind n"
  shows "rq_state r = Pending \<and> 0 < rq_waiters r
    \<and> (\<forall>j q. map_of (as_requests s) j = Some q \<and> rq_terminal q = rq_terminal r
          \<and> rq_kind q = SecretKind n \<longrightarrow> j = k)
    \<and> (\<forall>j g. map_of (as_grants s) j = Some g \<and> gr_terminal g = rq_terminal r \<longrightarrow> gr_name g \<noteq> n)"
proof -
  note ok = access_okD(2) [OF reach_ok [OF assms(1)]]
  have wait: "secret_waiting (rq_terminal q) m q" if "map_of (as_requests s) j = Some q" "rq_kind q = SecretKind m"
    for j q m
    using requests_okD(2) [OF ok that(1)] that(2)
    by (simp add: request_ok_def secret_waiting_def is_secret_named_def)
  show ?thesis
    using requests_okD(2) [OF ok assms(2)] assms(3) wait [OF assms(2,3)]
      requests_okD(3) [OF ok _ assms(2)] requests_okD(4) [OF ok assms(2)] wait
    by (auto simp: request_ok_def granted_def grant_for_def) metis+
qed

definition example_requested :: access_state where
  "example_requested = fst (access_apply example_ext (example_env 30 3) example_shared
     (CallRequestSecret 7 (lit ''w'') (lit ''d'') (lit ''a'')))"

lemma example_requested_reach: "access_reach example_ext ({1, 2, 3}, {}, example_requested)"
proof -
  let ?c = "CallRequestSecret 7 (lit ''w'') (lit ''d'') (lit ''a'')"
  have "access_step example_ext ({1, 2}, {}, example_shared)
      (insert (en_id (example_env 30 3)) {1, 2}, {} \<union> begun example_shared ?c,
       fst (access_apply example_ext (example_env 30 3) example_shared ?c))"
    by (rule access_step.call) (simp_all add: call_allowed_def example_env_def)
  moreover have "insert 3 {1, 2} = {1, 2, 3 :: nat}" by auto
  ultimately have "access_step example_ext ({1, 2}, {}, example_shared) ({1, 2, 3}, {}, example_requested)"
    by (simp add: example_requested_def begun_def example_env_def del: access_apply.simps)
  from reach_step [OF example_shared_reach this] show ?thesis .
qed

lemma example_request: "\<exists>h. map_of (as_requests example_requested) 3 = Some \<lparr>rq_id = 3, rq_terminal = 7,
    rq_hash = h, rq_kind = SecretKind [87], rq_state = Pending, rq_description = [100], rq_agent = [97],
    rq_created = 30, rq_waiters = 1\<rparr>"
proof -
  have n: "validate_secret_name [119] = Inr [87]" by (simp add: name_eval)
  have d: "validate_description [100] = Inr [100]"
    by (simp add: validate_description_def validate_optional_description_def name_eval is_control_def
        MAX_DESCRIPTION_BYTES_def)
  show ?thesis
    by (simp add: example_requested_def request_secret_def n d example_agent example_shared_eval
        example_granted_eval hm_values_def grant_for_def hm_find_def too_many_pending_def count_values_def
        MAX_PENDING_REQUESTS_PER_TERMINAL_def insert_request_def bump_def example_env_def Let_def)
qed

lemma secret_requests_wait_witness:
  "\<exists>r. map_of (as_requests example_requested) 3 = Some r \<and> rq_state r = Pending \<and> 0 < rq_waiters r"
proof -
  obtain r where r: "map_of (as_requests example_requested) 3 = Some r" "rq_kind r = SecretKind [87]"
    using example_request by auto
  from secret_requests_wait [OF example_requested_reach r] r show ?thesis by blast
qed

text \<open>
  C32. A grant comes only from a decision on exactly what was reviewed: \<open>approve_secret\<close> succeeds
  only for a pending request for a secret, of the same terminal, whose hash is the one the user
  saw; it then grants the requested name with the given value, and the request is gone, so a
  second decision on it finds nothing. A decision that fails changes nothing and tells nobody.
\<close>

theorem approval_matches_review:
  assumes "access_reach ext (U, E, s)"
  shows "case approve_secret env s tid rid h v of
      (Inl e, s', out) \<Rightarrow> s' = s \<and> out = []
    | (Inr g, s', out) \<Rightarrow>
        (\<exists>r. map_of (as_requests s) rid = Some r \<and> rq_terminal r = tid \<and> rq_hash r = h
            \<and> rq_state r = Pending \<and> rq_kind r = SecretKind (gr_name g))
        \<and> gr_terminal g = tid \<and> gr_value g = v
        \<and> map_of (as_grants s') (gr_id g) = Some g
        \<and> out = [Send rid (EvGranted (gr_name g))]
        \<and> fst (approve_secret env s' tid rid h v) = Inl NotFound"
proof -
  note hm = access_hm_ok [OF reach_ok [OF assms]]
  show ?thesis
    by (auto simp: approve_secret_def grant_new_def validate_secret_value_def Let_def
        hm.get_put [OF hm(2)] hm.get_del [OF hm(1)]
        split: sum.splits option.splits pending_kind.splits if_splits)
qed

lemma approval_matches_review_witness:
  "case approve_secret (example_env 40 4) example_requested 7 99 [] (lit ''v'') of
      (Inl e, s', out) \<Rightarrow> s' = example_requested \<and> out = []
    | (Inr g, s', out) \<Rightarrow> False"
proof -
  have "map_of (as_requests example_requested) 99 = None"
  proof -
    have "validate_secret_name [119] = Inr [87]" by (simp add: name_eval)
    moreover have "validate_description [100] = Inr [100]"
      by (simp add: validate_description_def validate_optional_description_def name_eval is_control_def
          MAX_DESCRIPTION_BYTES_def)
    ultimately show ?thesis
      by (simp add: example_requested_def request_secret_def example_agent example_shared_eval
          example_granted_eval hm_values_def grant_for_def hm_find_def too_many_pending_def count_values_def
          MAX_PENDING_REQUESTS_PER_TERMINAL_def insert_request_def bump_def example_env_def Let_def)
  qed
  then have "\<exists>e s' out. approve_secret (example_env 40 4) example_requested 7 99 [] (lit ''v'') = (Inl e, s', out)"
    by (simp add: approve_secret_def validate_secret_value_def scalar_width_def)
  with approval_matches_review [OF example_requested_reach, where env = "example_env 40 4" and tid = 7
      and rid = 99 and h = "[]" and v = "lit ''v''"]
  show ?thesis by auto
qed


definition example_review :: sudo_review where
  "example_review = \<lparr>sr_command = [lit ''/i''], sr_display = lit ''/i'', sr_cwd = ''/'',
     sr_hash = lit (encode_hex ''/i'' False), sr_identity = \<lparr>fi_device = 1, fi_inode = 2\<rparr>,
     sr_cwd_identity = \<lparr>fi_device = 1, fi_inode = 2\<rparr>, sr_fingerprint = []\<rparr>"

definition example_sudo :: access_state where
  "example_sudo = access_init\<lparr>as_requests := [(5, \<lparr>rq_id = 5, rq_terminal = 7, rq_hash = [1],
     rq_kind = SudoKind example_review, rq_state = Pending, rq_description = [100], rq_agent = [97],
     rq_created = 30, rq_waiters = 1\<rparr>)]\<rparr>"


text \<open>
  A root command whose last waiter leaves while its password is being checked stays pending with
  no waiter when the password is wrong: nobody is left to detach from it.
\<close>

lemma sudo_orphan_stays_pending:
  "rq_state (the (map_of (as_requests
      (fst (snd (approve_sudo_finish ext env
        (detach_waiter env (fst (snd (approve_sudo_begin example_sudo 7 5 [1] [120]))) 5)
        \<lparr>se_request = 5, se_terminal = 7, se_review = example_review, se_password = [120]\<rparr>
        (Inl []))))) 5)) = Pending
   \<and> rq_waiters (the (map_of (as_requests
      (fst (snd (approve_sudo_finish ext env
        (detach_waiter env (fst (snd (approve_sudo_begin example_sudo 7 5 [1] [120]))) 5)
        \<lparr>se_request = 5, se_terminal = 7, se_review = example_review, se_password = [120]\<rparr>
        (Inl []))))) 5)) = 0"
  by (simp add: approve_sudo_begin_def approve_sudo_finish_def example_sudo_def access_init_def
      validate_sudo_password_value_def validate_secret_value_def scalar_width_def detach_waiter_def)


text \<open>
  What a terminal is shown contains no secret: the snapshot, the lists of grants and shares and
  every event sent while it is taken are the same for two states that differ only in the values
  of grants and shares.
\<close>

definition erase_values :: "access_state \<Rightarrow> access_state" where
  "erase_values s = s\<lparr>as_grants := hm_map (\<lambda>g. g\<lparr>gr_value := []\<rparr>) (as_grants s),
     as_shares := hm_map (\<lambda>sh. sh\<lparr>sh_value := []\<rparr>) (as_shares s)\<rparr>"

lemma hm_values_map: "hm_values (hm_map f m) = map f (hm_values m)"
  by (induction m) (auto simp: hm_values_def hm_map_def)

lemma hm_map_map: "hm_map f (hm_map g m) = hm_map (\<lambda>v. f (g v)) m"
  by (induction m) (auto simp: hm_map_def)

lemma hm_retain_map: "(\<And>k v. Q k (f v) = P k v) \<Longrightarrow> hm_retain Q (hm_map f m) = hm_map f (hm_retain P m)"
  by (induction m) (auto simp: hm_map_def hm_retain_def)

lemma length_hm_map [simp]: "length (hm_map f m) = length m"
  by (simp add: hm_map_def)

lemma filter_erase_shares:
  "(\<And>sh. P (sh\<lparr>sh_value := []\<rparr>) = P sh) \<Longrightarrow>
     filter P (map (\<lambda>sh. sh\<lparr>sh_value := []\<rparr>) xs) = map (\<lambda>sh. sh\<lparr>sh_value := []\<rparr>) (filter P xs)"
  by (induction xs) auto

lemma erase_push: "erase_values (push_activity env s t k st ti d) = push_activity env (erase_values s) t k st ti d"
  by (cases s) (simp add: erase_values_def push_activity_def bump_def)

lemma erase_fold:
  "erase_values (fold (\<lambda>sh s. push_activity env s (sh_terminal sh) Secret Expired ti (sh_name sh)) xs s)
     = fold (\<lambda>sh s. push_activity env s (sh_terminal sh) Secret Expired ti (sh_name sh))
         (map (\<lambda>sh. sh\<lparr>sh_value := []\<rparr>) xs) (erase_values s)"
  by (induction xs arbitrary: s) (simp_all add: erase_push)

lemma erase_expire:
  "expire_shares_locked env (erase_values s)
     = (erase_values (fst (expire_shares_locked env s)), snd (expire_shares_locked env s))"
proof -
  let ?e = "\<lambda>sh. sh\<lparr>sh_value := []\<rparr> :: secret_share"
  let ?now = "en_now env"
  let ?r = "\<lambda>sh. if share_due ?now sh then resolve_share ShareExpired ?now sh else sh"
  have due: "share_due ?now (?e sh) = share_due ?now sh" for sh by (simp add: share_due_def)
  have kept: "share_kept ?now (?e sh) = share_kept ?now sh" for sh by (simp add: share_kept_def)
  have comm: "?r (?e sh) = ?e (?r sh)" for sh by (simp add: due resolve_share_def)
  define expired where "expired = filter (share_due ?now) (hm_values (as_shares s))"
  define s1 where "s1 = s\<lparr>as_shares := hm_map ?r (as_shares s)\<rparr>"
  define s2 where "s2 = fold (\<lambda>sh s. push_activity env s (sh_terminal sh) Secret Expired
      (lit ''Shared secret expired unviewed'') (sh_name sh)) expired s1"
  have ex: "filter (share_due ?now) (hm_values (as_shares (erase_values s))) = map ?e expired"
    unfolding expired_def erase_values_def by (simp add: hm_values_map filter_erase_shares due)
  have e1: "(erase_values s)\<lparr>as_shares := hm_map ?r (as_shares (erase_values s))\<rparr> = erase_values s1"
    by (simp add: erase_values_def s1_def hm_map_map comm)
  have e2: "fold (\<lambda>sh s. push_activity env s (sh_terminal sh) Secret Expired
      (lit ''Shared secret expired unviewed'') (sh_name sh)) (map ?e expired) (erase_values s1) = erase_values s2"
    unfolding s2_def by (rule erase_fold [symmetric])
  have e3: "hm_retain (\<lambda>_ sh. share_kept ?now sh) (as_shares (erase_values s2))
      = hm_map ?e (hm_retain (\<lambda>_ sh. share_kept ?now sh) (as_shares s2))"
    by (simp add: erase_values_def hm_retain_map kept)
  have l: "length (as_shares (erase_values s2)) = length (as_shares s2)" by (simp add: erase_values_def)
  have st: "fst (expire_shares_locked env s) =
      (if length (hm_retain (\<lambda>_ sh. share_kept ?now sh) (as_shares s2)) \<noteq> length (as_shares s2)
       then bump (s2\<lparr>as_shares := hm_retain (\<lambda>_ sh. share_kept ?now sh) (as_shares s2)\<rparr>)
       else s2\<lparr>as_shares := hm_retain (\<lambda>_ sh. share_kept ?now sh) (as_shares s2)\<rparr>)"
    "snd (expire_shares_locked env s) = map (\<lambda>sh. Send (sh_id sh) (EvExpired (sh_name sh))) expired"
    unfolding expire_shares_locked_def Let_def expired_def s1_def s2_def by simp_all
  have lhs: "expire_shares_locked env (erase_values s) =
      (if length (hm_retain (\<lambda>_ sh. share_kept ?now sh) (as_shares (erase_values s2))) \<noteq> length (as_shares (erase_values s2))
       then bump ((erase_values s2)\<lparr>as_shares := hm_retain (\<lambda>_ sh. share_kept ?now sh) (as_shares (erase_values s2))\<rparr>)
       else (erase_values s2)\<lparr>as_shares := hm_retain (\<lambda>_ sh. share_kept ?now sh) (as_shares (erase_values s2))\<rparr>,
       map (\<lambda>sh. Send (sh_id sh) (EvExpired (sh_name sh))) (map ?e expired))"
    unfolding expire_shares_locked_def Let_def ex e1 e2 by simp
  show ?thesis
    unfolding lhs e3 l st by (simp add: erase_values_def bump_def)
qed

lemma map_filter_erased:
  "map share_view_of (filter (\<lambda>sh. sh_terminal sh = tid) (map (\<lambda>sh. sh\<lparr>sh_value := []\<rparr>) xs))
     = map share_view_of (filter (\<lambda>sh. sh_terminal sh = tid) xs)"
  "map grant_view_of (filter (\<lambda>g. gr_terminal g = tid) (map (\<lambda>g. g\<lparr>gr_value := []\<rparr>) ys))
     = map grant_view_of (filter (\<lambda>g. gr_terminal g = tid) ys)"
  by (induction xs; simp add: share_view_of_def) (induction ys; simp add: grant_view_of_def)

theorem snapshot_shows_no_value:
  "fst (snapshot env (erase_values s) tid) = fst (snapshot env s tid)
   \<and> snd (snd (snapshot env (erase_values s) tid)) = snd (snd (snapshot env s tid))
   \<and> fst (list_shares env (erase_values s) tid) = fst (list_shares env s tid)"
  by (simp add: snapshot_def list_shares_def shares_for_terminal_def erase_expire case_prod_beta Let_def)
    (simp add: erase_values_def hm_values_map map_filter_erased)

text \<open>
  Whatever a broadcast channel delivers, a subscriber sees at most one event that ends its
  subscription, and nothing after it.
\<close>

fun sub_run :: "access_subscription \<Rightarrow> received list \<Rightarrow> agent_event list" where
  "sub_run su [] = []"
| "sub_run su (a # as) =
     (case sub_next su a of (None, su') \<Rightarrow> sub_run su' as | (Some e, su') \<Rightarrow> e # sub_run su' as)"

lemma sub_run_done: "su_terminal su \<Longrightarrow> sub_run su answers = []"
  by (induction answers) (simp_all add: sub_next_def)

lemma sub_next_terminal:
  "\<not> su_terminal su \<Longrightarrow> sub_next su a = (Some e, su') \<Longrightarrow> su_terminal su' = event_terminal e"
  by (auto simp: sub_next_def event_terminal_def split: list.splits if_splits received.splits)

lemma sub_next_None: "sub_next su a = (None, su') \<Longrightarrow> su' = su"
  by (auto simp: sub_next_def split: list.splits if_splits received.splits)

theorem subscriber_sees_one_end:
  "list_all (\<lambda>e. \<not> event_terminal e) (butlast (sub_run su answers))"
proof (induction answers arbitrary: su)
  case (Cons a answers)
  show ?case
  proof (cases "sub_next su a")
    case (Pair r su')
    show ?thesis
    proof (cases r)
      case None
      then show ?thesis using Cons.IH [of su'] Pair by simp
    next
      case (Some e)
      then have "\<not> su_terminal su" using Pair by (auto simp: sub_next_def)
      then have "su_terminal su' = event_terminal e" using sub_next_terminal Pair Some by blast
      then show ?thesis
        using Cons.IH [of su'] sub_run_done [of su' answers] Pair Some by auto
    qed
  qed
qed simp

text \<open>
  The badge of every terminal counts exactly its pending requests and the shares that wait to be
  viewed and have not expired.
\<close>

lemma count_up_other: "t \<notin> fst ` set ts \<Longrightarrow> count_up t ts = ts"
  by (induction ts) auto

lemma count_up_map:
  "distinct ts \<Longrightarrow> count_up t (map (\<lambda>u. (u, f u)) ts)
     = map (\<lambda>u. (u, if u = t then sat_add (f u) 1 else f u)) ts"
proof (induction ts)
  case (Cons u ts)
  show ?case
  proof (cases "u = t")
    case True
    then have "map (\<lambda>v. (v, if v = t then sat_add (f v) 1 else f v)) ts = map (\<lambda>v. (v, f v)) ts"
      using Cons.prems by (intro map_cong) auto
    with True show ?thesis by simp
  next
    case False
    with Cons show ?thesis by simp
  qed
qed simp

lemma fold_count_up:
  "distinct ts \<Longrightarrow> (\<And>u. f u + length xs \<le> u64_max) \<Longrightarrow>
     fold count_up xs (map (\<lambda>u. (u, f u)) ts) = map (\<lambda>u. (u, f u + count_list xs u)) ts"
proof (induction xs arbitrary: f)
  case (Cons x xs)
  have "sat_add (f u) 1 = f u + 1" for u
    using Cons.prems(2) [of u] by (simp add: sat_add_def)
  then have step: "count_up x (map (\<lambda>u. (u, f u)) ts) = map (\<lambda>u. (u, if u = x then f u + 1 else f u)) ts"
    using count_up_map [OF Cons.prems(1), of x f] by presburger
  have "fold count_up xs (map (\<lambda>u. (u, if u = x then f u + 1 else f u)) ts)
      = map (\<lambda>u. (u, (if u = x then f u + 1 else f u) + count_list xs u)) ts"
    by (rule Cons.IH [OF Cons.prems(1)]) (use Cons.prems(2) in \<open>auto intro: Suc_leD\<close>)
  with step show ?case by auto
qed simp

lemma count_list_map_filter: "count_list (map f (filter P xs)) u = length (filter (\<lambda>x. f x = u \<and> P x) xs)"
  by (induction xs) auto

lemma count_list_append: "count_list (xs @ ys) u = count_list xs u + count_list ys u"
  by (induction xs) auto

theorem pending_counts_exact:
  assumes "distinct terminals"
    and "length (as_requests s) + length (as_shares s) \<le> u64_max"
  shows "populate_pending_request_counts env s terminals
    = map (\<lambda>t. (t, count_values (\<lambda>r. rq_terminal r = t \<and> rq_state r = Pending) (as_requests s)
        + count_values (\<lambda>sh. sh_terminal sh = t \<and> sh_state sh = SharePending
            \<and> en_now env < sh_expires sh) (as_shares s))) terminals"
proof -
  let ?xs = "map rq_terminal (filter (\<lambda>r. rq_state r = Pending) (hm_values (as_requests s)))
        @ map sh_terminal (filter (\<lambda>sh. sh_state sh = SharePending \<and> en_now env < sh_expires sh)
                             (hm_values (as_shares s)))"
  have "length (filter (\<lambda>r. rq_state r = Pending) (hm_values (as_requests s))) \<le> length (as_requests s)"
    "length (filter (\<lambda>sh. sh_state sh = SharePending \<and> en_now env < sh_expires sh) (hm_values (as_shares s)))
      \<le> length (as_shares s)"
    by (rule order_trans [OF length_filter_le], simp add: hm_values_def)+
  then have "length ?xs \<le> u64_max" using assms(2) by simp
  then show ?thesis
    using fold_count_up [OF assms(1), of "\<lambda>_. 0" ?xs]
    by (simp add: populate_pending_request_counts_def count_list_append count_list_map_filter count_values_def)
qed

lemma pending_counts_exact_witness:
  "populate_pending_request_counts (example_env 30 0) example_shared [3, 7] = [(3, 0), (7, 1)]"
proof -
  have "distinct [3, 7 :: nat]"
    "length (as_requests example_shared) + length (as_shares example_shared) \<le> u64_max"
    by (simp_all add: example_shared_eval u64_max_def)
  from pending_counts_exact [OF this, of "example_env 30 0"] show ?thesis
    by (simp add: example_shared_eval count_values_def hm_values_def example_env_def)
qed

end
