(* ===== verification/Viewports.thy ===== *)
theory Viewports
  imports Interfaces
begin

text \<open>
  The negotiation of a terminal's size between its attached browsers (\<open>src/src/terminal.rs\<close>:
  \<open>TerminalViewport\<close>, \<open>TerminalSizeState\<close>, \<open>ClientViewports\<close>). Every client may report the viewport
  it shows the terminal in; the terminal takes the viewport of the client that has the focus, and
  without one the smallest of those reported. One client, the responder, answers device queries.

  Columns, rows and pixels (\<open>u16\<close>) are \<^typ>\<open>nat\<close>: they are only clamped and compared. The map of
  sizes is an association list in the iteration order of the code's hash map.
\<close>

section \<open>Data\<close>

record terminal_viewport =
  vw_cols :: nat
  vw_rows :: nat
  vw_pixel_width :: nat
  vw_pixel_height :: nat

record terminal_size_state =
  sz_cols :: nat
  sz_rows :: nat
  sz_pixel_width :: nat
  sz_pixel_height :: nat
  sz_focused :: "uuid option"
  sz_responder :: "uuid option"
  sz_epoch :: nat

record client_viewports =
  cv_sizes :: "(uuid, terminal_viewport option) hmap"
  cv_focused :: "uuid option"
  cv_responder :: "uuid option"
  cv_published :: terminal_size_state

definition DEFAULT_VIEWPORT_SIZE :: terminal_viewport where
  "DEFAULT_VIEWPORT_SIZE =
     \<lparr>vw_cols = 100, vw_rows = 30, vw_pixel_width = 0, vw_pixel_height = 0\<rparr>"

definition viewport_new :: "nat \<Rightarrow> nat \<Rightarrow> nat \<Rightarrow> nat \<Rightarrow> terminal_viewport" where
  "viewport_new cols rows pixel_width pixel_height =
     \<lparr>vw_cols = clamp cols 2 500, vw_rows = clamp rows 1 300,
      vw_pixel_width = pixel_width, vw_pixel_height = pixel_height\<rparr>"

definition viewports_default :: client_viewports where
  "viewports_default =
     \<lparr>cv_sizes = [], cv_focused = None, cv_responder = None,
      cv_published =
        \<lparr>sz_cols = vw_cols DEFAULT_VIEWPORT_SIZE, sz_rows = vw_rows DEFAULT_VIEWPORT_SIZE,
         sz_pixel_width = vw_pixel_width DEFAULT_VIEWPORT_SIZE,
         sz_pixel_height = vw_pixel_height DEFAULT_VIEWPORT_SIZE,
         sz_focused = None, sz_responder = None, sz_epoch = 0\<rparr>\<rparr>"

section \<open>Operations\<close>

text \<open>\<open>Iterator::min\<close> on identifiers.\<close>

fun min_id :: "uuid list \<Rightarrow> uuid option" where
  "min_id [] = None"
| "min_id (x # xs) = Some (foldl min x xs)"

definition sized_clients :: "(uuid, terminal_viewport option) hmap \<Rightarrow> uuid list" where
  "sized_clients m = map fst (filter (\<lambda>(c, v). v \<noteq> None) m)"

definition vp_attach :: "uuid \<Rightarrow> terminal_viewport option \<Rightarrow> client_viewports \<Rightarrow> client_viewports" where
  "vp_attach c v cv =
     cv\<lparr>cv_sizes := AList.update c v (cv_sizes cv),
        cv_responder := (case cv_responder cv of None \<Rightarrow> Some c | Some r \<Rightarrow> Some r)\<rparr>"

definition vp_detach :: "uuid \<Rightarrow> client_viewports \<Rightarrow> client_viewports" where
  "vp_detach c cv =
     (let sizes = AList.delete c (cv_sizes cv) in
      cv\<lparr>cv_sizes := sizes,
         cv_focused := if cv_focused cv = Some c then None else cv_focused cv,
         cv_responder :=
           if cv_responder cv = Some c
           then (case min_id (sized_clients sizes) of
                   None \<Rightarrow> min_id (map fst sizes) | Some r \<Rightarrow> Some r)
           else cv_responder cv\<rparr>)"

definition vp_resize :: "uuid \<Rightarrow> terminal_viewport \<Rightarrow> client_viewports \<Rightarrow> client_viewports" where
  "vp_resize c v cv = cv\<lparr>cv_sizes := AList.map_entry c (\<lambda>_. Some v) (cv_sizes cv)\<rparr>"

definition vp_activate :: "uuid \<Rightarrow> client_viewports \<Rightarrow> client_viewports" where
  "vp_activate c cv =
     (if map_of (cv_sizes cv) c \<noteq> None then cv\<lparr>cv_responder := Some c\<rparr> else cv)"

definition vp_release :: "uuid \<Rightarrow> client_viewports \<Rightarrow> client_viewports" where
  "vp_release c cv =
     (let sizes = AList.map_entry c (\<lambda>_. None) (cv_sizes cv) in
      cv\<lparr>cv_sizes := sizes,
         cv_focused := if cv_focused cv = Some c then None else cv_focused cv,
         cv_responder :=
           if cv_responder cv = Some c
           then (case min_id (filter (\<lambda>i. i \<noteq> c) (sized_clients sizes)) of
                   None \<Rightarrow> Some c | Some r \<Rightarrow> Some r)
           else cv_responder cv\<rparr>)"

definition vp_focus :: "uuid \<Rightarrow> bool \<Rightarrow> client_viewports \<Rightarrow> client_viewports" where
  "vp_focus c focused cv =
     (if focused \<and> (case map_of (cv_sizes cv) c of Some (Some _) \<Rightarrow> True | _ \<Rightarrow> False)
      then cv\<lparr>cv_focused := Some c, cv_responder := Some c\<rparr>
      else if \<not> focused \<and> cv_focused cv = Some c then cv\<lparr>cv_focused := None\<rparr>
      else cv)"

lemma reported_case [simp]:
  "(case x of Some (Some _) \<Rightarrow> True | _ \<Rightarrow> False) \<longleftrightarrow> (\<exists>v. x = Some (Some v))"
  by (auto split: option.splits)

definition smaller_viewport :: "terminal_viewport \<Rightarrow> terminal_viewport \<Rightarrow> terminal_viewport" where
  "smaller_viewport a b =
     \<lparr>vw_cols = min (vw_cols a) (vw_cols b), vw_rows = min (vw_rows a) (vw_rows b),
      vw_pixel_width = min (vw_pixel_width a) (vw_pixel_width b),
      vw_pixel_height = min (vw_pixel_height a) (vw_pixel_height b)\<rparr>"

definition reported_viewports :: "client_viewports \<Rightarrow> terminal_viewport list" where
  "reported_viewports cv = List.map_filter id (hm_values (cv_sizes cv))"

fun smallest_viewport :: "terminal_viewport list \<Rightarrow> terminal_viewport option" where
  "smallest_viewport [] = None"
| "smallest_viewport (v # vs) = Some (foldl smaller_viewport v vs)"

definition focused_viewport :: "client_viewports \<Rightarrow> terminal_viewport option" where
  "focused_viewport cv =
     (case cv_focused cv of
        None \<Rightarrow> None
      | Some c \<Rightarrow> (case map_of (cv_sizes cv) c of None \<Rightarrow> None | Some v \<Rightarrow> v))"

definition published_viewport :: "terminal_size_state \<Rightarrow> terminal_viewport" where
  "published_viewport p =
     \<lparr>vw_cols = sz_cols p, vw_rows = sz_rows p, vw_pixel_width = sz_pixel_width p,
      vw_pixel_height = sz_pixel_height p\<rparr>"

definition chosen_viewport :: "client_viewports \<Rightarrow> terminal_viewport" where
  "chosen_viewport cv =
     (case focused_viewport cv of
        Some v \<Rightarrow> v
      | None \<Rightarrow> (case smallest_viewport (reported_viewports cv) of
                  Some v \<Rightarrow> v
                | None \<Rightarrow> published_viewport (cv_published cv)))"

definition vp_state :: "client_viewports \<Rightarrow> terminal_size_state" where
  "vp_state cv =
     (let size = chosen_viewport cv in
      \<lparr>sz_cols = vw_cols size, sz_rows = vw_rows size, sz_pixel_width = vw_pixel_width size,
       sz_pixel_height = vw_pixel_height size, sz_focused = cv_focused cv,
       sz_responder = cv_responder cv, sz_epoch = sz_epoch (cv_published cv)\<rparr>)"

section \<open>The operations the terminal session applies\<close>

datatype viewport_op =
    AttachClient uuid "terminal_viewport option"
  | DetachClient uuid
  | ResizeClient uuid nat nat nat nat
  | FocusClient uuid bool
  | ActivateClient uuid
  | ReleaseClient uuid

fun apply_viewport_op :: "viewport_op \<Rightarrow> client_viewports \<Rightarrow> client_viewports" where
  "apply_viewport_op (AttachClient c v) = vp_attach c v"
| "apply_viewport_op (DetachClient c) = vp_detach c"
| "apply_viewport_op (ResizeClient c cols rows pw ph) = vp_resize c (viewport_new cols rows pw ph)"
| "apply_viewport_op (FocusClient c f) = vp_focus c f"
| "apply_viewport_op (ActivateClient c) = vp_activate c"
| "apply_viewport_op (ReleaseClient c) = vp_release c"

text \<open>A client attaches once, under a fresh identifier, with a viewport \<open>viewport_new\<close> made.\<close>

definition viewport_ok :: "terminal_viewport \<Rightarrow> bool" where
  "viewport_ok v \<longleftrightarrow> 2 \<le> vw_cols v \<and> vw_cols v \<le> 500 \<and> 1 \<le> vw_rows v \<and> vw_rows v \<le> 300"

fun viewport_op_ok :: "viewport_op \<Rightarrow> client_viewports \<Rightarrow> bool" where
  "viewport_op_ok (AttachClient c v) cv \<longleftrightarrow>
     map_of (cv_sizes cv) c = None \<and> (case v of None \<Rightarrow> True | Some w \<Rightarrow> viewport_ok w)"
| "viewport_op_ok _ cv \<longleftrightarrow> True"

lemma viewport_new_ok [simp]: "viewport_ok (viewport_new cols rows pw ph)"
  by (simp add: viewport_ok_def viewport_new_def clamp_def)

lemma default_viewport_ok [simp]: "viewport_ok DEFAULT_VIEWPORT_SIZE"
  by (simp add: viewport_ok_def DEFAULT_VIEWPORT_SIZE_def)

section \<open>The smallest viewport\<close>

lemma foldl_min_le: "foldl min (x :: nat) xs \<le> x \<and> (\<forall>y \<in> set xs. foldl min x xs \<le> y)"
proof (induction xs arbitrary: x)
  case (Cons y ys)
  show ?case using Cons.IH [of "min x y"] by auto
qed simp

lemma foldl_min_in: "foldl min (x :: nat) xs \<in> set (x # xs)"
proof (induction xs arbitrary: x)
  case (Cons y ys)
  show ?case using Cons.IH [of "min x y"] by (auto simp: min_def split: if_splits)
qed simp

lemma foldl_min_Min: "foldl min (x :: nat) xs = Min (set (x # xs))"
  using foldl_min_le [of x xs] foldl_min_in [of x xs] by (intro Min_eqI [symmetric]) auto

lemma min_id_Min: "min_id xs = (if xs = [] then None else Some (Min (set xs)))"
  by (cases xs) (simp_all add: foldl_min_Min del: set_simps)

lemma min_id_None [simp]: "min_id xs = None \<longleftrightarrow> xs = []"
  by (cases xs) simp_all

lemma min_id_SomeD: "min_id xs = Some x \<Longrightarrow> x \<in> set xs"
  by (auto simp: min_id_Min split: if_splits)

lemma foldl_smaller:
  "foldl smaller_viewport v vs =
     \<lparr>vw_cols = foldl min (vw_cols v) (map vw_cols vs),
      vw_rows = foldl min (vw_rows v) (map vw_rows vs),
      vw_pixel_width = foldl min (vw_pixel_width v) (map vw_pixel_width vs),
      vw_pixel_height = foldl min (vw_pixel_height v) (map vw_pixel_height vs)\<rparr>"
  by (induction vs arbitrary: v) (simp_all add: smaller_viewport_def)

lemma smallest_viewport_Min:
  "smallest_viewport vs =
     (if vs = [] then None
      else Some \<lparr>vw_cols = Min (vw_cols ` set vs), vw_rows = Min (vw_rows ` set vs),
                 vw_pixel_width = Min (vw_pixel_width ` set vs),
                 vw_pixel_height = Min (vw_pixel_height ` set vs)\<rparr>)"
  by (cases vs) (simp_all add: foldl_smaller foldl_min_Min)

lemma smallest_viewport_ok:
  "\<forall>v \<in> set vs. viewport_ok v \<Longrightarrow> smallest_viewport vs = Some w \<Longrightarrow> viewport_ok w"
proof -
  assume all: "\<forall>v \<in> set vs. viewport_ok v" and w: "smallest_viewport vs = Some w"
  then have ne: "set vs \<noteq> {}" and ws: "w = \<lparr>vw_cols = Min (vw_cols ` set vs),
      vw_rows = Min (vw_rows ` set vs), vw_pixel_width = Min (vw_pixel_width ` set vs),
      vw_pixel_height = Min (vw_pixel_height ` set vs)\<rparr>"
    by (auto simp: smallest_viewport_Min split: if_splits)
  have "Min (vw_cols ` set vs) \<in> vw_cols ` set vs" "Min (vw_rows ` set vs) \<in> vw_rows ` set vs"
    using ne by (intro Min_in; simp)+
  then show ?thesis using all by (fastforce simp: viewport_ok_def ws)
qed

section \<open>The invariant\<close>

definition viewports_ok :: "client_viewports \<Rightarrow> bool" where
  "viewports_ok cv \<longleftrightarrow>
     hm_ok (cv_sizes cv)
     \<and> (\<forall>c. cv_focused cv = Some c \<longrightarrow> (\<exists>v. map_of (cv_sizes cv) c = Some (Some v)))
     \<and> (case cv_responder cv of
          None \<Rightarrow> cv_sizes cv = []
        | Some c \<Rightarrow> c \<in> set (map fst (cv_sizes cv)))
     \<and> (\<forall>c v. map_of (cv_sizes cv) c = Some (Some v) \<longrightarrow> viewport_ok v)
     \<and> viewport_ok (published_viewport (cv_published cv))"

lemma default_viewports_ok [simp]: "viewports_ok viewports_default"
  by (simp add: viewports_ok_def viewports_default_def published_viewport_def viewport_ok_def
      DEFAULT_VIEWPORT_SIZE_def)

lemma keys_map_of: "k \<in> set (map fst m) \<longleftrightarrow> map_of m k \<noteq> None"
  by (simp add: map_of_eq_None_iff)

lemma sized_clients_keys: "set (sized_clients m) \<subseteq> set (map fst m)"
  by (auto simp: sized_clients_def)

lemma reported_viewports_iff:
  "hm_ok (cv_sizes cv) \<Longrightarrow>
   v \<in> set (reported_viewports cv) \<longleftrightarrow> (\<exists>c. map_of (cv_sizes cv) c = Some (Some v))"
  by (force simp: reported_viewports_def List.map_filter_def hm_values_iff [symmetric])

lemma reported_viewport_ok:
  "viewports_ok cv \<Longrightarrow> v \<in> set (reported_viewports cv) \<Longrightarrow> viewport_ok v"
  by (auto simp: viewports_ok_def reported_viewports_iff)

lemma update_nonempty [simp]: "AList.update k v m \<noteq> []"
  by (cases m) auto

lemma map_entry_Nil [simp]: "AList.map_entry k f m = [] \<longleftrightarrow> m = []"
  by (cases m) auto

lemma attach_ok:
  "viewports_ok cv \<Longrightarrow> viewport_op_ok (AttachClient c v) cv \<Longrightarrow> viewports_ok (vp_attach c v cv)"
  by (auto simp: viewports_ok_def vp_attach_def hm.get_put hm.ok_put keys_map_of
      split: option.splits simp del: set_map)

lemma detach_ok: "viewports_ok cv \<Longrightarrow> viewports_ok (vp_detach c cv)"
proof -
  assume ok: "viewports_ok cv"
  let ?s = "AList.delete c (cv_sizes cv)"
  have hm: "hm_ok (cv_sizes cv)" using ok by (simp add: viewports_ok_def)
  have resp: "case cv_responder (vp_detach c cv) of None \<Rightarrow> ?s = []
      | Some r \<Rightarrow> r \<in> set (map fst ?s)"
  proof (cases "cv_responder cv = Some c")
    case True
    then show ?thesis
      using sized_clients_keys [of ?s]
      by (auto simp: vp_detach_def Let_def simp del: set_map dest!: min_id_SomeD split: option.splits)
  next
    case False
    then show ?thesis using ok
      by (auto simp: vp_detach_def Let_def viewports_ok_def keys_map_of hm.get_del [OF hm]
          simp del: set_map split: option.splits)
  qed
  show ?thesis
    using ok resp by (auto simp: viewports_ok_def vp_detach_def Let_def hm.get_del [OF hm]
        hm.ok_del split: if_splits option.splits simp del: set_map)
qed

lemma resize_ok: "viewports_ok cv \<Longrightarrow> viewport_ok v \<Longrightarrow> viewports_ok (vp_resize c v cv)"
  by (auto simp: viewports_ok_def vp_resize_def map_of_map_entry simp del: set_map
      split: option.splits if_splits)

lemma activate_ok: "viewports_ok cv \<Longrightarrow> viewports_ok (vp_activate c cv)"
  by (auto simp: viewports_ok_def vp_activate_def keys_map_of simp del: set_map)

lemma focus_ok: "viewports_ok cv \<Longrightarrow> viewports_ok (vp_focus c f cv)"
  by (auto simp: viewports_ok_def vp_focus_def keys_map_of simp del: set_map
      split: option.splits)

lemma release_ok: "viewports_ok cv \<Longrightarrow> viewports_ok (vp_release c cv)"
proof -
  assume ok: "viewports_ok cv"
  let ?s = "AList.map_entry c (\<lambda>_. None) (cv_sizes cv)"
  have resp: "case cv_responder (vp_release c cv) of None \<Rightarrow> ?s = []
      | Some r \<Rightarrow> r \<in> set (map fst ?s)"
    using ok sized_clients_keys [of ?s]
    by (auto simp: vp_release_def Let_def viewports_ok_def simp del: set_map
        dest!: min_id_SomeD split: option.splits)
  show ?thesis
    using ok resp by (auto simp: viewports_ok_def vp_release_def Let_def map_of_map_entry
        split: if_splits option.splits simp del: set_map)
qed

lemma apply_viewport_op_ok:
  "viewports_ok cv \<Longrightarrow> viewport_op_ok op cv \<Longrightarrow> viewports_ok (apply_viewport_op op cv)"
  by (cases op) (simp_all add: attach_ok detach_ok resize_ok activate_ok focus_ok release_ok
      del: viewport_op_ok.simps)

lemma apply_viewport_op_published [simp]:
  "cv_published (apply_viewport_op op cv) = cv_published cv"
  by (cases op) (simp_all add: vp_attach_def vp_detach_def vp_resize_def vp_activate_def
      vp_focus_def vp_release_def Let_def)

text \<open>The size the negotiation takes.\<close>

lemma chosen_viewport_ok: "viewports_ok cv \<Longrightarrow> viewport_ok (chosen_viewport cv)"
proof -
  assume ok: "viewports_ok cv"
  have "focused_viewport cv = Some v \<Longrightarrow> viewport_ok v" for v
    using ok by (auto simp: viewports_ok_def focused_viewport_def split: option.splits)
  moreover have "smallest_viewport (reported_viewports cv) = Some v \<Longrightarrow> viewport_ok v" for v
    using smallest_viewport_ok [of "reported_viewports cv" v] reported_viewport_ok [OF ok] by blast
  ultimately show ?thesis
    using ok by (auto simp: chosen_viewport_def viewports_ok_def split: option.splits)
qed

lemma chosen_focused:
  "viewports_ok cv \<Longrightarrow> cv_focused cv = Some c \<Longrightarrow>
   map_of (cv_sizes cv) c = Some (Some (chosen_viewport cv))"
  by (auto simp: viewports_ok_def chosen_viewport_def focused_viewport_def)

lemma chosen_smallest:
  "cv_focused cv = None \<Longrightarrow> reported_viewports cv \<noteq> [] \<Longrightarrow>
   chosen_viewport cv =
     \<lparr>vw_cols = Min (vw_cols ` set (reported_viewports cv)),
      vw_rows = Min (vw_rows ` set (reported_viewports cv)),
      vw_pixel_width = Min (vw_pixel_width ` set (reported_viewports cv)),
      vw_pixel_height = Min (vw_pixel_height ` set (reported_viewports cv))\<rparr>"
  by (simp add: chosen_viewport_def focused_viewport_def smallest_viewport_Min)

lemma chosen_default:
  "cv_focused cv = None \<Longrightarrow> reported_viewports cv = [] \<Longrightarrow>
   chosen_viewport cv = published_viewport (cv_published cv)"
  by (simp add: chosen_viewport_def focused_viewport_def)

end
