(* ===== verification/ViewportSession.thy ===== *)
theory ViewportSession
  imports Viewports OutputState
begin

text \<open>
  \<open>TerminalSession::update_viewports\<close> (\<open>src/src/terminal.rs\<close>) and the six client operations that go
  through it: one change of the client viewports, the resize of the PTY master and of the output
  state when the negotiated grid or its pixels changed, and the \<open>Size\<close> event that tells every
  subscriber. The locks it takes make one call one step.

  The PTY master is the operating system's: whether its \<open>resize\<close> succeeds is an argument of the
  step. The terminal inside the output state is the parameter \<open>ops\<close> of \<open>OutputState\<close>.
\<close>

section \<open>State and operation\<close>

record 't view_session =
  vs_viewports :: client_viewports
  vs_output :: "'t output_state"
  vs_running :: bool
  vs_events :: "terminal_size_state list"

definition same_size :: "terminal_size_state \<Rightarrow> terminal_size_state \<Rightarrow> bool" where
  "same_size a b \<longleftrightarrow>
     (sz_cols a, sz_rows a, sz_pixel_width a, sz_pixel_height a)
       = (sz_cols b, sz_rows b, sz_pixel_width b, sz_pixel_height b)"

text \<open>
  \<open>Inl\<close> is the error of the failed resize: the clients are updated, the published size is not and
  no event is sent. The state after the call is returned in both cases.
\<close>

definition update_viewports ::
    "'t term_ops \<Rightarrow> (client_viewports \<Rightarrow> client_viewports) \<Rightarrow> bool \<Rightarrow> 't view_session
       \<Rightarrow> (unit + terminal_size_state) \<times> 't view_session" where
  "update_viewports ops f resize_succeeds vs =
     (let cv = f (vs_viewports vs);
          st = vp_state cv;
          size_changed = \<not> same_size st (cv_published cv);
          publish = (st \<noteq> cv_published cv)
      in if size_changed \<and> vs_running vs \<and> \<not> resize_succeeds
         then (Inl (), vs\<lparr>vs_viewports := cv\<rparr>)
         else let output = (if size_changed
                            then os_resize ops (vs_output vs) (sz_rows st) (sz_cols st)
                                   (sz_pixel_width st) (sz_pixel_height st)
                            else vs_output vs);
                  st' = (if size_changed then st\<lparr>sz_epoch := os_epoch output\<rparr> else st)
              in (Inr st', vs\<lparr>vs_viewports := cv\<lparr>cv_published := st'\<rparr>, vs_output := output,
                             vs_events := vs_events vs @ (if publish then [st'] else [])\<rparr>))"

definition view_session_new :: "'t term_ops \<Rightarrow> nat \<Rightarrow> 't view_session" where
  "view_session_new ops maximum_bytes =
     \<lparr>vs_viewports = viewports_default,
      vs_output = os_new ops maximum_bytes (vw_rows DEFAULT_VIEWPORT_SIZE)
                    (vw_cols DEFAULT_VIEWPORT_SIZE),
      vs_running = True, vs_events = []\<rparr>"

section \<open>Runs\<close>

text \<open>
  What happens to a session: a client operation, output of the program, device responses taken
  out, a browser checkpoint and the exit.
\<close>

inductive vs_reach :: "'t term_ops \<Rightarrow> 't view_session \<Rightarrow> bool" for ops :: "'t term_ops" where
  new: "vs_reach ops (view_session_new ops maximum)"
| client: "vs_reach ops vs \<Longrightarrow> viewport_op_ok op (vs_viewports vs) \<Longrightarrow>
      vs_reach ops (snd (update_viewports ops (apply_viewport_op op) b vs))"
| publish: "vs_reach ops vs \<Longrightarrow>
      vs_reach ops (vs\<lparr>vs_output := snd (os_publish ops (vs_output vs) bs)\<rparr>)"
| drain: "vs_reach ops vs \<Longrightarrow>
      vs_reach ops (vs\<lparr>vs_output := snd (os_drain_responses ops (vs_output vs))\<rparr>)"
| store: "vs_reach ops vs \<Longrightarrow>
      vs_reach ops (vs\<lparr>vs_output := snd (os_store_checkpoint (vs_output vs) q e bytes)\<rparr>)"
| exit: "vs_reach ops vs \<Longrightarrow>
      vs_reach ops (vs\<lparr>vs_output := os_mark_exited (vs_output vs) code, vs_running := False\<rparr>)"

text \<open>
  What the session relies on of the terminal: only a resize changes its size, to the one asked
  for. These are the documented contracts of the \<open>vt100\<close> screen the terminal is built on.
\<close>

definition size_laws :: "'t term_ops \<Rightarrow> bool" where
  "size_laws ops \<longleftrightarrow>
     (\<forall>r c n. tm_size ops (tm_new ops r c n) = (r, c))
     \<and> (\<forall>t r c n pw ph. tm_size ops (tm_resize ops t r c n pw ph) = (r, c))
     \<and> (\<forall>t bs. tm_size ops (tm_process ops t bs) = tm_size ops t)
     \<and> (\<forall>t. tm_size ops (snd (tm_drain ops t)) = tm_size ops t)"

definition grid_of :: "terminal_size_state \<Rightarrow> nat \<times> nat" where
  "grid_of st = (sz_rows st, sz_cols st)"

text \<open>
  The published size, the grid of the terminal and the log of size events agree, and in the log an
  epoch stands for one grid.
\<close>

definition events_ok :: "terminal_size_state list \<Rightarrow> nat \<Rightarrow> nat \<times> nat \<Rightarrow> bool" where
  "events_ok es e g \<longleftrightarrow>
     (\<forall>st \<in> set es. sz_epoch st \<le> e \<and> (sz_epoch st = e \<longrightarrow> grid_of st = g))
     \<and> (\<forall>a \<in> set es. \<forall>b \<in> set es. sz_epoch a = sz_epoch b \<longrightarrow> grid_of a = grid_of b)"

definition vs_ok :: "'t term_ops \<Rightarrow> 't view_session \<Rightarrow> bool" where
  "vs_ok ops vs \<longleftrightarrow>
     viewports_ok (vs_viewports vs)
     \<and> tm_size ops (os_terminal (vs_output vs)) = grid_of (cv_published (vs_viewports vs))
     \<and> sz_epoch (cv_published (vs_viewports vs)) = os_epoch (vs_output vs)
     \<and> events_ok (vs_events vs) (os_epoch (vs_output vs)) (grid_of (cv_published (vs_viewports vs)))"

lemma os_publish_keeps [simp]:
  "os_epoch (snd (os_publish ops s bs)) = os_epoch s"
  "os_terminal (snd (os_publish ops s bs)) = tm_process ops (os_terminal s) bs"
  by (simp_all add: os_publish_def Let_def)

lemma os_drain_keeps [simp]:
  "os_epoch (snd (os_drain_responses ops s)) = os_epoch s"
  "os_terminal (snd (os_drain_responses ops s)) = snd (tm_drain ops (os_terminal s))"
  by (simp_all add: os_drain_responses_def split: prod.splits)

lemma os_store_keeps [simp]:
  "os_epoch (snd (os_store_checkpoint s q e bs)) = os_epoch s"
  "os_terminal (snd (os_store_checkpoint s q e bs)) = os_terminal s"
  by (simp_all add: os_store_checkpoint_def)

lemma os_mark_keeps [simp]:
  "os_epoch (os_mark_exited s code) = os_epoch s"
  "os_terminal (os_mark_exited s code) = os_terminal s"
  by (simp_all add: os_mark_exited_def)

lemma os_resize_epoch:
  "os_epoch (os_resize ops s rows cols pw ph)
     = (if tm_size ops (os_terminal s) = (rows, cols) then os_epoch s
        else sat_add (os_epoch s) 1)"
  by (simp add: os_resize_def Let_def)

lemma os_resize_size:
  "size_laws ops \<Longrightarrow> tm_size ops (os_terminal (os_resize ops s rows cols pw ph)) = (rows, cols)"
  by (simp add: os_resize_def Let_def size_laws_def)

lemma vp_state_ok:
  "viewports_ok cv \<Longrightarrow> viewports_ok (cv\<lparr>cv_published := (vp_state cv)\<lparr>sz_epoch := e\<rparr>\<rparr>)"
  "viewports_ok cv \<Longrightarrow> viewports_ok (cv\<lparr>cv_published := vp_state cv\<rparr>)"
  using chosen_viewport_ok [of cv]
  by (auto simp: viewports_ok_def published_viewport_def viewport_ok_def vp_state_def Let_def
      split: option.splits)

lemma vp_state_epoch [simp]: "sz_epoch (vp_state cv) = sz_epoch (cv_published cv)"
  by (simp add: vp_state_def Let_def)

lemma same_size_grid: "same_size a b \<Longrightarrow> grid_of a = grid_of b"
  by (simp add: same_size_def grid_of_def)

lemma grid_of_epoch [simp]: "grid_of (st\<lparr>sz_epoch := e\<rparr>) = grid_of st"
  by (simp add: grid_of_def)

text \<open>A new size event that keeps the epoch shows the old grid; one with another grid advances it.\<close>

lemma events_ok_Nil [simp]: "events_ok [] e g"
  by (simp add: events_ok_def)

lemma events_ok_append:
  assumes ok: "events_ok es e g" and le: "e \<le> e'" and same: "e' = e \<Longrightarrow> g' = g"
    and st: "sz_epoch st' = e'" "grid_of st' = g'"
  shows "events_ok (es @ [st']) e' g'"
proof -
  have old: "sz_epoch x \<le> e' \<and> (sz_epoch x = e' \<longrightarrow> grid_of x = g')" if "x \<in> set es" for x
  proof -
    have x: "sz_epoch x \<le> e" "sz_epoch x = e \<longrightarrow> grid_of x = g"
      using ok that by (auto simp: events_ok_def)
    show ?thesis
    proof (cases "e' = e")
      case True
      then show ?thesis using x same by simp
    next
      case False
      then show ?thesis using x le by simp
    qed
  qed
  have pair: "grid_of a = grid_of b" if "a \<in> set es" "b \<in> set es" "sz_epoch a = sz_epoch b" for a b
    using ok that unfolding events_ok_def by blast
  show ?thesis
    unfolding events_ok_def
  proof (intro conjI ballI impI)
    fix a b assume "a \<in> set (es @ [st'])" "b \<in> set (es @ [st'])" and ab: "sz_epoch a = sz_epoch b"
    then consider "a \<in> set es" "b \<in> set es" | "a = st'" "b = st'"
      | "a = st'" "b \<in> set es" "sz_epoch b = e'" | "b = st'" "a \<in> set es" "sz_epoch a = e'"
      using ab st(1) by (cases "a = st'"; cases "b = st'") simp_all
    then show "grid_of a = grid_of b"
    proof cases
      case 1
      then show ?thesis by (rule pair) (rule ab)
    next
      case 3
      then show ?thesis using old [of b] st by simp
    next
      case 4
      then show ?thesis using old [of a] st by simp
    qed simp
  next
    fix x assume x: "x \<in> set (es @ [st'])"
    show "sz_epoch x \<le> e'" using x old [of x] st by (cases "x = st'") simp_all
    assume "sz_epoch x = e'"
    then show "grid_of x = g'" using x old [of x] st by (cases "x = st'") simp_all
  qed
qed

lemma update_viewports_ok:
  assumes laws: "size_laws ops" and ok: "vs_ok ops vs"
    and cv: "viewports_ok (f (vs_viewports vs))"
    and pub: "cv_published (f (vs_viewports vs)) = cv_published (vs_viewports vs)"
    and e: "os_epoch (vs_output vs) < u64_max"
  shows "vs_ok ops (snd (update_viewports ops f b vs))"
proof -
  define cv' where "cv' = f (vs_viewports vs)"
  define st where "st = vp_state cv'"
  define o' where "o' = os_resize ops (vs_output vs) (sz_rows st) (sz_cols st)
    (sz_pixel_width st) (sz_pixel_height st)"
  have pub': "cv_published cv' = cv_published (vs_viewports vs)" using pub by (simp add: cv'_def)
  have size: "tm_size ops (os_terminal (vs_output vs)) = grid_of (cv_published cv')"
    and ep: "sz_epoch (cv_published cv') = os_epoch (vs_output vs)"
    and es: "events_ok (vs_events vs) (os_epoch (vs_output vs)) (grid_of (cv_published cv'))"
    using ok by (simp_all add: vs_ok_def pub')
  have se: "sz_epoch st = os_epoch (vs_output vs)" using ep by (simp add: st_def)
  have vok: "viewports_ok cv'" using cv by (simp add: cv'_def)
  show ?thesis
  proof (cases "same_size st (cv_published cv')")
    case True
    have g: "grid_of st = grid_of (cv_published cv')" by (rule same_size_grid [OF True])
    have eq: "snd (update_viewports ops f b vs) = vs\<lparr>vs_viewports := cv'\<lparr>cv_published := st\<rparr>,
        vs_events := vs_events vs @ (if st \<noteq> cv_published cv' then [st] else [])\<rparr>"
      using True by (simp add: update_viewports_def Let_def flip: cv'_def st_def)
    have v: "viewports_ok (cv'\<lparr>cv_published := st\<rparr>)"
      unfolding st_def by (rule vp_state_ok [OF vok])
    have es': "events_ok (vs_events vs @ (if st \<noteq> cv_published cv' then [st] else []))
        (os_epoch (vs_output vs)) (grid_of st)"
      using es events_ok_append [OF es order_refl, of "grid_of st" st] g se by simp
    show ?thesis
      unfolding eq vs_ok_def using v es' size g se by simp
  next
    case False
    let ?st = "st\<lparr>sz_epoch := os_epoch o'\<rparr>"
    show ?thesis
    proof (cases "vs_running vs \<and> \<not> b")
      case True
      have eq: "snd (update_viewports ops f b vs) = vs\<lparr>vs_viewports := cv'\<rparr>"
        using True False by (simp add: update_viewports_def Let_def flip: cv'_def st_def)
      show ?thesis unfolding eq vs_ok_def using vok size ep es by simp
    next
      case run: False
      have ne: "st \<noteq> cv_published cv'" using False by (auto simp: same_size_def)
      have eq: "snd (update_viewports ops f b vs) = vs\<lparr>vs_viewports := cv'\<lparr>cv_published := ?st\<rparr>,
          vs_output := o', vs_events := vs_events vs @ [?st]\<rparr>"
        using False run ne
        by (auto simp add: update_viewports_def Let_def simp flip: cv'_def st_def o'_def)
      have v: "viewports_ok (cv'\<lparr>cv_published := ?st\<rparr>)"
        unfolding st_def by (rule vp_state_ok [OF vok])
      have o: "tm_size ops (os_terminal o') = grid_of st"
        unfolding o'_def os_resize_size [OF laws] by (simp add: grid_of_def)
      have "os_epoch (vs_output vs) \<le> os_epoch o'"
        "os_epoch o' = os_epoch (vs_output vs) \<Longrightarrow> grid_of st = grid_of (cv_published cv')"
        using e size by (auto simp: o'_def os_resize_epoch sat_add_def grid_of_def split: if_splits)
      from events_ok_append [OF es this, of ?st]
      have "events_ok (vs_events vs @ [?st]) (os_epoch o') (grid_of st)" by simp
      then show ?thesis unfolding eq vs_ok_def using v o by simp
    qed
  qed
qed

lemma update_viewports_epoch:
  "os_epoch (vs_output vs) \<le> u64_max \<Longrightarrow>
   os_epoch (vs_output vs) \<le> os_epoch (vs_output (snd (update_viewports ops f b vs)))"
  by (auto simp: update_viewports_def Let_def os_resize_epoch sat_add_mono)

lemma vs_reach_epoch: "vs_reach ops vs \<Longrightarrow> os_epoch (vs_output vs) \<le> u64_max"
proof (induction rule: vs_reach.induct)
  case (client vs op b)
  then show ?case
    by (auto simp: update_viewports_def Let_def os_resize_epoch sat_add_bound)
qed (simp_all add: view_session_new_def os_new_def Let_def)

lemma vs_reach_ok:
  assumes laws: "size_laws ops"
  shows "vs_reach ops vs \<Longrightarrow> os_epoch (vs_output vs) < u64_max \<Longrightarrow> vs_ok ops vs"
proof (induction rule: vs_reach.induct)
  case (new maximum)
  then show ?case using laws
    by (simp add: vs_ok_def view_session_new_def os_new_def Let_def size_laws_def grid_of_def)
      (simp add: viewports_default_def)
next
  case (client vs op b)
  have e: "os_epoch (vs_output vs) < u64_max"
    using client.prems update_viewports_epoch [OF vs_reach_epoch [OF client.hyps(1)],
        of ops "apply_viewport_op op" b] by linarith
  note ok = client.IH [OF e]
  then have "viewports_ok (apply_viewport_op op (vs_viewports vs))"
    using apply_viewport_op_ok client.hyps(2) by (simp add: vs_ok_def)
  with ok e show ?case by (simp add: update_viewports_ok [OF laws])
qed (use laws in \<open>simp_all add: vs_ok_def size_laws_def\<close>)

lemma update_viewports_Inr:
  assumes "update_viewports ops f b vs = (Inr st, vs')"
  shows "\<exists>e. st = (vp_state (f (vs_viewports vs)))\<lparr>sz_epoch := e\<rparr>
    \<and> vs_viewports vs' = (f (vs_viewports vs))\<lparr>cv_published := st\<rparr>"
proof -
  define x where "x = vp_state (f (vs_viewports vs))"
  have r: "st = x \<or> (\<exists>e. st = x\<lparr>sz_epoch := e\<rparr>)"
      "vs_viewports vs' = (f (vs_viewports vs))\<lparr>cv_published := st\<rparr>"
    using assms by (auto simp: update_viewports_def Let_def simp flip: x_def split: if_splits)
  have "x = x\<lparr>sz_epoch := sz_epoch x\<rparr>" by (cases x) simp
  then have "\<exists>e. st = x\<lparr>sz_epoch := e\<rparr>" using r(1) by metis
  with r(2) show ?thesis by (simp add: x_def)
qed

section \<open>Properties\<close>

text \<open>
  After every successful client operation the published size is the viewport of the client
  that has the focus, which is attached and reported it; without a focus it is, in each of its
  four measures, the least of those reported; and when none is reported it is unchanged. It is
  always between 2 x 1 and 500 x 300, it is the size of the canonical terminal, and some attached
  client answers device queries exactly as long as one is attached.
\<close>

theorem negotiated_size:
  assumes "size_laws ops" and "vs_reach ops vs" and "viewport_op_ok op (vs_viewports vs)"
    and "update_viewports ops (apply_viewport_op op) b vs = (Inr st, vs')"
    and "os_epoch (vs_output vs') < u64_max"
  shows "let cv = vs_viewports vs'; shown = published_viewport st; reports = reported_viewports cv in
      (case sz_focused st of
         Some c \<Rightarrow> map_of (cv_sizes cv) c = Some (Some shown)
       | None \<Rightarrow> (if reports = [] then shown = published_viewport (cv_published (vs_viewports vs))
                 else shown = \<lparr>vw_cols = Min (vw_cols ` set reports),
                   vw_rows = Min (vw_rows ` set reports),
                   vw_pixel_width = Min (vw_pixel_width ` set reports),
                   vw_pixel_height = Min (vw_pixel_height ` set reports)\<rparr>))
      \<and> viewport_ok shown
      \<and> tm_size ops (os_terminal (vs_output vs')) = (sz_rows st, sz_cols st)
      \<and> (case sz_responder st of
           None \<Rightarrow> cv_sizes cv = []
         | Some c \<Rightarrow> map_of (cv_sizes cv) c \<noteq> None)"
proof -
  define cv where "cv = apply_viewport_op op (vs_viewports vs)"
  have vs': "vs' = snd (update_viewports ops (apply_viewport_op op) b vs)" using assms(4) by simp
  have ok': "vs_ok ops vs'"
    using vs_reach_ok [OF assms(1) vs_reach.client [OF assms(2,3), of b]] assms(5)
    by (simp add: vs')
  have e: "os_epoch (vs_output vs) < u64_max"
    using assms(5) update_viewports_epoch [OF vs_reach_epoch [OF assms(2)],
        of ops "apply_viewport_op op" b] by (simp add: vs')
  have ok: "viewports_ok cv"
    using vs_reach_ok [OF assms(1,2) e] assms(3) apply_viewport_op_ok
    by (simp add: vs_ok_def cv_def)
  have st: "published_viewport st = chosen_viewport cv" "sz_focused st = cv_focused cv"
      "sz_responder st = cv_responder cv" "cv_published (vs_viewports vs') = st"
      "cv_sizes (vs_viewports vs') = cv_sizes cv"
    using update_viewports_Inr [OF assms(4), folded cv_def]
    by (auto simp: published_viewport_def vp_state_def Let_def)
  have rep: "reported_viewports (vs_viewports vs') = reported_viewports cv"
    by (simp add: reported_viewports_def st)
  have pub: "cv_published cv = cv_published (vs_viewports vs)" by (simp add: cv_def)
  show ?thesis
    using ok ok' chosen_viewport_ok [OF ok] chosen_focused [OF ok] chosen_smallest [of cv]
      chosen_default [of cv] pub
    by (auto simp: Let_def st rep vs_ok_def viewports_ok_def grid_of_def keys_map_of
        simp del: set_map split: option.splits)
qed

text \<open>A terminal that is nothing but its size.\<close>

definition grid_ops :: "(nat \<times> nat) term_ops" where
  "grid_ops = \<lparr>tm_new = \<lambda>r c _. (r, c), tm_process = \<lambda>t _. t, tm_safe = \<lambda>_. True,
     tm_size = id, tm_resize = \<lambda>_ r c _ _ _. (r, c), tm_snapshot = \<lambda>_. [],
     tm_drain = \<lambda>t. ([], t), tm_cell_bytes = 32\<rparr>"

lemma grid_laws [simp]: "size_laws grid_ops"
  by (simp add: size_laws_def grid_ops_def)

lemmas viewport_eval = update_viewports_def vp_state_def chosen_viewport_def focused_viewport_def
  reported_viewports_def hm_values_def List.map_filter_def published_viewport_def
  view_session_new_def viewports_default_def DEFAULT_VIEWPORT_SIZE_def vp_attach_def vp_focus_def
  viewport_new_def clamp_def same_size_def os_resize_def os_new_def grid_ops_def
  smaller_viewport_def sat_add_def u64_max_def Let_def

definition grid_session :: "(nat \<times> nat) view_session" where
  "grid_session = snd (update_viewports grid_ops
     (apply_viewport_op (AttachClient 7 (Some (viewport_new 180 50 1800 1000)))) True
     (view_session_new grid_ops 131072))"

lemma grid_session_reach: "vs_reach grid_ops grid_session"
  unfolding grid_session_def
  by (rule vs_reach.client [OF vs_reach.new]) (simp add: view_session_new_def viewports_default_def)

lemma grid_session_cv: "vs_viewports grid_session =
   \<lparr>cv_sizes = [(7, Some (viewport_new 180 50 1800 1000))], cv_focused = None, cv_responder = Some 7,
    cv_published = \<lparr>sz_cols = 180, sz_rows = 50, sz_pixel_width = 1800, sz_pixel_height = 1000,
      sz_focused = None, sz_responder = Some 7, sz_epoch = 1\<rparr>\<rparr>"
  "os_epoch (vs_output grid_session) = 1"
  "os_terminal (vs_output grid_session) = (50, 180)"
  "vs_running grid_session"
  "vs_events grid_session = [\<lparr>sz_cols = 180, sz_rows = 50, sz_pixel_width = 1800,
      sz_pixel_height = 1000, sz_focused = None, sz_responder = Some 7, sz_epoch = 1\<rparr>]"
  by (simp_all add: grid_session_def viewport_eval)

lemma negotiated_size_witness:
  "\<exists>st vs'. update_viewports grid_ops (apply_viewport_op
       (AttachClient 3 (Some (viewport_new 60 22 600 440)))) True grid_session = (Inr st, vs')
     \<and> viewport_ok (published_viewport st) \<and> (sz_rows st, sz_cols st) = (22, 60)"
proof -
  let ?r = "update_viewports grid_ops (apply_viewport_op
       (AttachClient 3 (Some (viewport_new 60 22 600 440)))) True grid_session"
  have ok: "viewport_op_ok (AttachClient 3 (Some (viewport_new 60 22 600 440)))
      (vs_viewports grid_session)"
    by (simp add: grid_session_cv)
  have fst: "fst ?r = Inr \<lparr>sz_cols = 60, sz_rows = 22, sz_pixel_width = 600,
      sz_pixel_height = 440, sz_focused = None, sz_responder = Some 7, sz_epoch = 2\<rparr>"
    by (simp add: viewport_eval grid_session_cv)
  then obtain st vs' where r: "?r = (Inr st, vs')" and st: "(sz_rows st, sz_cols st) = (22, 60)"
    by (cases ?r) auto
  have "os_epoch (vs_output (snd ?r)) = 2" by (simp add: viewport_eval grid_session_cv)
  moreover have "snd ?r = vs'" by (simp only: r snd_conv)
  ultimately have e: "os_epoch (vs_output vs') < u64_max" by (simp only: u64_max_def)
  from negotiated_size [OF grid_laws grid_session_reach ok r e] r st show ?thesis
    by (auto simp: Let_def)
qed



end
