(* ===== verification/FlowControl.thy ===== *)
theory FlowControl
  imports Prelude
begin

text \<open>
  The flow control between a terminal's read loop and its browsers (\<open>src/src/terminal.rs\<close>:
  \<open>FlowControlState\<close>, \<open>flow_wait_until_resumed\<close>, \<open>flow_attach\<close>, \<open>flow_detach\<close>,
  \<open>flow_acknowledged\<close>, \<open>flow_release\<close>). The read loop stops while more than the high watermark of
  output is unacknowledged and goes on under the low one, when no browser is attached, when the
  program has exited, or when no acknowledgement has made progress for the deadline.

  Time is in milliseconds. The wait is a loop over what each of its waits sees: when another thread
  woke it, if one did before the wait timed out, and what the threads holding the lock did by then.
\<close>

section \<open>State and operations\<close>

record flow_state =
  fc_unacknowledged :: nat
  fc_paused :: bool
  fc_clients :: nat
  fc_released :: bool

definition FLOW_CONTROL_HIGH_WATERMARK_BYTES :: nat where
  "FLOW_CONTROL_HIGH_WATERMARK_BYTES = 100000"
definition FLOW_CONTROL_LOW_WATERMARK_BYTES :: nat where
  "FLOW_CONTROL_LOW_WATERMARK_BYTES = 5000"
definition FLOW_CONTROL_WAIT_BACKSTOP :: nat where "FLOW_CONTROL_WAIT_BACKSTOP = 5000"
definition FLOW_CONTROL_PAUSE_DEADLINE :: nat where "FLOW_CONTROL_PAUSE_DEADLINE = 10000"

definition flow_default :: flow_state where
  "flow_default =
     \<lparr>fc_unacknowledged = 0, fc_paused = False, fc_clients = 0, fc_released = False\<rparr>"

definition flow_blocked :: "flow_state \<Rightarrow> bool" where
  "flow_blocked s \<longleftrightarrow> fc_paused s \<and> 0 < fc_clients s \<and> \<not> fc_released s"

definition flow_published :: "nat \<Rightarrow> flow_state \<Rightarrow> flow_state" where
  "flow_published n s =
     (if fc_clients s = 0 then s
      else let u = sat_add (fc_unacknowledged s) n in
        s\<lparr>fc_unacknowledged := u,
          fc_paused := fc_paused s \<or> FLOW_CONTROL_HIGH_WATERMARK_BYTES < u\<rparr>)"

text \<open>The flag says whether the acknowledgement resumed the terminal.\<close>

definition flow_acknowledge :: "nat \<Rightarrow> flow_state \<Rightarrow> bool \<times> flow_state" where
  "flow_acknowledge n s =
     (let u = fc_unacknowledged s - n;
          resumed = (fc_paused s \<and> u < FLOW_CONTROL_LOW_WATERMARK_BYTES)
      in (resumed, s\<lparr>fc_unacknowledged := u, fc_paused := fc_paused s \<and> \<not> resumed\<rparr>))"

definition flow_clear :: "flow_state \<Rightarrow> flow_state" where
  "flow_clear s = s\<lparr>fc_unacknowledged := 0, fc_paused := False\<rparr>"

definition flow_attach :: "flow_state \<Rightarrow> flow_state" where
  "flow_attach s = flow_clear (s\<lparr>fc_clients := fc_clients s + 1\<rparr>)"

definition flow_detach :: "flow_state \<Rightarrow> flow_state" where
  "flow_detach s = flow_clear (s\<lparr>fc_clients := fc_clients s - 1\<rparr>)"

definition flow_release :: "flow_state \<Rightarrow> flow_state" where
  "flow_release s = s\<lparr>fc_released := True\<rparr>"

datatype flow_op = FlowPublished nat | FlowAcknowledged nat | FlowAttach | FlowDetach | FlowRelease

fun flow_apply :: "flow_op \<Rightarrow> flow_state \<Rightarrow> flow_state" where
  "flow_apply (FlowPublished n) = flow_published n"
| "flow_apply (FlowAcknowledged n) = snd \<circ> flow_acknowledge n"
| "flow_apply FlowAttach = flow_attach"
| "flow_apply FlowDetach = flow_detach"
| "flow_apply FlowRelease = flow_release"

section \<open>The parked read loop\<close>

type_synonym wake = "nat option \<times> flow_op list"

definition wait_time :: "nat \<Rightarrow> wake \<Rightarrow> nat" where
  "wait_time remaining w =
     (let limit = min remaining FLOW_CONTROL_WAIT_BACKSTOP
      in case fst w of None \<Rightarrow> limit | Some t \<Rightarrow> min t limit)"

text \<open>
  \<open>None\<close>: the loop still waits when the wake-ups run out. Otherwise the state it left behind and
  the time it returned at.
\<close>

fun flow_wait ::
    "nat \<Rightarrow> nat \<Rightarrow> nat \<Rightarrow> nat \<Rightarrow> flow_state \<Rightarrow> wake list \<Rightarrow> (flow_state \<times> nat) option" where
  "flow_wait deadline now expires previous s [] =
     (if \<not> flow_blocked s then Some (s, now)
      else if expires - now = 0 then Some (flow_clear s, now) else None)"
| "flow_wait deadline now expires previous s (w # ws) =
     (if \<not> flow_blocked s then Some (s, now)
      else if expires - now = 0 then Some (flow_clear s, now)
      else let now' = now + wait_time (expires - now) w; s' = fold flow_apply (snd w) s in
        if fc_unacknowledged s' < previous
        then flow_wait deadline now' (now' + deadline) (fc_unacknowledged s') s' ws
        else flow_wait deadline now' expires previous s' ws)"

definition flow_wait_until_resumed ::
    "nat \<Rightarrow> nat \<Rightarrow> flow_state \<Rightarrow> wake list \<Rightarrow> (flow_state \<times> nat) option" where
  "flow_wait_until_resumed deadline now s ws =
     flow_wait deadline now (now + deadline) (fc_unacknowledged s) s ws"

section \<open>Invariant\<close>

definition flow_ok :: "flow_state \<Rightarrow> bool" where
  "flow_ok s \<longleftrightarrow>
     (fc_paused s \<longrightarrow> FLOW_CONTROL_LOW_WATERMARK_BYTES \<le> fc_unacknowledged s)
     \<and> (\<not> fc_paused s \<longrightarrow> fc_unacknowledged s \<le> FLOW_CONTROL_HIGH_WATERMARK_BYTES)
     \<and> (fc_clients s = 0 \<longrightarrow> fc_unacknowledged s = 0 \<and> \<not> fc_paused s)"

lemmas watermarks = FLOW_CONTROL_HIGH_WATERMARK_BYTES_def FLOW_CONTROL_LOW_WATERMARK_BYTES_def

lemmas flow_ops = flow_published_def flow_acknowledge_def flow_attach_def flow_detach_def
  flow_clear_def flow_release_def Let_def

lemma flow_default_ok [simp]: "flow_ok flow_default"
  by (simp add: flow_ok_def flow_default_def)

lemma flow_clear_ok [simp]: "flow_ok (flow_clear s)"
  by (simp add: flow_ok_def flow_clear_def)

lemma flow_apply_ok: "flow_ok s \<Longrightarrow> flow_ok (flow_apply op s)"
  by (cases op) (auto simp: flow_ok_def flow_ops watermarks sat_add_def u64_max_def)

lemma flow_run_ok: "flow_ok s \<Longrightarrow> flow_ok (fold flow_apply ops s)"
  by (induction ops arbitrary: s) (simp_all add: flow_apply_ok)

lemma flow_wait_ok: "flow_ok s \<Longrightarrow> flow_wait D now ex previous s ws = Some (s', t) \<Longrightarrow> flow_ok s'"
  by (induction D now ex previous s ws rule: flow_wait.induct)
    (auto simp: Let_def flow_run_ok split: if_splits)

section \<open>The wait ends\<close>

lemma flow_clear_not_blocked [simp]: "\<not> flow_blocked (flow_clear s)"
  by (simp add: flow_blocked_def flow_clear_def)

lemma flow_wait_not_blocked:
  "flow_wait D now ex previous s ws = Some (s', t) \<Longrightarrow> \<not> flow_blocked s'"
  by (induction D now ex previous s ws rule: flow_wait.induct) (auto simp: Let_def split: if_splits)

lemma wait_time_le: "wait_time r w \<le> r"
  by (auto simp: wait_time_def Let_def min_def split: option.split)

lemma wait_time_pos: "0 < r \<Longrightarrow> fst w \<noteq> Some 0 \<Longrightarrow> 0 < wait_time r w"
  by (auto simp: wait_time_def Let_def FLOW_CONTROL_WAIT_BACKSTOP_def split: option.split)

text \<open>
  The time left, when every further extension of the wait is charged to an acknowledged byte: it
  goes down by at least the time each wait takes.
\<close>

lemma flow_wait_returns:
  "\<forall>w \<in> set ws. fst w \<noteq> Some 0 \<Longrightarrow> (ex - now) + D * previous \<le> length ws \<Longrightarrow>
   \<exists>s' t. flow_wait D now ex previous s ws = Some (s', t) \<and> t \<le> now + (ex - now) + D * previous"
proof (induction D now ex previous s ws rule: flow_wait.induct)
  case (1 D now ex previous s)
  then show ?case by simp
next
  case (2 D now ex previous s w ws)
  show ?case
  proof (cases "\<not> flow_blocked s \<or> ex - now = 0")
    case True
    then show ?thesis by auto
  next
    case False
    define dt where "dt = wait_time (ex - now) w"
    define s1 where "s1 = fold flow_apply (snd w) s"
    have dt: "0 < dt" "dt \<le> ex - now"
      using False "2.prems"(1) wait_time_pos [of "ex - now" w] wait_time_le [of "ex - now" w]
      by (auto simp: dt_def)
    show ?thesis
    proof (cases "fc_unacknowledged s1 < previous")
      case True
      have "D + D * fc_unacknowledged s1 \<le> D * previous"
        using mult_le_mono2 [of "Suc (fc_unacknowledged s1)" previous D] True by simp
      moreover have "D + D * fc_unacknowledged s1 \<le> length ws"
        using calculation dt "2.prems"(2) by simp
      ultimately show ?thesis
        using "2.IH"(1) [of "now + dt" s1] False True "2.prems" dt
        by (fastforce simp: Let_def simp flip: dt_def s1_def)
    next
      case no: False
      have le: "ex - (now + dt) + D * previous \<le> length ws" using dt "2.prems"(2) by simp
      obtain s' t where "flow_wait D (now + dt) ex previous s1 ws = Some (s', t)"
          and t: "t \<le> now + dt + (ex - (now + dt)) + D * previous"
        using "2.IH"(2) [of "now + dt" s1] False no "2.prems"(1) le
        by (auto simp flip: dt_def s1_def)
      then show ?thesis using False no dt by (simp add: Let_def flip: dt_def s1_def)
    qed
  qed
qed

lemma flow_wait_silent:
  "\<forall>w \<in> set ws. snd w = [] \<Longrightarrow> previous \<le> fc_unacknowledged s \<Longrightarrow> now \<le> ex \<Longrightarrow>
   flow_wait D now ex previous s ws = Some (s', t) \<Longrightarrow> t \<le> ex"
proof (induction D now ex previous s ws rule: flow_wait.induct)
  case (1 D now ex previous s)
  then show ?case by (auto split: if_splits)
next
  case (2 D now ex previous s w ws)
  then show ?case
    using wait_time_le [of "ex - now" w] by (auto simp: Let_def split: if_splits)
qed

section \<open>Properties\<close>

text \<open>
  Whatever browsers and output do, a terminal is paused only while at least the low watermark
  of bytes is unacknowledged, is not paused only while at most the high watermark is, and never
  holds a debt or a pause when no browser is attached. The same holds after the parked read loop
  returned, and then the terminal is not blocked.
\<close>

theorem flow_hysteresis:
  "let s = fold flow_apply ops flow_default in
     (if fc_paused s then FLOW_CONTROL_LOW_WATERMARK_BYTES \<le> fc_unacknowledged s
      else fc_unacknowledged s \<le> FLOW_CONTROL_HIGH_WATERMARK_BYTES)
     \<and> (if fc_clients s = 0 then fc_unacknowledged s = 0 \<and> \<not> fc_paused s else True)
     \<and> (case flow_wait_until_resumed D now s ws of
          None \<Rightarrow> flow_blocked s
        | Some (s', t) \<Rightarrow> flow_ok s' \<and> \<not> flow_blocked s')"
proof -
  have ok: "flow_ok (fold flow_apply ops flow_default)" by (simp add: flow_run_ok)
  have none: "flow_wait D now ex previous s ws = None \<Longrightarrow> flow_blocked s" for ex previous s
    by (cases ws) (auto split: if_splits)
  show ?thesis
    using ok none flow_wait_ok [OF ok] flow_wait_not_blocked
    by (fastforce simp: Let_def flow_wait_until_resumed_def flow_ok_def split: option.splits)
qed



end
