(* ===== verification/InputQueue.thy ===== *)
theory InputQueue
  imports Prelude "HOL-Library.Multiset"
begin

text \<open>
  The queue between what is typed into a terminal and the PTY (\<open>src/src/terminal.rs\<close>:
  \<open>TerminalInputState\<close>, \<open>TerminalInputQueue\<close>, \<open>TerminalInputReceiver\<close> and
  \<open>run_terminal_input_writer\<close>). Producers enqueue input, with or without a confirmation, and the
  responses of the canonical terminal; one writer thread takes responses before input, writes each
  message whole, and confirms it. The lock makes every producer call and every step of the
  receiver one step of the relation \<open>iq_step\<close>; what the PTY answers to a write is its choice.

  A confirmation channel is the number of the accepted message it belongs to.
\<close>

section \<open>State\<close>

definition MAX_TERMINAL_INPUT_BYTES :: nat where "MAX_TERMINAL_INPUT_BYTES = 64 * 1024"
definition TERMINAL_INPUT_QUEUE_BYTES :: nat where "TERMINAL_INPUT_QUEUE_BYTES = 1024 * 1024"
definition TERMINAL_INPUT_QUEUE_MESSAGES :: nat where "TERMINAL_INPUT_QUEUE_MESSAGES = 64"
definition TERMINAL_RESPONSE_QUEUE_BYTES :: nat where "TERMINAL_RESPONSE_QUEUE_BYTES = 64 * 1024"
definition TERMINAL_RESPONSE_QUEUE_MESSAGES :: nat where "TERMINAL_RESPONSE_QUEUE_MESSAGES = 256"

lemmas input_limits = MAX_TERMINAL_INPUT_BYTES_def TERMINAL_INPUT_QUEUE_BYTES_def
  TERMINAL_INPUT_QUEUE_MESSAGES_def TERMINAL_RESPONSE_QUEUE_BYTES_def
  TERMINAL_RESPONSE_QUEUE_MESSAGES_def

record input_message =
  im_data :: bytes
  im_delivered :: "nat option"

record input_state =
  is_messages :: "input_message list"
  is_queued_bytes :: nat
  is_responses :: "bytes list"
  is_response_bytes :: nat
  is_closed :: bool
  is_failure :: "ustring option"

definition input_state_default :: input_state where
  "input_state_default =
     \<lparr>is_messages = [], is_queued_bytes = 0, is_responses = [], is_response_bytes = 0,
      is_closed = False, is_failure = None\<rparr>"

datatype input_error = InputTooLarge | InputQueueFull | WriterStopped "ustring option"

section \<open>Operations\<close>

definition check_open :: "input_state \<Rightarrow> input_error option" where
  "check_open s =
     (case is_failure s of
        Some error \<Rightarrow> Some (WriterStopped (Some error))
      | None \<Rightarrow> if is_closed s then Some (WriterStopped None) else None)"

definition enqueue_message ::
    "bytes \<Rightarrow> nat option \<Rightarrow> input_state \<Rightarrow> input_error + input_state" where
  "enqueue_message data delivered s =
     (case check_open s of
        Some e \<Rightarrow> Inl e
      | None \<Rightarrow>
          if TERMINAL_INPUT_QUEUE_MESSAGES \<le> length (is_messages s)
             \<or> TERMINAL_INPUT_QUEUE_BYTES < sat_add (is_queued_bytes s) (length data)
          then Inl InputQueueFull
          else Inr (s\<lparr>is_queued_bytes := is_queued_bytes s + length data,
                     is_messages := is_messages s @ [\<lparr>im_data = data, im_delivered = delivered\<rparr>]\<rparr>))"

definition enqueue :: "bytes \<Rightarrow> nat option \<Rightarrow> input_state \<Rightarrow> input_error + input_state" where
  "enqueue data delivered s =
     (if MAX_TERMINAL_INPUT_BYTES < length data then Inl InputTooLarge
      else enqueue_message data delivered s)"

definition enqueue_unobserved :: "bytes \<Rightarrow> input_state \<Rightarrow> input_error + input_state" where
  "enqueue_unobserved message s =
     (if MAX_TERMINAL_INPUT_BYTES < length message then Inl InputTooLarge
      else case check_open s of
        Some e \<Rightarrow> Inl e
      | None \<Rightarrow>
          if TERMINAL_RESPONSE_QUEUE_MESSAGES \<le> length (is_responses s)
             \<or> TERMINAL_RESPONSE_QUEUE_BYTES < sat_add (is_response_bytes s) (length message)
          then Inl InputQueueFull
          else Inr (s\<lparr>is_response_bytes := is_response_bytes s + length message,
                     is_responses := is_responses s @ [message]\<rparr>))"

definition input_close :: "input_state \<Rightarrow> input_state" where
  "input_close s = s\<lparr>is_closed := True\<rparr>"

text \<open>One turn of the receiver's loop: a message, the end of the queue, or a wait.\<close>

datatype received = Message input_message bool | Finished | Waits

definition receive :: "input_state \<Rightarrow> received \<times> input_state" where
  "receive s =
     (case is_responses s of
        data # responses \<Rightarrow>
          (Message \<lparr>im_data = data, im_delivered = None\<rparr> False,
           s\<lparr>is_responses := responses, is_response_bytes := is_response_bytes s - length data\<rparr>)
      | [] \<Rightarrow>
          (case is_messages s of
             m # messages \<Rightarrow>
               (Message m True,
                s\<lparr>is_messages := messages,
                  is_queued_bytes := is_queued_bytes s - length (im_data m)\<rparr>)
           | [] \<Rightarrow> if is_closed s \<or> is_failure s \<noteq> None then (Finished, s) else (Waits, s)))"

text \<open>The confirmation channels the failure answers, and the state it leaves.\<close>

definition input_fail :: "ustring \<Rightarrow> input_state \<Rightarrow> nat list \<times> input_state" where
  "input_fail error s =
     (List.map_filter im_delivered (is_messages s),
      s\<lparr>is_messages := [], is_queued_bytes := 0, is_responses := [], is_response_bytes := 0,
        is_failure := Some error\<rparr>)"

section \<open>The writer and its producers\<close>

text \<open>
  \<open>q_written\<close> lists the input messages written whole, \<open>q_output\<close> everything written,
  \<open>q_accepted\<close> the input the queue accepted, \<open>q_confirmed\<close> the channels answered, with the answer.
  The flag of \<open>Writing\<close> tells input from a response.
\<close>

datatype writer = Receiving | Writing input_message bool | Stopped bool

record input_system =
  q_state :: input_state
  q_writer :: writer
  q_accepted :: "input_message list"
  q_written :: "input_message list"
  q_output :: bytes
  q_confirmed :: "(nat \<times> bool) list"

definition input_system_new :: input_system where
  "input_system_new =
     \<lparr>q_state = input_state_default, q_writer = Receiving, q_accepted = [], q_written = [],
      q_output = [], q_confirmed = []\<rparr>"

definition confirm :: "input_message \<Rightarrow> bool \<Rightarrow> (nat \<times> bool) list" where
  "confirm m ok = (case im_delivered m of None \<Rightarrow> [] | Some n \<Rightarrow> [(n, ok)])"

inductive iq_step :: "input_system \<Rightarrow> input_system \<Rightarrow> bool" where
  enqueue: "enqueue data (if confirmed then Some (length (q_accepted q)) else None) (q_state q)
        = Inr s \<Longrightarrow>
      m = \<lparr>im_data = data,
           im_delivered = if confirmed then Some (length (q_accepted q)) else None\<rparr> \<Longrightarrow>
      iq_step q (q\<lparr>q_state := s, q_accepted := q_accepted q @ [m]\<rparr>)"
| response: "enqueue_unobserved message (q_state q) = Inr s \<Longrightarrow> iq_step q (q\<lparr>q_state := s\<rparr>)"
| close: "iq_step q (q\<lparr>q_state := input_close (q_state q)\<rparr>)"
| receive: "q_writer q = Receiving \<Longrightarrow> receive (q_state q) = (Message m is_input, s) \<Longrightarrow>
      iq_step q (q\<lparr>q_state := s, q_writer := Writing m is_input\<rparr>)"
| finish: "q_writer q = Receiving \<Longrightarrow> receive (q_state q) = (Finished, s) \<Longrightarrow>
      iq_step q (q\<lparr>q_state := s, q_writer := Stopped True\<rparr>)"
| written: "q_writer q = Writing m is_input \<Longrightarrow>
      iq_step q (q\<lparr>q_writer := Receiving, q_output := q_output q @ im_data m,
        q_written := q_written q @ (if is_input then [m] else []),
        q_confirmed := q_confirmed q @ confirm m True\<rparr>)"
| failed: "q_writer q = Writing m is_input \<Longrightarrow> input_fail error (q_state q) = (channels, s) \<Longrightarrow>
      iq_step q (q\<lparr>q_state := s, q_writer := Stopped False,
        q_confirmed := q_confirmed q @ map (\<lambda>n. (n, False)) channels @ confirm m False\<rparr>)"

inductive_cases iq_stepE: "iq_step q q'"

inductive iq_reach :: "input_system \<Rightarrow> bool" where
  start: "iq_reach input_system_new"
| step: "iq_reach q \<Longrightarrow> iq_step q q' \<Longrightarrow> iq_reach q'"

section \<open>Invariants\<close>

definition data_bytes :: "bytes list \<Rightarrow> nat" where
  "data_bytes ds = sum_list (map length ds)"

lemma data_bytes_simps [simp]:
  "data_bytes [] = 0" "data_bytes (d # ds) = length d + data_bytes ds"
  "data_bytes (ds @ es) = data_bytes ds + data_bytes es"
  by (simp_all add: data_bytes_def)

definition input_ok :: "input_state \<Rightarrow> bool" where
  "input_ok s \<longleftrightarrow>
     is_queued_bytes s = data_bytes (map im_data (is_messages s))
     \<and> is_queued_bytes s \<le> TERMINAL_INPUT_QUEUE_BYTES
     \<and> length (is_messages s) \<le> TERMINAL_INPUT_QUEUE_MESSAGES
     \<and> is_response_bytes s = data_bytes (is_responses s)
     \<and> is_response_bytes s \<le> TERMINAL_RESPONSE_QUEUE_BYTES
     \<and> length (is_responses s) \<le> TERMINAL_RESPONSE_QUEUE_MESSAGES"

definition in_flight :: "writer \<Rightarrow> input_message list" where
  "in_flight w = (case w of Writing m is_input \<Rightarrow> if is_input then [m] else [] | _ \<Rightarrow> [])"

text \<open>The \<open>n\<close>-th accepted message is the one channel \<open>n\<close> confirms.\<close>

definition channels_ok :: "input_message list \<Rightarrow> bool" where
  "channels_ok ms \<longleftrightarrow>
     (\<forall>i < length ms. im_delivered (ms ! i) = None \<or> im_delivered (ms ! i) = Some i)"

abbreviation channels :: "input_message list \<Rightarrow> nat list" where
  "channels ms \<equiv> List.map_filter im_delivered ms"

definition system_ok :: "input_system \<Rightarrow> bool" where
  "system_ok q \<longleftrightarrow>
     input_ok (q_state q) \<and> channels_ok (q_accepted q)
     \<and> (case q_writer q of
          Stopped ok \<Rightarrow> is_messages (q_state q) = [] \<and> is_responses (q_state q) = []
            \<and> (is_closed (q_state q) \<or> is_failure (q_state q) \<noteq> None) \<and> (\<not> ok \<longrightarrow> is_failure (q_state q) \<noteq> None)
        | Writing m False \<Rightarrow> im_delivered m = None
        | _ \<Rightarrow> True)
     \<and> (is_failure (q_state q) \<noteq> None \<longrightarrow> q_writer q = Stopped False)
     \<and> (if is_failure (q_state q) = None
        then q_accepted q = q_written q @ in_flight (q_writer q) @ is_messages (q_state q)
          \<and> q_confirmed q = map (\<lambda>n. (n, True)) (channels (q_written q))
        else \<exists>rest. q_accepted q = q_written q @ rest
          \<and> mset (q_confirmed q) = mset (map (\<lambda>n. (n, True)) (channels (q_written q))
                                        @ map (\<lambda>n. (n, False)) (channels rest)))"

lemma channels_append [simp]:
  "channels (a @ b) = channels a @ channels b"
  "channels [m] = (case im_delivered m of None \<Rightarrow> [] | Some n \<Rightarrow> [n])"
  by (simp_all add: List.map_filter_def split: option.split)

lemma channels_Cons:
  "channels (m # ms) = (case im_delivered m of None \<Rightarrow> [] | Some n \<Rightarrow> [n]) @ channels ms"
  by (simp add: List.map_filter_def split: option.split)

lemma channels_Nil [simp]: "channels [] = []"
  by (simp add: List.map_filter_def)

lemma confirm_channels: "confirm m b = map (\<lambda>n. (n, b)) (channels [m])"
  by (simp add: confirm_def split: option.split)

lemma channels_ok_snoc:
  "channels_ok ms \<Longrightarrow> im_delivered m \<in> {None, Some (length ms)} \<Longrightarrow> channels_ok (ms @ [m])"
  by (auto simp: channels_ok_def nth_append less_Suc_eq)

text \<open>The channels of the accepted input are distinct.\<close>

lemma channels_ok_prefix: "channels_ok (ms @ ns) \<Longrightarrow> channels_ok ms"
  unfolding channels_ok_def
proof (intro allI impI)
  fix i assume "\<forall>i < length (ms @ ns). im_delivered ((ms @ ns) ! i) = None
      \<or> im_delivered ((ms @ ns) ! i) = Some i" and i: "i < length ms"
  then have "im_delivered ((ms @ ns) ! i) = None \<or> im_delivered ((ms @ ns) ! i) = Some i"
    by simp
  then show "im_delivered (ms ! i) = None \<or> im_delivered (ms ! i) = Some i"
    using i by (simp add: nth_append)
qed

lemma in_channels: "n \<in> set (channels ms) \<longleftrightarrow> (\<exists>i < length ms. im_delivered (ms ! i) = Some n)"
proof -
  have "set (channels ms) = {n. \<exists>m \<in> set ms. im_delivered m = Some n}"
    by (force simp: List.map_filter_def)
  then show ?thesis by (auto simp: set_conv_nth)
qed

lemma channels_iff:
  "channels_ok ms \<Longrightarrow>
   n \<in> set (channels ms) \<longleftrightarrow> n < length ms \<and> im_delivered (ms ! n) = Some n"
  unfolding in_channels channels_ok_def by (metis option.distinct(1) option.inject)

lemma channels_distinct: "channels_ok ms \<Longrightarrow> distinct (channels ms)"
proof (induction ms rule: rev_induct)
  case (snoc m ms)
  note ok = channels_ok_prefix [OF snoc.prems]
  have m: "im_delivered m = None \<or> im_delivered m = Some (length ms)"
    using snoc.prems by (auto simp: channels_ok_def dest: spec [of _ "length ms"])
  have "length ms \<notin> set (channels ms)" using channels_iff [OF ok] by blast
  then show ?case using m snoc.IH [OF ok] by (auto split: option.split)
qed simp

subsection \<open>The queue\<close>

lemma check_open_None: "check_open s = None \<longleftrightarrow> is_failure s = None \<and> \<not> is_closed s"
  by (simp add: check_open_def split: option.split)

lemma enqueue_InrD:
  assumes "enqueue data d s = Inr s'"
  shows "is_failure s = None" "\<not> is_closed s" "length data \<le> MAX_TERMINAL_INPUT_BYTES"
    "length (is_messages s) < TERMINAL_INPUT_QUEUE_MESSAGES"
    "sat_add (is_queued_bytes s) (length data) \<le> TERMINAL_INPUT_QUEUE_BYTES"
    "s' = s\<lparr>is_queued_bytes := is_queued_bytes s + length data,
       is_messages := is_messages s @ [\<lparr>im_data = data, im_delivered = d\<rparr>]\<rparr>"
  using assms
  by (auto simp: enqueue_def enqueue_message_def check_open_None split: if_splits option.splits)

lemma enqueue_unobserved_InrD:
  assumes "enqueue_unobserved m s = Inr s'"
  shows "is_failure s = None" "\<not> is_closed s"
    "length (is_responses s) < TERMINAL_RESPONSE_QUEUE_MESSAGES"
    "sat_add (is_response_bytes s) (length m) \<le> TERMINAL_RESPONSE_QUEUE_BYTES"
    "s' = s\<lparr>is_response_bytes := is_response_bytes s + length m,
       is_responses := is_responses s @ [m]\<rparr>"
  using assms
  by (auto simp: enqueue_unobserved_def check_open_None split: if_splits option.splits)

lemma enqueue_ok:
  assumes "input_ok s" and "enqueue data d s = Inr s'"
  shows "input_ok s'"
proof -
  note d = enqueue_InrD [OF assms(2)]
  have "is_queued_bytes s + length data \<le> TERMINAL_INPUT_QUEUE_BYTES"
    by (rule sat_add_limit [OF d(5)]) (simp add: input_limits u64_max_def)
  then show ?thesis using assms(1) d(4,6) by (auto simp: input_ok_def)
qed

lemma enqueue_unobserved_ok:
  assumes "input_ok s" and "enqueue_unobserved m s = Inr s'"
  shows "input_ok s'"
proof -
  note d = enqueue_unobserved_InrD [OF assms(2)]
  have "is_response_bytes s + length m \<le> TERMINAL_RESPONSE_QUEUE_BYTES"
    by (rule sat_add_limit [OF d(4)]) (simp add: input_limits u64_max_def)
  then show ?thesis using assms(1) d(3,5) by (auto simp: input_ok_def)
qed

lemma receive_cases:
  assumes "receive s = (r, s')"
  obtains data responses where "is_responses s = data # responses"
      "r = Message \<lparr>im_data = data, im_delivered = None\<rparr> False"
      "s' = s\<lparr>is_responses := responses, is_response_bytes := is_response_bytes s - length data\<rparr>"
  | m messages where "is_responses s = []" "is_messages s = m # messages" "r = Message m True"
      "s' = s\<lparr>is_messages := messages,
         is_queued_bytes := is_queued_bytes s - length (im_data m)\<rparr>"
  | "is_responses s = []" "is_messages s = []" "is_closed s \<or> is_failure s \<noteq> None"
      "r = Finished" "s' = s"
  | "is_responses s = []" "is_messages s = []" "\<not> is_closed s" "is_failure s = None"
      "r = Waits" "s' = s"
proof (cases "is_responses s")
  case rs: Nil
  show ?thesis
  proof (cases "is_messages s")
    case ms: Nil
    show ?thesis
    proof (cases "is_closed s \<or> is_failure s \<noteq> None")
      case True
      show ?thesis by (rule that(3)) (use assms rs ms True in \<open>auto simp: receive_def\<close>)
    next
      case False
      show ?thesis by (rule that(4)) (use assms rs ms False in \<open>auto simp: receive_def\<close>)
    qed
  next
    case (Cons m messages)
    show ?thesis by (rule that(2)) (use assms rs Cons in \<open>auto simp: receive_def\<close>)
  qed
next
  case (Cons data responses)
  show ?thesis by (rule that(1)) (use assms Cons in \<open>auto simp: receive_def\<close>)
qed

lemma receive_ok: "input_ok s \<Longrightarrow> receive s = (r, s') \<Longrightarrow> input_ok s'"
  by (erule receive_cases) (auto simp: input_ok_def)

lemma input_fail_ok: "input_ok (snd (input_fail e s))"
  by (simp add: input_fail_def input_ok_def)

subsection \<open>The system\<close>

lemma start_ok: "system_ok input_system_new"
  by (simp add: system_ok_def input_system_new_def input_state_default_def input_ok_def
      in_flight_def channels_ok_def)

lemma step_ok:
  assumes "system_ok q" and "iq_step q q'"
  shows "system_ok q'"
  using assms(2)
proof (cases rule: iq_step.cases)
  case (enqueue data confirmed s m)
  note d = enqueue_InrD [OF enqueue(2)]
  have "input_ok s" using assms(1) enqueue_ok [OF _ enqueue(2)] by (simp add: system_ok_def)
  moreover have "channels_ok (q_accepted q @ [m])"
    using assms(1) enqueue(3) by (intro channels_ok_snoc) (auto simp: system_ok_def)
  moreover have "case q_writer q of Stopped ok \<Rightarrow> False | _ \<Rightarrow> True"
    using assms(1) d(1,2) by (auto simp: system_ok_def split: writer.splits)
  ultimately show ?thesis
    using assms(1) d(1,6) enqueue(1,3)
    by (auto simp: system_ok_def split: writer.splits)
next
  case (response message s)
  note d = enqueue_unobserved_InrD [OF response(2)]
  have "input_ok s"
    using assms(1) enqueue_unobserved_ok [OF _ response(2)] by (simp add: system_ok_def)
  moreover have "case q_writer q of Stopped ok \<Rightarrow> False | _ \<Rightarrow> True"
    using assms(1) d(1,2) by (auto simp: system_ok_def split: writer.splits)
  ultimately show ?thesis
    using assms(1) d(1,5) response(1) by (auto simp: system_ok_def split: writer.splits)
next
  case close
  then show ?thesis using assms(1)
    by (auto simp: system_ok_def input_close_def input_ok_def split: writer.splits)
next
  case (receive m is_input s)
  have "input_ok s" using assms(1) receive_ok [OF _ receive(3)] by (simp add: system_ok_def)
  with receive(3) show ?thesis
    using assms(1) receive(1,2)
    by (elim receive_cases) (auto simp: system_ok_def in_flight_def split: if_splits)
next
  case (finish s)
  with assms(1) show ?thesis
    by (elim receive_cases) (auto simp: system_ok_def in_flight_def)
next
  case (written m is_input)
  then show ?thesis using assms(1)
    by (cases is_input) (auto simp: system_ok_def in_flight_def confirm_channels confirm_def
        split: if_splits option.split)
next
  case (failed m is_input error channels' s)
  have s: "channels' = channels (is_messages (q_state q))" "s = snd (input_fail error (q_state q))"
    using failed(3) by (auto simp: input_fail_def)
  have nf: "is_failure (q_state q) = None" using assms(1) failed(2) by (auto simp: system_ok_def)
  have acc: "q_accepted q = q_written q @ in_flight (q_writer q) @ is_messages (q_state q)"
    "q_confirmed q = map (\<lambda>n. (n, True)) (channels (q_written q))"
    using assms(1) nf by (simp_all add: system_ok_def)
  have m: "\<not> is_input \<Longrightarrow> confirm m False = []"
    using assms(1) failed(2) by (cases is_input) (auto simp: system_ok_def confirm_def)
  have "\<exists>rest. q_accepted q' = q_written q' @ rest
      \<and> mset (q_confirmed q') = mset (map (\<lambda>n. (n, True)) (channels (q_written q'))
          @ map (\<lambda>n. (n, False)) (channels rest))"
    using acc m failed(1,2) s(1)
    by (intro exI [of _ "in_flight (q_writer q) @ is_messages (q_state q)"])
      (cases is_input; simp add: in_flight_def confirm_channels split: option.split)
  moreover have "is_failure s \<noteq> None" "is_messages s = []" "is_responses s = []"
    by (simp_all add: s input_fail_def)
  ultimately show ?thesis
    using assms(1) failed(1) input_fail_ok [of error "q_state q"]
    by (auto simp: system_ok_def s(2))
qed

lemma iq_reach_ok: "iq_reach q \<Longrightarrow> system_ok q"
  by (induction rule: iq_reach.induct) (simp_all add: start_ok step_ok)

section \<open>The writer's loop\<close>

text \<open>
  \<open>run_terminal_input_writer\<close> while no producer interferes, with the PTY's answer to a write as a
  function: no error, or the error's text. When the queue is empty and still open the loop waits:
  the writer is left \<open>Receiving\<close>.
\<close>

definition queue_size :: "input_state \<Rightarrow> nat" where
  "queue_size s = length (is_responses s) + length (is_messages s)"

lemma receive_size: "receive s = (Message m b, s') \<Longrightarrow> queue_size s' < queue_size s"
  by (erule receive_cases) (auto simp: queue_size_def)

function run_terminal_input_writer ::
    "(bytes \<Rightarrow> ustring option) \<Rightarrow> input_system \<Rightarrow> input_system" where
  "run_terminal_input_writer pty q =
     (case receive (q_state q) of
        (Message m is_input, s) \<Rightarrow>
          (case pty (im_data m) of
             None \<Rightarrow> run_terminal_input_writer pty
               (q\<lparr>q_state := s, q_writer := Receiving, q_output := q_output q @ im_data m,
                 q_written := q_written q @ (if is_input then [m] else []),
                 q_confirmed := q_confirmed q @ confirm m True\<rparr>)
           | Some error \<Rightarrow>
               (let (channels, s') = input_fail error s
                in q\<lparr>q_state := s', q_writer := Stopped False,
                    q_confirmed := q_confirmed q @ map (\<lambda>n. (n, False)) channels @ confirm m False\<rparr>))
      | (Finished, s) \<Rightarrow> q\<lparr>q_state := s, q_writer := Stopped True\<rparr>
      | (Waits, s) \<Rightarrow> q\<lparr>q_state := s\<rparr>)"
  by pat_completeness auto

termination
  by (relation "measure (\<lambda>(pty, q). queue_size (q_state q))")
    (auto dest: receive_size [OF sym])

declare run_terminal_input_writer.simps [simp del]

lemma iq_reach_write:
  assumes "iq_reach q" "q_writer q = Receiving" "receive (q_state q) = (Message m i, s)"
  shows "iq_reach (q\<lparr>q_state := s, q_writer := Receiving, q_output := q_output q @ im_data m,
      q_written := q_written q @ (if i then [m] else []),
      q_confirmed := q_confirmed q @ confirm m True\<rparr>)"
proof -
  have r: "iq_reach (q\<lparr>q_state := s, q_writer := Writing m i\<rparr>)"
    by (rule iq_reach.step [OF assms(1) iq_step.receive [OF assms(2,3)]])
  show ?thesis
    using iq_reach.step [OF r iq_step.written [where m = m and is_input = i]] by simp
qed

lemma iq_reach_fail:
  assumes "iq_reach q" "q_writer q = Receiving" "receive (q_state q) = (Message m i, s)"
    and "input_fail error s = (cs, s')"
  shows "iq_reach (q\<lparr>q_state := s', q_writer := Stopped False,
      q_confirmed := q_confirmed q @ map (\<lambda>n. (n, False)) cs @ confirm m False\<rparr>)"
proof -
  have r: "iq_reach (q\<lparr>q_state := s, q_writer := Writing m i\<rparr>)"
    by (rule iq_reach.step [OF assms(1) iq_step.receive [OF assms(2,3)]])
  show ?thesis
    using iq_reach.step [OF r iq_step.failed [where m = m and is_input = i and error = error]]
      assms(4) by simp
qed

text \<open>The loop is a run of the relation, and it stops once the queue is closed.\<close>

lemma receive_open:
  "receive s = (r, s') \<Longrightarrow> is_closed s' = is_closed s \<and> (r = Waits \<longrightarrow> \<not> is_closed s)"
  by (erule receive_cases) auto

lemma writer_loop:
  "iq_reach q \<Longrightarrow> q_writer q = Receiving \<Longrightarrow>
   iq_reach (run_terminal_input_writer pty q)
   \<and> (is_closed (q_state q) \<longrightarrow>
        (\<exists>ok. q_writer (run_terminal_input_writer pty q) = Stopped ok))
   \<and> q_accepted (run_terminal_input_writer pty q) = q_accepted q"
proof (induction pty q rule: run_terminal_input_writer.induct)
  case (1 pty q)
  obtain r s where rs: "receive (q_state q) = (r, s)" by (cases "receive (q_state q)")
  note op = receive_open [OF rs]
  show ?case
  proof (cases r)
    case (Message m i)
    note rm = rs [unfolded Message]
    show ?thesis
    proof (cases "pty (im_data m)")
      case None
      show ?thesis
        using "1.IH" [OF rm [symmetric] refl None iq_reach_write [OF "1.prems" rm]] op rm None
        by (simp add: run_terminal_input_writer.simps [of pty q])
    next
      case (Some error)
      obtain cs s' where f: "input_fail error s = (cs, s')" by (cases "input_fail error s")
      show ?thesis
        using iq_reach_fail [OF "1.prems" rm f] rm Some f
        by (auto simp add: run_terminal_input_writer.simps [of pty q])
    qed
  next
    case Finished
    then show ?thesis
      using iq_reach.step [OF "1.prems"(1) iq_step.finish [OF "1.prems"(2)]] rs
      by (auto simp add: run_terminal_input_writer.simps [of pty q])
  next
    case Waits
    moreover have "s = q_state q" using rs Waits by (elim receive_cases) auto
    ultimately show ?thesis using op rs "1.prems"
      by (simp add: run_terminal_input_writer.simps [of pty q])
  qed
qed

lemma writer_output:
  "q_output (run_terminal_input_writer (\<lambda>_. None) q)
     = q_output q @ concat (is_responses (q_state q)) @ concat (map im_data (is_messages (q_state q)))"
proof (induction "\<lambda>_ :: bytes. None :: ustring option" q rule: run_terminal_input_writer.induct)
  case (1 q)
  obtain r s where rs: "receive (q_state q) = (r, s)" by (cases "receive (q_state q)")
  show ?case
  proof (cases r)
    case (Message m i)
    note rm = rs [unfolded Message]
    have "concat (is_responses (q_state q)) @ concat (map im_data (is_messages (q_state q)))
        = im_data m @ concat (is_responses s) @ concat (map im_data (is_messages s))"
      using rm by (elim receive_cases) auto
    then show ?thesis
      using 1 [OF rm [symmetric] refl refl] rm
      by (simp add: run_terminal_input_writer.simps [of _ q])
  qed (use rs in \<open>elim receive_cases, auto simp add: run_terminal_input_writer.simps [of _ q]\<close>)+
qed

section \<open>Properties\<close>

lemma system_accepted:
  "system_ok q \<Longrightarrow> \<exists>rest. q_accepted q = q_written q @ rest"
  by (cases "is_failure (q_state q)") (auto simp: system_ok_def)

lemma system_confirmed_sub:
  assumes "system_ok q"
  shows "\<exists>failed rest. q_accepted q = q_written q @ rest
    \<and> (failed = [] \<or> failed = channels rest)
    \<and> (\<forall>ok. q_writer q = Stopped ok \<longrightarrow> failed = channels rest)
    \<and> mset (q_confirmed q) = mset (map (\<lambda>n. (n, True)) (channels (q_written q))
        @ map (\<lambda>n. (n, False)) failed)"
proof (cases "is_failure (q_state q) = None")
  case True
  let ?rest = "in_flight (q_writer q) @ is_messages (q_state q)"
  have "\<forall>ok. q_writer q = Stopped ok \<longrightarrow> ?rest = []"
    using assms by (auto simp: system_ok_def in_flight_def)
  then show ?thesis
    using True assms
    by (intro exI [of _ "[]"] exI [of _ ?rest]) (auto simp: system_ok_def)
next
  case False
  then obtain rest where "q_accepted q = q_written q @ rest"
      "mset (q_confirmed q) = mset (map (\<lambda>n. (n, True)) (channels (q_written q))
          @ map (\<lambda>n. (n, False)) (channels rest))"
    using assms by (auto simp: system_ok_def)
  then show ?thesis by (intro exI [of _ "channels rest"] exI [of _ rest]) simp
qed

lemma confirmed_once:
  assumes ok: "system_ok q"
  shows "q_written q = take (length (q_written q)) (q_accepted q)
    \<and> distinct (map fst (q_confirmed q))
    \<and> (\<forall>n. (n, True) \<in> set (q_confirmed q) \<longleftrightarrow>
         n < length (q_written q) \<and> im_delivered (q_written q ! n) = Some n)
    \<and> (\<forall>ok n. q_writer q = Stopped ok \<and> n < length (q_accepted q)
         \<and> im_delivered (q_accepted q ! n) = Some n \<longrightarrow>
           (n, n < length (q_written q)) \<in> set (q_confirmed q))"
proof -
  from ok have ch: "channels_ok (q_accepted q)" by (simp add: system_ok_def)
  obtain failed rest where acc: "q_accepted q = q_written q @ rest"
      and sub: "failed = [] \<or> failed = channels rest"
      and stop: "\<forall>ok. q_writer q = Stopped ok \<longrightarrow> failed = channels rest"
      and conf: "mset (q_confirmed q) = mset (map (\<lambda>n. (n, True)) (channels (q_written q))
        @ map (\<lambda>n. (n, False)) failed)"
    using system_confirmed_sub [OF ok] by blast
  have dist: "distinct (channels (q_written q) @ channels rest)"
    using channels_distinct [OF ch] by (simp add: acc)
  have sets: "set (q_confirmed q) = (\<lambda>n. (n, True)) ` set (channels (q_written q))
      \<union> (\<lambda>n. (n, False)) ` set failed"
    using mset_eq_setD [OF conf] by simp
  have "mset (map fst (q_confirmed q)) = image_mset fst (mset (q_confirmed q))" by simp
  also have "\<dots> = mset (channels (q_written q) @ failed)"
    by (simp add: conf image_mset.compositionality comp_def)
  finally have fst: "mset (map fst (q_confirmed q)) = mset (channels (q_written q) @ failed)" .
  have "distinct (channels (q_written q) @ failed)"
    using dist sub by auto
  then have d: "distinct (map fst (q_confirmed q))"
    using mset_eq_imp_distinct_iff [OF fst] by simp
  have chw: "channels_ok (q_written q)"
    using ch unfolding acc by (rule channels_ok_prefix)
  have t: "(n, True) \<in> set (q_confirmed q) \<longleftrightarrow>
      n < length (q_written q) \<and> im_delivered (q_written q ! n) = Some n" for n
    using sets channels_iff [OF chw, of n] by auto
  have all: "(n, n < length (q_written q)) \<in> set (q_confirmed q)"
    if "q_writer q = Stopped b" "n < length (q_accepted q)" "im_delivered (q_accepted q ! n) = Some n"
    for b n
  proof (cases "n < length (q_written q)")
    case True
    then show ?thesis using t [of n] that(3) by (simp add: acc nth_append)
  next
    case False
    have "n \<in> set (channels (q_accepted q))" using channels_iff [OF ch] that(2,3) by simp
    moreover have "n \<notin> set (channels (q_written q))" using channels_iff [OF chw] False by simp
    ultimately have "n \<in> set failed" using stop that(1) by (auto simp: acc)
    then show ?thesis using sets False by simp
  qed
  have "q_written q = take (length (q_written q)) (q_accepted q)" by (simp add: acc)
  with d t all show ?thesis by blast
qed

text \<open>
  C17. Input reaches the PTY in the order it was accepted, and every confirmation channel is
  answered at most once: with success exactly when its message was written whole. When the writer
  has stopped, whether the queue was closed or a write failed, every channel of an accepted message
  has been answered, with success exactly for the messages that were written.
\<close>

theorem input_confirmed_once:
  assumes "iq_reach q"
  shows "q_written q = take (length (q_written q)) (q_accepted q)
    \<and> distinct (map fst (q_confirmed q))
    \<and> (\<forall>n. (n, True) \<in> set (q_confirmed q) \<longleftrightarrow>
         n < length (q_written q) \<and> im_delivered (q_written q ! n) = Some n)
    \<and> (\<forall>ok n. q_writer q = Stopped ok \<and> n < length (q_accepted q)
         \<and> im_delivered (q_accepted q ! n) = Some n \<longrightarrow>
           (n, n < length (q_written q)) \<in> set (q_confirmed q))"
  by (rule confirmed_once [OF iq_reach_ok [OF assms]])

definition one_line :: input_system where
  "one_line = input_system_new\<lparr>q_state := input_close (input_state_default\<lparr>is_queued_bytes := 2,
       is_messages := [\<lparr>im_data = ''ls'', im_delivered = Some 0\<rparr>]\<rparr>),
     q_accepted := [\<lparr>im_data = ''ls'', im_delivered = Some 0\<rparr>]\<rparr>"

lemma one_line_reach: "iq_reach one_line"
proof -
  let ?q = "input_system_new\<lparr>q_state := input_state_default\<lparr>is_queued_bytes := 2,
       is_messages := [\<lparr>im_data = ''ls'', im_delivered = Some 0\<rparr>]\<rparr>,
     q_accepted := [\<lparr>im_data = ''ls'', im_delivered = Some 0\<rparr>]\<rparr>"
  have "enqueue ''ls'' (Some 0) input_state_default
      = Inr (input_state_default\<lparr>is_queued_bytes := 2,
               is_messages := [\<lparr>im_data = ''ls'', im_delivered = Some 0\<rparr>]\<rparr>)"
    by (simp add: enqueue_def enqueue_message_def check_open_def input_state_default_def
        input_limits sat_add_def u64_max_def)
  then have "iq_step input_system_new ?q"
    using iq_step.enqueue [of "''ls''" True input_system_new]
    by (simp add: input_system_new_def)
  from iq_reach.step [OF iq_reach.step [OF iq_reach.start this] iq_step.close]
  show ?thesis by (simp add: one_line_def input_system_new_def)
qed

lemma one_line_run:
  "iq_reach (run_terminal_input_writer (\<lambda>_. None) one_line)"
  "run_terminal_input_writer (\<lambda>_. None) one_line
     = one_line\<lparr>q_state := input_close input_state_default, q_writer := Stopped True,
         q_written := q_accepted one_line, q_output := ''ls'', q_confirmed := [(0, True)]\<rparr>"
  using writer_loop [OF one_line_reach, of "\<lambda>_. None"]
  by (simp_all add: one_line_def input_system_new_def input_state_default_def input_close_def
      run_terminal_input_writer.simps receive_def confirm_def)

lemma input_confirmed_once_witness:
  "(0, True) \<in> set (q_confirmed (run_terminal_input_writer (\<lambda>_. None) one_line))"
  using input_confirmed_once [OF one_line_run(1)]
  by (simp add: one_line_run(2))

text \<open>
  The input queue stays within its budgets: at most 1 MiB in 64 input messages and 64 KiB in
  256 responses, and the byte counts it keeps are those of the messages it holds. Refusals are
  exact: input is accepted unless it is larger than 64 KiB, the queue is closed or failed, or the
  message would exceed the budget; a refusal changes nothing.
\<close>

theorem input_queue_bounds:
  assumes "iq_reach q"
  shows "let s = q_state q in
      is_queued_bytes s = data_bytes (map im_data (is_messages s))
      \<and> is_queued_bytes s \<le> 1048576 \<and> length (is_messages s) \<le> 64
      \<and> is_response_bytes s = data_bytes (is_responses s)
      \<and> is_response_bytes s \<le> 65536 \<and> length (is_responses s) \<le> 256
      \<and> (case enqueue data d s of
           Inl e \<Rightarrow> 65536 < length data \<or> is_closed s \<or> is_failure s \<noteq> None
             \<or> length (is_messages s) = 64 \<or> 1048576 < is_queued_bytes s + length data
         | Inr s' \<Rightarrow> input_ok s' \<and> is_messages s' = is_messages s @ [\<lparr>im_data = data, im_delivered = d\<rparr>])"
proof -
  have ok: "input_ok (q_state q)" using iq_reach_ok [OF assms] by (simp add: system_ok_def)
  have e: "case enqueue data d (q_state q) of
           Inl e \<Rightarrow> 65536 < length data \<or> is_closed (q_state q) \<or> is_failure (q_state q) \<noteq> None
             \<or> length (is_messages (q_state q)) = 64
             \<or> 1048576 < is_queued_bytes (q_state q) + length data
         | Inr s' \<Rightarrow> input_ok s'
             \<and> is_messages s' = is_messages (q_state q) @ [\<lparr>im_data = data, im_delivered = d\<rparr>]"
  proof (cases "enqueue data d (q_state q)")
    case (Inl e)
    have "check_open (q_state q) = None \<longleftrightarrow> is_failure (q_state q) = None \<and> \<not> is_closed (q_state q)"
      by (rule check_open_None)
    moreover have "l < sat_add a b \<Longrightarrow> l < a + b" for l a b by (simp add: sat_add_def)
    ultimately show ?thesis
      using Inl ok unfolding enqueue_def enqueue_message_def input_limits input_ok_def
      by (fastforce split: option.splits if_splits)
  next
    case (Inr s')
    then show ?thesis using enqueue_ok [OF ok Inr] enqueue_InrD(6) [OF Inr] by simp
  qed
  then show ?thesis using ok by (simp add: Let_def input_ok_def input_limits)
qed

lemma input_queue_bounds_witness:
  "is_queued_bytes (q_state one_line) = data_bytes (map im_data (is_messages (q_state one_line)))
   \<and> is_queued_bytes (q_state one_line) \<le> 1048576"
  using input_queue_bounds [OF one_line_reach, where data = "[]" and d = None] by (simp add: Let_def)

text \<open>
  C39. Once the queue is closed the writer stops: its loop returns for every answer the PTY gives,
  as a run of the step relation, and if no write fails everything that was queued has been
  written, the responses first and then the input, in order.
\<close>

theorem writer_drains:
  assumes "iq_reach q" and "q_writer q = Receiving" and "is_closed (q_state q)"
  shows "iq_reach (run_terminal_input_writer pty q)
    \<and> (\<exists>ok. q_writer (run_terminal_input_writer pty q) = Stopped ok)
    \<and> q_output (run_terminal_input_writer (\<lambda>_. None) q)
        = q_output q @ concat (is_responses (q_state q))
            @ concat (map im_data (is_messages (q_state q)))"
  using writer_loop [OF assms(1,2)] assms(3) writer_output by simp

lemma writer_drains_witness:
  "(\<exists>ok. q_writer (run_terminal_input_writer (\<lambda>_. Some []) one_line) = Stopped ok)
   \<and> q_output (run_terminal_input_writer (\<lambda>_. None) one_line) = ''ls''"
  using writer_drains [OF one_line_reach, of "\<lambda>_. Some []"]
  by (simp add: one_line_run(2)) (simp add: one_line_def input_system_new_def input_close_def)

end
