(* ===== verification/PromptCapture.thy ===== *)
theory PromptCapture
  imports TextClean
begin

text \<open>
  The prompt a person types into a terminal, reconstructed from the input bytes
  (\<open>src/src/terminal.rs\<close>: \<open>PromptCapture\<close>, \<open>PromptEscape\<close>, \<open>PromptInput\<close>,
  \<open>escape_sequence_complete\<close>, \<open>csi_count\<close>): a line editor that follows the cursor keys, the control
  keys, bracketed paste and the sequences it must skip, and hands out the line on Enter.

  Characters are Unicode scalar values. \<open>self.cursor + csi_count(value)\<close> is an addition of
  \<open>usize\<close> without a check: it is modelled as the release build runs it, wrapping at 64 bits (a
  build with overflow checks panics there).
\<close>

section \<open>State\<close>

definition MAX_CAPTURED_PROMPT_CHARS :: nat where "MAX_CAPTURED_PROMPT_CHARS = 16000"

datatype prompt_escape =
    NoEscape
  | Escape
  | Sequence ustring
  | ControlString bool bool

record prompt_capture =
  pc_characters :: ustring
  pc_cursor :: nat
  pc_escape :: prompt_escape
  pc_paste :: bool

record prompt_input =
  pi_submitted :: bool
  pi_prompt :: "ustring option"

definition capture_default :: prompt_capture where
  "capture_default =
     \<lparr>pc_characters = [], pc_cursor = 0, pc_escape = NoEscape, pc_paste = False\<rparr>"

definition input_default :: prompt_input where
  "input_default = \<lparr>pi_submitted = False, pi_prompt = None\<rparr>"

section \<open>Editing\<close>

definition pc_insert :: "scalar \<Rightarrow> prompt_capture \<Rightarrow> prompt_capture" where
  "pc_insert c pc =
     (if MAX_CAPTURED_PROMPT_CHARS \<le> length (pc_characters pc) then pc
      else pc\<lparr>pc_characters := take (pc_cursor pc) (pc_characters pc) @ c
                 # drop (pc_cursor pc) (pc_characters pc),
              pc_cursor := pc_cursor pc + 1\<rparr>)"

definition remove_at :: "nat \<Rightarrow> 'a list \<Rightarrow> 'a list" where
  "remove_at i xs = take i xs @ drop (Suc i) xs"

definition delete_before_cursor :: "prompt_capture \<Rightarrow> prompt_capture" where
  "delete_before_cursor pc =
     (if 0 < pc_cursor pc
      then pc\<lparr>pc_cursor := pc_cursor pc - 1,
              pc_characters := remove_at (pc_cursor pc - 1) (pc_characters pc)\<rparr>
      else pc)"

definition delete_at_cursor :: "prompt_capture \<Rightarrow> prompt_capture" where
  "delete_at_cursor pc =
     (if pc_cursor pc < length (pc_characters pc)
      then pc\<lparr>pc_characters := remove_at (pc_cursor pc) (pc_characters pc)\<rparr>
      else pc)"

function delete_while :: "(scalar \<Rightarrow> bool) \<Rightarrow> prompt_capture \<Rightarrow> prompt_capture" where
  "delete_while P pc =
     (if 0 < pc_cursor pc \<and> P (pc_characters pc ! (pc_cursor pc - 1))
      then delete_while P (delete_before_cursor pc) else pc)"
  by pat_completeness auto

termination
  by (relation "measure (\<lambda>(P, pc). pc_cursor pc)") (auto simp: delete_before_cursor_def)

declare delete_while.simps [simp del]

definition delete_previous_word :: "prompt_capture \<Rightarrow> prompt_capture" where
  "delete_previous_word pc =
     delete_while (\<lambda>c. \<not> is_whitespace c) (delete_while is_whitespace pc)"

definition clear_line :: "prompt_capture \<Rightarrow> prompt_capture" where
  "clear_line pc = pc\<lparr>pc_characters := [], pc_cursor := 0\<rparr>"

section \<open>Escape sequences\<close>

definition escape_sequence_complete :: "ustring \<Rightarrow> bool" where
  "escape_sequence_complete s =
     (if starts_with s [27, 91] then 3 \<le> length s \<and> 64 \<le> last s \<and> last s \<le> 126
      else starts_with s [27, 79] \<and> 3 \<le> length s)"

text \<open>\<open>trim_start_matches\<close> of \<open>ESC [\<close>, \<open>str::parse\<close> of a \<open>usize\<close>.\<close>

fun trim_csi :: "ustring \<Rightarrow> ustring" where
  "trim_csi (c # d # s) = (if c = 27 \<and> d = 91 then trim_csi s else c # d # s)"
| "trim_csi s = s"

definition trim_end_alphabetic :: "ustring \<Rightarrow> ustring" where
  "trim_end_alphabetic s = rev (dropWhile is_ascii_alphabetic (rev s))"

definition csi_count :: "ustring \<Rightarrow> nat" where
  "csi_count s =
     (case parse_usize (takeWhile (\<lambda>c. c \<noteq> 59) (trim_end_alphabetic (trim_csi s))) of
        Some n \<Rightarrow> n | None \<Rightarrow> 1)"

definition ends_with_char :: "ustring \<Rightarrow> scalar \<Rightarrow> bool" where
  "ends_with_char s c \<longleftrightarrow> s \<noteq> [] \<and> last s = c"

definition apply_escape :: "ustring \<Rightarrow> prompt_capture \<Rightarrow> prompt_capture" where
  "apply_escape s pc =
     (if s = 27 # lit ''[200~'' then pc\<lparr>pc_paste := True\<rparr>
      else if s = 27 # lit ''[201~'' then pc\<lparr>pc_paste := False\<rparr>
      else if s \<in> {27 # lit ''[H'', 27 # lit ''[1~'', 27 # lit ''[7~'', 27 # lit ''OH''}
      then pc\<lparr>pc_cursor := 0\<rparr>
      else if s \<in> {27 # lit ''[F'', 27 # lit ''[4~'', 27 # lit ''[8~'', 27 # lit ''OF''}
      then pc\<lparr>pc_cursor := length (pc_characters pc)\<rparr>
      else if s = 27 # lit ''[3~'' then delete_at_cursor pc
      else if s \<in> {27 # lit ''[13;2u'', 27 # lit ''[27;2;13~''} then pc_insert 10 pc
      else if ends_with_char s 68 then pc\<lparr>pc_cursor := pc_cursor pc - csi_count s\<rparr>
      else if ends_with_char s 67
      then pc\<lparr>pc_cursor := min ((pc_cursor pc + csi_count s) mod 2 ^ 64) (length (pc_characters pc))\<rparr>
      else pc)"

section \<open>One character\<close>

definition submit_line :: "prompt_capture \<Rightarrow> prompt_input \<Rightarrow> prompt_capture \<times> prompt_input" where
  "submit_line pc i =
     (let prompt = trim (pc_characters pc) in
      (clear_line pc,
       i\<lparr>pi_submitted := True, pi_prompt := if prompt = [] then pi_prompt i else Some prompt\<rparr>))"

text \<open>The branch of a character outside every sequence (\<open>PromptEscape::None\<close>).\<close>

definition observe_plain ::
    "scalar \<Rightarrow> prompt_capture \<Rightarrow> prompt_input \<Rightarrow> prompt_capture \<times> prompt_input" where
  "observe_plain c pc i =
     (if c = 27 then (pc\<lparr>pc_escape := Escape\<rparr>, i)
      else if (c = 13 \<or> c = 10) \<and> pc_paste pc then (pc_insert 10 pc, i)
      else if c = 13 \<or> c = 10 then submit_line pc i
      else if c = 1 then (pc\<lparr>pc_cursor := 0\<rparr>, i)
      else if c = 5 then (pc\<lparr>pc_cursor := length (pc_characters pc)\<rparr>, i)
      else if c = 3 \<or> c = 21 then (clear_line pc, i)
      else if c = 17 then (pc\<lparr>pc_characters := take (pc_cursor pc) (pc_characters pc)\<rparr>, i)
      else if c = 23 then (delete_previous_word pc, i)
      else if c = 8 \<or> c = 127 then (delete_before_cursor pc, i)
      else if c = 4 then (delete_at_cursor pc, i)
      else if c = 9 then (pc, i)
      else if \<not> is_control c then (pc_insert c pc, i)
      else (pc, i))"

definition observe_character ::
    "scalar \<Rightarrow> prompt_capture \<Rightarrow> prompt_input \<Rightarrow> prompt_capture \<times> prompt_input" where
  "observe_character c pc0 i =
     (let pc = pc0\<lparr>pc_escape := NoEscape\<rparr> in
      case pc_escape pc0 of
        Escape \<Rightarrow>
          (if c = 91 \<or> c = 79 then (pc\<lparr>pc_escape := Sequence [27, c]\<rparr>, i)
           else if c = 93 then (pc\<lparr>pc_escape := ControlString True False\<rparr>, i)
           else if c = 80 \<or> c = 88 \<or> c = 94 \<or> c = 95
           then (pc\<lparr>pc_escape := ControlString False False\<rparr>, i)
           else if c = 13 \<or> c = 10 then (pc_insert 10 pc, i)
           else observe_plain c pc i)
      | Sequence s \<Rightarrow>
          (let s' = s @ [c] in
           if escape_sequence_complete s' then (apply_escape s' pc, i)
           else if length s' \<le> 32 then (pc\<lparr>pc_escape := Sequence s'\<rparr>, i)
           else (pc, i))
      | ControlString bell seen \<Rightarrow>
          (if (bell \<and> c = 7) \<or> (seen \<and> c = 92) then (pc, i)
           else (pc\<lparr>pc_escape := ControlString bell (c = 27)\<rparr>, i))
      | NoEscape \<Rightarrow> observe_plain c pc i)"

fun observe_characters ::
    "ustring \<Rightarrow> prompt_capture \<Rightarrow> prompt_input \<Rightarrow> prompt_capture \<times> prompt_input" where
  "observe_characters [] pc i = (pc, i)"
| "observe_characters (c # cs) pc i =
     (let (pc', i') = observe_character c pc i in observe_characters cs pc' i')"

definition observe_prompt :: "bytes \<Rightarrow> prompt_capture \<Rightarrow> prompt_capture \<times> prompt_input" where
  "observe_prompt bs pc = observe_characters (utf8_lossy bs) pc input_default"

section \<open>The specification: a decoder and a line with a cursor\<close>

text \<open>
  The abstract editor holds the text before the cursor and the text after it, and knows only keys;
  the decoder turns characters into keys and knows no text.
\<close>

datatype key = Insert scalar | Submit | Home | End | Clear | KillRight | KillWord | Backspace
  | Delete | MoveLeft nat | MoveRight nat | NoKey

type_synonym line = "ustring \<times> ustring"

fun press :: "key \<Rightarrow> line \<Rightarrow> line" where
  "press (Insert c) (l, r) =
     (if length l + length r < MAX_CAPTURED_PROMPT_CHARS then (l @ [c], r) else (l, r))"
| "press Submit (l, r) = ([], [])"
| "press Home (l, r) = ([], l @ r)"
| "press End (l, r) = (l @ r, [])"
| "press Clear (l, r) = ([], [])"
| "press KillRight (l, r) = (l, [])"
| "press KillWord (l, r) =
     (rev (dropWhile (\<lambda>c. \<not> is_whitespace c) (dropWhile is_whitespace (rev l))), r)"
| "press Backspace (l, r) = (butlast l, r)"
| "press Delete (l, r) = (l, tl r)"
| "press (MoveLeft n) (l, r) = (take (length l - n) l, drop (length l - n) l @ r)"
| "press (MoveRight n) (l, r) =
     (if length l + n < 2 ^ 64 then (l @ take n r, drop n r)
      else let k = (length l + n) mod 2 ^ 64 in (take k (l @ r), drop k (l @ r)))"
| "press NoKey (l, r) = (l, r)"

definition escape_key :: "ustring \<Rightarrow> key" where
  "escape_key s =
     (if s \<in> {27 # lit ''[200~'', 27 # lit ''[201~''} then NoKey
      else if s \<in> {27 # lit ''[H'', 27 # lit ''[1~'', 27 # lit ''[7~'', 27 # lit ''OH''} then Home
      else if s \<in> {27 # lit ''[F'', 27 # lit ''[4~'', 27 # lit ''[8~'', 27 # lit ''OF''} then End
      else if s = 27 # lit ''[3~'' then Delete
      else if s \<in> {27 # lit ''[13;2u'', 27 # lit ''[27;2;13~''} then Insert 10
      else if ends_with_char s 68 then MoveLeft (csi_count s)
      else if ends_with_char s 67 then MoveRight (csi_count s)
      else NoKey)"

definition plain_key :: "bool \<Rightarrow> scalar \<Rightarrow> key" where
  "plain_key paste c =
     (if c = 13 \<or> c = 10 then (if paste then Insert 10 else Submit)
      else if c = 1 then Home else if c = 5 then End else if c = 3 \<or> c = 21 then Clear
      else if c = 17 then KillRight else if c = 23 then KillWord
      else if c = 8 \<or> c = 127 then Backspace else if c = 4 then Delete
      else if is_control c then NoKey else Insert c)"

type_synonym decoder = "prompt_escape \<times> bool"

fun decode_key :: "scalar \<Rightarrow> decoder \<Rightarrow> decoder \<times> key" where
  "decode_key c (NoEscape, p) = (if c = 27 then ((Escape, p), NoKey) else ((NoEscape, p), plain_key p c))"
| "decode_key c (Escape, p) =
     (if c = 91 \<or> c = 79 then ((Sequence [27, c], p), NoKey)
      else if c = 93 then ((ControlString True False, p), NoKey)
      else if c = 80 \<or> c = 88 \<or> c = 94 \<or> c = 95 then ((ControlString False False, p), NoKey)
      else if c = 13 \<or> c = 10 then ((NoEscape, p), Insert 10)
      else if c = 27 then ((Escape, p), NoKey) else ((NoEscape, p), plain_key p c))"
| "decode_key c (Sequence s, p) =
     (let s' = s @ [c] in
      if escape_sequence_complete s'
      then ((NoEscape, if s' = 27 # lit ''[200~'' then True
                       else if s' = 27 # lit ''[201~'' then False else p), escape_key s')
      else ((if length s' \<le> 32 then Sequence s' else NoEscape, p), NoKey))"
| "decode_key c (ControlString bell seen, p) =
     (if (bell \<and> c = 7) \<or> (seen \<and> c = 92) then ((NoEscape, p), NoKey)
      else ((ControlString bell (c = 27), p), NoKey))"

text \<open>The line handed out when Enter is pressed.\<close>

definition answer :: "key \<Rightarrow> line \<Rightarrow> prompt_input \<Rightarrow> prompt_input" where
  "answer k line i =
     (if k = Submit
      then let prompt = trim (fst line @ snd line) in
        \<lparr>pi_submitted = True, pi_prompt = if prompt = [] then pi_prompt i else Some prompt\<rparr>
      else i)"

fun edit_keys ::
    "ustring \<Rightarrow> decoder \<Rightarrow> line \<Rightarrow> prompt_input \<Rightarrow> decoder \<times> line \<times> prompt_input" where
  "edit_keys [] d line i = (d, line, i)"
| "edit_keys (c # cs) d line i =
     (let (d', k) = decode_key c d in edit_keys cs d' (press k line) (answer k line i))"

section \<open>Invariant and abstraction\<close>

definition capture_ok :: "prompt_capture \<Rightarrow> bool" where
  "capture_ok pc \<longleftrightarrow> pc_cursor pc \<le> length (pc_characters pc)
     \<and> length (pc_characters pc) \<le> MAX_CAPTURED_PROMPT_CHARS"

definition line_of :: "prompt_capture \<Rightarrow> line" where
  "line_of pc = (take (pc_cursor pc) (pc_characters pc), drop (pc_cursor pc) (pc_characters pc))"

definition decoder_of :: "prompt_capture \<Rightarrow> decoder" where
  "decoder_of pc = (pc_escape pc, pc_paste pc)"

lemma capture_default_ok [simp]: "capture_ok capture_default"
  by (simp add: capture_ok_def capture_default_def)

text \<open>Every editing operation does to the line what its key does, and touches nothing else.\<close>

definition does :: "prompt_capture \<Rightarrow> key \<Rightarrow> prompt_capture \<Rightarrow> bool" where
  "does pc k pc' \<longleftrightarrow> capture_ok pc' \<and> line_of pc' = press k (line_of pc)
     \<and> decoder_of pc' = decoder_of pc"

lemma insert_does: "capture_ok pc \<Longrightarrow> does pc (Insert c) (pc_insert c pc)"
  by (auto simp: does_def capture_ok_def line_of_def decoder_of_def pc_insert_def min_def)

lemma home_does: "capture_ok pc \<Longrightarrow> does pc Home (pc\<lparr>pc_cursor := 0\<rparr>)"
  by (simp add: does_def capture_ok_def line_of_def decoder_of_def)

lemma end_does: "capture_ok pc \<Longrightarrow> does pc End (pc\<lparr>pc_cursor := length (pc_characters pc)\<rparr>)"
  by (simp add: does_def capture_ok_def line_of_def decoder_of_def)

lemma clear_does: "does pc Clear (clear_line pc)" "does pc Submit (clear_line pc)"
  by (simp_all add: does_def capture_ok_def line_of_def decoder_of_def clear_line_def)

lemma kill_right_does:
  "capture_ok pc \<Longrightarrow> does pc KillRight (pc\<lparr>pc_characters := take (pc_cursor pc) (pc_characters pc)\<rparr>)"
  by (simp add: does_def capture_ok_def line_of_def decoder_of_def)

lemma delete_does: "capture_ok pc \<Longrightarrow> does pc Delete (delete_at_cursor pc)"
  by (auto simp: does_def capture_ok_def line_of_def decoder_of_def delete_at_cursor_def
      remove_at_def drop_Suc drop_tl)

lemma backspace_does: "capture_ok pc \<Longrightarrow> does pc Backspace (delete_before_cursor pc)"
  by (auto simp: does_def capture_ok_def line_of_def decoder_of_def delete_before_cursor_def
      remove_at_def butlast_take min_def)

lemma left_does: "capture_ok pc \<Longrightarrow> does pc (MoveLeft n) (pc\<lparr>pc_cursor := pc_cursor pc - n\<rparr>)"
proof -
  assume ok: "capture_ok pc"
  let ?c = "pc_cursor pc" and ?cs = "pc_characters pc"
  have "drop (?c - n) (take ?c ?cs) @ drop ?c ?cs = drop (?c - n) ?cs"
    by (metis append_take_drop_id diff_le_self drop_append drop_take min.absorb1
        length_take min_def take_add drop_drop le_add_diff_inverse2 add.commute)
  then show ?thesis using ok
    by (auto simp: does_def capture_ok_def line_of_def decoder_of_def min.absorb1 min.absorb2)
qed

lemma right_does:
  assumes ok: "capture_ok pc"
  shows "does pc (MoveRight n)
     (pc\<lparr>pc_cursor := min ((pc_cursor pc + n) mod 2 ^ 64) (length (pc_characters pc))\<rparr>)"
proof -
  let ?c = "pc_cursor pc" and ?cs = "pc_characters pc"
  have m: "take (min k (length ?cs)) ?cs = take k ?cs" "drop (min k (length ?cs)) ?cs = drop k ?cs"
    for k by (auto simp: min_def)
  have "take (?c + n) ?cs = take ?c ?cs @ take n (drop ?c ?cs)"
    "drop (?c + n) ?cs = drop n (drop ?c ?cs)"
    by (rule take_add) (simp add: add.commute)
  then show ?thesis using ok
    by (simp add: does_def capture_ok_def line_of_def decoder_of_def m Let_def min.absorb2)
qed

lemma delete_while_does:
  "capture_ok pc \<Longrightarrow> capture_ok (delete_while P pc)
     \<and> line_of (delete_while P pc) = (rev (dropWhile P (rev (fst (line_of pc)))), snd (line_of pc))
     \<and> decoder_of (delete_while P pc) = decoder_of pc"
proof (induction P pc rule: delete_while.induct)
  case (1 P pc)
  note ok = "1.prems"
  note d = backspace_does [OF ok, unfolded does_def]
  show ?case
  proof (cases "pc_cursor pc")
    case 0
    then show ?thesis using ok by (simp add: delete_while.simps [of P pc] line_of_def)
  next
    case (Suc n)
    have n: "n < length (pc_characters pc)" using ok Suc by (simp add: capture_ok_def)
    have l: "line_of pc = (take n (pc_characters pc) @ [pc_characters pc ! n],
        drop (Suc n) (pc_characters pc))"
      by (simp add: line_of_def Suc take_Suc_conv_app_nth [OF n])
    have b: "line_of (delete_before_cursor pc)
        = (take n (pc_characters pc), drop (Suc n) (pc_characters pc))"
      using d l by simp
    show ?thesis
      using "1.IH" d l b ok Suc
      by (cases "P (pc_characters pc ! n)") (simp_all add: delete_while.simps [of P pc])
  qed
qed

lemma word_does: "capture_ok pc \<Longrightarrow> does pc KillWord (delete_previous_word pc)"
  using delete_while_does [of pc is_whitespace]
    delete_while_does [of "delete_while is_whitespace pc" "\<lambda>c. \<not> is_whitespace c"]
  by (cases "line_of pc") (simp add: does_def delete_previous_word_def)

lemma no_key_does: "capture_ok pc \<Longrightarrow> does pc NoKey pc"
  by (cases "line_of pc") (simp add: does_def)

lemmas editing_does = insert_does home_does end_does kill_right_does delete_does
  backspace_does left_does right_does word_does no_key_does

lemma line_of_escape [simp]:
  "line_of (pc\<lparr>pc_escape := e\<rparr>) = line_of pc" "capture_ok (pc\<lparr>pc_escape := e\<rparr>) = capture_ok pc"
  "decoder_of (pc\<lparr>pc_escape := e\<rparr>) = (e, pc_paste pc)"
  by (simp_all add: line_of_def capture_ok_def decoder_of_def)

lemma line_of_paste [simp]:
  "line_of (pc\<lparr>pc_paste := b\<rparr>) = line_of pc" "capture_ok (pc\<lparr>pc_paste := b\<rparr>) = capture_ok pc"
  "decoder_of (pc\<lparr>pc_paste := b\<rparr>) = (pc_escape pc, b)"
  by (simp_all add: line_of_def capture_ok_def decoder_of_def)

lemma press_NoKey [simp]: "press NoKey line = line"
  by (cases line) simp

lemma does_if:
  "(b \<Longrightarrow> does pc k x) \<Longrightarrow> (\<not> b \<Longrightarrow> does pc k' y) \<Longrightarrow>
   does pc (if b then k else k') (if b then x else y)"
  by simp

lemma apply_escape_does:
  assumes ok: "capture_ok pc"
  shows "capture_ok (apply_escape s pc)
    \<and> line_of (apply_escape s pc) = press (escape_key s) (line_of pc)
    \<and> decoder_of (apply_escape s pc) =
        (pc_escape pc, if s = 27 # lit ''[200~'' then True
                       else if s = 27 # lit ''[201~'' then False else pc_paste pc)"
proof (cases "s = 27 # lit ''[200~'' \<or> s = 27 # lit ''[201~''")
  case True
  then have "s \<in> {27 # lit ''[200~'', 27 # lit ''[201~''}" by blast
  then have "escape_key s = NoKey" unfolding escape_key_def by (rule if_P)
  moreover have "apply_escape s pc = pc\<lparr>pc_paste := (s = 27 # lit ''[200~'')\<rparr>"
  proof (cases "s = 27 # lit ''[200~''")
    case on: True
    then have "apply_escape s pc = pc\<lparr>pc_paste := True\<rparr>" unfolding apply_escape_def by (rule if_P)
    then show ?thesis using on by (simp only: simp_thms)
  next
    case off: False
    then have "s = 27 # lit ''[201~''" using True by blast
    with off show ?thesis by (simp only: apply_escape_def if_False if_True simp_thms)
  qed
  moreover have "(if s = 27 # lit ''[200~'' then True
      else if s = 27 # lit ''[201~'' then False else pc_paste pc) = (s = 27 # lit ''[200~'')"
    using True by (metis (full_types))
  ultimately show ?thesis using ok by (simp only: line_of_paste press_NoKey simp_thms)
next
  case False
  have "does pc (escape_key s) (apply_escape s pc)"
    using False unfolding apply_escape_def escape_key_def
    by (simp only: de_Morgan_disj if_False insert_iff empty_iff simp_thms)
      (intro does_if editing_does ok)
  then show ?thesis using False by (simp add: does_def decoder_of_def)
qed

lemma line_of_append: "fst (line_of pc) @ snd (line_of pc) = pc_characters pc"
  by (simp add: line_of_def)

lemma submit_line_fst: "fst (submit_line pc i) = clear_line pc"
  by (simp add: submit_line_def Let_def)

lemma submit_line_snd: "snd (submit_line pc i) = answer Submit (line_of pc) i"
  by (simp add: submit_line_def answer_def line_of_append Let_def)

lemma answer_other: "k \<noteq> Submit \<Longrightarrow> answer k line i = i"
  by (simp add: answer_def)

text \<open>One character: the capture follows the decoder and the abstract line.\<close>

definition follows :: "prompt_capture \<times> prompt_input \<Rightarrow> decoder \<times> key \<Rightarrow> line \<Rightarrow> prompt_input \<Rightarrow> bool" where
  "follows r dk line i \<longleftrightarrow> capture_ok (fst r) \<and> line_of (fst r) = press (snd dk) line
     \<and> decoder_of (fst r) = fst dk \<and> snd r = answer (snd dk) line i"

lemma follows_does:
  "does pc k pc' \<Longrightarrow> k \<noteq> Submit \<Longrightarrow> d = decoder_of pc \<Longrightarrow> follows (pc', i) (d, k) (line_of pc) i"
  by (simp add: follows_def does_def answer_other)

lemma follows_if:
  "(b \<Longrightarrow> follows x k line i) \<Longrightarrow> (\<not> b \<Longrightarrow> follows y k' line i) \<Longrightarrow>
   follows (if b then x else y) (if b then k else k') line i"
  by simp

lemma plain_follows:
  assumes ok: "capture_ok pc" and e: "pc_escape pc = NoEscape" and c: "c \<noteq> 27"
  shows "follows (observe_plain c pc i) ((NoEscape, pc_paste pc), plain_key (pc_paste pc) c)
    (line_of pc) i"
proof -
  obtain D where D: "(NoEscape, pc_paste pc) = D" and d: "D = decoder_of pc"
    using e by (simp add: decoder_of_def)
  note f = editing_does [OF ok, THEN follows_does, OF _ d]
    clear_does(1) [THEN follows_does, OF _ d]
  have s: "follows (submit_line pc i) (D, Submit) (line_of pc) i"
    using clear_does(2) [of pc] by (simp add: follows_def does_def d submit_line_fst submit_line_snd)
  show ?thesis
    unfolding D using c f s by (simp add: observe_plain_def plain_key_def is_control_def)
qed

lemma observe_plain_escape: "observe_plain 27 pc i = (pc\<lparr>pc_escape := Escape\<rparr>, i)"
  by (simp add: observe_plain_def)

lemma character_follows:
  assumes ok: "capture_ok pc"
  shows "follows (observe_character c pc i) (decode_key c (decoder_of pc)) (line_of pc) i"
proof -
  let ?pc = "pc\<lparr>pc_escape := NoEscape\<rparr>"
  have ok': "capture_ok ?pc" and e': "pc_escape ?pc = NoEscape" and p: "pc_paste ?pc = pc_paste pc"
    using ok by simp_all
  note plain = plain_follows [OF ok' e', of c i, unfolded line_of_escape p]
  have move: "follows (pc\<lparr>pc_escape := e\<rparr>, i) ((e, pc_paste pc), NoKey) (line_of pc) i" for e
    using ok by (simp add: follows_def answer_other)
  have ins: "follows (pc_insert 10 ?pc, i) ((NoEscape, pc_paste pc), Insert 10) (line_of pc) i"
    using insert_does [OF ok', of 10] by (simp add: follows_def does_def answer_other)
  have upd: "?pc\<lparr>pc_escape := e\<rparr> = pc\<lparr>pc_escape := e\<rparr>" for e by simp
  show ?thesis
  proof (cases "pc_escape pc")
    case NoEscape
    then have "?pc = pc" by (cases pc) simp
    then show ?thesis
      using plain move [of Escape] NoEscape ok
      by (cases "c = 27")
        (simp_all add: observe_character_def decoder_of_def observe_plain_escape Let_def)
  next
    case Escape
    then show ?thesis
      using plain move ins
      by (cases "c = 27")
        (simp_all add: observe_character_def decoder_of_def observe_plain_escape Let_def)
  next
    case (Sequence s)
    have "follows (apply_escape (s @ [c]) ?pc, i)
        ((NoEscape, if s @ [c] = 27 # lit ''[200~'' then True
           else if s @ [c] = 27 # lit ''[201~'' then False else pc_paste pc), escape_key (s @ [c]))
        (line_of pc) i"
      using apply_escape_does [OF ok', of "s @ [c]"]
      by (simp only: follows_def fst_conv snd_conv line_of_escape e' p)
        (simp add: answer_def escape_key_def)
    then show ?thesis
      using move [of "if length (s @ [c]) \<le> 32 then Sequence (s @ [c]) else NoEscape"] Sequence
      unfolding observe_character_def decoder_of_def Sequence
      by (cases "escape_sequence_complete (s @ [c])"; cases "length (s @ [c]) \<le> 32")
        (simp_all only: prompt_escape.case decode_key.simps Let_def if_True if_False upd)
  next
    case (ControlString bell seen)
    then show ?thesis using move
      by (simp add: observe_character_def decoder_of_def Let_def)
  qed
qed

lemma characters_follow:
  "capture_ok pc \<Longrightarrow>
   case observe_characters cs pc i of (pc', i') \<Rightarrow>
     capture_ok pc' \<and> (decoder_of pc', line_of pc', i') = edit_keys cs (decoder_of pc) (line_of pc) i"
proof (induction cs arbitrary: pc i)
  case Nil
  then show ?case by simp
next
  case (Cons c cs)
  obtain pc' i' where o: "observe_character c pc i = (pc', i')"
    by (cases "observe_character c pc i")
  obtain d k where d: "decode_key c (decoder_of pc) = (d, k)"
    by (cases "decode_key c (decoder_of pc)")
  have f: "capture_ok pc'" "line_of pc' = press k (line_of pc)" "decoder_of pc' = d"
      "i' = answer k (line_of pc) i"
    using character_follows [OF Cons.prems, of c i] by (simp_all add: follows_def o d)
  show ?case using Cons.IH [OF f(1), of i'] f by (simp add: o d)
qed

lemma observe_prompt_follows:
  assumes "capture_ok pc"
  shows "capture_ok (fst (observe_prompt bs pc))
    \<and> (decoder_of (fst (observe_prompt bs pc)), line_of (fst (observe_prompt bs pc)),
       snd (observe_prompt bs pc)) = edit_keys (utf8_lossy bs) (decoder_of pc) (line_of pc) input_default"
  using characters_follow [OF assms, of "utf8_lossy bs" input_default]
  by (simp add: observe_prompt_def split: prod.splits)

lemma capture_run_ok: "capture_ok (fold (\<lambda>bs pc. fst (observe_prompt bs pc)) chunks capture_default)"
proof -
  have "capture_ok pc \<Longrightarrow> capture_ok (fold (\<lambda>bs pc. fst (observe_prompt bs pc)) chunks pc)" for pc
    by (induction chunks arbitrary: pc) (simp_all add: observe_prompt_follows)
  then show ?thesis by simp
qed

text \<open>Typing text and pressing Enter.\<close>

definition typed_scalar :: "scalar \<Rightarrow> bool" where
  "typed_scalar c \<longleftrightarrow> valid_scalar c \<and> \<not> is_control c"

lemma edit_keys_append:
  "edit_keys (cs @ ds) d line i =
     (case edit_keys cs d line i of (d', line', i') \<Rightarrow> edit_keys ds d' line' i')"
  by (induction cs arbitrary: d line i) (simp_all split: prod.splits)

lemma edit_keys_text:
  "list_all typed_scalar cs \<Longrightarrow> length l + length cs \<le> MAX_CAPTURED_PROMPT_CHARS \<Longrightarrow>
   edit_keys cs (NoEscape, p) (l, []) i = ((NoEscape, p), (l @ cs, []), i)"
proof (induction cs arbitrary: l)
  case (Cons c cs)
  have "plain_key p c = Insert c" "c \<noteq> 27"
    using Cons.prems(1) by (auto simp: plain_key_def typed_scalar_def is_control_def)
  then show ?case using Cons.IH [of "l @ [c]"] Cons.prems by (simp add: answer_other)
qed simp

lemma utf8_encode_append: "utf8_encode (s @ t) = utf8_encode s @ utf8_encode t"
  by (simp add: utf8_encode_def)

section \<open>Properties\<close>

text \<open>
  C18. Whatever bytes arrive, in whatever pieces, the capture behaves as a decoder that turns them
  into keys and a line editor that holds the text before and after the cursor: the same line, the
  same cursor, the same decoder state and the same submitted prompt. The cursor stays inside the
  text and the text within 16000 characters. The one key whose meaning is not the usual one is
  cursor-right with a count near \<open>2 ^ 64\<close>, where the addition wraps and the cursor goes back.
\<close>

theorem prompt_editor_refines:
  "let pc = fold (\<lambda>bs pc. fst (observe_prompt bs pc)) chunks capture_default;
       (pc', i) = observe_prompt bs pc in
     (decoder_of pc', line_of pc', i) = edit_keys (utf8_lossy bs) (decoder_of pc) (line_of pc) input_default
     \<and> pc_cursor pc' \<le> length (pc_characters pc')
     \<and> length (pc_characters pc') \<le> 16000"
  using observe_prompt_follows [OF capture_run_ok, of bs chunks]
  by (simp add: Let_def split_beta capture_ok_def MAX_CAPTURED_PROMPT_CHARS_def)

text \<open>
  Text typed on an empty line and submitted with Enter is handed out as it was typed, without
  the white space around it, and leaves an empty line; blank text submits without a prompt.
\<close>

theorem typed_prompt_submitted:
  assumes "list_all typed_scalar cs" and "length cs \<le> 16000"
    and "capture_ok pc" and "pc_escape pc = NoEscape" and "pc_characters pc = []"
    and "\<not> pc_paste pc"
  shows "observe_prompt (utf8_encode (cs @ [13])) pc =
    (pc, \<lparr>pi_submitted = True, pi_prompt = if trim cs = [] then None else Some (trim cs)\<rparr>)"
proof -
  have v: "list_all valid_scalar (cs @ [13])"
    using assms(1) by (simp add: list_all_iff typed_scalar_def valid_scalar_def)
  have l: "line_of pc = ([], [])" "decoder_of pc = (NoEscape, False)"
    using assms by (simp_all add: line_of_def decoder_of_def)
  have e: "edit_keys (cs @ [13]) (NoEscape, False) ([], []) input_default =
      ((NoEscape, False), ([], []),
       \<lparr>pi_submitted = True, pi_prompt = if trim cs = [] then None else Some (trim cs)\<rparr>)"
    using edit_keys_text [OF assms(1), of "[]" False input_default] assms(2)
    by (simp add: edit_keys_append MAX_CAPTURED_PROMPT_CHARS_def plain_key_def answer_def
        input_default_def)
  obtain pc' i' where o: "observe_prompt (utf8_encode (cs @ [13])) pc = (pc', i')"
    by (cases "observe_prompt (utf8_encode (cs @ [13])) pc")
  have r: "capture_ok pc'" "decoder_of pc' = (NoEscape, False)" "line_of pc' = ([], [])"
      "i' = \<lparr>pi_submitted = True, pi_prompt = if trim cs = [] then None else Some (trim cs)\<rparr>"
    using observe_prompt_follows [OF assms(3), of "utf8_encode (cs @ [13])"]
    by (simp_all add: utf8_lossy_encode [OF v] l e o)
  have "pc_characters pc' = []" using line_of_append [of pc'] r(3) by simp
  then have "pc' = pc"
    using r(1,2) assms by (cases pc; cases pc') (simp add: capture_ok_def decoder_of_def)
  then show ?thesis using o r(4) by simp
qed

lemma typed_prompt_submitted_witness:
  "observe_prompt (utf8_encode (lit ''fix it '' @ [13])) capture_default
     = (capture_default, \<lparr>pi_submitted = True, pi_prompt = Some (lit ''fix it'')\<rparr>)"
  using typed_prompt_submitted [of "lit ''fix it ''" capture_default]
  by (simp add: typed_scalar_def valid_scalar_def is_control_def capture_default_def capture_ok_def
      trim_def trim_end_def trim_start_def is_whitespace_def)

end
