(* ===== verification/Signals.thy ===== *)
theory Signals
  imports TextClean
begin

text \<open>
  What a terminal's output says about its agent (\<open>src/src/terminal.rs\<close>: \<open>TerminalSignals\<close>,
  \<open>osc_end\<close>, \<open>sanitize_osc_payload\<close>, \<open>title_contains_word\<close>, the spinner predicates): the operating
  system commands (OSC) that set a title or report progress, found in a byte stream that arrives in
  pieces, and the working, blocked or idle state each of them reports.
\<close>

section \<open>State\<close>

definition OSC_PAYLOAD_MAX_CHARS :: nat where "OSC_PAYLOAD_MAX_CHARS = 256"
definition SIGNAL_TAIL_BYTES :: nat where "SIGNAL_TAIL_BYTES = 1024"
definition MAX_PENDING_OSC_BYTES :: nat where "MAX_PENDING_OSC_BYTES = 4 * 1024"

datatype reported_state = ReportedWorking | ReportedBlocked | ReportedIdle

record signals =
  sg_pending :: bytes
  sg_pending_osc :: "nat option"
  sg_scanned :: nat
  sg_agent_state :: "(reported_state \<times> nat) option"
  sg_explicit_idle_at :: "nat option"
  sg_active_title_seen :: bool
  sg_osc_title :: "ustring option"
  sg_osc_progress :: "ustring option"

definition signals_default :: signals where
  "signals_default =
     \<lparr>sg_pending = [], sg_pending_osc = None, sg_scanned = 0, sg_agent_state = None,
      sg_explicit_idle_at = None, sg_active_title_seen = False, sg_osc_title = None,
      sg_osc_progress = None\<rparr>"

section \<open>Text\<close>

text \<open>\<open>str::split\<close> at a non-empty separator, and at the characters that satisfy a predicate.\<close>

fun split_str_acc :: "ustring \<Rightarrow> ustring \<Rightarrow> ustring \<Rightarrow> ustring list" where
  "split_str_acc sep acc [] = [rev acc]"
| "split_str_acc sep acc (c # s) =
     (if starts_with (c # s) sep then rev acc # split_str_acc sep [] (drop (length sep - 1) s)
      else split_str_acc sep (c # acc) s)"

definition split_str :: "ustring \<Rightarrow> ustring \<Rightarrow> ustring list" where
  "split_str sep s = split_str_acc sep [] s"

fun split_at_acc :: "(scalar \<Rightarrow> bool) \<Rightarrow> ustring \<Rightarrow> ustring \<Rightarrow> ustring list" where
  "split_at_acc P acc [] = [rev acc]"
| "split_at_acc P acc (c # s) =
     (if P c then rev acc # split_at_acc P [] s else split_at_acc P (c # acc) s)"

definition title_contains_word :: "ustring \<Rightarrow> ustring \<Rightarrow> bool" where
  "title_contains_word title expected \<longleftrightarrow>
     expected \<in> set (split_at_acc (\<lambda>c. \<not> is_ascii_alphanumeric c) [] title)"

definition sanitize_osc_payload :: "ustring \<Rightarrow> ustring" where
  "sanitize_osc_payload payload =
     trim (take OSC_PAYLOAD_MAX_CHARS (filter (\<lambda>c. \<not> is_control c) payload))"

definition is_braille_spinner :: "scalar \<Rightarrow> bool" where
  "is_braille_spinner c \<longleftrightarrow> 10240 \<le> c \<and> c \<le> 10495"

definition is_busy_spinner :: "scalar \<Rightarrow> bool" where
  "is_busy_spinner c \<longleftrightarrow> is_braille_spinner c \<or> c = 11836 \<or> c = 11837 \<or> c = 11825 \<or> c = 11827"

definition head_char :: "ustring \<Rightarrow> scalar option" where
  "head_char s = (case s of [] \<Rightarrow> None | c # _ \<Rightarrow> Some c)"

definition strip_either :: "ustring \<Rightarrow> ustring \<Rightarrow> ustring \<Rightarrow> ustring option" where
  "strip_either p q s = (case strip_prefix p s of Some r \<Rightarrow> Some r | None \<Rightarrow> strip_prefix q s)"

section \<open>One operating system command\<close>

definition retain_detection_payload :: "ustring \<Rightarrow> signals \<Rightarrow> signals" where
  "retain_detection_payload payload s =
     (case strip_either (lit ''0;'') (lit ''2;'') payload of
        Some title \<Rightarrow>
          (let t = sanitize_osc_payload title in s\<lparr>sg_osc_title := if t = [] then None else Some t\<rparr>)
      | None \<Rightarrow>
          (case strip_prefix (lit ''9;'') payload of
             Some progress \<Rightarrow>
               (let t = sanitize_osc_payload progress
                in s\<lparr>sg_osc_progress := if t = [] then None else Some t\<rparr>)
           | None \<Rightarrow> s))"

text \<open>The state a title reports, and the new value of \<open>active_title_seen\<close>.\<close>

definition title_state :: "ustring \<Rightarrow> bool \<Rightarrow> reported_state option \<times> bool" where
  "title_state title active_seen =
     (let trimmed = trim_start title;
          omp_title = map_option trim_start (strip_prefix [960] trimmed);
          glyphs = (case omp_title of Some t \<Rightarrow> t | None \<Rightarrow> trimmed);
          first = head_char glyphs
      in if (case first of Some c \<Rightarrow> is_busy_spinner c | None \<Rightarrow> False)
         then (Some ReportedWorking, True)
         else if contains_str (lit ''action required'') title then (Some ReportedBlocked, False)
         else if first = Some 10035 \<or> title_contains_word title (lit ''ready'')
                 \<or> (omp_title \<noteq> None \<and> first = Some 62)
         then (Some ReportedIdle, False)
         else if active_seen then (Some ReportedIdle, False)
         else if title_contains_word title (lit ''working'')
                 \<or> title_contains_word title (lit ''thinking'')
                 \<or> title_contains_word title (lit ''waiting'')
         then (Some ReportedWorking, False)
         else (None, False))"

definition ready_title :: "ustring \<Rightarrow> bool" where
  "ready_title title \<longleftrightarrow> lit ''ready'' \<in> set (map trim (split_str (lit '' | '') title))"

definition observe_osc :: "nat \<Rightarrow> bytes \<Rightarrow> signals \<Rightarrow> signals" where
  "observe_osc now payload s0 =
     (let text = trim (utf8_lossy payload);
          s = retain_detection_payload text s0;
          normalized = map ascii_lower text
      in if normalized = lit ''9;4;3'' \<or> starts_with normalized (lit ''9;4;3;'')
         then s\<lparr>sg_explicit_idle_at := None, sg_agent_state := Some (ReportedWorking, now)\<rparr>
         else if normalized = lit ''9;4;0'' \<or> starts_with normalized (lit ''9;4;0;'')
         then s\<lparr>sg_explicit_idle_at := Some now, sg_agent_state := Some (ReportedIdle, now)\<rparr>
         else case strip_either (lit ''0;'') (lit ''2;'') normalized of
           None \<Rightarrow> s
         | Some title \<Rightarrow>
             (let (state, active) = title_state title (sg_active_title_seen s);
                  s' = s\<lparr>sg_explicit_idle_at := if ready_title title then Some now else None,
                         sg_active_title_seen := active\<rparr>
              in case state of None \<Rightarrow> s' | Some r \<Rightarrow> s'\<lparr>sg_agent_state := Some (r, now)\<rparr>))"

definition clear_detection_payloads :: "signals \<Rightarrow> signals" where
  "clear_detection_payloads s =
     s\<lparr>sg_osc_title := None, sg_osc_progress := None, sg_explicit_idle_at := None\<rparr>"

section \<open>Finding the commands in the stream\<close>

abbreviation ESC :: byte where "ESC \<equiv> CHR 0x1B"
abbreviation BEL :: byte where "BEL \<equiv> CHR 0x07"
abbreviation BSL :: byte where "BSL \<equiv> CHR 0x5C"
abbreviation RBR :: byte where "RBR \<equiv> CHR 0x5D"

fun osc_start :: "nat \<Rightarrow> bytes \<Rightarrow> nat option" where
  "osc_start i (a # b # bs) = (if a = ESC \<and> b = RBR then Some i else osc_start (Suc i) (b # bs))"
| "osc_start i bs = None"

fun osc_end_from :: "nat \<Rightarrow> bytes \<Rightarrow> (nat \<times> nat) option" where
  "osc_end_from i [] = None"
| "osc_end_from i (b # bs) =
     (if b = BEL then Some (i, i + 1)
      else if b = ESC \<and> take 1 bs = [BSL] then Some (i, i + 2)
      else osc_end_from (Suc i) bs)"

definition osc_end :: "bytes \<Rightarrow> nat \<Rightarrow> (nat \<times> nat) option" where
  "osc_end bs start = osc_end_from start (drop start bs)"

lemma osc_end_from_bounds:
  "osc_end_from i bs = Some (e, s) \<Longrightarrow> i \<le> e \<and> e < s \<and> s \<le> i + length bs"
proof (induction i bs rule: osc_end_from.induct)
  case (2 i b bs)
  then show ?case by (cases bs) (auto split: if_splits)
qed simp

lemma osc_start_bounds: "osc_start i bs = Some k \<Longrightarrow> i \<le> k \<and> k + 2 \<le> i + length bs"
  by (induction i bs rule: osc_start.induct) (auto split: if_splits)

text \<open>
  The loop of \<open>observe\<close>: the signals and the number of pending bytes it is done with. A start found
  earlier is kept in \<open>pending_osc\<close>, and \<open>scanned\<close> says how far its end was looked for.
\<close>

function observe_loop :: "nat \<Rightarrow> signals \<Rightarrow> nat \<Rightarrow> signals \<times> nat" where
  "observe_loop now s consumed =
     (case (case sg_pending_osc s of
              Some start \<Rightarrow> Some start
            | None \<Rightarrow> osc_start consumed (drop consumed (sg_pending s))) of
        None \<Rightarrow> (s, consumed)
      | Some start \<Rightarrow>
          (case osc_end (sg_pending s) (max (sg_scanned s) (start + 2)) of
             None \<Rightarrow>
               (if MAX_PENDING_OSC_BYTES < length (sg_pending s) - start
                then (s\<lparr>sg_pending_osc := None, sg_scanned := 0\<rparr>, length (sg_pending s))
                else (s\<lparr>sg_pending_osc := Some start, sg_scanned := length (sg_pending s) - 1\<rparr>, start))
           | Some (payload_end, sequence_end) \<Rightarrow>
               (let payload = take (payload_end - (start + 2)) (drop (start + 2) (sg_pending s))
                in observe_loop now
                     ((observe_osc now payload s)\<lparr>sg_pending_osc := None, sg_scanned := 0\<rparr>)
                     sequence_end)))"
  by pat_completeness auto

lemma observe_osc_scan [simp]:
  "sg_pending (observe_osc now p s) = sg_pending s"
  "sg_pending_osc (observe_osc now p s) = sg_pending_osc s"
  "sg_scanned (observe_osc now p s) = sg_scanned s"
  by (simp_all add: observe_osc_def retain_detection_payload_def Let_def
      split: option.split prod.split)

lemma osc_end_bounds:
  assumes "osc_end bs k = Some (e, s)" shows "k \<le> e" "e < s" "s \<le> length bs"
proof -
  from assms have b: "k \<le> e \<and> e < s \<and> s \<le> k + length (drop k bs)"
    unfolding osc_end_def by (rule osc_end_from_bounds)
  have "drop k bs \<noteq> []" using assms by (auto simp: osc_end_def)
  with b show "k \<le> e" "e < s" "s \<le> length bs" by auto
qed

termination observe_loop
proof (relation "measures [\<lambda>(now, s, c). if sg_pending_osc s = None then 0 else 1,
      \<lambda>(now, s, c). length (sg_pending s) - c]", goal_cases)
  case (2 now s c start e x y)
  show ?case
  proof (cases "sg_pending_osc s")
    case None
    then have "c \<le> start" "start + 2 \<le> c + length (drop c (sg_pending s))"
      using 2 osc_start_bounds [of c "drop c (sg_pending s)" start] by auto
    moreover have "start + 2 \<le> x" "x < y" "y \<le> length (sg_pending s)"
      using 2 osc_end_bounds [of "sg_pending s" "max (sg_scanned s) (start + 2)" x y] by auto
    ultimately show ?thesis using None by auto
  qed auto
qed simp

declare observe_loop.simps [simp del]

definition signals_observe :: "nat \<Rightarrow> bytes \<Rightarrow> signals \<Rightarrow> signals" where
  "signals_observe now bs s0 =
     (let (s, consumed) = observe_loop now (s0\<lparr>sg_pending := sg_pending s0 @ bs\<rparr>) 0;
          s1 = (if 0 < consumed
                then s\<lparr>sg_pending := drop consumed (sg_pending s),
                       sg_pending_osc := map_option (\<lambda>start. start - consumed) (sg_pending_osc s),
                       sg_scanned := sg_scanned s - consumed\<rparr>
                else s)
      in if sg_pending_osc s1 = None \<and> SIGNAL_TAIL_BYTES < length (sg_pending s1)
         then s1\<lparr>sg_pending := drop (length (sg_pending s1) - SIGNAL_TAIL_BYTES) (sg_pending s1),
                 sg_scanned := 0\<rparr>
         else s1)"

section \<open>The reference: one byte at a time\<close>

datatype osc_scan = Ground | GroundEsc | Payload bytes | PayloadEsc bytes

fun osc_byte :: "osc_scan \<Rightarrow> byte \<Rightarrow> bytes option \<times> osc_scan" where
  "osc_byte Ground b = (None, if b = ESC then GroundEsc else Ground)"
| "osc_byte GroundEsc b =
     (None, if b = RBR then Payload [] else if b = ESC then GroundEsc else Ground)"
| "osc_byte (Payload p) b =
     (if b = BEL then (Some p, Ground) else (None, if b = ESC then PayloadEsc p else Payload (p @ [b])))"
| "osc_byte (PayloadEsc p) b =
     (if b = BEL then (Some (p @ [ESC]), Ground)
      else if b = BSL then (Some p, Ground)
      else (None, if b = ESC then PayloadEsc (p @ [ESC]) else Payload (p @ [ESC, b])))"

fun osc_run :: "osc_scan \<Rightarrow> bytes \<Rightarrow> bytes list \<times> osc_scan" where
  "osc_run q [] = ([], q)"
| "osc_run q (b # bs) =
     (let (out, q') = osc_byte q b; (ps, q'') = osc_run q' bs
      in (case out of None \<Rightarrow> ps | Some p \<Rightarrow> p # ps, q''))"

text \<open>A command longer than the limit is given up at the end of the piece it is still open in.\<close>

fun osc_cut :: "osc_scan \<Rightarrow> osc_scan" where
  "osc_cut (Payload p) = (if MAX_PENDING_OSC_BYTES < length p + 2 then Ground else Payload p)"
| "osc_cut (PayloadEsc p) = (if MAX_PENDING_OSC_BYTES < length p + 3 then Ground else PayloadEsc p)"
| "osc_cut q = q"

definition signals_reference :: "nat \<Rightarrow> bytes \<Rightarrow> osc_scan \<times> signals \<Rightarrow> osc_scan \<times> signals" where
  "signals_reference now bs qs =
     (let (ps, q) = osc_run (fst qs) bs in (osc_cut q, fold (observe_osc now) ps (snd qs)))"

section \<open>The scan follows the reference\<close>

lemma osc_run_append:
  "osc_run q (as @ bs) =
     (let (ps, q') = osc_run q as; (qs, q'') = osc_run q' bs in (ps @ qs, q''))"
  by (induction as arbitrary: q) (auto simp: Let_def split: prod.splits option.splits)

text \<open>Up to the next introducer nothing is found.\<close>

lemma run_no_start:
  "osc_start i bs = None \<Longrightarrow>
   fst (osc_run Ground bs) = [] \<and> snd (osc_run Ground bs) \<in> {Ground, GroundEsc}
   \<and> (snd (osc_run Ground bs) = GroundEsc \<longleftrightarrow> bs \<noteq> [] \<and> last bs = ESC)"
proof (induction i bs rule: osc_start.induct)
  case (1 i a b bs)
  then have "osc_start (Suc i) (b # bs) = None" and ab: "\<not> (a = ESC \<and> b = RBR)"
    by (auto split: if_splits)
  with 1 have IH: "fst (osc_run Ground (b # bs)) = []"
      "snd (osc_run Ground (b # bs)) \<in> {Ground, GroundEsc}"
      "snd (osc_run Ground (b # bs)) = GroundEsc \<longleftrightarrow> last (b # bs) = ESC"
    by auto
  have "osc_run Ground (a # b # bs) = osc_run Ground (b # bs)"
    using ab by (simp add: Let_def split: prod.splits)
  then show ?case using IH by simp
qed auto

lemma run_start:
  "osc_start i bs = Some k \<Longrightarrow> osc_run Ground bs = osc_run (Payload []) (drop (k - i + 2) bs)"
proof (induction i bs arbitrary: k rule: osc_start.induct)
  case (1 i a b bs)
  show ?case
  proof (cases "a = ESC \<and> b = RBR")
    case True
    then show ?thesis using 1 by (simp split: prod.splits)
  next
    case False
    then have s: "osc_start (Suc i) (b # bs) = Some k"
      using "1.prems" by (auto split: if_splits)
    have "Suc i \<le> k" using osc_start_bounds [OF s] by simp
    then obtain m where "k - i = Suc m" "k - Suc i = m" by (metis Suc_diff_Suc Suc_le_lessD)
    moreover have "osc_run Ground (a # b # bs) = osc_run Ground (b # bs)"
      using False by (simp add: Let_def split: prod.splits)
    ultimately show ?thesis using "1.IH" [OF False s] by simp
  qed
qed auto

text \<open>Inside a command the bytes are collected until its end.\<close>

fun raw_payload :: "osc_scan \<Rightarrow> bytes" where
  "raw_payload (Payload p) = p"
| "raw_payload (PayloadEsc p) = p @ [ESC]"
| "raw_payload q = []"

definition in_payload :: "osc_scan \<Rightarrow> bool" where
  "in_payload q \<longleftrightarrow> q \<noteq> Ground \<and> q \<noteq> GroundEsc"

lemma run_no_end:
  "osc_end_from i bs = None \<Longrightarrow> in_payload (snd (osc_run (Payload p) bs))
     \<and> fst (osc_run (Payload p) bs) = [] \<and> raw_payload (snd (osc_run (Payload p) bs)) = p @ bs"
proof (induction i bs arbitrary: p rule: osc_end_from.induct)
  case (1 i)
  then show ?case by (simp add: in_payload_def)
next
  case (2 i b bs)
  then have b: "b \<noteq> BEL" and e: "b = ESC \<longrightarrow> take 1 bs \<noteq> [BSL]"
      and n: "osc_end_from (Suc i) bs = None" by (auto split: if_splits)
  show ?case
  proof (cases "b = ESC")
    case False
    then show ?thesis using "2.IH" [OF b _ n, of "p @ [b]"] b by (simp split: prod.splits)
  next
    case True
    show ?thesis
    proof (cases bs)
      case Nil
      then show ?thesis using True by (simp add: in_payload_def)
    next
      case (Cons c cs)
      then have c: "c \<noteq> BSL" "c \<noteq> BEL" using e True n by (auto split: if_splits)
      have "osc_run (Payload p) (b # bs) = osc_run (Payload (p @ [ESC])) bs"
        using True Cons c by (simp add: Let_def split: prod.splits)
      then show ?thesis using "2.IH" [OF b _ n, of "p @ [ESC]"] True e by simp
    qed
  qed
qed

lemma run_end:
  "osc_end_from i bs = Some (e, s) \<Longrightarrow>
   osc_run (Payload p) bs =
     ((p @ take (e - i) bs) # fst (osc_run Ground (drop (s - i) bs)), snd (osc_run Ground (drop (s - i) bs)))"
proof (induction i bs arbitrary: p rule: osc_end_from.induct)
  case (2 i b bs)
  show ?case
  proof (cases "b = BEL \<or> (b = ESC \<and> take 1 bs = [BSL])")
    case True
    then show ?thesis using 2 by (cases bs) (auto split: prod.splits if_splits)
  next
    case False
    then have n: "osc_end_from (Suc i) bs = Some (e, s)" and b: "b \<noteq> BEL"
        and nb: "\<not> (b = ESC \<and> take 1 bs = [BSL])"
      using 2 by auto
    have le: "Suc i \<le> e" "Suc i \<le> s" using osc_end_from_bounds [OF n] by auto
    have tk: "take (e - i) (b # bs) = b # take (e - Suc i) bs"
        "drop (s - i) (b # bs) = drop (s - Suc i) bs"
      using le by (simp_all add: Suc_diff_Suc [symmetric] Suc_le_lessD take_Cons' drop_Cons')
    have "osc_run (Payload p) (b # bs) = osc_run (Payload (p @ [b])) bs"
    proof (cases "b = ESC")
      case True
      obtain c cs where bs: "bs = c # cs" using n by (cases bs) auto
      have c: "c \<noteq> BSL" using nb True bs by auto
      show ?thesis using True c by (simp add: bs Let_def split: prod.splits)
    qed (use b in \<open>simp split: prod.splits\<close>)
    then show ?thesis using "2.IH" [OF b nb n, of "p @ [b]"] by (simp add: tk)
  qed
qed simp

text \<open>The search for the end may be resumed at the last byte that was searched.\<close>

lemma end_resume:
  "osc_end_from i bs = None \<Longrightarrow> n < length bs \<Longrightarrow>
   osc_end_from i (bs @ cs) = osc_end_from (i + n) (drop n (bs @ cs))"
proof (induction n arbitrary: i bs)
  case (Suc n)
  then obtain b c bs' where bs: "bs = b # c # bs'" by (cases bs; cases "tl bs") auto
  have n: "osc_end_from (Suc i) (c # bs') = None" and b: "b \<noteq> BEL"
      and nb: "\<not> (b = ESC \<and> take 1 (c # bs') = [BSL])"
    using Suc.prems(1) by (auto simp: bs split: if_splits)
  have "osc_end_from i (bs @ cs) = osc_end_from (Suc i) ((c # bs') @ cs)"
    using b nb by (auto simp: bs)
  also have "\<dots> = osc_end_from (Suc i + n) (drop n ((c # bs') @ cs))"
    using Suc.IH [OF n] Suc.prems(2) by (simp add: bs)
  finally show ?case by (simp add: bs)
qed simp

text \<open>
  What the state keeps between two pieces: with an open command, exactly its bytes, searched up to
  the last; otherwise at most the tail, with no introducer in it.
\<close>

definition scan_of :: "signals \<Rightarrow> osc_scan" where
  "scan_of s = snd (osc_run Ground (sg_pending s))"

definition signals_ok :: "signals \<Rightarrow> bool" where
  "signals_ok s \<longleftrightarrow>
     (case sg_pending_osc s of
        None \<Rightarrow> osc_start 0 (sg_pending s) = None \<and> sg_scanned s = 0
          \<and> length (sg_pending s) \<le> SIGNAL_TAIL_BYTES
      | Some start \<Rightarrow> start = 0 \<and> (\<exists>raw. sg_pending s = ESC # RBR # raw \<and> osc_end_from 2 raw = None
          \<and> length (sg_pending s) \<le> MAX_PENDING_OSC_BYTES \<and> sg_scanned s = length (sg_pending s) - 1))"

text \<open>The part of the signals the detection reads.\<close>

definition same_detection :: "signals \<Rightarrow> signals \<Rightarrow> bool" where
  "same_detection s t \<longleftrightarrow>
     sg_agent_state s = sg_agent_state t \<and> sg_explicit_idle_at s = sg_explicit_idle_at t
     \<and> sg_active_title_seen s = sg_active_title_seen t \<and> sg_osc_title s = sg_osc_title t
     \<and> sg_osc_progress s = sg_osc_progress t"

lemma same_detection_refl [simp]: "same_detection s s"
  by (simp add: same_detection_def)

lemma same_detection_trans: "same_detection s t \<Longrightarrow> same_detection t u \<Longrightarrow> same_detection s u"
  by (simp add: same_detection_def)

lemma same_detection_scan [simp]:
  "same_detection (s\<lparr>sg_pending_osc := a\<rparr>) t = same_detection s t"
  "same_detection (s\<lparr>sg_scanned := b\<rparr>) t = same_detection s t"
  "same_detection (s\<lparr>sg_pending := c\<rparr>) t = same_detection s t"
  "same_detection s (t\<lparr>sg_pending_osc := a\<rparr>) = same_detection s t"
  "same_detection s (t\<lparr>sg_scanned := b\<rparr>) = same_detection s t"
  "same_detection s (t\<lparr>sg_pending := c\<rparr>) = same_detection s t"
  by (simp_all add: same_detection_def)

lemma observe_osc_same: "same_detection s t \<Longrightarrow> same_detection (observe_osc now p s) (observe_osc now p t)"
  by (simp add: same_detection_def observe_osc_def retain_detection_payload_def Let_def
      split: option.split prod.split)

lemma fold_osc_same:
  "same_detection s t \<Longrightarrow> same_detection (fold (observe_osc now) ps s) (fold (observe_osc now) ps t)"
  by (induction ps arbitrary: s t) (simp_all add: observe_osc_same)

text \<open>What the loop leaves, when it runs on pending bytes whose scan ends in \<open>q\<close>.\<close>

definition loop_left :: "bytes \<Rightarrow> osc_scan \<Rightarrow> signals \<times> nat \<Rightarrow> bool" where
  "loop_left bs q r \<longleftrightarrow>
     (let (s, consumed) = r in
      sg_pending s = bs \<and> consumed \<le> length bs
      \<and> (if in_payload q
         then (if MAX_PENDING_OSC_BYTES < length (raw_payload q) + 2
               then sg_pending_osc s = None \<and> sg_scanned s = 0 \<and> consumed = length bs
               else sg_pending_osc s = Some consumed \<and> sg_scanned s = length bs - 1
                 \<and> drop consumed bs = ESC # RBR # raw_payload q
                 \<and> osc_end_from 2 (raw_payload q) = None
                 \<and> osc_run Ground (drop consumed bs) = ([], q))
         else sg_pending_osc s = None \<and> sg_scanned s = 0
           \<and> osc_start 0 (drop consumed bs) = None \<and> snd (osc_run Ground (drop consumed bs)) = q))"

lemma osc_start_shift: "osc_start (i + k) bs = map_option (\<lambda>j. j + k) (osc_start i bs)"
  by (induction i bs rule: osc_start.induct) simp_all

lemma osc_end_from_shift:
  "osc_end_from (i + k) bs = map_option (\<lambda>(e, s). (e + k, s + k)) (osc_end_from i bs)"
  by (induction i bs rule: osc_end_from.induct) simp_all

lemma osc_start_bytes: "osc_start i bs = Some k \<Longrightarrow> \<exists>raw. drop (k - i) bs = ESC # RBR # raw"
proof (induction i bs arbitrary: k rule: osc_start.induct)
  case (1 i a b bs)
  show ?case
  proof (cases "a = ESC \<and> b = RBR")
    case False
    then have s: "osc_start (Suc i) (b # bs) = Some k"
      using "1.prems" by (auto split: if_splits)
    have "Suc i \<le> k" using osc_start_bounds [OF s] by simp
    then have "drop (k - i) (a # b # bs) = drop (k - Suc i) (b # bs)"
      by (simp add: Suc_diff_Suc [symmetric] Suc_le_lessD)
    then show ?thesis using "1.IH" [OF False s] by simp
  qed (use 1 in simp)
qed simp_all

lemma loop_end_found:
  "(case sg_pending_osc s of Some k \<Rightarrow> Some k
     | None \<Rightarrow> osc_start consumed (drop consumed (sg_pending s))) = Some k \<Longrightarrow>
   osc_end (sg_pending s) (max (sg_scanned s) (k + 2)) = Some (e, se) \<Longrightarrow>
   observe_loop now s consumed = observe_loop now
     ((observe_osc now (take (e - (k + 2)) (drop (k + 2) (sg_pending s))) s)
        \<lparr>sg_pending_osc := None, sg_scanned := 0\<rparr>) se"
  by (simp add: observe_loop.simps [of now s consumed] Let_def)

lemma loop_no_end:
  "(case sg_pending_osc s of Some k \<Rightarrow> Some k
     | None \<Rightarrow> osc_start consumed (drop consumed (sg_pending s))) = Some k \<Longrightarrow>
   osc_end (sg_pending s) (max (sg_scanned s) (k + 2)) = None \<Longrightarrow>
   observe_loop now s consumed =
     (if MAX_PENDING_OSC_BYTES < length (sg_pending s) - k
      then (s\<lparr>sg_pending_osc := None, sg_scanned := 0\<rparr>, length (sg_pending s))
      else (s\<lparr>sg_pending_osc := Some k, sg_scanned := length (sg_pending s) - 1\<rparr>, k))"
  by (simp add: observe_loop.simps [of now s consumed])

text \<open>An introducer at \<open>k\<close> whose command has no end yet.\<close>

lemma no_end_left:
  assumes k: "drop k P = ESC # RBR # body"
    and none: "osc_end_from (k + 2) body = None"
    and run: "osc_run (Payload []) body = (ps, q)"
    and P: "sg_pending s = P"
  shows "ps = []" and "loop_left P q
     (if MAX_PENDING_OSC_BYTES < length P - k
      then (s\<lparr>sg_pending_osc := None, sg_scanned := 0\<rparr>, length P)
      else (s\<lparr>sg_pending_osc := Some k, sg_scanned := length P - 1\<rparr>, k))"
proof -
  have q: "in_payload q" "ps = []" "raw_payload q = body"
    using run_no_end [OF none, of "[]"] by (simp_all add: run)
  show "ps = []" by (rule q(2))
  have len: "length P - k = length body + 2" using arg_cong [OF k, of length] by simp
  have "osc_end_from 2 body = None"
    using none osc_end_from_shift [of 2 k body] by (simp add: add.commute)
  moreover have "osc_run Ground (drop k P) = ([], q)"
    by (simp add: k run q(2) split: prod.splits)
  moreover have "k \<le> length P" using k by (cases "k \<le> length P") auto
  ultimately show "loop_left P q
     (if MAX_PENDING_OSC_BYTES < length P - k
      then (s\<lparr>sg_pending_osc := None, sg_scanned := 0\<rparr>, length P)
      else (s\<lparr>sg_pending_osc := Some k, sg_scanned := length P - 1\<rparr>, k))"
    using q k by (simp add: loop_left_def P len)
qed

lemma loop_ground:
  "sg_pending_osc s = None \<Longrightarrow> sg_scanned s = 0 \<Longrightarrow> consumed \<le> length (sg_pending s) \<Longrightarrow>
   same_detection s t \<Longrightarrow> osc_run Ground (drop consumed (sg_pending s)) = (ps, q) \<Longrightarrow>
   loop_left (sg_pending s) q (observe_loop now s consumed)
   \<and> same_detection (fst (observe_loop now s consumed)) (fold (observe_osc now) ps t)"
proof (induction now s consumed arbitrary: t ps rule: observe_loop.induct)
  case (1 now s c)
  let ?P = "sg_pending s"
  show ?case
  proof (cases "osc_start c (drop c ?P)")
    case None
    have z: "osc_start 0 (drop c ?P) = None" using None osc_start_shift [of 0 c "drop c ?P"] by simp
    have "observe_loop now s c = (s, c)"
      using None "1.prems"(1) by (simp add: observe_loop.simps [of now s c])
    moreover have "ps = []" "\<not> in_payload q"
      using run_no_start [OF z] "1.prems"(5) by (auto simp: in_payload_def)
    ultimately show ?thesis using "1.prems" z by (simp add: loop_left_def)
  next
    case (Some k)
    have b: "c \<le> k" "k + 2 \<le> c + length (drop c ?P)" using osc_start_bounds [OF Some] by auto
    obtain raw where raw: "drop (k - c) (drop c ?P) = ESC # RBR # raw"
      using osc_start_bytes [OF Some] by blast
    have k: "drop k ?P = ESC # RBR # raw" using raw b by simp
    have body: "drop (k + 2) ?P = raw"
      using arg_cong [OF k, of "drop 2"] by (simp add: add.commute)
    have run: "osc_run (Payload []) raw = (ps, q)"
      using run_start [OF Some] "1.prems"(5) b body by simp
    have st: "(case sg_pending_osc s of Some k \<Rightarrow> Some k | None \<Rightarrow> osc_start c (drop c ?P)) = Some k"
      using Some "1.prems"(1) by simp
    have en: "osc_end ?P (max (sg_scanned s) (k + 2)) = osc_end_from (k + 2) raw"
      using "1.prems"(2) body by (simp add: osc_end_def)
    show ?thesis
    proof (cases "osc_end_from (k + 2) raw")
      case None
      note n = no_end_left [OF k None run refl]
      show ?thesis
        using n "1.prems"(4) by (auto simp: loop_no_end [OF st trans [OF en None], of now])
    next
      case (Some es)
      obtain e se where es: "es = (e, se)" by (cases es)
      have f: "osc_end_from (k + 2) raw = Some (e, se)" using Some es by simp
      have bd: "k + 2 \<le> e" "e < se" "se \<le> k + 2 + length raw"
        using osc_end_from_bounds [OF f] by auto
      define s' where "s' = (observe_osc now (take (e - (k + 2)) raw) s)
          \<lparr>sg_pending_osc := None, sg_scanned := 0\<rparr>"
      have len: "length raw = length ?P - (k + 2)" using body by auto
      have "drop (se - (k + 2)) raw = drop se ?P" using bd body by (metis drop_drop le_add_diff_inverse2 le_trans less_imp_le)
      then have ps: "ps = take (e - (k + 2)) raw # fst (osc_run Ground (drop se ?P))"
          "q = snd (osc_run Ground (drop se ?P))"
        using run_end [OF f, of "[]"] run by auto
      have L: "observe_loop now s c = observe_loop now s' se"
        using loop_end_found [OF st trans [OF en f], of now] unfolding body s'_def .
      have "same_detection s' (observe_osc now (take (e - (k + 2)) raw) t)"
        using observe_osc_same [OF "1.prems"(4)] by (simp add: s'_def)
      moreover have "se \<le> length ?P" using bd len b by simp
      ultimately have "loop_left (sg_pending s') q (observe_loop now s' se)
          \<and> same_detection (fst (observe_loop now s' se))
              (fold (observe_osc now) (fst (osc_run Ground (drop se ?P)))
                (observe_osc now (take (e - (k + 2)) raw) t))"
        using ps(2) "1.IH" [OF st trans [OF en f] refl refl, unfolded body, folded s'_def,
            of "observe_osc now (take (e - (k + 2)) raw) t" "fst (osc_run Ground (drop se ?P))"]
        by (simp add: s'_def prod_eq_iff)
      then show ?thesis by (simp add: L ps s'_def)
    qed
  qed
qed

lemma osc_cut_payload:
  "in_payload q \<Longrightarrow>
   osc_cut q = (if MAX_PENDING_OSC_BYTES < length (raw_payload q) + 2 then Ground else q)"
  "\<not> in_payload q \<Longrightarrow> osc_cut q = q"
  by (cases q; simp add: in_payload_def)+

lemma osc_start_suffix: "osc_start i bs = None \<Longrightarrow> osc_start 0 (drop n bs) = None"
proof (induction i bs arbitrary: n rule: osc_start.induct)
  case (1 i a b bs)
  have s: "osc_start (Suc i) (b # bs) = None" and ab: "\<not> (a = ESC \<and> b = RBR)"
    using "1.prems" by (auto split: if_splits)
  show ?case
  proof (cases n)
    case 0
    have "osc_start (Suc 0) (b # bs) = None"
      using s osc_start_shift [of 0 "Suc i" "b # bs"] osc_start_shift [of 0 "Suc 0" "b # bs"] by simp
    then show ?thesis using 0 ab by simp
  next
    case (Suc m)
    then show ?thesis using "1.IH" [OF ab s, of m] by simp
  qed
qed (auto simp: drop_Cons split: nat.split)

text \<open>The rest of \<open>observe\<close>: the bytes done with are dropped, and all but the tail.\<close>

lemma left_observed:
  assumes l: "loop_left P q (observe_loop now (s\<lparr>sg_pending := sg_pending s @ bs\<rparr>) 0)"
  shows "signals_ok (signals_observe now bs s) \<and> scan_of (signals_observe now bs s) = osc_cut q
    \<and> same_detection (signals_observe now bs s)
        (fst (observe_loop now (s\<lparr>sg_pending := sg_pending s @ bs\<rparr>) 0))"
proof -
  obtain s2 c where r: "observe_loop now (s\<lparr>sg_pending := sg_pending s @ bs\<rparr>) 0 = (s2, c)"
    by (cases "observe_loop now (s\<lparr>sg_pending := sg_pending s @ bs\<rparr>) 0")
  define s1 where "s1 = (if 0 < c
      then s2\<lparr>sg_pending := drop c (sg_pending s2),
              sg_pending_osc := map_option (\<lambda>start. start - c) (sg_pending_osc s2),
              sg_scanned := sg_scanned s2 - c\<rparr>
      else s2)"
  have o: "signals_observe now bs s =
     (if sg_pending_osc s1 = None \<and> SIGNAL_TAIL_BYTES < length (sg_pending s1)
      then s1\<lparr>sg_pending := drop (length (sg_pending s1) - SIGNAL_TAIL_BYTES) (sg_pending s1),
              sg_scanned := 0\<rparr>
      else s1)"
    by (simp add: signals_observe_def r s1_def Let_def)
  have p1: "sg_pending s1 = drop c P" "sg_pending_osc s1 = map_option (\<lambda>st. st - c) (sg_pending_osc s2)"
      "sg_scanned s1 = sg_scanned s2 - c"
    using l r by (auto simp: loop_left_def s1_def option.map_id0 option.map_ident)
  have same: "same_detection s1 s2" by (simp add: s1_def)
  show ?thesis
  proof (cases "in_payload q")
    case True
    show ?thesis
    proof (cases "MAX_PENDING_OSC_BYTES < length (raw_payload q) + 2")
      case long: True
      have "sg_pending s1 = []" "sg_pending_osc s1 = None" "sg_scanned s1 = 0"
        using l True long by (auto simp: loop_left_def r p1)
      then show ?thesis using same True long
        by (simp add: o signals_ok_def scan_of_def osc_cut_payload r)
    next
      case short: False
      have "sg_pending_osc s1 = Some 0" "sg_pending s1 = ESC # RBR # raw_payload q"
          "osc_end_from 2 (raw_payload q) = None" "sg_scanned s1 = length P - 1 - c"
          "snd (osc_run Ground (sg_pending s1)) = q" "c \<le> length P"
        using l True short by (auto simp: loop_left_def r p1)
      moreover have "length P - 1 - c = length (sg_pending s1) - 1" by (simp add: p1)
      ultimately show ?thesis using same True short
        by (simp add: o signals_ok_def scan_of_def osc_cut_payload r)
    qed
  next
    case False
    let ?m = "length (drop c P) - SIGNAL_TAIL_BYTES"
    have f: "sg_pending_osc s1 = None" "sg_scanned s1 = 0" "osc_start 0 (drop c P) = None"
        "snd (osc_run Ground (drop c P)) = q"
      using l False by (auto simp: loop_left_def r p1)
    have z: "osc_start 0 (drop ?m (drop c P)) = None" by (rule osc_start_suffix [OF f(3)])
    have "snd (osc_run Ground (drop ?m (drop c P))) = q"
    proof (cases "length (drop c P) \<le> SIGNAL_TAIL_BYTES")
      case long: False
      then have "drop ?m (drop c P) \<noteq> []" "drop c P \<noteq> []"
          "last (drop ?m (drop c P)) = last (drop c P)"
        by (auto simp: SIGNAL_TAIL_BYTES_def)
      then have "snd (osc_run Ground (drop ?m (drop c P))) = GroundEsc \<longleftrightarrow>
          snd (osc_run Ground (drop c P)) = GroundEsc"
        using run_no_start [OF f(3)] run_no_start [OF z] by simp
      then show ?thesis using run_no_start [OF f(3)] run_no_start [OF z] f(4) by auto
    qed (use f(4) in simp)
    then show ?thesis using f z same False
      by (auto simp: o signals_ok_def scan_of_def osc_cut_payload r p1(1))
  qed
qed

lemma scan_of_run:
  "signals_ok s \<Longrightarrow> osc_run Ground (sg_pending s) = ([], scan_of s)"
  using run_no_start [of 0 "sg_pending s"] run_no_end [of 2 "tl (tl (sg_pending s))" "[]"]
  by (auto simp: signals_ok_def scan_of_def prod_eq_iff Let_def split: option.splits prod.splits)

lemma loop_follows:
  assumes ok: "signals_ok s" and same: "same_detection s t"
    and run: "osc_run (scan_of s) bs = (ps, q)"
  shows "loop_left (sg_pending s @ bs) q (observe_loop now (s\<lparr>sg_pending := sg_pending s @ bs\<rparr>) 0)
    \<and> same_detection (fst (observe_loop now (s\<lparr>sg_pending := sg_pending s @ bs\<rparr>) 0))
        (fold (observe_osc now) ps t)"
proof -
  let ?s = "s\<lparr>sg_pending := sg_pending s @ bs\<rparr>" and ?P = "sg_pending s @ bs"
  have all: "osc_run Ground ?P = (ps, q)"
    using scan_of_run [OF ok] run by (simp add: osc_run_append)
  show ?thesis
  proof (cases "sg_pending_osc s")
    case None
    have "sg_scanned s = 0" using ok None by (simp add: signals_ok_def)
    then show ?thesis
      using loop_ground [of ?s 0 t ps q now] None same all by simp
  next
    case (Some k0)
    obtain raw where raw: "sg_pending s = ESC # RBR # raw" "osc_end_from 2 raw = None"
        "sg_scanned s = length raw + 1" and k0: "k0 = 0"
      using ok Some by (auto simp: signals_ok_def)
    define body where "body = raw @ bs"
    have P: "?P = ESC # RBR # body" by (simp add: raw body_def)
    have rb: "osc_run (Payload []) body = (ps, q)"
      using all by (simp add: P Let_def split: prod.splits)
    have st: "(case sg_pending_osc ?s of Some k \<Rightarrow> Some k
        | None \<Rightarrow> osc_start 0 (drop 0 (sg_pending ?s))) = Some 0"
      using Some k0 by simp
    have en: "osc_end (sg_pending ?s) (max (sg_scanned ?s) (0 + 2)) = osc_end_from 2 body"
    proof (cases raw)
      case Nil
      then show ?thesis by (simp add: osc_end_def raw(1,3) body_def numeral_2_eq_2)
    next
      case (Cons r raw')
      then have "osc_end_from 2 body = osc_end_from (2 + length raw') (drop (length raw') body)"
        unfolding body_def by (intro end_resume [OF raw(2)]) simp
      then show ?thesis using Cons
        by (simp add: osc_end_def raw(3) P max_def)
    qed
    show ?thesis
    proof (cases "osc_end_from 2 body")
      case None
      have k: "drop 0 ?P = ESC # RBR # body" by (simp add: P)
      have none: "osc_end_from (0 + 2) body = None" by (simp only: add_0 None)
      note n = no_end_left [OF k none rb, of ?s]
      show ?thesis
        using n same
        by (auto simp: loop_no_end [OF st trans [OF en None], of now] simp del: P)
    next
      case (Some es)
      obtain e se where f: "osc_end_from 2 body = Some (e, se)" using Some by (cases es) simp
      have bd: "2 \<le> e" "e < se" "se \<le> 2 + length body"
        using osc_end_from_bounds [OF f] by auto
      define s' where "s' = (observe_osc now (take (e - 2) body) ?s)
          \<lparr>sg_pending_osc := None, sg_scanned := 0\<rparr>"
      have L: "observe_loop now ?s 0 = observe_loop now s' se"
        using loop_end_found [OF st trans [OF en f], of now] by (simp add: s'_def P numeral_2_eq_2)
      have dr: "drop (se - 2) body = drop se ?P"
        using bd by (simp add: P) (metis Suc_diff_Suc drop_Suc_Cons le_Suc_ex le_trans
            less_imp_le_nat numeral_2_eq_2 add_2_eq_Suc diff_add_inverse)
      have ps: "ps = take (e - 2) body # fst (osc_run Ground (drop se ?P))"
          "q = snd (osc_run Ground (drop se ?P))"
        using run_end [OF f, of "[]"] rb dr by auto
      have "same_detection s' (observe_osc now (take (e - 2) body) t)"
        using observe_osc_same same by (simp add: s'_def)
      moreover have "se \<le> length (sg_pending s')" using bd by (simp add: s'_def P)
      ultimately show ?thesis
        using loop_ground [of s' se "observe_osc now (take (e - 2) body) t"
            "fst (osc_run Ground (drop se ?P))" q now] ps
        by (simp add: L s'_def prod_eq_iff)
    qed
  qed
qed

lemma observe_follows:
  assumes "signals_ok s" and "same_detection s t"
  shows "case signals_reference now bs (scan_of s, t) of (q, t') \<Rightarrow>
    signals_ok (signals_observe now bs s) \<and> scan_of (signals_observe now bs s) = q
    \<and> same_detection (signals_observe now bs s) t'"
proof -
  obtain ps q where run: "osc_run (scan_of s) bs = (ps, q)" by (cases "osc_run (scan_of s) bs")
  note l = loop_follows [OF assms run, of now]
  show ?thesis
    using left_observed [OF conjunct1 [OF l]] conjunct2 [OF l]
    by (auto simp: signals_reference_def run intro: same_detection_trans)
qed

lemma signals_default_ok [simp]: "signals_ok signals_default" "scan_of signals_default = Ground"
  by (simp_all add: signals_ok_def signals_default_def scan_of_def)

lemma observe_all:
  "signals_ok s \<Longrightarrow> same_detection s t \<Longrightarrow>
   case fold (\<lambda>(now, bs). signals_reference now bs) chunks (scan_of s, t) of (q, t') \<Rightarrow>
     signals_ok (fold (\<lambda>(now, bs). signals_observe now bs) chunks s)
     \<and> scan_of (fold (\<lambda>(now, bs). signals_observe now bs) chunks s) = q
     \<and> same_detection (fold (\<lambda>(now, bs). signals_observe now bs) chunks s) t'"
proof (induction chunks arbitrary: s t)
  case Nil
  then show ?case by simp
next
  case (Cons ch chunks)
  obtain now bs where ch: "ch = (now, bs)" by (cases ch)
  obtain q t' where r: "signals_reference now bs (scan_of s, t) = (q, t')"
    by (cases "signals_reference now bs (scan_of s, t)")
  have o: "signals_ok (signals_observe now bs s)" "scan_of (signals_observe now bs s) = q"
      "same_detection (signals_observe now bs s) t'"
    using observe_follows [OF Cons.prems, of now bs] by (simp_all add: r)
  show ?case using Cons.IH [OF o(1,3)] by (simp add: ch r o(2))
qed

section \<open>Properties\<close>

text \<open>
  C13. However the output is cut into pieces, the incremental search over the pending buffer finds
  exactly the commands a byte-by-byte automaton finds, in the same order and with the same
  payloads, so the reported state, the idle time, the title and the progress are those of the
  automaton; a command still open at the end of a piece is given up exactly when it is longer than
  4096 bytes, and the buffer never holds more than that between two pieces.
\<close>

theorem signals_scan_exact:
  "let s = fold (\<lambda>(now, bs). signals_observe now bs) chunks signals_default;
       (q, t) = fold (\<lambda>(now, bs). signals_reference now bs) chunks (Ground, signals_default) in
     same_detection s t \<and> snd (osc_run Ground (sg_pending s)) = q
     \<and> length (sg_pending s) \<le> 4096"
proof -
  have "signals_ok s \<Longrightarrow> length (sg_pending s) \<le> 4096" for s
    by (auto simp: signals_ok_def SIGNAL_TAIL_BYTES_def MAX_PENDING_OSC_BYTES_def
        split: option.splits)
  then show ?thesis
    using observe_all [OF signals_default_ok(1) same_detection_refl, of chunks]
    by (auto simp: Let_def split_beta scan_of_def [symmetric] simp del: scan_of_def)
qed

end
