(* ===== verification/AgentState.thy ===== *)
theory AgentState
  imports Signals PromptCapture
begin

text \<open>
  The agent of a terminal (\<open>src/src/terminal.rs\<close>, \<open>src/src/agent_events.rs\<close>): what is remembered of
  it (\<open>AgentInfo\<close>, \<open>ForegroundCommandInfo\<close>, \<open>SessionActivity\<close>), the decisions on its status
  (\<open>screen_detection_outcome\<close>, \<open>resolve_agent_status\<close>, \<open>select_agent_status\<close>,
  \<open>initial_agent_state\<close>), the freshness and sequence rules of the reports its hooks send
  (\<open>expire_native_state\<close>, \<open>accept_native_sequence\<close>) and the command in the foreground
  (\<open>ForegroundCommandTracker\<close>).

  Times are milliseconds, \<open>u64\<close> as \<^typ>\<open>nat\<close> with the saturating operations the code uses; sample
  counters are \<open>u8\<close> and stop at 255. The result of screen detection (\<open>agent_detection.rs\<close>) is an
  argument.
\<close>

section \<open>Data\<close>

datatype agent_status = Working | Blocked | Idle | Closed

record agent_activity =
  aa_label :: ustring
  aa_updated_at :: nat

record agent_info =
  ai_kind :: ustring
  ai_status :: agent_status
  ai_status_changed_at :: nat
  ai_started_at :: nat
  ai_revision :: nat
  ai_completed_at :: "nat option"
  ai_summary :: "ustring option"
  ai_activity :: "agent_activity option"

datatype command_status = CommandRunning | CommandLive | CommandCompleted

record foreground_command =
  fg_name :: ustring
  fg_status :: command_status
  fg_status_changed_at :: nat
  fg_started_at :: nat
  fg_completed_at :: "nat option"

record command_candidate =
  cc_group :: int
  cc_name :: ustring
  cc_first_seen_at :: nat
  cc_live :: bool

record pending_submission =
  ps_foreground_group :: int
  ps_submitted_at :: nat
  ps_prompt :: ustring

record session_activity =
  ac_automatic_name :: bool
  ac_generated_title :: "ustring option"
  ac_native_title :: bool
  ac_first_prompt :: "ustring option"
  ac_agent_pid :: "nat option"
  ac_agent_start_ticks :: "nat option"
  ac_last_cpu_ticks :: nat
  ac_last_sample_output_bytes :: nat
  ac_active_samples :: nat
  ac_quiet_samples :: nat
  ac_input_submitted_at :: nat
  ac_prompt_capture :: prompt_capture
  ac_pending_submission :: "pending_submission option"
  ac_native_provider :: "ustring option"
  ac_native_status :: "agent_status option"
  ac_native_updated_at :: nat
  ac_native_sequence_provider :: "ustring option"
  ac_last_native_sequence :: "nat option"
  ac_foreground_candidate :: "command_candidate option"

definition activity_default :: session_activity where
  "activity_default =
     \<lparr>ac_automatic_name = True, ac_generated_title = None, ac_native_title = False,
      ac_first_prompt = None, ac_agent_pid = None, ac_agent_start_ticks = None,
      ac_last_cpu_ticks = 0, ac_last_sample_output_bytes = 0, ac_active_samples = 0,
      ac_quiet_samples = 0, ac_input_submitted_at = 0, ac_prompt_capture = capture_default,
      ac_pending_submission = None, ac_native_provider = None, ac_native_status = None,
      ac_native_updated_at = 0, ac_native_sequence_provider = None, ac_last_native_sequence = None,
      ac_foreground_candidate = None\<rparr>"

definition MEANINGFUL_OUTPUT_BYTES :: nat where "MEANINGFUL_OUTPUT_BYTES = 2 * 1024"
definition MEANINGFUL_CPU_TICKS :: nat where "MEANINGFUL_CPU_TICKS = 3"
definition ACTIVE_SAMPLES_TO_WORKING :: nat where "ACTIVE_SAMPLES_TO_WORKING = 3"
definition QUIET_SAMPLES_TO_IDLE :: nat where "QUIET_SAMPLES_TO_IDLE = 5"
definition SUBMISSION_WORKING_MILLIS :: nat where "SUBMISSION_WORKING_MILLIS = 12000"
definition PI_QUIET_SAMPLES_TO_IDLE :: nat where "PI_QUIET_SAMPLES_TO_IDLE = 2"
definition PI_SUBMISSION_WORKING_MILLIS :: nat where "PI_SUBMISSION_WORKING_MILLIS = 3000"
definition REPORTED_WORKING_FRESH_MILLIS :: nat where "REPORTED_WORKING_FRESH_MILLIS = 5000"
definition NATIVE_EVENT_FRESH_MILLIS :: nat where "NATIVE_EVENT_FRESH_MILLIS = 15000"
definition LONG_RUNNING_COMMAND_MILLIS :: nat where "LONG_RUNNING_COMMAND_MILLIS = 5000"

lemmas agent_constants = MEANINGFUL_OUTPUT_BYTES_def MEANINGFUL_CPU_TICKS_def
  ACTIVE_SAMPLES_TO_WORKING_def QUIET_SAMPLES_TO_IDLE_def SUBMISSION_WORKING_MILLIS_def
  PI_QUIET_SAMPLES_TO_IDLE_def PI_SUBMISSION_WORKING_MILLIS_def
  REPORTED_WORKING_FRESH_MILLIS_def NATIVE_EVENT_FRESH_MILLIS_def

definition sat_add8 :: "nat \<Rightarrow> nat \<Rightarrow> nat" where
  "sat_add8 a b = min (a + b) 255"

section \<open>Screen detection and the resolution of the status\<close>

datatype detected_state = DetectedIdle | DetectedWorking | DetectedBlocked | DetectedUnknown

record detection =
  dt_state :: detected_state
  dt_skip_state_update :: bool
  dt_visible_idle :: bool
  dt_visible_blocker :: bool
  dt_matched_rule :: bool

datatype detection_outcome = Keep | Status agent_status | Undecided

definition screen_detection_outcome :: "detection option \<Rightarrow> detection_outcome" where
  "screen_detection_outcome d =
     (case d of
        None \<Rightarrow> Undecided
      | Some d \<Rightarrow>
          if dt_skip_state_update d then Keep
          else if \<not> dt_matched_rule d then Undecided
          else case dt_state d of
            DetectedBlocked \<Rightarrow> Status Blocked
          | DetectedWorking \<Rightarrow> Status Working
          | DetectedIdle \<Rightarrow> if dt_visible_idle d then Status Idle else Undecided
          | DetectedUnknown \<Rightarrow> Keep)"

record status_fallback =
  fb_agent_kind :: ustring
  fb_current_status :: agent_status
  fb_reported_state :: "(reported_state \<times> nat) option"
  fb_now :: nat
  fb_input_submitted_at :: nat
  fb_resumed_after_completion :: bool
  fb_active_samples :: nat
  fb_quiet_samples :: nat

definition redraws_signal_activity :: "ustring \<Rightarrow> bool" where
  "redraws_signal_activity kind \<longleftrightarrow> kind = lit ''pi'' \<or> kind = lit ''omp''"

definition reported_status :: "status_fallback \<Rightarrow> agent_status option" where
  "reported_status f =
     (case fb_reported_state f of
        Some (ReportedBlocked, at) \<Rightarrow> if fb_input_submitted_at f \<le> at then Some Blocked else None
      | Some (ReportedIdle, at) \<Rightarrow> if fb_input_submitted_at f \<le> at then Some Idle else None
      | Some (ReportedWorking, at) \<Rightarrow>
          if fb_now f - at \<le> REPORTED_WORKING_FRESH_MILLIS then Some Working else None
      | None \<Rightarrow> None)"

definition select_agent_status :: "status_fallback \<Rightarrow> agent_status" where
  "select_agent_status f =
     (if fb_input_submitted_at f = 0 \<and> \<not> fb_resumed_after_completion f then Idle
      else case reported_status f of
        Some s \<Rightarrow> s
      | None \<Rightarrow>
          if fb_input_submitted_at f = 0 then Idle
          else let pi = redraws_signal_activity (fb_agent_kind f);
                   millis = (if pi then PI_SUBMISSION_WORKING_MILLIS else SUBMISSION_WORKING_MILLIS);
                   quiet = (if pi then PI_QUIET_SAMPLES_TO_IDLE else QUIET_SAMPLES_TO_IDLE)
               in if fb_now f - fb_input_submitted_at f \<le> millis
                     \<or> ACTIVE_SAMPLES_TO_WORKING \<le> fb_active_samples f
                     \<or> (fb_current_status f = Working \<and> fb_quiet_samples f < quiet)
                  then Working else Idle)"

definition resolve_agent_status ::
    "agent_status option \<Rightarrow> detection option \<Rightarrow> status_fallback \<Rightarrow> agent_status" where
  "resolve_agent_status native d f =
     (if fb_agent_kind f = lit ''agy'' \<and> native \<noteq> Some Idle \<and> native \<noteq> Some Closed
         \<and> (case d of None \<Rightarrow> False | Some d \<Rightarrow> dt_visible_blocker d)
         \<and> screen_detection_outcome d = Status Blocked
      then Blocked
      else case native of
        Some s \<Rightarrow> s
      | None \<Rightarrow>
          (case screen_detection_outcome d of
             Keep \<Rightarrow> fb_current_status f
           | Status s \<Rightarrow> s
           | Undecided \<Rightarrow> select_agent_status f))"

definition agent_sample_active :: "ustring \<Rightarrow> nat \<Rightarrow> nat \<Rightarrow> bool" where
  "agent_sample_active kind cpu_delta output_delta =
     (if redraws_signal_activity kind then 0 < output_delta
      else MEANINGFUL_CPU_TICKS \<le> cpu_delta \<or> MEANINGFUL_OUTPUT_BYTES \<le> output_delta)"

record initial_agent_state =
  in_status :: agent_status
  in_revision :: nat
  in_input_submitted_at :: nat
  in_completed_at :: "nat option"

definition initial_agent_state ::
    "(reported_state \<times> nat) option \<Rightarrow> nat \<Rightarrow> nat \<Rightarrow> nat option \<Rightarrow> initial_agent_state" where
  "initial_agent_state reported now startup_revision submitted_at =
     (case submitted_at of
        None \<Rightarrow> \<lparr>in_status = Idle, in_revision = startup_revision, in_input_submitted_at = 0,
                 in_completed_at = None\<rparr>
      | Some submitted \<Rightarrow>
          (let completed = (case reported of
                              Some (state, at) \<Rightarrow> state = ReportedIdle \<and> submitted \<le> at
                            | None \<Rightarrow> False)
           in \<lparr>in_status = if completed then Idle else Working,
               in_revision = sat_add startup_revision (if completed then 2 else 1),
               in_input_submitted_at = if completed then 0 else submitted,
               in_completed_at = if completed then Some now else None\<rparr>))"

section \<open>Hook reports\<close>

definition clear_native :: "session_activity \<Rightarrow> session_activity" where
  "clear_native a = a\<lparr>ac_native_provider := None, ac_native_status := None, ac_native_updated_at := 0\<rparr>"

definition clear_native_sequence :: "session_activity \<Rightarrow> session_activity" where
  "clear_native_sequence a =
     a\<lparr>ac_native_sequence_provider := None, ac_last_native_sequence := None\<rparr>"

definition expire_native_state ::
    "nat \<Rightarrow> nat option \<Rightarrow> detection option \<Rightarrow> session_activity \<Rightarrow> bool \<times> session_activity" where
  "expire_native_state now explicit_idle_at d a =
     (if ac_native_status a = Some Blocked then (False, a)
      else if ac_native_status a = None
              \<or> now - ac_native_updated_at a \<le> NATIVE_EVENT_FRESH_MILLIS
      then (False, a)
      else if (ac_native_provider a = Some (lit ''codex'') \<or> ac_native_provider a = Some (lit ''agy''))
              \<and> \<not> (ac_native_status a = Some Working
                   \<and> (case explicit_idle_at of Some at \<Rightarrow> ac_native_updated_at a < at | None \<Rightarrow> False)
                   \<and> screen_detection_outcome d = Status Idle)
      then (False, a)
      else (True, clear_native a))"

definition accept_native_sequence ::
    "ustring \<Rightarrow> nat option \<Rightarrow> session_activity \<Rightarrow> bool \<times> session_activity" where
  "accept_native_sequence provider sequence a =
     (let adopt = (\<lambda>b. case sequence of
                         Some n \<Rightarrow> b\<lparr>ac_native_sequence_provider := Some provider,
                                     ac_last_native_sequence := Some n\<rparr>
                       | None \<Rightarrow> b)
      in case ac_native_sequence_provider a of
           Some active \<Rightarrow>
             (if active = provider
              then (case (ac_last_native_sequence a, sequence) of
                      (Some l, Some n) \<Rightarrow>
                        if n \<le> l then (False, a) else (True, a\<lparr>ac_last_native_sequence := Some n\<rparr>)
                    | (Some l, None) \<Rightarrow> (False, a)
                    | (None, Some n) \<Rightarrow> (True, a\<lparr>ac_last_native_sequence := Some n\<rparr>)
                    | (None, None) \<Rightarrow> (True, a))
              else (True, adopt (clear_native_sequence a)))
         | None \<Rightarrow> (True, adopt a))"

section \<open>Prompts\<close>

definition substantive_prompt :: "ustring option \<Rightarrow> ustring option" where
  "substantive_prompt submitted =
     (case submitted of
        None \<Rightarrow> None
      | Some p \<Rightarrow> let t = trim p in if t \<noteq> [] \<and> head_char t \<noteq> Some 47 then Some t else None)"

definition note_first_prompt :: "ustring option \<Rightarrow> session_activity \<Rightarrow> session_activity" where
  "note_first_prompt submitted a =
     (if ac_first_prompt a \<noteq> None then a else a\<lparr>ac_first_prompt := substantive_prompt submitted\<rparr>)"

definition begin_submission ::
    "nat \<Rightarrow> ustring option \<Rightarrow> session_activity \<Rightarrow> agent_info \<Rightarrow> session_activity \<times> agent_info" where
  "begin_submission submitted_at prompt a g =
     (let a1 = note_first_prompt prompt a in
      if prompt = None \<and> ac_input_submitted_at a1 = 0 then (a1, g)
      else (clear_native (a1\<lparr>ac_input_submitted_at := submitted_at, ac_active_samples := 0,
                            ac_quiet_samples := 0\<rparr>),
            let g1 = g\<lparr>ai_activity := None\<rparr> in
            if ai_status g1 \<noteq> Working
            then g1\<lparr>ai_status := Working, ai_status_changed_at := submitted_at,
                    ai_revision := sat_add (ai_revision g1) 1, ai_completed_at := None,
                    ai_summary := None\<rparr>
            else g1))"

section \<open>The foreground command\<close>

record foreground_observation =
  fo_group :: int
  fo_name :: ustring

definition command_finish ::
    "nat \<Rightarrow> command_candidate option \<Rightarrow> foreground_command option
       \<Rightarrow> command_candidate option \<times> foreground_command option" where
  "command_finish now candidate current =
     (case candidate of
        None \<Rightarrow> (None, current)
      | Some cand \<Rightarrow>
          (None,
           case current of
             None \<Rightarrow> None
           | Some command \<Rightarrow>
               if fg_name command \<noteq> cc_name cand then Some command
               else case fg_status command of
                 CommandRunning \<Rightarrow> Some (command\<lparr>fg_status := CommandCompleted,
                                     fg_status_changed_at := now, fg_completed_at := Some now\<rparr>)
               | CommandLive \<Rightarrow> None
               | CommandCompleted \<Rightarrow> Some command))"

definition command_status_of :: "nat \<Rightarrow> command_candidate \<Rightarrow> command_status option" where
  "command_status_of now cand =
     (if cc_live cand then Some CommandLive
      else if LONG_RUNNING_COMMAND_MILLIS \<le> now - cc_first_seen_at cand then Some CommandRunning
      else None)"

definition command_refresh ::
    "foreground_observation option \<Rightarrow> bool \<Rightarrow> bool \<Rightarrow> nat
       \<Rightarrow> command_candidate option \<Rightarrow> foreground_command option
       \<Rightarrow> command_candidate option \<times> foreground_command option" where
  "command_refresh obs alternate agent_active now candidate current =
     (if agent_active then (None, None)
      else case obs of
        None \<Rightarrow> command_finish now candidate current
      | Some ob \<Rightarrow>
          (let (cand, current1) =
             (case candidate of
                Some cand \<Rightarrow>
                  if cc_group cand = fo_group ob
                  then (if alternate then cand\<lparr>cc_live := True\<rparr> else cand, current)
                  else (\<lparr>cc_group = fo_group ob, cc_name = fo_name ob, cc_first_seen_at = now,
                         cc_live = alternate\<rparr>, snd (command_finish now candidate current))
              | None \<Rightarrow> (\<lparr>cc_group = fo_group ob, cc_name = fo_name ob, cc_first_seen_at = now,
                          cc_live = alternate\<rparr>, snd (command_finish now candidate current)))
           in (Some cand,
               case command_status_of now cand of
                 None \<Rightarrow> current1
               | Some status \<Rightarrow>
                   if (case current1 of
                         Some command \<Rightarrow> fg_name command = cc_name cand \<and> fg_status command = status
                       | None \<Rightarrow> False)
                   then current1
                   else Some \<lparr>fg_name = cc_name cand, fg_status = status, fg_status_changed_at = now,
                              fg_started_at = cc_first_seen_at cand, fg_completed_at = None\<rparr>)))"

end
