(* ===== verification/AgentSession.thy ===== *)
theory AgentSession
  imports AgentState
begin

text \<open>
  The operations of a terminal session on its agent (\<open>src/src/terminal.rs\<close>):
  \<open>observe_accepted_input\<close>, \<open>refresh_process_metadata\<close>, \<open>apply_agent_event\<close>, \<open>exited\<close>, and the
  manager's \<open>rename\<close>, \<open>apply_fili_name\<close> and \<open>apply_fili_summary\<close> on one session. Each runs under
  the session's locks and is one step. What the operating system and the screen detection say is an
  argument of the step: the foreground process group, the observed processes, the bytes counted and
  whether the alternate screen is shown. The transcript that an event may carry is kept apart by the
  code (\<open>AgentTranscriptStore\<close>) and is not part of this state.
\<close>

section \<open>State\<close>

record agent_session =
  ss_name :: ustring
  ss_workspace :: ustring
  ss_path :: ustring
  ss_program :: ustring
  ss_agent :: "agent_info option"
  ss_command :: "foreground_command option"
  ss_pid :: "nat option"
  ss_running :: bool
  ss_exit_code :: "nat option"
  ss_activity :: session_activity
  ss_signals :: signals

text \<open>\<open>terminal_path\<close>\<close>

definition terminal_path :: "ustring \<Rightarrow> ustring \<Rightarrow> ustring" where
  "terminal_path workspace name =
     (if workspace = lit ''/'' then lit ''/'' @ name
      else rev (dropWhile (\<lambda>c. c = 47) (rev workspace)) @ lit ''/'' @ name)"

definition set_name :: "ustring \<Rightarrow> agent_session \<Rightarrow> agent_session" where
  "set_name name s = s\<lparr>ss_name := name, ss_path := terminal_path (ss_workspace s) name\<rparr>"

section \<open>Input\<close>

definition agent_alive :: "agent_session \<Rightarrow> bool" where
  "agent_alive s \<longleftrightarrow> (case ss_agent s of Some g \<Rightarrow> ai_status g \<noteq> Closed | None \<Rightarrow> False)"

definition observe_accepted_input :: "nat \<Rightarrow> bytes \<Rightarrow> int option \<Rightarrow> agent_session \<Rightarrow> agent_session" where
  "observe_accepted_input now data foreground_group s0 =
     (let (pc, input) = observe_prompt data (ac_prompt_capture (ss_activity s0));
          s = s0\<lparr>ss_activity := (ss_activity s0)\<lparr>ac_prompt_capture := pc\<rparr>\<rparr>
      in if \<not> pi_submitted input then s
         else case ss_agent s of
           Some g \<Rightarrow>
             (if ai_status g \<noteq> Closed
              then let (a, g') = begin_submission now (pi_prompt input) (ss_activity s) g
                   in s\<lparr>ss_activity := a, ss_agent := Some g'\<rparr>
              else case (pi_prompt input, foreground_group) of
                (Some prompt, Some fgroup) \<Rightarrow>
                  s\<lparr>ss_activity := (ss_activity s)\<lparr>ac_pending_submission := Some
                     \<lparr>ps_foreground_group = fgroup, ps_submitted_at = now, ps_prompt = prompt\<rparr>\<rparr>\<rparr>
              | _ \<Rightarrow> s)
         | None \<Rightarrow>
             (case (pi_prompt input, foreground_group) of
                (Some prompt, Some fgroup) \<Rightarrow>
                  s\<lparr>ss_activity := (ss_activity s)\<lparr>ac_pending_submission := Some
                     \<lparr>ps_foreground_group = fgroup, ps_submitted_at = now, ps_prompt = prompt\<rparr>\<rparr>\<rparr>
              | _ \<Rightarrow> s))"

section \<open>The monitor's sample\<close>

record agent_observation =
  ob_kind :: ustring
  ob_pid :: nat
  ob_start_ticks :: nat
  ob_cpu_ticks :: nat

record process_observation =
  po_program :: ustring
  po_shell_foreground :: bool
  po_agent :: "agent_observation option"
  po_foreground :: "foreground_observation option"

record sample =
  sm_now :: nat
  sm_observation :: process_observation
  sm_alternate_screen :: bool
  sm_output_bytes :: nat
  sm_detection :: "detection option"

definition process_identity_changed :: "session_activity \<Rightarrow> agent_observation \<Rightarrow> bool" where
  "process_identity_changed a ob \<longleftrightarrow>
     ac_agent_pid a \<noteq> None
     \<and> (ac_agent_pid a \<noteq> Some (ob_pid ob)
        \<or> (case ac_agent_start_ticks a of Some t \<Rightarrow> t \<noteq> ob_start_ticks ob | None \<Rightarrow> False))"

definition is_new_agent :: "agent_session \<Rightarrow> agent_observation \<Rightarrow> bool" where
  "is_new_agent s ob \<longleftrightarrow>
     ac_agent_pid (ss_activity s) \<noteq> Some (ob_pid ob)
     \<or> (case ac_agent_start_ticks (ss_activity s) of Some t \<Rightarrow> t \<noteq> ob_start_ticks ob | None \<Rightarrow> False)
     \<or> (case ss_agent s of Some g \<Rightarrow> ai_kind g \<noteq> ob_kind ob | None \<Rightarrow> True)"

definition pending_for :: "sample \<Rightarrow> session_activity \<Rightarrow> pending_submission option" where
  "pending_for m a =
     (case ac_pending_submission a of
        None \<Rightarrow> None
      | Some p \<Rightarrow>
          if map_option fo_group (po_foreground (sm_observation m)) = Some (ps_foreground_group p)
          then Some p else None)"

text \<open>The branch of an agent that was not there in the last sample.\<close>

definition refresh_new_agent :: "sample \<Rightarrow> agent_observation \<Rightarrow> agent_session \<Rightarrow> agent_session" where
  "refresh_new_agent m ob s =
     (let a0 = ss_activity s;
          changed = process_identity_changed a0 ob;
          provider_changed = (case ss_agent s of Some g \<Rightarrow> ai_kind g \<noteq> ob_kind ob | None \<Rightarrow> False);
          a1 = (if changed \<or> provider_changed then clear_native_sequence a0 else a0);
          preserve = (ac_native_provider a1 = Some (ob_kind ob) \<and> \<not> changed
            \<and> (case ss_agent s of Some g \<Rightarrow> ai_kind g = ob_kind ob | None \<Rightarrow> False));
          pending = pending_for m a1;
          a2 = a1\<lparr>ac_pending_submission := None, ac_agent_pid := Some (ob_pid ob),
                  ac_agent_start_ticks := Some (ob_start_ticks ob),
                  ac_last_cpu_ticks := ob_cpu_ticks ob,
                  ac_last_sample_output_bytes := sm_output_bytes m,
                  ac_active_samples := 0, ac_quiet_samples := 0,
                  ac_prompt_capture := capture_default, ac_generated_title := None,
                  ac_native_title := False, ac_first_prompt := None\<rparr>
      in if preserve
         then s\<lparr>ss_activity := a2\<lparr>ac_input_submitted_at :=
                  if ac_native_status a2 = Some Working then sm_now m else 0\<rparr>\<rparr>
         else let revision = (case ss_agent s of None \<Rightarrow> 1 | Some g \<Rightarrow> sat_add (ai_revision g) 1);
                  init = initial_agent_state (sg_agent_state (ss_signals s)) (sm_now m) revision
                           (map_option ps_submitted_at pending);
                  a3 = (clear_native a2)\<lparr>ac_input_submitted_at := in_input_submitted_at init\<rparr>;
                  a4 = (case pending of None \<Rightarrow> a3
                        | Some p \<Rightarrow> note_first_prompt (Some (ps_prompt p)) a3)
              in s\<lparr>ss_activity := a4, ss_signals := clear_detection_payloads (ss_signals s),
                   ss_agent := Some \<lparr>ai_kind = ob_kind ob, ai_status = in_status init,
                     ai_status_changed_at = sm_now m, ai_started_at = sm_now m,
                     ai_revision = in_revision init, ai_completed_at = in_completed_at init,
                     ai_summary = None, ai_activity = None\<rparr>\<rparr>)"

definition count_samples :: "sample \<Rightarrow> agent_observation \<Rightarrow> session_activity \<Rightarrow> session_activity" where
  "count_samples m ob a =
     (let active = agent_sample_active (ob_kind ob) (ob_cpu_ticks ob - ac_last_cpu_ticks a)
                     (sm_output_bytes m - ac_last_sample_output_bytes a);
          b = a\<lparr>ac_last_cpu_ticks := ob_cpu_ticks ob,
                ac_last_sample_output_bytes := sm_output_bytes m\<rparr>
      in if active
         then b\<lparr>ac_active_samples := sat_add8 (ac_active_samples b) 1, ac_quiet_samples := 0\<rparr>
         else b\<lparr>ac_active_samples := 0, ac_quiet_samples := sat_add8 (ac_quiet_samples b) 1\<rparr>)"

definition fallback_of :: "sample \<Rightarrow> agent_observation \<Rightarrow> agent_session \<Rightarrow> status_fallback" where
  "fallback_of m ob s =
     \<lparr>fb_agent_kind = ob_kind ob,
      fb_current_status = (case ss_agent s of Some g \<Rightarrow> ai_status g | None \<Rightarrow> Idle),
      fb_reported_state = sg_agent_state (ss_signals s), fb_now = sm_now m,
      fb_input_submitted_at = ac_input_submitted_at (ss_activity s),
      fb_resumed_after_completion =
        (case ss_agent s of Some g \<Rightarrow> ai_completed_at g \<noteq> None | None \<Rightarrow> False),
      fb_active_samples = ac_active_samples (ss_activity s),
      fb_quiet_samples = ac_quiet_samples (ss_activity s)\<rparr>"

text \<open>A change of the agent's status to \<open>next\<close> at \<open>now\<close>.\<close>

definition move_agent ::
    "nat \<Rightarrow> agent_status \<Rightarrow> session_activity \<Rightarrow> agent_info \<Rightarrow> session_activity \<times> agent_info" where
  "move_agent now next a g =
     (if ai_status g = next then (a, g)
      else let was_working = (ai_status g = Working);
               g1 = g\<lparr>ai_status := next, ai_status_changed_at := now,
                      ai_revision := sat_add (ai_revision g) 1\<rparr>;
               g2 = (if next \<noteq> Working then g1\<lparr>ai_activity := None\<rparr> else g1)
           in if was_working \<and> next = Idle \<and> 0 < ac_input_submitted_at a
              then (a\<lparr>ac_input_submitted_at := 0\<rparr>,
                    g2\<lparr>ai_completed_at := Some now, ai_summary := None\<rparr>)
              else (a, g2))"

definition refresh_same_agent :: "sample \<Rightarrow> agent_observation \<Rightarrow> agent_session \<Rightarrow> agent_session" where
  "refresh_same_agent m ob s0 =
     (let s = s0\<lparr>ss_activity := count_samples m ob (ss_activity s0)\<rparr>;
          next = resolve_agent_status (ac_native_status (ss_activity s)) (sm_detection m)
                   (fallback_of m ob s);
          a = (if next = Working \<and> ac_input_submitted_at (ss_activity s) = 0
               then (ss_activity s)\<lparr>ac_input_submitted_at := sm_now m\<rparr> else ss_activity s)
      in case ss_agent s of
           None \<Rightarrow> s\<lparr>ss_activity := a\<rparr>
         | Some g \<Rightarrow>
             (let (a', g') = move_agent (sm_now m) next a g
              in s\<lparr>ss_activity := a', ss_agent := Some g'\<rparr>))"

definition close_agent :: "nat \<Rightarrow> session_activity \<Rightarrow> agent_info \<Rightarrow> agent_info" where
  "close_agent now a g =
     (if ai_status g = Closed then g
      else let g1 = g\<lparr>ai_status := Closed, ai_revision := sat_add (ai_revision g) 1,
                      ai_activity := None\<rparr>
           in if 0 < ac_input_submitted_at a
              then g1\<lparr>ai_completed_at := Some now, ai_summary := None\<rparr> else g1)"

text \<open>The branch of a sample that shows no agent.\<close>

definition refresh_no_agent :: "sample \<Rightarrow> agent_session \<Rightarrow> agent_session" where
  "refresh_no_agent m s =
     (let a0 = ss_activity s;
          agent = map_option (close_agent (sm_now m) a0) (ss_agent s);
          a1 = clear_native_sequence (clear_native (a0\<lparr>ac_agent_pid := None,
                 ac_agent_start_ticks := None, ac_active_samples := 0, ac_quiet_samples := 0,
                 ac_input_submitted_at := 0\<rparr>));
          shell = po_shell_foreground (sm_observation m);
          a2 = (if shell then a1 else a1\<lparr>ac_generated_title := None, ac_native_title := False\<rparr>);
          agent2 = (if shell then agent else None);
          s1 = s\<lparr>ss_activity := a2, ss_signals := signals_default, ss_agent := agent2\<rparr>
      in if ac_automatic_name a2 \<and> ac_generated_title a2 = None
         then s1\<lparr>ss_name :=
                (if shell
                 then (case agent2 of
                         Some g \<Rightarrow> if ai_status g = Closed then ai_kind g
                                   else po_program (sm_observation m)
                       | None \<Rightarrow> po_program (sm_observation m))
                 else po_program (sm_observation m))\<rparr>
         else s1)"

definition agent_signature :: "agent_session \<Rightarrow> (ustring \<times> agent_status \<times> nat) option" where
  "agent_signature s = map_option (\<lambda>g. (ai_kind g, ai_status g, ai_revision g)) (ss_agent s)"

definition refresh_agent :: "sample \<Rightarrow> agent_session \<Rightarrow> agent_session" where
  "refresh_agent m s =
     (case po_agent (sm_observation m) of
        Some ob \<Rightarrow>
          (let s1 = (if is_new_agent s ob then refresh_new_agent m ob s else refresh_same_agent m ob s)
           in if ac_automatic_name (ss_activity s1) \<and> ac_generated_title (ss_activity s1) = None
              then s1\<lparr>ss_name := ob_kind ob\<rparr> else s1)
      | None \<Rightarrow> refresh_no_agent m s)"

text \<open>What a sample does before it looks at the agent.\<close>

definition sample_prepared :: "sample \<Rightarrow> agent_session \<Rightarrow> agent_session" where
  "sample_prepared m s =
     (let (expired, a1) = expire_native_state (sm_now m) (sg_explicit_idle_at (ss_signals s))
            (sm_detection m) (ss_activity s);
          (cand, command) = command_refresh (po_foreground (sm_observation m))
            (sm_alternate_screen m) (po_agent (sm_observation m) \<noteq> None) (sm_now m)
            (ac_foreground_candidate a1) (ss_command s)
      in s\<lparr>ss_activity := a1\<lparr>ac_foreground_candidate := cand\<rparr>,
           ss_agent := if expired then map_option (\<lambda>g. g\<lparr>ai_activity := None\<rparr>) (ss_agent s)
                       else ss_agent s,
           ss_program := po_program (sm_observation m), ss_command := command\<rparr>)"

text \<open>The path follows the name.\<close>

definition with_path :: "agent_session \<Rightarrow> agent_session" where
  "with_path s = s\<lparr>ss_path := terminal_path (ss_workspace s) (ss_name s)\<rparr>"

definition refresh_process_metadata :: "sample \<Rightarrow> agent_session \<Rightarrow> bool \<times> agent_session" where
  "refresh_process_metadata m s =
     (if ss_pid s = None then (False, s)
      else let s' = with_path (refresh_agent m (sample_prepared m s))
           in (agent_signature s' \<noteq> agent_signature s, s'))"

section \<open>Hook events\<close>

datatype agent_event_kind = Thinking | RunningCommand | EditingFiles | Searching | Delegating
  | UsingTool | WaitingForApproval | Compacting | EventCompleted | EventClosed

fun activity_label :: "agent_event_kind \<Rightarrow> ustring option" where
  "activity_label Thinking = Some (lit ''thinking'')"
| "activity_label RunningCommand = Some (lit ''running a command'')"
| "activity_label EditingFiles = Some (lit ''editing files'')"
| "activity_label Searching = Some (lit ''searching'')"
| "activity_label Delegating = Some (lit ''delegating'')"
| "activity_label UsingTool = Some (lit ''using a tool'')"
| "activity_label WaitingForApproval = Some (lit ''waiting for approval'')"
| "activity_label Compacting = Some (lit ''compacting context'')"
| "activity_label EventCompleted = None"
| "activity_label EventClosed = None"

record agent_event =
  ev_provider :: ustring
  ev_kind :: agent_event_kind
  ev_sequence :: "nat option"
  ev_title :: "ustring option"
  ev_transcript_only :: bool

fun event_status :: "agent_event_kind \<Rightarrow> agent_status" where
  "event_status EventCompleted = Idle"
| "event_status EventClosed = Closed"
| "event_status WaitingForApproval = Blocked"
| "event_status _ = Working"

text \<open>The agent an event leaves: another provider's agent is replaced by a new one.\<close>

definition event_agent :: "agent_event \<Rightarrow> nat \<Rightarrow> agent_info option \<Rightarrow> agent_info" where
  "event_agent e now current =
     (let next = event_status (ev_kind e);
          act = map_option (\<lambda>l. \<lparr>aa_label = l, aa_updated_at = now\<rparr>) (activity_label (ev_kind e));
          fresh = (\<lambda>revision. \<lparr>ai_kind = ev_provider e, ai_status = next, ai_status_changed_at = now,
                     ai_started_at = now, ai_revision = revision, ai_completed_at = None,
                     ai_summary = None, ai_activity = act\<rparr>);
          g = (case current of
                 Some g \<Rightarrow> if ai_kind g = ev_provider e then g
                           else fresh (sat_add (ai_revision g) 1)
               | None \<Rightarrow> fresh 1);
          g1 = (if ai_status g \<noteq> next
                then let g' = g\<lparr>ai_status := next, ai_status_changed_at := now,
                                ai_revision := sat_add (ai_revision g) 1\<rparr>
                     in if next = Working then g'\<lparr>ai_completed_at := None, ai_summary := None\<rparr>
                        else if ai_status g = Working
                        then g'\<lparr>ai_completed_at := Some now, ai_summary := None\<rparr>
                        else g'
                else g)
      in g1\<lparr>ai_activity := act\<rparr>)"

definition apply_agent_event :: "agent_event \<Rightarrow> nat \<Rightarrow> agent_session \<Rightarrow> bool \<times> agent_session" where
  "apply_agent_event e now s =
     (if ev_transcript_only e then (False, s)
      else let (accepted, a0) = accept_native_sequence (ev_provider e) (ev_sequence e) (ss_activity s)
      in if \<not> accepted then (False, s\<lparr>ss_activity := a0\<rparr>)
         else let next = event_status (ev_kind e);
                  a1 = a0\<lparr>ac_foreground_candidate := None, ac_native_provider := Some (ev_provider e),
                          ac_native_status := Some next, ac_native_updated_at := now,
                          ac_input_submitted_at :=
                            (case next of Working \<Rightarrow> now | Blocked \<Rightarrow> ac_input_submitted_at a0 | _ \<Rightarrow> 0)\<rparr>;
                  agent = event_agent e now (ss_agent s);
                  s1 = s\<lparr>ss_activity := a1, ss_command := None, ss_agent := Some agent\<rparr>;
                  changed = (map_option ai_revision (ss_agent s) \<noteq> Some (ai_revision agent))
              in case ev_title e of
                   Some title \<Rightarrow>
                     (if ac_automatic_name a1
                         \<and> \<not> (ac_native_title a1 \<and> ac_generated_title a1 = Some title)
                      then (True, set_name title (s1\<lparr>ss_activity := a1\<lparr>ac_generated_title := Some title,
                              ac_native_title := True\<rparr>\<rparr>))
                      else (changed, s1))
                 | None \<Rightarrow> (changed, s1))"

section \<open>Exit, and what people and fili write\<close>

definition session_exited :: "nat \<Rightarrow> nat \<Rightarrow> agent_session \<Rightarrow> agent_session" where
  "session_exited now exit_code s =
     (let a = ss_activity s;
          agent = map_option (\<lambda>g.
            if ai_status g = Closed then g
            else let g1 = g\<lparr>ai_status := Closed, ai_status_changed_at := now,
                            ai_revision := sat_add (ai_revision g) 1, ai_activity := None\<rparr>
                 in if 0 < ac_input_submitted_at a
                    then g1\<lparr>ai_completed_at := Some now, ai_summary := None\<rparr> else g1) (ss_agent s)
      in s\<lparr>ss_running := False, ss_exit_code := Some exit_code, ss_pid := None, ss_agent := agent,
           ss_activity := a\<lparr>ac_input_submitted_at := 0\<rparr>\<rparr>)"

definition rename_session :: "ustring \<Rightarrow> agent_session \<Rightarrow> agent_session" where
  "rename_session name s =
     set_name name (s\<lparr>ss_activity := (ss_activity s)\<lparr>ac_automatic_name := False,
       ac_generated_title := None, ac_native_title := False\<rparr>\<rparr>)"

datatype fili_error = PersonNamed | AgentTitled | AlreadyTitled | NoAgent | EmptySummary
  | RevisionRequired | AgentMovedOn nat | AlreadySummarised | NotFinished

definition apply_fili_name :: "ustring \<Rightarrow> agent_session \<Rightarrow> fili_error + agent_session" where
  "apply_fili_name name s =
     (let a = ss_activity s in
      if \<not> ac_automatic_name a then Inl PersonNamed
      else if ac_native_title a then Inl AgentTitled
      else if ac_generated_title a \<noteq> None then Inl AlreadyTitled
      else if ss_agent s = None then Inl NoAgent
      else Inr (set_name name (s\<lparr>ss_activity := a\<lparr>ac_generated_title := Some name\<rparr>\<rparr>)))"

definition apply_fili_summary ::
    "nat option \<Rightarrow> ustring \<Rightarrow> agent_session \<Rightarrow> fili_error + agent_session" where
  "apply_fili_summary agent_revision text s =
     (let summary = trim text in
      if summary = [] then Inl EmptySummary
      else let line = map (\<lambda>c. if c = 13 \<or> c = 10 then 32 else c) summary in
        case ss_agent s of
          None \<Rightarrow> Inl NoAgent
        | Some g \<Rightarrow>
            (case agent_revision of
               None \<Rightarrow> Inl RevisionRequired
             | Some revision \<Rightarrow>
                 if ai_revision g \<noteq> revision then Inl (AgentMovedOn (ai_revision g))
                 else if ai_summary g \<noteq> None then Inl AlreadySummarised
                 else if ai_completed_at g = None then Inl NotFinished
                 else Inr (s\<lparr>ss_agent := Some (g\<lparr>ai_summary := Some line\<rparr>)\<rparr>)))"

end
