(* ===== verification/AgentProps.thy ===== *)
theory AgentProps
  imports AgentSession
begin

text \<open>
  What the agent operations guarantee: revisions make every visible change of the agent visible,
  hook reports are taken in order and outrank guesses, a silent agent ends up idle, a person's name
  for a terminal stays, a summary is written once and only for a finished task, and the exit of the
  shell closes the agent.
\<close>

section \<open>Steps of a session\<close>

datatype session_op =
    Input nat bytes "int option"
  | Sample sample
  | Event agent_event nat
  | Exit nat nat
  | Rename ustring
  | FiliName ustring
  | FiliSummary "nat option" ustring

definition accepted :: "fili_error + agent_session \<Rightarrow> agent_session \<Rightarrow> agent_session" where
  "accepted r s = (case r of Inl _ \<Rightarrow> s | Inr s' \<Rightarrow> s')"

fun session_step :: "session_op \<Rightarrow> agent_session \<Rightarrow> agent_session" where
  "session_step (Input now data fgroup) s = observe_accepted_input now data fgroup s"
| "session_step (Sample m) s = snd (refresh_process_metadata m s)"
| "session_step (Event e now) s = snd (apply_agent_event e now s)"
| "session_step (Exit now code) s = session_exited now code s"
| "session_step (Rename name) s = rename_session name s"
| "session_step (FiliName name) s = accepted (apply_fili_name name s) s"
| "session_step (FiliSummary revision text) s = accepted (apply_fili_summary revision text s) s"

definition session_new :: "ustring \<Rightarrow> ustring \<Rightarrow> nat \<Rightarrow> agent_session" where
  "session_new name workspace pid =
     \<lparr>ss_name = name, ss_workspace = workspace, ss_path = terminal_path workspace name,
      ss_program = name, ss_agent = None, ss_command = None, ss_pid = Some pid, ss_running = True,
      ss_exit_code = None, ss_activity = activity_default, ss_signals = signals_default\<rparr>"

section \<open>Revisions\<close>

text \<open>The agent moved from \<open>g\<close> to \<open>g'\<close>: an equal revision means the same kind and status.\<close>

definition advances :: "agent_info \<Rightarrow> agent_info \<Rightarrow> bool" where
  "advances g g' \<longleftrightarrow> ai_revision g \<le> ai_revision g'
     \<and> (ai_revision g' = ai_revision g \<longrightarrow> ai_kind g' = ai_kind g \<and> ai_status g' = ai_status g)"

definition agent_advances :: "agent_session \<Rightarrow> agent_session \<Rightarrow> bool" where
  "agent_advances s s' \<longleftrightarrow>
     (case (ss_agent s, ss_agent s') of (Some g, Some g') \<Rightarrow> advances g g' | _ \<Rightarrow> True)"

definition below_max :: "agent_session \<Rightarrow> bool" where
  "below_max s \<longleftrightarrow> (case ss_agent s of Some g \<Rightarrow> ai_revision g < u64_max | None \<Rightarrow> True)"

lemma advances_refl [simp]: "advances g g"
  by (simp add: advances_def)

lemma advances_activity [simp]:
  "advances g (g'\<lparr>ai_activity := x\<rparr>) = advances g g'" "advances (g\<lparr>ai_activity := x\<rparr>) g' = advances g g'"
  "advances g (g'\<lparr>ai_summary := y\<rparr>) = advances g g'"
  "advances g (g'\<lparr>ai_completed_at := z\<rparr>) = advances g g'"
  by (simp_all add: advances_def)

lemma sat_add_less: "r < u64_max \<Longrightarrow> 0 < k \<Longrightarrow> r < sat_add r k"
  by (simp add: sat_add_def)

lemma advances_bump:
  "ai_revision g < u64_max \<Longrightarrow> ai_revision g' = sat_add (ai_revision g) 1 \<Longrightarrow> advances g g'"
  using sat_add_less [of "ai_revision g" 1] by (simp add: advances_def)

lemma begin_submission_advances:
  "ai_revision g < u64_max \<Longrightarrow> begin_submission t p a g = (a', g') \<Longrightarrow> advances g g'"
  using advances_bump [of g g']
  by (auto simp: begin_submission_def Let_def split: if_splits)

lemma input_advances: "below_max s \<Longrightarrow> agent_advances s (observe_accepted_input now data fg s)"
  by (auto simp: observe_accepted_input_def Let_def agent_advances_def below_max_def
      dest: begin_submission_advances split: prod.splits option.splits)

lemma move_agent_advances:
  "ai_revision g < u64_max \<Longrightarrow> move_agent now n a g = (a', g') \<Longrightarrow> advances g g'"
  using advances_bump [of g g'] by (auto simp: move_agent_def Let_def split: if_splits)

lemma close_agent_advances: "ai_revision g < u64_max \<Longrightarrow> advances g (close_agent now a g)"
  using advances_bump [of g "close_agent now a g"] by (auto simp: close_agent_def Let_def)

lemma event_agent_advances:
  "ai_revision g < u64_max \<Longrightarrow> advances g (event_agent e now (Some g))"
proof -
  assume r: "ai_revision g < u64_max"
  let ?g' = "event_agent e now (Some g)"
  consider "ai_kind g \<noteq> ev_provider e" | "ai_kind g = ev_provider e" "ai_status g = event_status (ev_kind e)"
    | "ai_kind g = ev_provider e" "ai_status g \<noteq> event_status (ev_kind e)" by blast
  then show ?thesis
  proof cases
    case 1
    then show ?thesis by (intro advances_bump [OF r]) (simp add: event_agent_def Let_def)
  next
    case 2
    then show ?thesis by (simp add: event_agent_def Let_def)
  next
    case 3
    then show ?thesis by (intro advances_bump [OF r]) (simp add: event_agent_def Let_def)
  qed
qed

lemma event_advances: "below_max s \<Longrightarrow> agent_advances s (snd (apply_agent_event e now s))"
  by (auto simp: apply_agent_event_def Let_def agent_advances_def below_max_def set_name_def
      event_agent_advances split: prod.splits option.splits)

lemma new_agent_advances: "below_max s \<Longrightarrow> agent_advances s (refresh_new_agent m ob s)"
proof (cases "ss_agent s")
  case (Some g)
  assume b: "below_max s"
  then have r: "ai_revision g < u64_max" by (simp add: below_max_def Some)
  have i: "sat_add (ai_revision g) 1 \<le> in_revision (initial_agent_state x y (sat_add (ai_revision g) 1) z)"
    for x y z
    by (auto simp: initial_agent_state_def Let_def sat_add_def split: option.splits)
  have "ai_revision g < in_revision (initial_agent_state x y (sat_add (ai_revision g) 1) z)" for x y z
    using sat_add_less [OF r, of 1] i [of x y z] by simp
  then show ?thesis
    by (auto simp: refresh_new_agent_def Let_def agent_advances_def Some advances_def
        less_imp_le dest: less_not_refl2)
qed (simp add: agent_advances_def)

lemma same_agent_advances: "below_max s \<Longrightarrow> agent_advances s (refresh_same_agent m ob s)"
  by (auto simp: refresh_same_agent_def Let_def agent_advances_def below_max_def
      dest: move_agent_advances split: prod.splits option.splits)

lemma no_agent_advances: "below_max s \<Longrightarrow> agent_advances s (refresh_no_agent m s)"
  by (auto simp: refresh_no_agent_def Let_def agent_advances_def below_max_def
      close_agent_advances split: option.splits)

lemma refresh_agent_advances: "below_max s \<Longrightarrow> agent_advances s (refresh_agent m s)"
proof (cases "po_agent (sm_observation m)")
  case None
  assume "below_max s"
  then show ?thesis using no_agent_advances [of s m] by (simp add: refresh_agent_def None)
next
  case (Some ob)
  assume "below_max s"
  then have "agent_advances s (if is_new_agent s ob then refresh_new_agent m ob s
      else refresh_same_agent m ob s)"
    using new_agent_advances same_agent_advances by simp
  moreover have "agent_advances s (s'\<lparr>ss_name := n\<rparr>) = agent_advances s s'" for s' n
    by (simp add: agent_advances_def)
  ultimately show ?thesis by (simp add: refresh_agent_def Some Let_def)
qed

lemma refresh_prepared:
  "ss_pid s \<noteq> None \<Longrightarrow>
   refresh_process_metadata m s =
     (agent_signature (with_path (refresh_agent m (sample_prepared m s))) \<noteq> agent_signature s,
      with_path (refresh_agent m (sample_prepared m s)))"
  by (auto simp: refresh_process_metadata_def Let_def)

lemma with_path_simps [simp]:
  "ss_agent (with_path s) = ss_agent s" "ss_activity (with_path s) = ss_activity s"
  "ss_signals (with_path s) = ss_signals s" "ss_name (with_path s) = ss_name s"
  "ss_pid (with_path s) = ss_pid s" "ss_running (with_path s) = ss_running s"
  by (simp_all add: with_path_def)

lemma prepared_agent:
  "ss_agent (sample_prepared m s) = ss_agent s
   \<or> ss_agent (sample_prepared m s) = map_option (\<lambda>g. g\<lparr>ai_activity := None\<rparr>) (ss_agent s)"
  by (simp add: sample_prepared_def Let_def split_beta)

lemma sample_advances: "below_max s \<Longrightarrow> agent_advances s (snd (refresh_process_metadata m s))"
proof (cases "ss_pid s")
  case None
  then show ?thesis
    by (simp add: refresh_process_metadata_def agent_advances_def split: option.split)
next
  case (Some pid)
  assume b: "below_max s"
  have b': "below_max (sample_prepared m s)"
    using b prepared_agent [of m s] by (auto simp: below_max_def split: option.splits)
  have "agent_advances (sample_prepared m s) s' \<Longrightarrow> agent_advances s s'" for s'
    using prepared_agent [of m s] by (auto simp: agent_advances_def split: option.splits)
  then show ?thesis
    using refresh_agent_advances [OF b', of m] Some
    by (simp add: refresh_prepared agent_advances_def)
qed

lemma step_advances: "below_max s \<Longrightarrow> agent_advances s (session_step op s)"
proof (cases op)
  case (Exit now code)
  assume "below_max s"
  then show ?thesis
    by (auto simp: Exit session_exited_def Let_def agent_advances_def below_max_def
        intro: advances_bump split: option.splits)
next
  case (FiliSummary revision words)
  then show ?thesis
    by (auto simp: accepted_def apply_fili_summary_def Let_def agent_advances_def
        split: option.splits sum.splits)
next
  case (FiliName name)
  then show ?thesis
    by (auto simp: accepted_def apply_fili_name_def Let_def agent_advances_def set_name_def
        split: option.splits sum.splits)
next
  case (Rename name)
  then show ?thesis
    by (auto simp: rename_session_def agent_advances_def set_name_def split: option.splits)
qed (simp_all add: input_advances sample_advances event_advances)

section \<open>A sample of the agent that was there before\<close>

lemma prepared_activity [simp]:
  "ac_agent_pid (ss_activity (sample_prepared m s)) = ac_agent_pid (ss_activity s)"
  "ac_agent_start_ticks (ss_activity (sample_prepared m s)) = ac_agent_start_ticks (ss_activity s)"
  "ac_last_cpu_ticks (ss_activity (sample_prepared m s)) = ac_last_cpu_ticks (ss_activity s)"
  "ac_last_sample_output_bytes (ss_activity (sample_prepared m s))
     = ac_last_sample_output_bytes (ss_activity s)"
  "ac_input_submitted_at (ss_activity (sample_prepared m s)) = ac_input_submitted_at (ss_activity s)"
  "ac_active_samples (ss_activity (sample_prepared m s)) = ac_active_samples (ss_activity s)"
  "ac_quiet_samples (ss_activity (sample_prepared m s)) = ac_quiet_samples (ss_activity s)"
  "ac_automatic_name (ss_activity (sample_prepared m s)) = ac_automatic_name (ss_activity s)"
  "ss_signals (sample_prepared m s) = ss_signals s"
  "ss_pid (sample_prepared m s) = ss_pid s"
  "ss_name (sample_prepared m s) = ss_name s"
  by (simp_all add: sample_prepared_def expire_native_state_def clear_native_def Let_def split_beta)

lemma prepared_new_agent [simp]: "is_new_agent (sample_prepared m s) ob = is_new_agent s ob"
  using prepared_agent [of m s] by (auto simp: is_new_agent_def split: option.splits)

lemma prepared_native:
  "ac_native_status (ss_activity (sample_prepared m s)) =
     (if fst (expire_native_state (sm_now m) (sg_explicit_idle_at (ss_signals s)) (sm_detection m)
               (ss_activity s))
      then None else ac_native_status (ss_activity s))"
  by (simp add: sample_prepared_def expire_native_state_def clear_native_def Let_def split_beta)

lemma count_samples_keeps [simp]:
  "ac_native_status (count_samples m ob a) = ac_native_status a"
  "ac_input_submitted_at (count_samples m ob a) = ac_input_submitted_at a"
  "ac_agent_pid (count_samples m ob a) = ac_agent_pid a"
  "ac_agent_start_ticks (count_samples m ob a) = ac_agent_start_ticks a"
  "ac_automatic_name (count_samples m ob a) = ac_automatic_name a"
  "ac_last_cpu_ticks (count_samples m ob a) = ob_cpu_ticks ob"
  "ac_last_sample_output_bytes (count_samples m ob a) = sm_output_bytes m"
  by (simp_all add: count_samples_def Let_def)

lemma move_agent_status [simp]: "ai_status (snd (move_agent now n a g)) = n"
  by (simp add: move_agent_def Let_def)

lemma move_agent_kind [simp]: "ai_kind (snd (move_agent now n a g)) = ai_kind g"
  by (simp add: move_agent_def Let_def)

lemma same_agent_Some: "\<not> is_new_agent s ob \<Longrightarrow> \<exists>g. ss_agent s = Some g \<and> ai_kind g = ob_kind ob"
  by (auto simp: is_new_agent_def split: option.splits)

lemma refresh_same_status:
  assumes "\<not> is_new_agent s ob"
  shows "\<exists>g. ss_agent (refresh_same_agent m ob s) = Some g \<and> ai_kind g = ob_kind ob
    \<and> ai_status g = resolve_agent_status (ac_native_status (ss_activity s)) (sm_detection m)
        (fallback_of m ob (s\<lparr>ss_activity := count_samples m ob (ss_activity s)\<rparr>))"
  using same_agent_Some [OF assms]
  by (auto simp: refresh_same_agent_def Let_def split_beta)

lemma refresh_same:
  assumes "po_agent (sm_observation m) = Some ob" and "\<not> is_new_agent s ob"
  shows "\<exists>n. refresh_agent m s = (refresh_same_agent m ob s)\<lparr>ss_name := n\<rparr>"
proof -
  have "\<exists>n. refresh_same_agent m ob s = (refresh_same_agent m ob s)\<lparr>ss_name := n\<rparr>"
    by (rule exI [of _ "ss_name (refresh_same_agent m ob s)"]) simp
  then show ?thesis using assms by (auto simp: refresh_agent_def Let_def)
qed

section \<open>Silence\<close>

definition silent_sample :: "agent_observation \<Rightarrow> nat \<Rightarrow> nat \<Rightarrow> sample \<Rightarrow> bool" where
  "silent_sample ob out since m \<longleftrightarrow> po_agent (sm_observation m) = Some ob \<and> sm_output_bytes m = out
     \<and> sm_detection m = None \<and> since \<le> sm_now m"

text \<open>An agent with no hook reports, nothing new to show, and its last signs of work long ago.\<close>

definition settled :: "agent_observation \<Rightarrow> nat \<Rightarrow> nat \<Rightarrow> agent_session \<Rightarrow> bool" where
  "settled ob out since s \<longleftrightarrow> ss_pid s \<noteq> None \<and> \<not> is_new_agent s ob
     \<and> ac_last_cpu_ticks (ss_activity s) = ob_cpu_ticks ob
     \<and> ac_last_sample_output_bytes (ss_activity s) = out
     \<and> ac_native_status (ss_activity s) = None
     \<and> ac_input_submitted_at (ss_activity s) + SUBMISSION_WORKING_MILLIS < since
     \<and> (case sg_agent_state (ss_signals s) of
          None \<Rightarrow> True
        | Some (r, at) \<Rightarrow> r = ReportedWorking \<and> at + REPORTED_WORKING_FRESH_MILLIS < since)"

lemma silent_count:
  "silent_sample ob out since m \<Longrightarrow> ac_last_cpu_ticks a = ob_cpu_ticks ob \<Longrightarrow>
   ac_last_sample_output_bytes a = out \<Longrightarrow>
   ac_active_samples (count_samples m ob a) = 0
   \<and> ac_quiet_samples (count_samples m ob a) = sat_add8 (ac_quiet_samples a) 1"
  by (simp add: count_samples_def silent_sample_def agent_sample_active_def agent_constants Let_def)

lemma silent_status:
  assumes m: "silent_sample ob out since m" and s: "settled ob out since s"
  shows "resolve_agent_status (ac_native_status (ss_activity s)) (sm_detection m)
      (fallback_of m ob (s\<lparr>ss_activity := count_samples m ob (ss_activity s)\<rparr>)) \<noteq> Idle \<Longrightarrow>
    resolve_agent_status (ac_native_status (ss_activity s)) (sm_detection m)
      (fallback_of m ob (s\<lparr>ss_activity := count_samples m ob (ss_activity s)\<rparr>)) = Working
    \<and> map_option ai_status (ss_agent s) = Some Working
    \<and> sat_add8 (ac_quiet_samples (ss_activity s)) 1 < QUIET_SAMPLES_TO_IDLE
    \<and> ac_input_submitted_at (ss_activity s) \<noteq> 0"
proof -
  obtain g where g: "ss_agent s = Some g"
    using s same_agent_Some by (auto simp: settled_def)
  have c: "ac_active_samples (count_samples m ob (ss_activity s)) = 0"
      "ac_quiet_samples (count_samples m ob (ss_activity s))
        = sat_add8 (ac_quiet_samples (ss_activity s)) 1"
    using silent_count [OF m] s by (simp_all add: settled_def)
  have r: "reported_status (fallback_of m ob (s\<lparr>ss_activity := count_samples m ob (ss_activity s)\<rparr>)) = None"
    using m s by (auto simp: reported_status_def fallback_of_def settled_def silent_sample_def
        split: option.splits reported_state.splits)
  show "resolve_agent_status (ac_native_status (ss_activity s)) (sm_detection m)
      (fallback_of m ob (s\<lparr>ss_activity := count_samples m ob (ss_activity s)\<rparr>)) \<noteq> Idle \<Longrightarrow> ?thesis"
    using m s
    by (auto simp: resolve_agent_status_def settled_def silent_sample_def
        screen_detection_outcome_def select_agent_status_def r Let_def split: if_splits)
      (auto simp: fallback_of_def c g agent_constants split: if_splits)
qed

lemma silent_tick:
  assumes m: "silent_sample ob out since m" and s: "settled ob out since s"
  defines "s' \<equiv> snd (refresh_process_metadata m s)"
  shows "settled ob out since s'
    \<and> (map_option ai_status (ss_agent s') = Some Idle
       \<or> (map_option ai_status (ss_agent s') = Some Working
          \<and> map_option ai_status (ss_agent s) = Some Working
          \<and> ac_quiet_samples (ss_activity s') = sat_add8 (ac_quiet_samples (ss_activity s)) 1
          \<and> ac_quiet_samples (ss_activity s') < QUIET_SAMPLES_TO_IDLE))"
proof -
  define p where "p = sample_prepared m s"
  have nat: "ac_native_status (ss_activity p) = None"
    using s by (simp add: p_def prepared_native settled_def)
  have p: "settled ob out since p" using s nat by (simp add: p_def settled_def)
  have ps: "map_option ai_status (ss_agent p) = map_option ai_status (ss_agent s)"
    using prepared_agent [of m s] by (auto simp: p_def option.map_comp comp_def)
  obtain g where g: "ss_agent p = Some g" "ai_kind g = ob_kind ob"
    using p same_agent_Some by (auto simp: settled_def)
  define a where "a = count_samples m ob (ss_activity p)"
  have na: "ac_native_status a = ac_native_status (ss_activity p)" by (simp add: a_def)
  define n where "n = resolve_agent_status (ac_native_status a) (sm_detection m)
      (fallback_of m ob (p\<lparr>ss_activity := a\<rparr>))"
  have n: "n = Idle \<or> (n = Working \<and> map_option ai_status (ss_agent p) = Some Working
      \<and> sat_add8 (ac_quiet_samples (ss_activity p)) 1 < QUIET_SAMPLES_TO_IDLE
      \<and> ac_input_submitted_at (ss_activity p) \<noteq> 0)"
    using silent_status [OF m p] unfolding n_def na unfolding a_def by blast
  have a: "ac_quiet_samples a = sat_add8 (ac_quiet_samples (ss_activity p)) 1"
    "ac_input_submitted_at a = ac_input_submitted_at (ss_activity p)"
    using silent_count [OF m, of "ss_activity p"] p by (simp_all add: a_def settled_def)
  obtain a' g' where mv: "move_agent (sm_now m) n a g = (a', g')"
    by (cases "move_agent (sm_now m) n a g")
  have a': "ac_input_submitted_at a' \<le> ac_input_submitted_at a" "ac_agent_pid a' = ac_agent_pid a"
    "ac_agent_start_ticks a' = ac_agent_start_ticks a" "ac_last_cpu_ticks a' = ac_last_cpu_ticks a"
    "ac_last_sample_output_bytes a' = ac_last_sample_output_bytes a"
    "ac_native_status a' = ac_native_status a" "ac_quiet_samples a' = ac_quiet_samples a"
    "ai_status g' = n" "ai_kind g' = ai_kind g"
    using mv move_agent_status [of "sm_now m" n a g] move_agent_kind [of "sm_now m" n a g]
    by (auto simp: move_agent_def Let_def split: if_splits)
  have ns: "n = Working \<Longrightarrow> 0 < ac_input_submitted_at a" using n a(2) by auto
  have "refresh_same_agent m ob p = (let (a', g') = move_agent (sm_now m) n
        (if n = Working \<and> ac_input_submitted_at a = 0
         then a\<lparr>ac_input_submitted_at := sm_now m\<rparr> else a) g
      in p\<lparr>ss_activity := a', ss_agent := Some g'\<rparr>)"
    using g by (simp add: refresh_same_agent_def Let_def flip: a_def n_def)
  moreover have "(if n = Working \<and> ac_input_submitted_at a = 0
         then a\<lparr>ac_input_submitted_at := sm_now m\<rparr> else a) = a" using ns by auto
  ultimately have R: "refresh_same_agent m ob p = p\<lparr>ss_activity := a', ss_agent := Some g'\<rparr>"
    using mv by simp
  have "po_agent (sm_observation m) = Some ob" using m by (simp add: silent_sample_def)
  moreover have "\<not> is_new_agent p ob" using p by (simp add: settled_def)
  ultimately obtain nm where "refresh_agent m p = p\<lparr>ss_activity := a', ss_agent := Some g', ss_name := nm\<rparr>"
    using refresh_same [of m ob p] R by auto
  moreover have pid: "ss_pid s \<noteq> None" using s by (simp add: settled_def)
  ultimately have s': "ss_activity s' = a'" "ss_agent s' = Some g'" "ss_signals s' = ss_signals s"
      "ss_pid s' = ss_pid s"
    by (simp_all add: s'_def refresh_prepared [OF pid] flip: p_def) (simp_all add: p_def)
  have "settled ob out since s'"
    using p a' a s' g m
    by (auto simp: settled_def is_new_agent_def a_def silent_sample_def p_def split: option.splits)
  moreover have "map_option ai_status (ss_agent s') = Some n" using s' a' by simp
  moreover have "n = Working \<Longrightarrow> map_option ai_status (ss_agent s) = Some Working"
    using n by (simp only: ps [symmetric]) simp
  ultimately show ?thesis
    using n a(1) a'(7) s'(1) by (auto simp: p_def)
qed

text \<open>After five silent samples the agent is idle, and it stays so.\<close>

lemma silent_run:
  "\<forall>m \<in> set ms. silent_sample ob out since m \<Longrightarrow> settled ob out since s \<Longrightarrow> k \<le> ac_quiet_samples (ss_activity s)
     \<or> map_option ai_status (ss_agent s) = Some Idle \<Longrightarrow> QUIET_SAMPLES_TO_IDLE \<le> k + length ms \<Longrightarrow>
   ms \<noteq> [] \<Longrightarrow>
   map_option ai_status (ss_agent (fold (\<lambda>m s. snd (refresh_process_metadata m s)) ms s)) = Some Idle"
proof (induction ms arbitrary: s k)
  case (Cons m ms)
  define s' where "s' = snd (refresh_process_metadata m s)"
  have t: "settled ob out since s'" "map_option ai_status (ss_agent s') = Some Idle
       \<or> (map_option ai_status (ss_agent s) = Some Working
          \<and> ac_quiet_samples (ss_activity s') = sat_add8 (ac_quiet_samples (ss_activity s)) 1
          \<and> ac_quiet_samples (ss_activity s') < QUIET_SAMPLES_TO_IDLE)"
    using silent_tick [of ob out since m s] Cons.prems(1,2) by (auto simp: s'_def)
  have k: "Suc k \<le> ac_quiet_samples (ss_activity s') \<or> map_option ai_status (ss_agent s') = Some Idle"
  proof (cases "map_option ai_status (ss_agent s') = Some Idle")
    case False
    then have w: "map_option ai_status (ss_agent s) = Some Working"
        "ac_quiet_samples (ss_activity s') = sat_add8 (ac_quiet_samples (ss_activity s)) 1"
        "ac_quiet_samples (ss_activity s') < QUIET_SAMPLES_TO_IDLE"
      using t(2) by auto
    then have "k \<le> ac_quiet_samples (ss_activity s)" using Cons.prems(3) by auto
    then show ?thesis using w(2,3) by (auto simp: sat_add8_def QUIET_SAMPLES_TO_IDLE_def)
  qed simp
  show ?case
  proof (cases "ms = []")
    case True
    have "QUIET_SAMPLES_TO_IDLE \<le> Suc k" using Cons.prems(4) True by simp
    then show ?thesis using k t(2) True by (auto simp: s'_def)
  next
    case False
    then show ?thesis using Cons.IH [OF _ t(1) k _ False] Cons.prems(1,4) by (simp add: s'_def)
  qed
qed simp

section \<open>The order of hook reports\<close>

fun taken_events :: "(agent_event \<times> nat) list \<Rightarrow> agent_session \<Rightarrow> (agent_event \<times> nat) list" where
  "taken_events [] s = []"
| "taken_events ((e, now) # es) s =
     (if fst (accept_native_sequence (ev_provider e) (ev_sequence e) (ss_activity s))
      then [(e, now)] else []) @ taken_events es (snd (apply_agent_event e now s))"

lemma accept_False:
  "\<not> fst (accept_native_sequence p q a) \<Longrightarrow> accept_native_sequence p q a = (False, a)"
  by (cases "ac_native_sequence_provider a"; cases "ac_last_native_sequence a"; cases q)
    (simp_all add: accept_native_sequence_def split: if_splits)

lemma activity_same: "s\<lparr>ss_activity := ss_activity s\<rparr> = s" for s :: agent_session
  by (cases s) simp

lemma rejected_event:
  assumes "\<not> fst (accept_native_sequence (ev_provider e) (ev_sequence e) (ss_activity s))"
  shows "snd (apply_agent_event e now s) = s"
proof -
  have "accept_native_sequence (ev_provider e) (ev_sequence e) (ss_activity s) = (False, ss_activity s)"
    by (rule accept_False [OF assms])
  then show ?thesis by (simp add: apply_agent_event_def activity_same)
qed

lemma accepted_sequence:
  assumes "fst (accept_native_sequence (ev_provider e) (ev_sequence e) (ss_activity s))"
    and "\<not> ev_transcript_only e"
  shows "ac_native_sequence_provider (ss_activity (snd (apply_agent_event e now s)))
      = ac_native_sequence_provider (snd (accept_native_sequence (ev_provider e) (ev_sequence e) (ss_activity s)))"
    "ac_last_native_sequence (ss_activity (snd (apply_agent_event e now s)))
      = ac_last_native_sequence (snd (accept_native_sequence (ev_provider e) (ev_sequence e) (ss_activity s)))"
  using assms by (auto simp: apply_agent_event_def Let_def set_name_def split: prod.splits option.splits)

text \<open>Once a numbered report of a provider was taken, the taken ones are numbered and increase.\<close>

lemma taken_after:
  "\<forall>(e, now) \<in> set es. ev_provider e = p \<and> \<not> ev_transcript_only e \<Longrightarrow>
   ac_native_sequence_provider (ss_activity s) = Some p \<Longrightarrow> ac_last_native_sequence (ss_activity s) = Some l \<Longrightarrow>
   \<exists>ns. map (\<lambda>en. ev_sequence (fst en)) (taken_events es s) = map Some ns \<and> sorted_wrt (<) (l # ns)"
proof (induction es arbitrary: s l)
  case Nil
  then show ?case by auto
next
  case (Cons en es)
  obtain e now where en: "en = (e, now)" by (cases en)
  have e: "ev_provider e = p" "\<not> ev_transcript_only e" using Cons.prems(1) by (auto simp: en)
  show ?case
  proof (cases "fst (accept_native_sequence (ev_provider e) (ev_sequence e) (ss_activity s))")
    case False
    then show ?thesis
      using Cons.IH [OF _ Cons.prems(2,3)] Cons.prems(1) rejected_event [OF False]
      by (simp add: en)
  next
    case True
    then obtain n where n: "ev_sequence e = Some n" "l < n"
      using Cons.prems(2,3) e
      by (auto simp: accept_native_sequence_def split: option.splits if_splits)
    have s': "ac_native_sequence_provider (ss_activity (snd (apply_agent_event e now s))) = Some p"
      "ac_last_native_sequence (ss_activity (snd (apply_agent_event e now s))) = Some n"
      using accepted_sequence [OF True e(2), of now] Cons.prems(2,3) e n
      by (auto simp: accept_native_sequence_def)
    obtain ns where "map (\<lambda>en. ev_sequence (fst en)) (taken_events es (snd (apply_agent_event e now s))) = map Some ns"
        "sorted_wrt (<) (n # ns)"
      using Cons.IH [OF _ s'] Cons.prems(1) by auto
    then show ?thesis using True n by (intro exI [of _ "n # ns"]) (auto simp: en)
  qed
qed

lemma taken_sorted:
  "\<forall>(e, now) \<in> set es. ev_provider e = p \<and> \<not> ev_transcript_only e \<Longrightarrow>
   \<exists>j ns. map (\<lambda>en. ev_sequence (fst en)) (taken_events es s) = replicate j None @ map Some ns \<and> sorted_wrt (<) ns"
proof (induction es arbitrary: s)
  case Nil
  then show ?case by (intro exI [of _ 0] exI [of _ "[]"]) simp
next
  case (Cons en es)
  obtain e now where en: "en = (e, now)" by (cases en)
  have e: "ev_provider e = p" "\<not> ev_transcript_only e" using Cons.prems by (auto simp: en)
  have rest: "\<forall>(e, now) \<in> set es. ev_provider e = p \<and> \<not> ev_transcript_only e"
    using Cons.prems by simp
  show ?case
  proof (cases "fst (accept_native_sequence (ev_provider e) (ev_sequence e) (ss_activity s))")
    case False
    then show ?thesis using Cons.IH [OF rest, of s] rejected_event [OF False] by (simp add: en)
  next
    case True
    show ?thesis
    proof (cases "ev_sequence e")
      case None
      obtain j ns where "map (\<lambda>en. ev_sequence (fst en)) (taken_events es (snd (apply_agent_event e now s)))
          = replicate j None @ map Some ns" "sorted_wrt (<) ns"
        using Cons.IH [OF rest] by blast
      then show ?thesis using True None
        by (intro exI [of _ "Suc j"] exI [of _ ns]) (simp add: en)
    next
      case (Some n)
      have s': "ac_native_sequence_provider (ss_activity (snd (apply_agent_event e now s))) = Some p"
        "ac_last_native_sequence (ss_activity (snd (apply_agent_event e now s))) = Some n"
        using accepted_sequence [OF True e(2), of now] True e Some
        by (auto simp: accept_native_sequence_def Let_def split: option.splits if_splits)
      obtain ns where "map (\<lambda>en. ev_sequence (fst en)) (taken_events es (snd (apply_agent_event e now s))) = map Some ns"
          "sorted_wrt (<) (n # ns)"
        using taken_after [OF rest s'] by blast
      then show ?thesis using True Some
        by (intro exI [of _ 0] exI [of _ "n # ns"]) (simp add: en)
    qed
  qed
qed

lemma taken_same:
  "fold (\<lambda>(e, now) s. snd (apply_agent_event e now s)) es s
     = fold (\<lambda>(e, now) s. snd (apply_agent_event e now s)) (taken_events es s) s"
proof (induction es arbitrary: s)
  case (Cons en es)
  obtain e now where en: "en = (e, now)" by (cases en)
  show ?case
    using Cons.IH [of "snd (apply_agent_event e now s)"] rejected_event [of e s now]
    by (simp add: en)
qed simp

section \<open>Names\<close>

lemma begin_submission_automatic:
  "begin_submission now p a g = (a', g') \<Longrightarrow> ac_automatic_name a' = ac_automatic_name a"
  by (auto simp: begin_submission_def note_first_prompt_def clear_native_def Let_def split: if_splits)

lemma input_name:
  "ss_name (observe_accepted_input now data fg s) = ss_name s
   \<and> ac_automatic_name (ss_activity (observe_accepted_input now data fg s))
     = ac_automatic_name (ss_activity s)"
  by (auto simp: observe_accepted_input_def Let_def dest: begin_submission_automatic
      split: prod.splits option.splits)

lemma new_agent_name:
  "ss_name (refresh_new_agent m ob s) = ss_name s
   \<and> ac_automatic_name (ss_activity (refresh_new_agent m ob s)) = ac_automatic_name (ss_activity s)"
  by (simp add: refresh_new_agent_def Let_def clear_native_def clear_native_sequence_def
      note_first_prompt_def split: option.split)

lemma move_agent_automatic:
  "move_agent now n a g = (a', g') \<Longrightarrow> ac_automatic_name a' = ac_automatic_name a"
  by (auto simp: move_agent_def Let_def split: if_splits)

lemma same_agent_name:
  "ss_name (refresh_same_agent m ob s) = ss_name s
   \<and> ac_automatic_name (ss_activity (refresh_same_agent m ob s)) = ac_automatic_name (ss_activity s)"
  by (auto simp: refresh_same_agent_def Let_def dest: move_agent_automatic
      split: option.split prod.split)

lemma sample_name:
  "\<not> ac_automatic_name (ss_activity s) \<Longrightarrow>
   ss_name (snd (refresh_process_metadata m s)) = ss_name s
   \<and> \<not> ac_automatic_name (ss_activity (snd (refresh_process_metadata m s)))"
  by (cases "ss_pid s"; cases "po_agent (sm_observation m)")
    (simp_all add: refresh_process_metadata_def refresh_prepared refresh_agent_def Let_def
      new_agent_name same_agent_name refresh_no_agent_def clear_native_def
      clear_native_sequence_def)

lemma accept_automatic:
  "ac_automatic_name (snd (accept_native_sequence p q a)) = ac_automatic_name a"
  by (cases "ac_native_sequence_provider a"; cases "ac_last_native_sequence a"; cases q)
    (simp_all add: accept_native_sequence_def clear_native_sequence_def)

lemma event_name:
  "\<not> ac_automatic_name (ss_activity s) \<Longrightarrow> ss_name (snd (apply_agent_event e now s)) = ss_name s
   \<and> \<not> ac_automatic_name (ss_activity (snd (apply_agent_event e now s)))"
  using accept_automatic [of "ev_provider e" "ev_sequence e" "ss_activity s"]
  by (cases "accept_native_sequence (ev_provider e) (ev_sequence e) (ss_activity s)")
    (simp add: apply_agent_event_def Let_def split: option.split)

section \<open>Exit\<close>

definition agent_gone :: "agent_session \<Rightarrow> bool" where
  "agent_gone s \<longleftrightarrow> ss_pid s = None
     \<and> (case ss_agent s of None \<Rightarrow> True | Some g \<Rightarrow> ai_status g = Closed)"

lemma exited_gone: "agent_gone (session_exited now code s)"
  by (simp add: agent_gone_def session_exited_def Let_def split: option.split)

lemma step_gone:
  "agent_gone s \<Longrightarrow> (case op of Event e now \<Rightarrow> False | _ \<Rightarrow> True) \<Longrightarrow> agent_gone (session_step op s)"
proof (cases op)
  case (Input now data fg)
  assume "agent_gone s"
  then show ?thesis
    by (auto simp: Input agent_gone_def observe_accepted_input_def Let_def
        split: prod.split option.splits)
next
  case (FiliSummary revision words)
  assume "agent_gone s"
  then show ?thesis
    by (auto simp: FiliSummary accepted_def apply_fili_summary_def agent_gone_def Let_def
        split: option.splits)
qed (auto simp: agent_gone_def refresh_process_metadata_def session_exited_def rename_session_def
    set_name_def accepted_def apply_fili_name_def Let_def split: option.splits)

lemma run_gone:
  "agent_gone s \<Longrightarrow> \<forall>op \<in> set ops. case op of Event e now \<Rightarrow> False | _ \<Rightarrow> True \<Longrightarrow>
   agent_gone (fold session_step ops s)"
  by (induction ops arbitrary: s) (simp_all add: step_gone)

lemma event_agent_status [simp]: "ai_status (event_agent e now c) = event_status (ev_kind e)"
  by (simp add: event_agent_def Let_def)

lemma taken_event_status:
  "fst (accept_native_sequence (ev_provider e) (ev_sequence e) (ss_activity s)) \<Longrightarrow>
   \<not> ev_transcript_only e \<Longrightarrow>
   map_option ai_status (ss_agent (snd (apply_agent_event e now s))) = Some (event_status (ev_kind e))"
  by (cases "accept_native_sequence (ev_provider e) (ev_sequence e) (ss_activity s)")
    (simp add: apply_agent_event_def set_name_def Let_def split: option.split)

section \<open>Properties\<close>

text \<open>
  C19. Whatever happens to a session, its agent's revision never goes down while it has an agent,
  and an unchanged revision means an unchanged kind and status: who compares revisions misses no
  change of what the agent is and does.
\<close>

theorem revision_shows_change:
  assumes "ss_agent s = Some g" and "ai_revision g < u64_max"
    and "ss_agent (session_step op s) = Some g'"
  shows "ai_revision g \<le> ai_revision g'
    \<and> (ai_revision g' = ai_revision g \<longrightarrow> ai_kind g' = ai_kind g \<and> ai_status g' = ai_status g)"
  using step_advances [of s op] assms by (simp add: below_max_def agent_advances_def advances_def)

definition working_codex :: agent_session where
  "working_codex = session_step (Event \<lparr>ev_provider = lit ''codex'', ev_kind = Thinking,
     ev_sequence = Some 4, ev_title = None, ev_transcript_only = False\<rparr> 1000)
     (session_new (lit ''zsh'') (lit ''~'') 77)"

lemmas working_codex_eval = working_codex_def session_new_def apply_agent_event_def
  accept_native_sequence_def activity_default_def event_agent_def

lemma working_codex_agent:
  "ss_agent working_codex = Some \<lparr>ai_kind = lit ''codex'', ai_status = Working,
     ai_status_changed_at = 1000, ai_started_at = 1000, ai_revision = 1, ai_completed_at = None,
     ai_summary = None, ai_activity = Some \<lparr>aa_label = lit ''thinking'', aa_updated_at = 1000\<rparr>\<rparr>"
  by (simp add: working_codex_eval Let_def)

lemma revision_shows_change_witness:
  "ai_revision (the (ss_agent working_codex))
     \<le> ai_revision (the (ss_agent (session_step (Exit 2000 0) working_codex)))"
proof -
  obtain g where g: "ss_agent working_codex = Some g" "ai_revision g < u64_max"
    by (simp add: working_codex_agent u64_max_def)
  obtain g' where g': "ss_agent (session_step (Exit 2000 0) working_codex) = Some g'"
    by (simp add: session_exited_def working_codex_agent Let_def)
  show ?thesis using revision_shows_change [OF g g'] g g' by simp
qed



text \<open>
  What an agent reports through its hooks outranks every guess: in a sample of the same agent
  its status is the reported one while the report is fresh, and a report that it waits for a person
  holds however old it is. (Only for \<open>agy\<close>, which has no hook for approvals, may a visible approval
  dialog turn a working report into blocked.)
\<close>

theorem report_outranks_guess:
  assumes "ss_pid s \<noteq> None" and "po_agent (sm_observation m) = Some ob" and "\<not> is_new_agent s ob"
    and "ac_native_status (ss_activity s) = Some st"
    and "st = Blocked \<or> sm_now m - ac_native_updated_at (ss_activity s) \<le> 15000"
  shows "\<exists>g. ss_agent (snd (refresh_process_metadata m s)) = Some g \<and> ai_kind g = ob_kind ob
    \<and> (ai_status g = st \<or> (ob_kind ob = lit ''agy'' \<and> st = Working \<and> ai_status g = Blocked))"
proof -
  have "\<not> fst (expire_native_state (sm_now m) (sg_explicit_idle_at (ss_signals s)) (sm_detection m)
      (ss_activity s))"
    using assms(4,5) by (auto simp: expire_native_state_def NATIVE_EVENT_FRESH_MILLIS_def)
  then have nat: "ac_native_status (ss_activity (sample_prepared m s)) = Some st"
    using assms(4) by (simp add: prepared_native)
  have n: "\<not> is_new_agent (sample_prepared m s) ob" using assms(3) by simp
  have "st = Idle \<or> st = Closed \<or> st = Blocked \<or> st = Working" by (cases st) simp_all
  then show ?thesis
    using refresh_same_status [OF n, of m] refresh_same [OF assms(2) n] nat
    by (auto simp: refresh_prepared [OF assms(1)] resolve_agent_status_def fallback_of_def
        split: if_splits)
qed

definition codex_observed :: agent_observation where
  "codex_observed = \<lparr>ob_kind = lit ''codex'', ob_pid = 90, ob_start_ticks = 5, ob_cpu_ticks = 10\<rparr>"

definition codex_sample :: "nat \<Rightarrow> sample" where
  "codex_sample now = \<lparr>sm_now = now,
     sm_observation = \<lparr>po_program = lit ''codex'', po_shell_foreground = False,
       po_agent = Some codex_observed,
       po_foreground = Some \<lparr>fo_group = 90, fo_name = lit ''codex''\<rparr>\<rparr>,
     sm_alternate_screen = False, sm_output_bytes = 0, sm_detection = None\<rparr>"

definition sampled_codex :: agent_session where
  "sampled_codex = session_step (Sample (codex_sample 2000)) working_codex"

lemma sampled_codex_state:
  "ss_pid sampled_codex \<noteq> None" "\<not> is_new_agent sampled_codex codex_observed"
  "ac_native_status (ss_activity sampled_codex) = Some Working"
  "ac_native_updated_at (ss_activity sampled_codex) = 1000"
  "ac_last_cpu_ticks (ss_activity sampled_codex) = 10"
  by (simp_all add: sampled_codex_def working_codex_eval codex_sample_def codex_observed_def
      refresh_process_metadata_def sample_prepared_def expire_native_state_def command_refresh_def
      refresh_agent_def is_new_agent_def refresh_new_agent_def process_identity_changed_def
      pending_for_def NATIVE_EVENT_FRESH_MILLIS_def with_path_def Let_def)

lemma report_outranks_guess_witness:
  "\<exists>g. ss_agent (snd (refresh_process_metadata (codex_sample 3000) sampled_codex)) = Some g
     \<and> ai_status g = Working"
  using report_outranks_guess [OF sampled_codex_state(1) _ sampled_codex_state(2,3),
      of "codex_sample 3000"]
  by (auto simp: codex_sample_def sampled_codex_state codex_observed_def)

text \<open>
  An agent that goes silent becomes idle: with no hook report, no detection, no fresh title,
  and its submission more than 12 seconds old, five samples that show no new processor time and no
  new output make it idle, and it stays idle for as long as it stays silent.
\<close>

theorem silent_agent_idle:
  assumes "settled ob out since s" and "\<forall>m \<in> set ms. silent_sample ob out since m"
    and "5 \<le> length ms"
  shows "map_option ai_status
    (ss_agent (fold (\<lambda>m s. snd (refresh_process_metadata m s)) ms s)) = Some Idle"
proof -
  have "ms \<noteq> []" using assms(3) by auto
  then show ?thesis
    using silent_run [OF assms(2,1), of 0] assms(3) by (simp add: QUIET_SAMPLES_TO_IDLE_def)
qed

definition quiet_codex :: agent_session where
  "quiet_codex = sampled_codex\<lparr>ss_activity := (ss_activity sampled_codex)\<lparr>ac_native_status := None,
     ac_native_provider := None, ac_last_sample_output_bytes := 0,
     ac_input_submitted_at := 1000\<rparr>, ss_signals := signals_default\<rparr>"

lemma silent_agent_idle_witness:
  "map_option ai_status (ss_agent (fold (\<lambda>m s. snd (refresh_process_metadata m s))
     (replicate 5 (codex_sample 20000)) quiet_codex)) = Some Idle"
proof -
  have "settled codex_observed 0 20000 quiet_codex"
    using sampled_codex_state
    by (auto simp: settled_def quiet_codex_def is_new_agent_def signals_default_def agent_constants
        codex_observed_def)
  from silent_agent_idle [OF this, of "replicate 5 (codex_sample 20000)"] show ?thesis
    by (simp add: silent_sample_def codex_sample_def)
qed

text \<open>
  A name a person gave a terminal stays: once a terminal is renamed by hand, no sample, hook
  title, fili title, input or exit changes its name; only renaming it again does.
\<close>

theorem person_name_stays:
  assumes "\<not> ac_automatic_name (ss_activity s)" and "\<forall>op \<in> set ops. \<forall>n. op \<noteq> Rename n"
  shows "ss_name (fold session_step ops s) = ss_name s"
proof -
  have step: "ss_name (session_step op t) = ss_name t \<and> \<not> ac_automatic_name (ss_activity (session_step op t))"
    if "\<not> ac_automatic_name (ss_activity t)" "\<forall>n. op \<noteq> Rename n" for op t
    using that input_name sample_name event_name
    by (cases op) (auto simp: session_exited_def accepted_def apply_fili_name_def
        apply_fili_summary_def Let_def split: option.split)
  have "ss_name (fold session_step ops s) = ss_name s
      \<and> \<not> ac_automatic_name (ss_activity (fold session_step ops s))"
    using assms by (induction ops arbitrary: s) (simp_all add: step)
  then show ?thesis ..
qed

lemma person_name_stays_witness:
  "ss_name (fold session_step [Event \<lparr>ev_provider = lit ''omp'', ev_kind = Thinking,
       ev_sequence = None, ev_title = Some (lit ''new title''), ev_transcript_only = False\<rparr> 5,
       FiliName (lit ''other'')] (rename_session (lit ''mine'') working_codex)) = lit ''mine''"
  using person_name_stays [of "rename_session (lit ''mine'') working_codex"
      "[Event \<lparr>ev_provider = lit ''omp'', ev_kind = Thinking, ev_sequence = None,
        ev_title = Some (lit ''new title''), ev_transcript_only = False\<rparr> 5, FiliName (lit ''other'')]"]
  by (simp add: rename_session_def set_name_def)

text \<open>
  A summary is written only for the task it was made for: it is accepted exactly when it is not
  blank, the terminal has an agent at the given revision, that task has finished and has no summary
  yet; it then changes the summary only, and no second one is accepted for that agent state. Every
  refusal names its reason and changes nothing.
\<close>

theorem summary_once:
  "case apply_fili_summary revision words s of
     Inr s' \<Rightarrow> \<exists>g. ss_agent s = Some g \<and> revision = Some (ai_revision g) \<and> trim words \<noteq> []
       \<and> ai_summary g = None \<and> ai_completed_at g \<noteq> None
       \<and> s' = s\<lparr>ss_agent := Some (g\<lparr>ai_summary := Some (map (\<lambda>c. if c = 13 \<or> c = 10 then 32 else c)
                                                 (trim words))\<rparr>)\<rparr>
       \<and> (\<exists>e. apply_fili_summary revision' words' s' = Inl e)
   | Inl e \<Rightarrow> (e = EmptySummary \<longleftrightarrow> trim words = [])
       \<and> (e = NoAgent \<longleftrightarrow> trim words \<noteq> [] \<and> ss_agent s = None)
       \<and> accepted (Inl e) s = s"
  by (auto simp: apply_fili_summary_def accepted_def Let_def split: option.split)

text \<open>C22. The exit of the shell closes its agent, and no later sample, input, rename or summary brings
  it back. A hook report that arrives after the exit does: the agent then shows the reported status,
  and as samples skip a terminal without a process, only a further report changes it.
\<close>

theorem exit_closes_agent:
  fixes s :: agent_session and now code :: nat
  assumes "\<forall>op \<in> set ops. case op of Event e now \<Rightarrow> False | _ \<Rightarrow> True"
  defines "s' \<equiv> fold session_step ops (session_exited now code s)"
  shows "(case ss_agent s' of None \<Rightarrow> True | Some g \<Rightarrow> ai_status g = Closed)
    \<and> (\<not> ev_transcript_only e
        \<and> fst (accept_native_sequence (ev_provider e) (ev_sequence e) (ss_activity s')) \<longrightarrow>
       map_option ai_status (ss_agent (fold (\<lambda>m s. snd (refresh_process_metadata m s)) ms
           (snd (apply_agent_event e later s')))) = Some (event_status (ev_kind e)))"
proof -
  have gone: "agent_gone s'" unfolding s'_def by (rule run_gone [OF exited_gone assms(1)])
  have pid: "ss_pid (snd (apply_agent_event e later s')) = None"
    using gone
    by (cases "accept_native_sequence (ev_provider e) (ev_sequence e) (ss_activity s')")
      (simp add: agent_gone_def apply_agent_event_def set_name_def Let_def split: option.split)
  have "fold (\<lambda>m s. snd (refresh_process_metadata m s)) ms t = t" if "ss_pid t = None" for t
    using that by (induction ms) (simp_all add: refresh_process_metadata_def)
  then show ?thesis
    using gone pid taken_event_status [of e s' later] by (simp add: agent_gone_def)
qed

lemma exit_closes_agent_witness:
  "map_option ai_status (ss_agent (fold session_step [Rename (lit ''done'')]
     (session_exited 5000 0 working_codex))) = Some Closed"
  using exit_closes_agent [of "[Rename (lit ''done'')]" 5000 0 working_codex]
  by (simp add: rename_session_def set_name_def session_exited_def working_codex_agent Let_def)

end
