(* ===== verification/ActivityView.thy ===== *)
theory ActivityView
  imports Interfaces "HOL-Library.Multiset"
begin

text \<open>
  The watermarks of what a person has seen of each terminal (\<open>src/activity_view.rs\<close>): the views
  in memory, the file they are persisted to and the three operations. What the file system answers
  to one \<open>persist\<close> is an argument of the operation. The views are a \<open>joined_store\<close>: an update
  joins the new watermarks into the old ones by the larger of each.
\<close>

section \<open>Watermarks\<close>

record activity_view =
  agent_completed_at :: nat
  command_completed_at :: nat

definition view_default :: activity_view where
  "view_default = \<lparr>agent_completed_at = 0, command_completed_at = 0\<rparr>"

definition view_merge :: "activity_view \<Rightarrow> activity_view \<Rightarrow> activity_view" where
  "view_merge v update =
     \<lparr>agent_completed_at = max (agent_completed_at v) (agent_completed_at update),
      command_completed_at = max (command_completed_at v) (command_completed_at update)\<rparr>"

definition view_le :: "activity_view \<Rightarrow> activity_view \<Rightarrow> bool" where
  "view_le v w \<longleftrightarrow> agent_completed_at v \<le> agent_completed_at w
     \<and> command_completed_at v \<le> command_completed_at w"

section \<open>The service and its file\<close>

text \<open>\<open>StoredActivityViews\<close>: the document written to \<open>activity-views.json\<close>.\<close>

record stored_views =
  schema_version :: nat
  stored_terminals :: "(uuid, activity_view) hmap"

definition SCHEMA_VERSION :: nat where
  "SCHEMA_VERSION = 1"

record view_service =
  av_path :: bool
  av_views :: "(uuid, activity_view) hmap"
  av_file :: "stored_views option"

definition av_load :: "stored_views read_outcome \<Rightarrow> (uuid, activity_view) hmap" where
  "av_load r =
     (case r of
        Read_ok (Some stored) \<Rightarrow>
          if schema_version stored = SCHEMA_VERSION then stored_terminals stored else []
      | Read_ok None \<Rightarrow> []
      | Not_found \<Rightarrow> []
      | Read_error \<Rightarrow> [])"

definition av_new :: "stored_views read_outcome \<Rightarrow> stored_views option \<Rightarrow> view_service" where
  "av_new r file = \<lparr>av_path = True, av_views = av_load r, av_file = file\<rparr>"

definition av_get :: "view_service \<Rightarrow> uuid \<Rightarrow> activity_view" where
  "av_get s terminal_id =
     (case map_of (av_views s) terminal_id of None \<Rightarrow> view_default | Some v \<Rightarrow> v)"

definition stored_of :: "(uuid, activity_view) hmap \<Rightarrow> stored_views" where
  "stored_of views = \<lparr>schema_version = SCHEMA_VERSION, stored_terminals = views\<rparr>"

definition av_persist ::
  "'e persist_outcome \<Rightarrow> (uuid, activity_view) hmap \<Rightarrow> view_service \<Rightarrow> ('e + unit) \<times> view_service" where
  "av_persist outcome views s =
     (if \<not> av_path s then (Inr (), s)
      else let (r, file) = persist_document outcome (stored_of views) (av_file s)
        in (r, s\<lparr>av_file := file\<rparr>))"

definition av_update ::
  "'e persist_outcome \<Rightarrow> uuid \<Rightarrow> activity_view \<Rightarrow> view_service
     \<Rightarrow> ('e + activity_view) \<times> view_service" where
  "av_update outcome terminal_id update s =
     (let current = av_get s terminal_id;
          next_view = view_merge current update
      in if next_view = current then (Inr current, s)
         else let updated = AList.update terminal_id next_view (av_views s)
           in case av_persist outcome updated s of
                (Inl e, s1) \<Rightarrow> (Inl e, s1)
              | (Inr _, s1) \<Rightarrow> (Inr next_view, s1\<lparr>av_views := updated\<rparr>))"

definition av_remove ::
  "'e persist_outcome \<Rightarrow> uuid \<Rightarrow> view_service \<Rightarrow> ('e + unit) \<times> view_service" where
  "av_remove outcome terminal_id s =
     (if map_of (av_views s) terminal_id = None then (Inr (), s)
      else let updated = AList.delete terminal_id (av_views s)
        in case av_persist outcome updated s of
             (Inl e, s1) \<Rightarrow> (Inl e, s1)
           | (Inr _, s1) \<Rightarrow> (Inr (), s1\<lparr>av_views := updated\<rparr>))"

section \<open>The views as a store of joined values\<close>

definition av_put :: "uuid \<Rightarrow> activity_view \<Rightarrow> view_service \<Rightarrow> view_service" where
  "av_put k v s = s\<lparr>av_views := AList.update k v (av_views s)\<rparr>"

definition av_del :: "uuid \<Rightarrow> view_service \<Rightarrow> view_service" where
  "av_del k s = s\<lparr>av_views := AList.delete k (av_views s)\<rparr>"

definition av_ok :: "view_service \<Rightarrow> bool" where
  "av_ok s \<longleftrightarrow> hm_ok (av_views s)"

definition av_joined :: "uuid \<Rightarrow> activity_view \<Rightarrow> view_service \<Rightarrow> view_service" where
  "av_joined k v s = snd (av_update (Persisted :: unit persist_outcome) k v s)"

definition av_empty :: view_service where
  "av_empty = \<lparr>av_path = False, av_views = [], av_file = None\<rparr>"

lemma persist_views [simp]: "av_views (snd (av_persist p views s)) = av_views s"
  by (auto simp: av_persist_def Let_def split: prod.splits)

lemma merge_assoc: "view_merge (view_merge a b) c = view_merge a (view_merge b c)"
  by (simp add: view_merge_def max.assoc)

lemma merge_comm: "view_merge a b = view_merge b a"
  by (simp add: view_merge_def max.commute)

lemma merge_idem: "view_merge a a = a"
  by (simp add: view_merge_def)

lemma merge_default: "view_merge view_default a = a"
  by (simp add: view_merge_def view_default_def)

lemma merge_le: "view_le v (view_merge v w)" "view_le w (view_merge v w)"
  by (simp_all add: view_le_def view_merge_def)

lemma merge_least: "view_le v u \<Longrightarrow> view_le w u \<Longrightarrow> view_le (view_merge v w) u"
  by (simp add: view_le_def view_merge_def)

text \<open>An update that returns a view has joined it into the stored one.\<close>

lemma update_Inr:
  assumes "av_update p k v s = (Inr r, s1)" "av_ok s"
  shows "av_ok s1" "r = view_merge (av_get s k) v"
    "av_get s1 j = (if j = k then view_merge (av_get s k) v else av_get s j)"
proof -
  have g: "hm_ok (av_views s)" using assms(2) by (simp add: av_ok_def)
  show "r = view_merge (av_get s k) v"
    using assms(1) by (auto simp: av_update_def Let_def split: if_splits prod.splits sum.splits)
  have "s1 = s \<and> view_merge (av_get s k) v = av_get s k
      \<or> av_views s1 = AList.update k (view_merge (av_get s k) v) (av_views s)"
    using assms(1)
    by (auto simp: av_update_def Let_def split: if_splits prod.splits sum.splits)
  then show "av_ok s1" "av_get s1 j = (if j = k then view_merge (av_get s k) v else av_get s j)"
    using assms(2) g hm.ok_put [OF g] by (auto simp: av_ok_def av_get_def hm.get_put)
qed

lemma update_Inl:
  assumes "av_update p k v s = (Inl e, s1)"
  shows "av_views s1 = av_views s"
proof -
  have "av_persist p w s = (Inl e, s1) \<Longrightarrow> av_views s1 = av_views s" for w
    using persist_views [of p w s] by simp
  then show ?thesis
    using assms by (auto simp: av_update_def Let_def split: if_splits prod.splits sum.splits)
qed

lemma joined_Inr: "\<exists>r. av_update (Persisted :: unit persist_outcome) k v s = (Inr r, av_joined k v s)"
  by (auto simp: av_joined_def av_update_def av_persist_def Let_def)

interpretation views: joined_store av_empty "\<lambda>s. map_of (av_views s)" av_put av_del av_ok
    view_default view_merge av_joined
proof unfold_locales
  fix s k v k' assume ok: "av_ok s"
  obtain r where r: "av_update (Persisted :: unit persist_outcome) k v s = (Inr r, av_joined k v s)"
    using joined_Inr by blast
  show "av_ok (av_joined k v s)" by (rule update_Inr(1) [OF r ok])
  show "(case map_of (av_views (av_joined k v s)) k' of None \<Rightarrow> view_default | Some w \<Rightarrow> w)
      = (if k' = k
         then view_merge (case map_of (av_views s) k of None \<Rightarrow> view_default | Some w \<Rightarrow> w) v
         else (case map_of (av_views s) k' of None \<Rightarrow> view_default | Some w \<Rightarrow> w))"
    using update_Inr(3) [OF r ok, of k'] by (simp add: av_get_def)
qed (simp_all add: av_empty_def av_put_def av_del_def av_ok_def hm.get_put hm.get_del hm.ok_put
    hm.ok_del merge_assoc merge_idem merge_default, rule merge_comm)

lemma av_get_read: "av_get s k = views.read s k"
  by (simp add: av_get_def views.read_def)

section \<open>Requests in any order\<close>

text \<open>One request: the file system's answer, the terminal and the watermarks of a browser.\<close>

type_synonym 'e view_request = "'e persist_outcome \<times> uuid \<times> activity_view"

definition av_request :: "'e view_request \<Rightarrow> view_service \<Rightarrow> view_service" where
  "av_request q s = (case q of (p, k, v) \<Rightarrow> snd (av_update p k v s))"

text \<open>The watermarks the requests for one terminal ask for, joined.\<close>

definition asked :: "uuid \<Rightarrow> 'e view_request list \<Rightarrow> activity_view" where
  "asked k qs = fold (\<lambda>(p, j, v) acc. if j = k then view_merge acc v else acc) qs view_default"

lemma asked_fold:
  "fold (\<lambda>(p, j, v) acc. if j = k then view_merge acc v else acc) qs a = view_merge a (asked k qs)"
proof (induction qs arbitrary: a)
  case Nil
  then show ?case by (simp add: asked_def merge_comm [of a] merge_default)
next
  case (Cons q qs)
  show ?case
  proof (cases q)
    case (fields p j v)
    show ?thesis
      unfolding asked_def fields fold_Cons comp_apply split_conv
      unfolding Cons.IH by (simp add: merge_assoc merge_default)
  qed
qed

lemma asked_Cons:
  "asked k ((p, j, v) # qs) = (if j = k then view_merge v (asked k qs) else asked k qs)"
  using asked_fold [of k qs "view_merge view_default v"]
  by (simp add: asked_def merge_default)

lemma requests_persisted:
  assumes "av_ok s" and "\<forall>q\<in>set qs. fst q = Persisted"
  shows "av_ok (fold av_request qs s) \<and>
    av_get (fold av_request qs s) k = view_merge (av_get s k) (asked k qs)"
  using assms
proof (induction qs arbitrary: s)
  case Nil
  then show ?case by (simp add: asked_def merge_comm [of _ view_default] merge_default)
next
  case (Cons q qs)
  obtain p j v where q: "q = (p, j, v)" by (cases q)
  have "p = Persisted" using Cons.prems(2) q by simp
  then have "\<exists>r s1. av_update p j v s = (Inr r, s1)"
    by (simp add: av_update_def av_persist_def Let_def)
  then obtain r s1 where u: "av_update p j v s = (Inr r, s1)" by blast
  have "av_ok (fold av_request qs s1) \<and>
      av_get (fold av_request qs s1) k = view_merge (av_get s1 k) (asked k qs)"
    using Cons.IH [OF update_Inr(1) [OF u Cons.prems(1)]] Cons.prems(2) by simp
  moreover have "av_request q s = s1" by (simp add: q av_request_def u)
  ultimately show ?case
    using update_Inr(3) [OF u Cons.prems(1), of k] by (simp add: q asked_Cons merge_assoc)
qed

lemma asked_mset: "mset qs = mset qs' \<Longrightarrow> asked k qs = asked k qs'"
proof -
  let ?f = "\<lambda>(p, j, v) acc. if j = k then view_merge acc v else acc"
  assume "mset qs = mset qs'"
  moreover have "?f x \<circ> ?f y = ?f y \<circ> ?f x" for x y
  proof (rule ext)
    fix a
    have "view_merge (view_merge a v) w = view_merge (view_merge a w) v" for v w
      unfolding merge_assoc merge_comm [of v] ..
    then show "(?f x \<circ> ?f y) a = (?f y \<circ> ?f x) a"
      by (cases x; cases y) simp
  qed
  ultimately show ?thesis
    unfolding asked_def by (intro fun_cong [OF fold_multiset_equiv]) auto
qed



section \<open>The file\<close>

interpretation view_file: document_store stored_of av_load
  by unfold_locales (simp add: av_load_def stored_of_def)

definition av_durable :: "view_service \<Rightarrow> bool" where
  "av_durable s \<longleftrightarrow> av_path s \<longrightarrow> view_file.durable (av_views s) (av_file s)"

lemma update_durable:
  assumes "av_durable s" "\<And>e. p \<noteq> Fails_after_rename e"
  shows "av_durable (snd (av_update p k v s))"
  using assms view_file.durable_persist [of "av_views s" "av_file s" p]
  by (auto simp: av_durable_def av_update_def av_persist_def Let_def split: prod.splits sum.splits)
    (metis fst_conv old.sum.simps snd_conv)+

lemma remove_durable:
  assumes "av_durable s" "\<And>e. p \<noteq> Fails_after_rename e"
  shows "av_durable (snd (av_remove p k s))"
  using assms view_file.durable_persist [of "av_views s" "av_file s" p]
  by (auto simp: av_durable_def av_remove_def av_persist_def Let_def split: prod.splits sum.splits)
    (metis fst_conv old.sum.simps snd_conv)+

text \<open>A new service reads back what a durable one had persisted.\<close>

lemma durable_restart:
  "av_durable s \<Longrightarrow> av_path s \<Longrightarrow> av_views (av_new (reread (av_file s)) (av_file s)) = av_views s"
  by (simp add: av_durable_def view_file.durable_def av_new_def)

end
