(* ===== verification/LoginLimiter.thy ===== *)
theory LoginLimiter
  imports Interfaces
begin

text \<open>
  The limit on password guesses (\<open>src/auth.rs\<close>: \<open>LoginLimiter\<close>): one window of attempts per
  client address, at most \<open>MAX_TRACKED_CLIENTS\<close> of them. Times are seconds; \<open>resets_at\<close> is
  computed with the unchecked addition of the code.
\<close>

section \<open>Windows\<close>

record attempt_window =
  aw_attempts :: nat
  aw_resets_at :: nat

type_synonym login_limiter = "(ustring, attempt_window) hmap"

definition LOGIN_WINDOW_SECONDS :: nat where "LOGIN_WINDOW_SECONDS = 15 * 60"
definition MAX_TRACKED_CLIENTS :: nat where "MAX_TRACKED_CLIENTS = 4096"

text \<open>The window that expires soonest goes when a new client finds the map full.\<close>

definition evict_soonest :: "ustring \<Rightarrow> login_limiter \<Rightarrow> login_limiter" where
  "evict_soonest key m =
     (if MAX_TRACKED_CLIENTS \<le> length m \<and> map_of m key = None
      then (case min_by_key (\<lambda>e. aw_resets_at (snd e)) m of
              Some (client, _) \<Rightarrow> AList.delete client m
            | None \<Rightarrow> m)
      else m)"

definition limiter_consume :: "ustring \<Rightarrow> nat \<Rightarrow> login_limiter \<Rightarrow> (nat + unit) \<times> login_limiter" where
  "limiter_consume key now m0 =
     (let m = evict_soonest key (hm_retain (\<lambda>_ w. now < aw_resets_at w) m0);
          w0 = (case map_of m key of
                  Some w \<Rightarrow> w
                | None \<Rightarrow> \<lparr>aw_attempts = 0, aw_resets_at = wrap_add now LOGIN_WINDOW_SECONDS\<rparr>);
          w = w0\<lparr>aw_attempts := min (aw_attempts w0 + 1) 255\<rparr>;
          m' = AList.update key w m
      in if 8 < aw_attempts w then (Inl (max (aw_resets_at w - now) 1), m') else (Inr (), m'))"

definition limiter_reset :: "ustring \<Rightarrow> login_limiter \<Rightarrow> login_limiter" where
  "limiter_reset key m = AList.delete key m"

section \<open>The size of the map\<close>

lemma length_hm_retain: "length (hm_retain P m) \<le> length m"
  by (simp add: hm_retain_def)

lemma length_delete: "length (AList.delete k m) \<le> length m"
  by (simp add: AList.delete_eq)

lemma length_delete_less: "map_of m k = Some v \<Longrightarrow> length (AList.delete k m) < length m"
  by (induction m) (auto simp: less_Suc_eq_le length_delete split: if_splits)

lemma length_update:
  "length (AList.update k v m) = (if map_of m k = None then Suc (length m) else length m)"
  by (induction m) auto

lemma evict_ok: "hm_ok m \<Longrightarrow> hm_ok (evict_soonest key m)"
  by (auto simp: evict_soonest_def hm.ok_del split: option.split)

lemma evict_room:
  assumes "hm_ok m" "length m \<le> MAX_TRACKED_CLIENTS"
  shows "map_of (evict_soonest key m) key = None \<Longrightarrow> length (evict_soonest key m) < MAX_TRACKED_CLIENTS"
    and "length (evict_soonest key m) \<le> MAX_TRACKED_CLIENTS"
proof -
  have "length (evict_soonest key m) < MAX_TRACKED_CLIENTS \<or> evict_soonest key m = m \<and>
      (map_of m key \<noteq> None \<or> length m < MAX_TRACKED_CLIENTS)"
  proof (cases "MAX_TRACKED_CLIENTS \<le> length m \<and> map_of m key = None")
    case True
    then obtain c w where c: "min_by_key (\<lambda>e. aw_resets_at (snd e)) m = Some (c, w)"
      by (cases "min_by_key (\<lambda>e. aw_resets_at (snd e)) m")
        (auto simp: min_by_key_None MAX_TRACKED_CLIENTS_def)
    have "map_of m c = Some w"
      using min_by_key_mem [OF c] assms(1) by (simp add: hm_ok_def)
    then have "length (AList.delete c m) < length m" by (rule length_delete_less)
    then show ?thesis using True c assms(2) by (simp add: evict_soonest_def)
  qed (auto simp: evict_soonest_def)
  then show "map_of (evict_soonest key m) key = None \<Longrightarrow> length (evict_soonest key m) < MAX_TRACKED_CLIENTS"
    "length (evict_soonest key m) \<le> MAX_TRACKED_CLIENTS"
    using assms(2) by auto
qed

definition limiter_ok :: "login_limiter \<Rightarrow> bool" where
  "limiter_ok m \<longleftrightarrow> hm_ok m \<and> length m \<le> MAX_TRACKED_CLIENTS"

lemma limiter_consume_ok:
  assumes "limiter_ok m" shows "limiter_ok (snd (limiter_consume key now m))"
proof -
  let ?r = "hm_retain (\<lambda>_ w. now < aw_resets_at w) m"
  let ?m = "evict_soonest key ?r"
  have r: "hm_ok ?r" "length ?r \<le> MAX_TRACKED_CLIENTS"
    using assms length_hm_retain [of "\<lambda>_ w. now < aw_resets_at w" m] by (auto simp: limiter_ok_def)
  have "hm_ok (AList.update key w ?m) \<and> length (AList.update key w ?m) \<le> MAX_TRACKED_CLIENTS" for w
    using evict_room [OF r, of key] hm.ok_put [OF evict_ok [OF r(1)]] by (auto simp: length_update)
  then show ?thesis by (auto simp: limiter_consume_def limiter_ok_def Let_def)
qed

lemma limiter_reset_ok: "limiter_ok m \<Longrightarrow> limiter_ok (limiter_reset key m)"
  using length_delete [of key m] by (simp add: limiter_ok_def limiter_reset_def hm.ok_del)

section \<open>One client apart\<close>

text \<open>
  What a client's window is worth at a time: nothing once it has elapsed. While at most
  \<open>MAX_TRACKED_CLIENTS\<close> clients are tracked, no window is evicted, and each client meets a
  limiter of its own.
\<close>

definition live_window :: "nat \<Rightarrow> attempt_window option \<Rightarrow> attempt_window option" where
  "live_window now w = (case w of None \<Rightarrow> None | Some w \<Rightarrow> if now < aw_resets_at w then Some w else None)"

definition window_consume :: "nat \<Rightarrow> attempt_window option \<Rightarrow> attempt_window" where
  "window_consume now w =
     (let w0 = (case live_window now w of Some w \<Rightarrow> w
                | None \<Rightarrow> \<lparr>aw_attempts = 0, aw_resets_at = wrap_add now LOGIN_WINDOW_SECONDS\<rparr>)
      in w0\<lparr>aw_attempts := min (aw_attempts w0 + 1) 255\<rparr>)"

lemma hm_keys_length: "hm_ok m \<Longrightarrow> card (dom (map_of m)) = length m"
  using distinct_card [of "map fst m"] by (simp add: hm_ok_def dom_map_of_conv_image_fst)

lemma no_eviction:
  assumes "hm_ok m" "dom (map_of m) \<subseteq> K" "key \<in> K" "finite K" "card K \<le> MAX_TRACKED_CLIENTS"
  shows "evict_soonest key m = m"
proof (cases "map_of m key")
  case None
  then have "dom (map_of m) \<subset> K" using assms(2,3) by auto
  then have "length m < MAX_TRACKED_CLIENTS"
    using psubset_card_mono [OF assms(4), of "dom (map_of m)"] assms(5) hm_keys_length [OF assms(1)]
    by linarith
  then show ?thesis by (simp add: evict_soonest_def)
qed (simp add: evict_soonest_def)

lemma consume_apart:
  assumes "hm_ok m" "dom (map_of m) \<subseteq> K" "key \<in> K" "finite K" "card K \<le> MAX_TRACKED_CLIENTS"
  shows "map_of (snd (limiter_consume key now m)) k =
      (if k = key then Some (window_consume now (map_of m key)) else live_window now (map_of m k))"
    and "(fst (limiter_consume key now m) = Inr ()) = (aw_attempts (window_consume now (map_of m key)) \<le> 8)"
    and "hm_ok (snd (limiter_consume key now m))" "dom (map_of (snd (limiter_consume key now m))) \<subseteq> K"
proof -
  let ?r = "hm_retain (\<lambda>_ w. now < aw_resets_at w) m"
  have r: "hm_ok ?r" "map_of ?r k = live_window now (map_of m k)" for k
    using assms(1) by (auto simp: map_of_retain live_window_def split: option.splits)
  have "dom (map_of ?r) \<subseteq> K"
    using assms(2) r(2) by (auto simp: dom_def live_window_def split: option.splits if_splits)
  then have e: "evict_soonest key ?r = ?r" using no_eviction [OF r(1)] assms(3-5) by blast
  have s: "snd (limiter_consume key now m) = AList.update key (window_consume now (map_of m key)) ?r"
    by (simp add: limiter_consume_def e Let_def window_consume_def r(2))
  show k: "map_of (snd (limiter_consume key now m)) k =
      (if k = key then Some (window_consume now (map_of m key)) else live_window now (map_of m k))" for k
    using hm.get_put [OF r(1)] by (simp add: s r(2))
  show "(fst (limiter_consume key now m) = Inr ()) = (aw_attempts (window_consume now (map_of m key)) \<le> 8)"
    by (auto simp: limiter_consume_def e Let_def window_consume_def r(2))
  show "hm_ok (snd (limiter_consume key now m))" using hm.ok_put [OF r(1)] by (simp add: s)
  show "dom (map_of (snd (limiter_consume key now m))) \<subseteq> K"
    using k assms(2,3) by (auto simp: dom_def live_window_def split: if_splits option.splits)
qed


section \<open>Runs of attempts\<close>

datatype login_event = Attempt ustring nat | Reset ustring

fun event_key :: "login_event \<Rightarrow> ustring" where
  "event_key (Attempt k _) = k"
| "event_key (Reset k) = k"

fun limiter_apply :: "login_event \<Rightarrow> login_limiter \<Rightarrow> login_limiter" where
  "limiter_apply (Attempt k t) m = snd (limiter_consume k t m)"
| "limiter_apply (Reset k) m = limiter_reset k m"

text \<open>The times at which attempts of one client were let through.\<close>

fun accepted :: "ustring \<Rightarrow> login_event list \<Rightarrow> login_limiter \<Rightarrow> nat list" where
  "accepted key [] m = []"
| "accepted key (e # es) m =
     (case e of
        Attempt k t \<Rightarrow> (if k = key \<and> fst (limiter_consume k t m) = Inr () then [t] else [])
      | Reset _ \<Rightarrow> []) @ accepted key es (limiter_apply e m)"

text \<open>Attempts carry times of the clock, which does not go back.\<close>

fun clocked :: "nat \<Rightarrow> login_event list \<Rightarrow> bool" where
  "clocked t0 [] \<longleftrightarrow> True"
| "clocked t0 (Attempt _ t # es) \<longleftrightarrow> t0 \<le> t \<and> t + LOGIN_WINDOW_SECONDS \<le> u64_max \<and> clocked t es"
| "clocked t0 (Reset _ # es) \<longleftrightarrow> clocked t0 es"

text \<open>Accepted attempts come in blocks of at most eight, one block to a window.\<close>

fun blocks_from :: "nat \<Rightarrow> nat list list \<Rightarrow> bool" where
  "blocks_from s [] \<longleftrightarrow> True"
| "blocks_from s (b # bs) \<longleftrightarrow> b \<noteq> [] \<and> s \<le> hd b \<and> length b \<le> 8
     \<and> (\<forall>t\<in>set b. hd b \<le> t \<and> t < hd b + LOGIN_WINDOW_SECONDS)
     \<and> blocks_from (hd b + LOGIN_WINDOW_SECONDS) bs"

lemma blocks_from_mono: "blocks_from s bs \<Longrightarrow> s' \<le> s \<Longrightarrow> blocks_from s' bs"
  by (cases bs) auto

lemma blocks_later: "blocks_from s bs \<Longrightarrow> t \<in> set (concat bs) \<Longrightarrow> s \<le> t"
proof (induction bs arbitrary: s)
  case (Cons b bs)
  show ?case
  proof (cases "t \<in> set b")
    case False
    then have "hd b + LOGIN_WINDOW_SECONDS \<le> t"
      using Cons.IH [of "hd b + LOGIN_WINDOW_SECONDS"] Cons.prems by auto
    then show ?thesis using Cons.prems(1) by simp
  qed (use Cons.prems(1) in fastforce)
qed simp

definition recent :: "nat \<Rightarrow> nat list \<Rightarrow> nat" where
  "recent u ts = length (filter (\<lambda>t. u \<le> t \<and> t < u + LOGIN_WINDOW_SECONDS) ts)"

lemma recent_append: "recent u (xs @ ys) = recent u xs + recent u ys"
  by (simp add: recent_def)

lemma recent_le: "recent u xs \<le> length xs"
  by (simp add: recent_def)

lemma recent_zero: "(\<And>t. t \<in> set xs \<Longrightarrow> t < u \<or> u + LOGIN_WINDOW_SECONDS \<le> t) \<Longrightarrow> recent u xs = 0"
  by (force simp: recent_def filter_empty_conv)

lemma recent_one_block:
  assumes "blocks_from s bs" "u \<le> s" shows "recent u (concat bs) \<le> 8"
proof (cases bs)
  case (Cons b cs)
  have "recent u (concat cs) = 0"
    using assms blocks_later [of "hd b + LOGIN_WINDOW_SECONDS" cs] Cons
    by (intro recent_zero) fastforce
  then show ?thesis
    using assms Cons recent_le [of u b] by (simp add: recent_append)
qed (simp add: recent_def)

lemma recent_blocks: "blocks_from s bs \<Longrightarrow> recent u (concat bs) \<le> 16"
proof (induction bs arbitrary: s)
  case Nil
  then show ?case by (simp add: recent_def)
next
  case (Cons b bs)
  note rest = Cons.prems [unfolded blocks_from.simps, THEN conjunct2, THEN conjunct2, THEN conjunct2,
      THEN conjunct2]
  show ?case
  proof (cases "u \<le> hd b + LOGIN_WINDOW_SECONDS")
    case True
    then show ?thesis
      using recent_one_block [OF rest True] recent_le [of u b] Cons.prems by (simp add: recent_append)
  next
    case False
    then have "recent u b = 0" using Cons.prems by (intro recent_zero) fastforce
    then show ?thesis using Cons.IH [OF rest] by (simp add: recent_append)
  qed
qed

text \<open>What the attempts to come owe to the window that is open at a time.\<close>

definition continues :: "nat \<Rightarrow> attempt_window option \<Rightarrow> nat list \<Rightarrow> bool" where
  "continues t0 w ts \<longleftrightarrow> (\<exists>c bs. ts = c @ concat bs \<and>
     (case live_window t0 w of
        None \<Rightarrow> c = [] \<and> blocks_from t0 bs
      | Some x \<Rightarrow> length c \<le> 8 - aw_attempts x \<and> (\<forall>t\<in>set c. t0 \<le> t \<and> t < aw_resets_at x)
          \<and> blocks_from (aw_resets_at x) bs))"

lemma continues_later:
  assumes "continues t (live_window t w) ts" "t0 \<le> t" shows "continues t0 w ts"
proof (cases "live_window t w")
  case None
  then obtain bs where bs: "ts = concat bs" "blocks_from t bs"
    using assms(1) by (auto simp: continues_def live_window_def)
  show ?thesis
  proof (cases "live_window t0 w")
    case (Some x)
    then have "aw_resets_at x \<le> t" using None by (auto simp: live_window_def split: option.splits if_splits)
    then show ?thesis
      using bs Some blocks_from_mono [OF bs(2)]
      by (auto simp: continues_def intro!: exI [of _ "[]"] exI [of _ bs])
  qed (use bs blocks_from_mono [OF bs(2) assms(2)] in \<open>auto simp: continues_def\<close>)
next
  case (Some x)
  then have "w = Some x" "live_window t (Some x) = Some x" "live_window t0 w = Some x"
    using assms(2) by (auto simp: live_window_def split: option.splits if_splits)
  then show ?thesis using assms by (fastforce simp: continues_def)
qed

lemma continues_attempt:
  assumes c: "continues t (Some (window_consume t w)) ts" and t: "t0 \<le> t" "t + LOGIN_WINDOW_SECONDS \<le> u64_max"
  shows "continues t0 w ((if aw_attempts (window_consume t w) \<le> 8 then [t] else []) @ ts)"
proof (cases "live_window t w")
  case None
  then have w: "window_consume t w = \<lparr>aw_attempts = 1, aw_resets_at = t + LOGIN_WINDOW_SECONDS\<rparr>"
    using t(2) by (simp add: window_consume_def wrap_add_exact Let_def)
  then obtain d bs where d: "ts = d @ concat bs" "length d \<le> 7" "\<forall>u\<in>set d. t \<le> u \<and> u < t + LOGIN_WINDOW_SECONDS"
    "blocks_from (t + LOGIN_WINDOW_SECONDS) bs"
    using c by (auto simp: continues_def live_window_def LOGIN_WINDOW_SECONDS_def)
  then have b: "blocks_from t ((t # d) # bs)" by (auto simp: LOGIN_WINDOW_SECONDS_def)
  then have "continues t (live_window t w) (t # ts)"
    using d(1) None by (auto simp: continues_def live_window_def intro!: exI [of _ "(t # d) # bs"])
  then show ?thesis using continues_later [OF _ t(1)] w by simp
next
  case (Some x)
  then have w: "w = Some x" "live_window t0 w = Some x" "t < aw_resets_at x"
    using t(1) by (auto simp: live_window_def split: option.splits if_splits)
  have n: "window_consume t w = x\<lparr>aw_attempts := min (aw_attempts x + 1) 255\<rparr>"
    by (simp add: window_consume_def Some Let_def)
  obtain d bs where d: "ts = d @ concat bs" "length d \<le> 8 - min (aw_attempts x + 1) 255"
    "\<forall>u\<in>set d. t \<le> u \<and> u < aw_resets_at x" "blocks_from (aw_resets_at x) bs"
    using c w(3) by (auto simp: continues_def live_window_def n)
  let ?c = "(if aw_attempts (window_consume t w) \<le> 8 then [t] else []) @ d"
  have "length ?c \<le> 8 - aw_attempts x" "\<forall>u\<in>set ?c. t0 \<le> u \<and> u < aw_resets_at x"
    using d(2,3) w(3) t(1) by (auto simp: n)
  then show ?thesis
    using d(1,4) w(2) by (auto simp: continues_def intro!: exI [of _ ?c] exI [of _ bs])
qed

lemma accepted_continues:
  assumes "hm_ok m" "dom (map_of m) \<subseteq> K" "event_key ` set es \<subseteq> K" "key \<in> K" "finite K"
    "card K \<le> MAX_TRACKED_CLIENTS" "clocked t0 es" "Reset key \<notin> set es"
  shows "continues t0 (map_of m key) (accepted key es m)"
  using assms(1-3,7,8)
proof (induction es arbitrary: t0 m)
  case Nil
  have "blocks_from s []" for s by simp
  then show ?case
    by (auto simp: continues_def split: option.split intro!: exI [of _ "[]"])
next
  case (Cons e es)
  show ?case
  proof (cases e)
    case (Attempt k t)
    have k: "k \<in> K" using Cons.prems(3) Attempt by simp
    note ap = consume_apart [OF Cons.prems(1,2) k assms(5,6), of t]
    have t: "t0 \<le> t" "t + LOGIN_WINDOW_SECONDS \<le> u64_max" "clocked t es"
      using Cons.prems(4) Attempt by simp_all
    have ih: "continues t (map_of (snd (limiter_consume k t m)) key) (accepted key es (snd (limiter_consume k t m)))"
      using Cons.IH [OF ap(3,4)] Cons.prems(3,5) t(3) by simp
    show ?thesis
    proof (cases "k = key")
      case True
      then show ?thesis
        using continues_attempt [OF _ t(1,2)] ih ap(1) [of key] ap(2) by (simp add: Attempt)
    next
      case False
      then show ?thesis
        using continues_later [OF _ t(1)] ih ap(1) [of key] by (simp add: Attempt)
    qed
  next
    case (Reset k)
    then have k: "k \<noteq> key" using Cons.prems(5) by auto
    have g: "map_of (limiter_reset k m) j = (if j = k then None else map_of m j)" for j
      by (simp add: limiter_reset_def hm.get_del [OF Cons.prems(1)])
    have "dom (map_of (limiter_reset k m)) \<subseteq> K" "hm_ok (limiter_reset k m)"
      using Cons.prems(1,2) g by (auto simp: limiter_reset_def hm.ok_del split: if_splits)
    then have "continues t0 (map_of (limiter_reset k m) key) (accepted key es (limiter_reset k m))"
      using Cons.IH [of "limiter_reset k m" t0] Cons.prems(3-5) by (simp add: Reset)
    then show ?thesis using g [of key] k by (simp add: Reset)
  qed
qed

lemma accepted_none: "key \<notin> event_key ` set es \<Longrightarrow> accepted key es m = []"
  by (induction es arbitrary: m) (auto split: login_event.splits)

lemma limiter_run_ok: "limiter_ok (fold limiter_apply es [])"
proof -
  have "limiter_ok m \<Longrightarrow> limiter_ok (fold limiter_apply es m)" for m
  proof (induction es arbitrary: m)
    case (Cons e es)
    then show ?case by (cases e) (simp_all add: limiter_consume_ok limiter_reset_ok)
  qed simp
  then show ?thesis by (simp add: limiter_ok_def MAX_TRACKED_CLIENTS_def)
qed

lemma consume_tracked:
  assumes "hm_ok m" "live_window t (map_of m key) = Some x"
  shows "map_of (snd (limiter_consume key t m)) key = Some (window_consume t (Some x))"
    "fst (limiter_consume key t m) =
       (if 8 < aw_attempts (window_consume t (Some x)) then Inl (aw_resets_at x - t) else Inr ())"
    "hm_ok (snd (limiter_consume key t m))"
proof -
  let ?r = "hm_retain (\<lambda>_ w. t < aw_resets_at w) m"
  have x: "t < aw_resets_at x" "map_of m key = Some x" "live_window t (Some x) = Some x"
    using assms(2) by (auto simp: live_window_def split: option.splits if_splits)
  have r: "map_of ?r key = Some x" "hm_ok ?r"
    using assms(1) x by (auto simp: map_of_retain)
  then have e: "evict_soonest key ?r = ?r" by (simp add: evict_soonest_def)
  show "map_of (snd (limiter_consume key t m)) key = Some (window_consume t (Some x))"
    "fst (limiter_consume key t m) =
       (if 8 < aw_attempts (window_consume t (Some x)) then Inl (aw_resets_at x - t) else Inr ())"
    "hm_ok (snd (limiter_consume key t m))"
    using x(1) r hm.ok_put [OF r(2)]
    by (auto simp: limiter_consume_def e Let_def window_consume_def x(3) hm.get_put [OF r(2)])
qed

lemma consume_fresh:
  assumes "hm_ok m" "live_window t (map_of m key) = None"
  shows "fst (limiter_consume key t m) = Inr ()"
proof -
  let ?r = "hm_retain (\<lambda>_ w. t < aw_resets_at w) m"
  have "map_of ?r key = None" "hm_ok ?r"
    using assms by (auto simp: map_of_retain live_window_def split: option.splits if_splits)
  then have "map_of (evict_soonest key ?r) key = None"
    by (auto simp: evict_soonest_def hm.get_del split: option.split)
  then show ?thesis by (simp add: limiter_consume_def Let_def)
qed

lemma refused_until:
  assumes "limiter_ok m" "fst (limiter_consume key t m) = Inl r" "t \<le> t'"
  shows "(fst (limiter_consume key t' (snd (limiter_consume key t m))) = Inr ()) = (t + r \<le> t')"
proof -
  have ok: "hm_ok m" using assms(1) by (simp add: limiter_ok_def)
  obtain x where x: "live_window t (map_of m key) = Some x"
    using consume_fresh [OF ok, of t key] assms(2) by (cases "live_window t (map_of m key)") auto
  then have lt: "t < aw_resets_at x" "live_window t (Some x) = Some x"
    by (auto simp: live_window_def split: option.splits if_splits)
  note c = consume_tracked [OF ok x]
  let ?w = "window_consume t (Some x)"
  have w: "aw_resets_at ?w = aw_resets_at x" "8 < aw_attempts ?w" "r = aw_resets_at x - t"
    using c(2) assms(2) lt by (auto simp: window_consume_def Let_def split: if_splits)
  show ?thesis
  proof (cases "t' < aw_resets_at x")
    case True
    then have l: "live_window t' (map_of (snd (limiter_consume key t m)) key) = Some ?w"
      by (simp add: c(1) live_window_def w(1))
    have "8 < aw_attempts (window_consume t' (Some ?w))"
      using w(2) True by (simp add: window_consume_def [of t'] live_window_def w(1) Let_def)
    then show ?thesis using consume_tracked(2) [OF c(3) l] True lt(1) w(3) by auto
  next
    case False
    then have "live_window t' (map_of (snd (limiter_consume key t m)) key) = None"
      by (simp add: c(1) live_window_def w(1))
    then show ?thesis using consume_fresh [OF c(3)] False lt(1) w(3) by auto
  qed
qed

text \<open>
  While no more than \<open>MAX_TRACKED_CLIENTS\<close> clients take part, at most sixteen attempts of one of
  them get through in any fifteen minutes without a reset, eight to a window.
\<close>

lemma login_attempts_bounded:
  assumes "clocked 0 es" "Reset key \<notin> set es" "card (event_key ` set es) \<le> MAX_TRACKED_CLIENTS"
  shows "recent u (accepted key es []) \<le> 16"
proof (cases "key \<in> event_key ` set es")
  case True
  have "continues 0 None (accepted key es [])"
    using accepted_continues [of "[]" "event_key ` set es" es key 0] assms True by simp
  then obtain bs where "accepted key es [] = concat bs" "blocks_from 0 bs"
    by (auto simp: continues_def live_window_def)
  then show ?thesis using recent_blocks by metis
next
  case False
  then show ?thesis using accepted_none [of key es "[]"] by (simp add: recent_def)
qed

end
