(* ===== verification/Auth.thy ===== *)
theory Auth
  imports LoginLimiter
begin

text \<open>
  Passwords and browser sessions (\<open>src/auth.rs\<close>) and the login handler that composes them with the
  limiter (\<open>src/api.rs\<close>: \<open>login\<close>). Argon2, HMAC-SHA256, base64 and the JSON writer are other
  packages: they are the fields of \<open>auth_env\<close>, and \<open>auth_laws\<close> states what their documentation
  promises and the code relies on. Random bytes and the answers of the file system are arguments.
\<close>

section \<open>Data\<close>

datatype auth_error =
    ShortPassword
  | ExternallyManaged
  | InvalidCredentials ustring
  | HashFailure ustring
  | AuthIo ustring
  | AuthJson ustring
  | AuthTask ustring

record credential_file =
  cf_version :: nat
  cf_cookie_secret :: ustring
  cf_password_hash :: ustring

record session_payload =
  sp_exp :: nat
  sp_iat :: nat
  sp_nonce :: uuid

text \<open>The state of the service, with the credentials file it keeps.\<close>

record auth_service =
  au_password_hash :: ustring
  au_cookie_secret :: bytes
  au_externally_managed :: bool
  au_file :: "credential_file option"

record auth_env =
  ae_b64 :: "bytes \<Rightarrow> ustring"
  ae_unb64 :: "ustring \<Rightarrow> bytes option"
  ae_unb64_error :: "ustring \<Rightarrow> ustring"
  ae_mac :: "bytes \<Rightarrow> bytes \<Rightarrow> bytes"
  ae_json :: "session_payload \<Rightarrow> bytes"
  ae_parse :: "bytes \<Rightarrow> session_payload option"
  ae_hash :: "bytes \<Rightarrow> ustring \<Rightarrow> ustring + ustring"
  ae_hash_invalid :: "ustring \<Rightarrow> ustring option"
  ae_verify :: "ustring \<Rightarrow> ustring \<Rightarrow> bool"

text \<open>
  URL-safe base64 without padding decodes what it encodes, accepts nothing but the canonical
  encoding and writes no full stop; the JSON reader reads a written payload; a password hash is
  well formed and verifies its password.
\<close>

definition auth_laws :: "auth_env \<Rightarrow> bool" where
  "auth_laws env \<longleftrightarrow>
     (\<forall>bs. ae_unb64 env (ae_b64 env bs) = Some bs \<and> 46 \<notin> set (ae_b64 env bs))
     \<and> (\<forall>s bs. ae_unb64 env s = Some bs \<longrightarrow> s = ae_b64 env bs)
     \<and> (\<forall>p. ae_parse env (ae_json env p) = Some p)
     \<and> (\<forall>salt pw h. ae_hash env salt pw = Inr h \<longrightarrow> ae_hash_invalid env h = None \<and> ae_verify env h pw)"

definition SESSION_LIFETIME :: nat where "SESSION_LIFETIME = 400 * 24 * 60 * 60"
definition CREDENTIALS_VERSION :: nat where "CREDENTIALS_VERSION = 1"

section \<open>Passwords\<close>

text \<open>\<open>task\<close> is the failure of the blocking task, if it fails.\<close>

definition password_hash :: "auth_env \<Rightarrow> bytes \<Rightarrow> ustring \<Rightarrow> auth_error + ustring" where
  "password_hash env salt pw = (case ae_hash env salt pw of Inl e \<Rightarrow> Inl (HashFailure e) | Inr h \<Rightarrow> Inr h)"

definition verify_password ::
    "auth_env \<Rightarrow> ustring option \<Rightarrow> ustring \<Rightarrow> ustring \<Rightarrow> auth_error + bool" where
  "verify_password env task encoded pw =
     (case task of Some e \<Rightarrow> Inl (AuthTask e)
      | None \<Rightarrow> (case ae_hash_invalid env encoded of Some e \<Rightarrow> Inl (HashFailure e)
                | None \<Rightarrow> Inr (ae_verify env encoded pw)))"

definition auth_verify_password ::
    "auth_env \<Rightarrow> ustring option \<Rightarrow> auth_service \<Rightarrow> ustring \<Rightarrow> auth_error + bool" where
  "auth_verify_password env task s pw = verify_password env task (au_password_hash s) pw"

definition change_password ::
    "auth_env \<Rightarrow> ustring option \<Rightarrow> ustring option \<Rightarrow> auth_error option \<Rightarrow> bytes \<Rightarrow> bytes
       \<Rightarrow> ustring \<Rightarrow> ustring \<Rightarrow> auth_service \<Rightarrow> (auth_error + bool) \<times> auth_service" where
  "change_password env verify_task hash_task write_error salt cookie_secret current_password new_password s =
     (if au_externally_managed s then (Inl ExternallyManaged, s)
      else if utf8_len new_password < 8 then (Inl ShortPassword, s)
      else case verify_password env verify_task (au_password_hash s) current_password of
          Inl e \<Rightarrow> (Inl e, s)
        | Inr False \<Rightarrow> (Inr False, s)
        | Inr True \<Rightarrow>
            (case hash_task of Some e \<Rightarrow> (Inl (AuthTask e), s)
             | None \<Rightarrow>
                (case password_hash env salt new_password of
                   Inl e \<Rightarrow> (Inl e, s)
                 | Inr h \<Rightarrow>
                    (let credentials = \<lparr>cf_version = CREDENTIALS_VERSION,
                           cf_cookie_secret = ae_b64 env cookie_secret, cf_password_hash = h\<rparr>
                     in case write_error of
                          Some e \<Rightarrow> (Inl e, s)
                        | None \<Rightarrow> (Inr True, s\<lparr>au_file := Some credentials,
                                     au_password_hash := h, au_cookie_secret := cookie_secret\<rparr>)))))"

section \<open>Sessions\<close>

definition session_mac :: "auth_env \<Rightarrow> bytes \<Rightarrow> ustring \<Rightarrow> bytes" where
  "session_mac env secret encoded = ae_mac env secret (utf8_encode (lit ''v1.'' @ encoded))"

definition create_session_at :: "auth_env \<Rightarrow> uuid \<Rightarrow> auth_service \<Rightarrow> nat \<Rightarrow> ustring" where
  "create_session_at env nonce s now =
     (let payload = \<lparr>sp_exp = wrap_add now SESSION_LIFETIME, sp_iat = now, sp_nonce = nonce\<rparr>;
          encoded = ae_b64 env (ae_json env payload)
      in lit ''v1.'' @ encoded @ lit ''.'' @ ae_b64 env (session_mac env (au_cookie_secret s) encoded))"

definition verify_session_at :: "auth_env \<Rightarrow> auth_service \<Rightarrow> ustring option \<Rightarrow> nat \<Rightarrow> bool" where
  "verify_session_at env s token now =
     (case token of None \<Rightarrow> False
      | Some token \<Rightarrow>
          (case split_on 46 token of
             [version, encoded, signature] \<Rightarrow>
               version = lit ''v1'' \<and>
               (case ae_unb64 env signature of None \<Rightarrow> False
                | Some signature \<Rightarrow>
                    if session_mac env (au_cookie_secret s) encoded \<noteq> signature then False
                    else case ae_unb64 env encoded of None \<Rightarrow> False
                      | Some bs \<Rightarrow>
                          (case ae_parse env bs of None \<Rightarrow> False
                           | Some payload \<Rightarrow> sp_iat payload \<le> now \<and> now \<le> sp_exp payload))
           | _ \<Rightarrow> False))"

text \<open>The token the service makes of an encoded payload.\<close>

definition session_token :: "auth_env \<Rightarrow> bytes \<Rightarrow> ustring \<Rightarrow> ustring" where
  "session_token env secret encoded =
     lit ''v1.'' @ encoded @ lit ''.'' @ ae_b64 env (session_mac env secret encoded)"

lemma auth_lawsD:
  assumes "auth_laws env"
  shows "ae_unb64 env (ae_b64 env bs) = Some bs" "46 \<notin> set (ae_b64 env bs)"
    "ae_unb64 env t = Some bs \<Longrightarrow> t = ae_b64 env bs" "ae_parse env (ae_json env p) = Some p"
    "ae_hash env salt pw = Inr h \<Longrightarrow> ae_hash_invalid env h = None \<and> ae_verify env h pw"
  using assms unfolding auth_laws_def by blast+

lemma split_token:
  assumes "46 \<notin> set e" "46 \<notin> set g"
  shows "split_on 46 (lit ''v1.'' @ e @ lit ''.'' @ g) = [lit ''v1'', e, g]"
proof -
  have "split_on 46 (lit ''v1'' @ 46 # e @ 46 # g) = [lit ''v1'', e, g]"
    using assms by (subst split_on_append) (simp_all add: split_on_append split_on_none)
  then show ?thesis by simp
qed

lemma split_three: "split_on 46 token = [v, e, g] \<Longrightarrow> token = v @ 46 # e @ 46 # g"
  using split_on_join [of 46 token v "[e, g]"] by simp

lemma verify_token:
  assumes "auth_laws env"
  shows "verify_session_at env s (Some token) now \<longleftrightarrow>
    (\<exists>bs payload. ae_parse env bs = Some payload \<and> sp_iat payload \<le> now \<and> now \<le> sp_exp payload
       \<and> token = session_token env (au_cookie_secret s) (ae_b64 env bs))" (is "?v = ?e")
proof
  assume v: ?v
  then obtain e g where t: "split_on 46 token = [lit ''v1'', e, g]"
    by (auto simp: verify_session_at_def split: list.splits)
  then obtain bs payload where p: "ae_unb64 env g = Some (session_mac env (au_cookie_secret s) e)"
    "ae_unb64 env e = Some bs" "ae_parse env bs = Some payload" "sp_iat payload \<le> now" "now \<le> sp_exp payload"
    using v by (auto simp: verify_session_at_def split: option.splits if_splits)
  have "token = session_token env (au_cookie_secret s) (ae_b64 env bs)"
    using split_three [OF t] auth_lawsD(3) [OF assms p(1)] auth_lawsD(3) [OF assms p(2)]
    by (simp add: session_token_def)
  with p(3-5) show ?e by blast
next
  assume ?e
  then obtain bs payload where p: "ae_parse env bs = Some payload" "sp_iat payload \<le> now"
    "now \<le> sp_exp payload" "token = session_token env (au_cookie_secret s) (ae_b64 env bs)" by blast
  show ?v
    using p(1-3) auth_lawsD(1) [OF assms]
    by (simp add: verify_session_at_def p(4) session_token_def split_token auth_lawsD(2) [OF assms]
        del: lit_simps)
qed

lemma verify_own_token:
  assumes "auth_laws env"
  shows "verify_session_at env s' (Some (session_token env secret (ae_b64 env (ae_json env p)))) now \<longleftrightarrow>
    session_mac env (au_cookie_secret s') (ae_b64 env (ae_json env p))
      = session_mac env secret (ae_b64 env (ae_json env p)) \<and> sp_iat p \<le> now \<and> now \<le> sp_exp p"
  by (simp add: verify_session_at_def session_token_def split_token auth_lawsD [OF assms]
      del: lit_simps)

lemma create_token:
  "created + SESSION_LIFETIME \<le> u64_max \<Longrightarrow> create_session_at env nonce s created =
     session_token env (au_cookie_secret s) (ae_b64 env (ae_json env
        \<lparr>sp_exp = created + SESSION_LIFETIME, sp_iat = created, sp_nonce = nonce\<rparr>))"
  by (simp add: create_session_at_def session_token_def Let_def wrap_add_exact)

text \<open>
  C29. A token is a valid session exactly when it is the token of a payload under the current
  cookie secret and the time lies in the payload's bounds: nothing else, in particular no prefix,
  no other version, no added part and no other spelling of the signature, is accepted. A session
  is valid from the second it was created to the end of its four hundred days, and under another
  secret only if the two secrets give it the same authentication code.
\<close>

theorem session_valid_exactly:
  assumes "auth_laws env" "created + SESSION_LIFETIME \<le> u64_max"
  shows "(verify_session_at env s (Some token) now \<longleftrightarrow>
      (\<exists>bs payload. ae_parse env bs = Some payload \<and> sp_iat payload \<le> now \<and> now \<le> sp_exp payload
         \<and> token = session_token env (au_cookie_secret s) (ae_b64 env bs)))
    \<and> \<not> verify_session_at env s None now
    \<and> (verify_session_at env s' (Some (create_session_at env nonce s created)) now \<longleftrightarrow>
        created \<le> now \<and> now \<le> created + SESSION_LIFETIME
        \<and> (let encoded = ae_b64 env (ae_json env
                 \<lparr>sp_exp = created + SESSION_LIFETIME, sp_iat = created, sp_nonce = nonce\<rparr>)
           in session_mac env (au_cookie_secret s') encoded = session_mac env (au_cookie_secret s) encoded))"
  using verify_token [OF assms(1), of s token now] verify_own_token [OF assms(1)]
  by (auto simp: create_token [OF assms(2)] Let_def verify_session_at_def)

section \<open>Loading\<close>

text \<open>What reading the credentials file answers: JSON text, missing, or a failure.\<close>

datatype credentials_read = Cred_read "ustring + credential_file" | Cred_missing | Cred_failed ustring

definition trim_line_ends :: "ustring \<Rightarrow> ustring" where
  "trim_line_ends s = rev (dropWhile (\<lambda>c. c = 13 \<or> c = 10) (rev s))"

definition stored_credentials ::
    "auth_env \<Rightarrow> ustring \<Rightarrow> credentials_read \<Rightarrow> auth_error + credential_file option" where
  "stored_credentials env path file =
     (case file of
        Cred_read (Inl e) \<Rightarrow> Inl (AuthJson e)
      | Cred_read (Inr c) \<Rightarrow>
          (if cf_version c \<noteq> CREDENTIALS_VERSION \<or> ae_unb64 env (cf_cookie_secret c) = None
              \<or> ae_hash_invalid env (cf_password_hash c) \<noteq> None
           then Inl (InvalidCredentials path) else Inr (Some c))
      | Cred_missing \<Rightarrow> Inr None
      | Cred_failed e \<Rightarrow> Inl (AuthIo e))"

text \<open>The credentials of a first start, with the password that was generated, if none was supplied.\<close>

definition first_credentials ::
    "auth_env \<Rightarrow> ustring option \<Rightarrow> ustring \<Rightarrow> bytes \<Rightarrow> bytes
       \<Rightarrow> auth_error + (credential_file \<times> ustring option)" where
  "first_credentials env supplied_password generated cookie_secret salt =
     (let initial_password = (case supplied_password of Some p \<Rightarrow> p | None \<Rightarrow> generated)
      in case password_hash env salt initial_password of
           Inl e \<Rightarrow> Inl e
         | Inr h \<Rightarrow> Inr (\<lparr>cf_version = CREDENTIALS_VERSION, cf_cookie_secret = ae_b64 env cookie_secret,
                          cf_password_hash = h\<rparr>,
                        if supplied_password = None then Some generated else None))"

text \<open>
  The service of the credentials, under the supplied password's own hash when there is one.
\<close>

definition loaded_service ::
    "auth_env \<Rightarrow> ustring option \<Rightarrow> bytes \<Rightarrow> credential_file \<Rightarrow> auth_error + auth_service" where
  "loaded_service env supplied_password salt c =
     (case (case supplied_password of None \<Rightarrow> Inr (cf_password_hash c)
            | Some p \<Rightarrow> password_hash env salt p) of
        Inl e \<Rightarrow> Inl e
      | Inr effective_hash \<Rightarrow>
         (case ae_unb64 env (cf_cookie_secret c) of
            None \<Rightarrow> Inl (InvalidCredentials (ae_unb64_error env (cf_cookie_secret c)))
          | Some secret \<Rightarrow>
              Inr \<lparr>au_password_hash = effective_hash, au_cookie_secret = secret,
                   au_externally_managed = (supplied_password \<noteq> None), au_file = Some c\<rparr>))"

text \<open>
  \<open>password_file\<close> is the answer of reading the password file when one is configured,
  \<open>generated\<close> the random password of a first start. The result is the service with the password
  that was generated, if one was, and the file this start has written, if it wrote one.
\<close>

definition load_auth ::
    "auth_env \<Rightarrow> ustring \<Rightarrow> credentials_read \<Rightarrow> ustring option \<Rightarrow> (ustring + ustring) option \<Rightarrow> ustring
       \<Rightarrow> bytes \<Rightarrow> bytes \<Rightarrow> bytes \<Rightarrow> auth_error option
       \<Rightarrow> (auth_error + (auth_service \<times> ustring option)) \<times> credential_file option" where
  "load_auth env path file supplied password_file generated cookie_secret salt1 salt2 write_error =
     (case stored_credentials env path file of Inl e \<Rightarrow> (Inl e, None) | Inr stored \<Rightarrow>
      (case password_file of Some (Inl e) \<Rightarrow> (Inl (AuthIo e), None) | _ \<Rightarrow>
        (let file_password = (case password_file of Some (Inr t) \<Rightarrow> Some (trim_line_ends t) | _ \<Rightarrow> None);
             supplied_password = (case supplied of Some p \<Rightarrow> Some p | None \<Rightarrow> file_password)
         in if (case supplied_password of Some p \<Rightarrow> utf8_len p < 8 | None \<Rightarrow> False)
            then (Inl ShortPassword, None)
            else case stored of
                Some c \<Rightarrow>
                  (case loaded_service env supplied_password salt2 c of
                     Inl e \<Rightarrow> (Inl e, None) | Inr s \<Rightarrow> (Inr (s, None), None))
              | None \<Rightarrow>
                  (case first_credentials env supplied_password generated cookie_secret salt1 of
                     Inl e \<Rightarrow> (Inl e, None)
                   | Inr (c, generated_password) \<Rightarrow>
                      (case write_error of Some e \<Rightarrow> (Inl e, None)
                       | None \<Rightarrow>
                          (case loaded_service env supplied_password salt2 c of
                             Inl e \<Rightarrow> (Inl e, Some c)
                           | Inr s \<Rightarrow> (Inr (s, generated_password), Some c)))))))"

section \<open>What a restart keeps\<close>

text \<open>The file holds the secret of the sessions and, unless it is managed outside, the password's hash.\<close>

definition auth_ok :: "auth_env \<Rightarrow> auth_service \<Rightarrow> bool" where
  "auth_ok env s \<longleftrightarrow> ae_hash_invalid env (au_password_hash s) = None \<and>
     (case au_file s of None \<Rightarrow> False
      | Some c \<Rightarrow> cf_version c = CREDENTIALS_VERSION
          \<and> ae_unb64 env (cf_cookie_secret c) = Some (au_cookie_secret s)
          \<and> ae_hash_invalid env (cf_password_hash c) = None
          \<and> (\<not> au_externally_managed s \<longrightarrow> cf_password_hash c = au_password_hash s))"

lemma password_hash_Inr: "password_hash env salt pw = Inr h \<longleftrightarrow> ae_hash env salt pw = Inr h"
  by (auto simp: password_hash_def split: sum.splits)

lemma change_password_ok:
  assumes "auth_laws env" "auth_ok env s"
  shows "auth_ok env (snd (change_password env vt ht we salt secret cur new s))"
  using assms(2) auth_lawsD(1,5) [OF assms(1)]
  by (auto simp: change_password_def auth_ok_def Let_def password_hash_Inr
      split: sum.splits option.splits bool.splits)

lemma loaded_service_ok:
  assumes "auth_laws env" "loaded_service env supplied salt c = Inr s"
    "ae_hash_invalid env (cf_password_hash c) = None" "cf_version c = CREDENTIALS_VERSION"
  shows "auth_ok env s" "au_file s = Some c" "au_externally_managed s = (supplied \<noteq> None)"
  using assms(2-4) auth_lawsD(5) [OF assms(1)]
  by (auto simp: loaded_service_def auth_ok_def password_hash_Inr split: sum.splits option.splits)

lemma load_auth_ok:
  assumes "auth_laws env"
    "load_auth env path file supplied pf gen secret s1 s2 we = (Inr (s, g), written)"
  shows "auth_ok env s"
proof -
  have f: "first_credentials env p gen secret s1 = Inr (c, g') \<Longrightarrow>
      ae_hash_invalid env (cf_password_hash c) = None \<and> cf_version c = CREDENTIALS_VERSION" for p c g'
    using auth_lawsD(5) [OF assms(1)]
    by (auto simp: first_credentials_def Let_def password_hash_Inr split: sum.splits)
  have st: "stored_credentials env path file = Inr (Some c) \<Longrightarrow>
      ae_hash_invalid env (cf_password_hash c) = None \<and> cf_version c = CREDENTIALS_VERSION" for c
    by (auto simp: stored_credentials_def split: sum.splits credentials_read.splits if_splits)
  from assms(2) obtain p salt c where "loaded_service env p salt c = Inr s"
    "ae_hash_invalid env (cf_password_hash c) = None" "cf_version c = CREDENTIALS_VERSION"
    using f st by (auto simp: load_auth_def Let_def split: sum.splits option.splits if_splits prod.splits)
  then show ?thesis by (rule loaded_service_ok(1) [OF assms(1)])
qed

text \<open>The next start of the server: it reads the file the service keeps.\<close>

definition restart ::
    "auth_env \<Rightarrow> ustring option \<Rightarrow> bytes \<Rightarrow> auth_service \<Rightarrow> auth_error + (auth_service \<times> ustring option)" where
  "restart env supplied salt s =
     fst (load_auth env (lit ''credentials.json'')
       (case au_file s of Some c \<Rightarrow> Cred_read (Inr c) | None \<Rightarrow> Cred_missing)
       supplied None [] [] [] salt None)"

lemma restart_same:
  assumes "auth_ok env s" "\<not> au_externally_managed s"
  shows "restart env None salt s = Inr (s, None)"
  using assms
  by (cases s) (auto simp: restart_def load_auth_def stored_credentials_def loaded_service_def
      auth_ok_def Let_def split: option.splits)

lemma restart_secret:
  assumes "auth_ok env s" "restart env supplied salt s = Inr (s', g)"
  shows "au_cookie_secret s' = au_cookie_secret s \<and> au_file s' = au_file s"
  using assms
  by (auto simp: restart_def load_auth_def stored_credentials_def loaded_service_def
      auth_ok_def Let_def split: option.splits sum.splits if_splits)



section \<open>An instance\<close>

text \<open>
  A codec of two letters to a byte, a unary writer, an authentication code that is the secret
  followed by the text, and a hash that is the password behind a mark: enough to satisfy the laws.
\<close>

fun pair_decode :: "ustring \<Rightarrow> bytes option" where
  "pair_decode [] = Some []"
| "pair_decode [x] = None"
| "pair_decode (x # y # r) =
     (if 100 \<le> x \<and> x < 116 \<and> 100 \<le> y \<and> y < 116
      then map_option ((#) (char_of ((x - 100) * 16 + (y - 100)))) (pair_decode r) else None)"

definition pair_encode :: "bytes \<Rightarrow> ustring" where
  "pair_encode bs = concat (map (\<lambda>c. [100 + of_char c div 16, 100 + of_char c mod 16]) bs)"

lemma pair_digit: "(of_char c :: nat) div 16 < 16"
proof -
  have "(of_char c :: nat) < 16 * 16" by simp
  then show ?thesis using less_mult_imp_div_less by blast
qed

lemma pair_decode_encode: "pair_decode (pair_encode bs) = Some bs"
  by (induction bs) (simp_all add: pair_encode_def pair_digit)

lemma pair_of_digits:
  fixes x y :: nat
  assumes "100 \<le> x" "100 \<le> y" "y < 116"
  shows "100 + ((x - 100) * 16 + (y - 100)) div 16 = x" "100 + ((x - 100) * 16 + (y - 100)) mod 16 = y"
proof -
  obtain a b where "x = 100 + a" "y = 100 + b" using assms(1,2) by (metis le_iff_add)
  then show "100 + ((x - 100) * 16 + (y - 100)) div 16 = x" "100 + ((x - 100) * 16 + (y - 100)) mod 16 = y"
    using assms(3) by auto
qed

lemma pair_encode_decode: "pair_decode s = Some bs \<Longrightarrow> s = pair_encode bs"
proof (induction s arbitrary: bs rule: pair_decode.induct)
  case (3 x y r)
  then obtain cs where c: "100 \<le> x" "x < 116" "100 \<le> y" "y < 116"
    "bs = char_of ((x - 100) * 16 + (y - 100)) # cs" "r = pair_encode cs"
    by (auto split: if_splits)
  have "(x - 100) * 16 + (y - 100) < 256" using c(1-4) by arith
  then have "(of_char (char_of ((x - 100) * 16 + (y - 100)) :: char) :: nat) = (x - 100) * 16 + (y - 100)"
    by (simp add: of_char_of)
  then show ?case
    unfolding c(5,6) pair_encode_def by (simp only: list.map concat.simps pair_of_digits [OF c(1,3,4)] append.simps)
qed (simp_all add: pair_encode_def)

lemma pair_encode_letters: "46 \<notin> set (pair_encode bs)"
  by (auto simp: pair_encode_def)

definition unary_write :: "session_payload \<Rightarrow> bytes" where
  "unary_write p = concat (map (\<lambda>n. replicate n (CHR ''x'') @ [CHR '';'']) [sp_exp p, sp_iat p, sp_nonce p])"

definition unary_read :: "bytes \<Rightarrow> session_payload option" where
  "unary_read bs = (case split_on (CHR '';'') bs of
       [a, b, c, []] \<Rightarrow> Some \<lparr>sp_exp = length a, sp_iat = length b, sp_nonce = length c\<rparr>
     | _ \<Rightarrow> None)"

lemma unary_read_write: "unary_read (unary_write p) = Some p"
  by (simp add: unary_read_def unary_write_def split_on_append)

definition plain_env :: auth_env where
  "plain_env = \<lparr>ae_b64 = pair_encode, ae_unb64 = pair_decode, ae_unb64_error = (\<lambda>s. s),
     ae_mac = (\<lambda>k m. k @ m), ae_json = unary_write, ae_parse = unary_read,
     ae_hash = (\<lambda>salt pw. Inr (0 # pw)),
     ae_hash_invalid = (\<lambda>h. if h \<noteq> [] \<and> hd h = 0 then None else Some h),
     ae_verify = (\<lambda>h pw. h = 0 # pw)\<rparr>"

lemma plain_laws: "auth_laws plain_env"
  by (simp add: auth_laws_def plain_env_def pair_decode_encode pair_encode_letters pair_encode_decode
      unary_read_write)

definition plain_service :: auth_service where
  "plain_service = \<lparr>au_password_hash = 0 # lit ''correct horse'', au_cookie_secret = ''ab'',
     au_externally_managed = False,
     au_file = Some \<lparr>cf_version = 1, cf_cookie_secret = pair_encode ''ab'',
                     cf_password_hash = 0 # lit ''correct horse''\<rparr>\<rparr>"

lemma plain_service_ok: "auth_ok plain_env plain_service"
  by (simp add: auth_ok_def plain_service_def plain_env_def CREDENTIALS_VERSION_def pair_decode_encode)

theorem session_valid_exactly_witness:
  "verify_session_at plain_env plain_service (Some (create_session_at plain_env 7 plain_service 1000)) 1001
   \<and> \<not> verify_session_at plain_env plain_service (Some (create_session_at plain_env 7 plain_service 1000)) 34561001"
  using session_valid_exactly [OF plain_laws, of 1000 plain_service "[]" _ plain_service 7]
  by (auto simp: SESSION_LIFETIME_def u64_max_def)


end
