(* ===== verification/ApiGuards.thy ===== *)
theory ApiGuards
  imports Auth ActivityView AgentState
begin

text \<open>
  What the HTTP handlers check before they act (\<open>src/api.rs\<close>): the errors and their statuses, the
  same-origin test, the session test, and the handlers whose whole effect is on components modelled
  here: login, logout, the change of the password and the watermarks of what was seen. A request's
  headers that are not text, its body and the answers of the workspace are arguments.
\<close>

section \<open>Errors\<close>

datatype api_error =
    Unauthorized
  | InvalidLogin
  | ForbiddenOrigin
  | NotFound
  | ProcessNotFound
  | FileNotFound
  | BadRequest ustring
  | UpgradeRequired ustring
  | Conflict ustring
  | Gone ustring
  | PayloadTooLarge ustring
  | BadGateway ustring
  | RateLimited nat
  | Internal

text \<open>The status of a response and the seconds of its \<open>Retry-After\<close> header.\<close>

fun response_status :: "api_error \<Rightarrow> nat \<times> nat option" where
  "response_status Unauthorized = (401, None)"
| "response_status InvalidLogin = (401, None)"
| "response_status ForbiddenOrigin = (403, None)"
| "response_status NotFound = (404, None)"
| "response_status ProcessNotFound = (404, None)"
| "response_status FileNotFound = (404, None)"
| "response_status (BadRequest _) = (400, None)"
| "response_status (UpgradeRequired _) = (426, None)"
| "response_status (Conflict _) = (409, None)"
| "response_status (Gone _) = (410, None)"
| "response_status (PayloadTooLarge _) = (413, None)"
| "response_status (BadGateway _) = (502, None)"
| "response_status (RateLimited seconds) = (429, Some seconds)"
| "response_status Internal = (500, None)"

section \<open>Origin and session\<close>

text \<open>A header's value is None when it is not text (\<open>to_str\<close> fails).\<close>

record request =
  rq_origin :: "ustring option option"
  rq_host :: "ustring option option"
  rq_authority :: "ustring option"
  rq_cookie :: "ustring option"

record api_config =
  cfg_allowed_origins :: "ustring list"
  cfg_secure :: bool
  cfg_secure_cookie :: bool
  cfg_e2e :: bool

record api_state =
  api_auth :: auth_service
  api_limiter :: login_limiter
  api_views :: view_service

definition trim_slashes :: "ustring \<Rightarrow> ustring" where
  "trim_slashes s = rev (dropWhile (\<lambda>c. c = 47) (rev s))"

definition request_authority :: "request \<Rightarrow> ustring option" where
  "request_authority rq =
     (case rq_host rq of Some (Some h) \<Rightarrow> Some h | _ \<Rightarrow> rq_authority rq)"

definition request_scheme :: "api_config \<Rightarrow> ustring" where
  "request_scheme cfg = (if cfg_secure cfg \<or> cfg_secure_cookie cfg then lit ''https'' else lit ''http'')"

definition require_origin :: "api_config \<Rightarrow> request \<Rightarrow> api_error + unit" where
  "require_origin cfg rq =
     (case rq_origin rq of
        None \<Rightarrow> Inr ()
      | Some None \<Rightarrow> Inl ForbiddenOrigin
      | Some (Some o1) \<Rightarrow>
          (let origin = trim_slashes o1
           in if (\<exists>allowed\<in>set (cfg_allowed_origins cfg). trim_slashes allowed = origin) then Inr ()
              else case request_authority rq of
                  None \<Rightarrow> Inl ForbiddenOrigin
                | Some authority \<Rightarrow>
                    (if origin = request_scheme cfg @ lit ''://'' @ authority then Inr ()
                     else Inl ForbiddenOrigin)))"

definition authenticated :: "auth_env \<Rightarrow> api_state \<Rightarrow> request \<Rightarrow> nat \<Rightarrow> bool" where
  "authenticated env s rq now = verify_session_at env (api_auth s) (rq_cookie rq) now"

definition require_auth :: "auth_env \<Rightarrow> api_state \<Rightarrow> request \<Rightarrow> nat \<Rightarrow> api_error + unit" where
  "require_auth env s rq now = (if authenticated env s rq now then Inr () else Inl Unauthorized)"

definition require_sensitive_access ::
    "auth_env \<Rightarrow> api_config \<Rightarrow> api_state \<Rightarrow> request \<Rightarrow> nat \<Rightarrow> api_error + unit" where
  "require_sensitive_access env cfg s rq now =
     (if rq_origin rq = None then Inl ForbiddenOrigin
      else case require_origin cfg rq of Inl e \<Rightarrow> Inl e | Inr _ \<Rightarrow>
       (case require_auth env s rq now of Inl e \<Rightarrow> Inl e | Inr _ \<Rightarrow>
         (if \<not> cfg_secure cfg \<and> \<not> cfg_secure_cookie cfg \<and> \<not> cfg_e2e cfg
          then Inl (UpgradeRequired (lit ''secret and sudo approvals require HTTPS''))
          else Inr ())))"

definition TERMINAL_STREAM_PROTOCOL :: nat where "TERMINAL_STREAM_PROTOCOL = 3"

definition require_terminal_stream_protocol :: "nat option \<Rightarrow> api_error + unit" where
  "require_terminal_stream_protocol protocol =
     (if protocol = Some TERMINAL_STREAM_PROTOCOL then Inr ()
      else Inl (UpgradeRequired (lit ''terminal client is out of date; reload the page'')))"

definition validate_broker_restart :: "bool \<Rightarrow> nat \<Rightarrow> bool \<Rightarrow> api_error + unit" where
  "validate_broker_restart restart_required sessions close_terminals =
     (if \<not> restart_required
      then Inl (Conflict (lit ''the session broker is already running the current build''))
      else if 0 < sessions \<and> \<not> close_terminals
      then Inl (Conflict (lit ''restarting the session broker will close '' @ dec_digits sessions
             @ lit '' open terminal'' @ (if sessions = 1 then [] else lit ''s'')
             @ lit ''; confirmation is required''))
      else Inr ())"

section \<open>Handlers\<close>

text \<open>
  A login: the address and the time of the request, the password, and what the blocking task
  answers. The result is the token of the cookie that is set.
\<close>

record login_request =
  lr_request :: request
  lr_client :: ustring
  lr_password :: ustring
  lr_now :: nat
  lr_task :: "ustring option"
  lr_nonce :: uuid

definition login ::
    "auth_env \<Rightarrow> api_config \<Rightarrow> login_request \<Rightarrow> api_state \<Rightarrow> (api_error + ustring) \<times> api_state" where
  "login env cfg q s =
     (case require_origin cfg (lr_request q) of Inl e \<Rightarrow> (Inl e, s) | Inr _ \<Rightarrow>
      (if 4096 < utf8_len (lr_password q) then (Inl (BadRequest (lit ''password is too long'')), s)
       else case limiter_consume (lr_client q) (lr_now q) (api_limiter s) of
           (Inl seconds, l) \<Rightarrow> (Inl (RateLimited seconds), s\<lparr>api_limiter := l\<rparr>)
         | (Inr _, l) \<Rightarrow>
             (let s1 = s\<lparr>api_limiter := l\<rparr>
              in case auth_verify_password env (lr_task q) (api_auth s) (lr_password q) of
                   Inl _ \<Rightarrow> (Inl Internal, s1)
                 | Inr False \<Rightarrow> (Inl InvalidLogin, s1)
                 | Inr True \<Rightarrow>
                     (Inr (create_session_at env (lr_nonce q) (api_auth s) (lr_now q)),
                      s1\<lparr>api_limiter := limiter_reset (lr_client q) l\<rparr>))))"

text \<open>The result of a logout is the token of the removal cookie, the empty string.\<close>

definition logout ::
    "auth_env \<Rightarrow> api_config \<Rightarrow> request \<Rightarrow> nat \<Rightarrow> api_state \<Rightarrow> api_error + ustring" where
  "logout env cfg rq now s =
     (case require_origin cfg rq of Inl e \<Rightarrow> Inl e | Inr _ \<Rightarrow>
      (case require_auth env s rq now of Inl e \<Rightarrow> Inl e | Inr _ \<Rightarrow> Inr []))"

fun password_error :: "auth_error \<Rightarrow> api_error" where
  "password_error ShortPassword = BadRequest (lit ''passwords must contain at least 8 characters'')"
| "password_error ExternallyManaged =
     Conflict (lit ''password is managed by TERM_SERVER_PASSWORD or TERM_SERVER_PASSWORD_FILE'')"
| "password_error _ = Internal"

definition api_change_password ::
    "auth_env \<Rightarrow> api_config \<Rightarrow> ustring option \<Rightarrow> ustring option \<Rightarrow> auth_error option \<Rightarrow> bytes \<Rightarrow> bytes
       \<Rightarrow> uuid \<Rightarrow> request \<Rightarrow> nat \<Rightarrow> ustring \<Rightarrow> ustring \<Rightarrow> api_state \<Rightarrow> (api_error + ustring) \<times> api_state" where
  "api_change_password env cfg verify_task hash_task write_error salt cookie_secret nonce rq now
       current_password new_password s =
     (case require_origin cfg rq of Inl e \<Rightarrow> (Inl e, s) | Inr _ \<Rightarrow>
      (case require_auth env s rq now of Inl e \<Rightarrow> (Inl e, s) | Inr _ \<Rightarrow>
       (if 4096 < utf8_len current_password \<or> 4096 < utf8_len new_password
        then (Inl (BadRequest (lit ''password is too long'')), s)
        else case change_password env verify_task hash_task write_error salt cookie_secret
                    current_password new_password (api_auth s) of
            (Inl e, a) \<Rightarrow> (Inl (password_error e), s\<lparr>api_auth := a\<rparr>)
          | (Inr False, a) \<Rightarrow> (Inl InvalidLogin, s\<lparr>api_auth := a\<rparr>)
          | (Inr True, a) \<Rightarrow> (Inr (create_session_at env nonce a now), s\<lparr>api_auth := a\<rparr>))))"

text \<open>What the workspace lists of a terminal: its agent and its foreground command.\<close>

type_synonym listed_terminal = "uuid \<times> agent_info option \<times> foreground_command option"

definition option_default :: "nat option \<Rightarrow> nat" where
  "option_default x = (case x of Some n \<Rightarrow> n | None \<Rightarrow> 0)"

definition observable_agent_completion :: "listed_terminal \<Rightarrow> nat" where
  "observable_agent_completion t =
     option_default (case fst (snd t) of Some g \<Rightarrow> ai_completed_at g | None \<Rightarrow> None)"

definition observable_command_completion :: "listed_terminal \<Rightarrow> nat" where
  "observable_command_completion t =
     option_default (case snd (snd t) of Some c \<Rightarrow> fg_completed_at c | None \<Rightarrow> None)"

definition validated_activity_view ::
    "listed_terminal \<Rightarrow> nat option \<Rightarrow> nat option \<Rightarrow> api_error + activity_view" where
  "validated_activity_view t agent command =
     (if observable_agent_completion t < option_default agent
      then Inl (BadRequest (lit ''agent completion watermark is newer than the terminal state''))
      else if observable_command_completion t < option_default command
      then Inl (BadRequest (lit ''command completion watermark is newer than the terminal state''))
      else Inr \<lparr>agent_completed_at = option_default agent, command_completed_at = option_default command\<rparr>)"

definition update_terminal_activity_view ::
    "auth_env \<Rightarrow> api_config \<Rightarrow> 'e persist_outcome \<Rightarrow> (api_error + listed_terminal list) \<Rightarrow> request \<Rightarrow> nat
       \<Rightarrow> uuid \<Rightarrow> nat option \<Rightarrow> nat option \<Rightarrow> api_state \<Rightarrow> (api_error + activity_view) \<times> api_state" where
  "update_terminal_activity_view env cfg outcome listing rq now k agent command s =
     (case require_origin cfg rq of Inl e \<Rightarrow> (Inl e, s) | Inr _ \<Rightarrow>
      (case require_auth env s rq now of Inl e \<Rightarrow> (Inl e, s) | Inr _ \<Rightarrow>
       (if agent = None \<and> command = None
        then (Inl (BadRequest (lit ''at least one activity watermark is required'')), s)
        else case listing of Inl e \<Rightarrow> (Inl e, s) | Inr terminals \<Rightarrow>
          (case List.find (\<lambda>t. fst t = k) terminals of None \<Rightarrow> (Inl NotFound, s) | Some t \<Rightarrow>
            (case validated_activity_view t agent command of Inl e \<Rightarrow> (Inl e, s) | Inr update \<Rightarrow>
              (case av_update outcome k update (api_views s) of
                 (Inl _, v) \<Rightarrow> (Inl Internal, s\<lparr>api_views := v\<rparr>)
               | (Inr view, v) \<Rightarrow> (Inr view, s\<lparr>api_views := v\<rparr>)))))))"


section \<open>Guessing passwords\<close>

fun login_run :: "auth_env \<Rightarrow> api_config \<Rightarrow> login_request list \<Rightarrow> api_state \<Rightarrow> api_state" where
  "login_run env cfg [] s = s"
| "login_run env cfg (q # qs) s = login_run env cfg qs (snd (login env cfg q s))"

text \<open>Whether a request got as far as the password: it was answered by the check's outcome.\<close>

fun password_checked :: "api_error + ustring \<Rightarrow> bool" where
  "password_checked (Inr _) = True"
| "password_checked (Inl InvalidLogin) = True"
| "password_checked (Inl Internal) = True"
| "password_checked (Inl _) = False"

text \<open>The times at which passwords of one address were checked, and whether one was right.\<close>

fun password_checks ::
    "auth_env \<Rightarrow> api_config \<Rightarrow> ustring \<Rightarrow> login_request list \<Rightarrow> api_state \<Rightarrow> nat list" where
  "password_checks env cfg c [] s = []"
| "password_checks env cfg c (q # qs) s =
     (if lr_client q = c \<and> password_checked (fst (login env cfg q s)) then [lr_now q] else [])
     @ password_checks env cfg c qs (snd (login env cfg q s))"

fun password_found ::
    "auth_env \<Rightarrow> api_config \<Rightarrow> ustring \<Rightarrow> login_request list \<Rightarrow> api_state \<Rightarrow> bool" where
  "password_found env cfg c [] s \<longleftrightarrow> False"
| "password_found env cfg c (q # qs) s \<longleftrightarrow>
     lr_client q = c \<and> (\<exists>tok. fst (login env cfg q s) = Inr tok)
     \<or> password_found env cfg c qs (snd (login env cfg q s))"

definition login_passes :: "api_config \<Rightarrow> login_request \<Rightarrow> bool" where
  "login_passes cfg q \<longleftrightarrow> require_origin cfg (lr_request q) = Inr () \<and> utf8_len (lr_password q) \<le> 4096"

text \<open>What the limiter sees of a request.\<close>

definition login_events :: "auth_env \<Rightarrow> api_config \<Rightarrow> login_request \<Rightarrow> api_state \<Rightarrow> login_event list" where
  "login_events env cfg q s =
     (if login_passes cfg q
      then Attempt (lr_client q) (lr_now q)
           # (if \<exists>tok. fst (login env cfg q s) = Inr tok then [Reset (lr_client q)] else [])
      else [])"

fun run_events :: "auth_env \<Rightarrow> api_config \<Rightarrow> login_request list \<Rightarrow> api_state \<Rightarrow> login_event list" where
  "run_events env cfg [] s = []"
| "run_events env cfg (q # qs) s = login_events env cfg q s @ run_events env cfg qs (snd (login env cfg q s))"

lemma origin_unit: "require_origin cfg rq = Inr u \<longleftrightarrow> require_origin cfg rq = Inr ()"
  by simp

lemma login_limiter:
  "api_limiter (snd (login env cfg q s)) = fold limiter_apply (login_events env cfg q s) (api_limiter s)"
proof (cases "login_passes cfg q")
  case True
  then show ?thesis
    by (cases "limiter_consume (lr_client q) (lr_now q) (api_limiter s)")
      (auto simp: login_def login_events_def login_passes_def Let_def split: sum.splits bool.splits)
next
  case False
  then show ?thesis
    by (auto simp: login_def login_events_def login_passes_def split: sum.splits)
qed

lemma login_checked:
  "password_checked (fst (login env cfg q s)) \<longleftrightarrow> login_passes cfg q
     \<and> fst (limiter_consume (lr_client q) (lr_now q) (api_limiter s)) = Inr ()"
  by (cases "limiter_consume (lr_client q) (lr_now q) (api_limiter s)")
    (auto simp: login_def login_passes_def require_origin_def Let_def
      split: sum.splits bool.splits option.splits if_splits)

lemma accepted_append:
  "accepted c (es @ fs) m = accepted c es m @ accepted c fs (fold limiter_apply es m)"
  by (induction es arbitrary: m) auto

lemma password_checks_accepted:
  "password_checks env cfg c qs s = accepted c (run_events env cfg qs s) (api_limiter s)"
proof (induction qs arbitrary: s)
  case (Cons q qs)
  have "(if lr_client q = c \<and> password_checked (fst (login env cfg q s)) then [lr_now q] else [])
      = accepted c (login_events env cfg q s) (api_limiter s)"
    by (auto simp: login_checked login_events_def)
  then show ?case using Cons.IH by (simp add: accepted_append login_limiter)
qed simp

lemma run_events_reset: "\<not> password_found env cfg c qs s \<Longrightarrow> Reset c \<notin> set (run_events env cfg qs s)"
  by (induction qs arbitrary: s) (auto simp: login_events_def split: if_splits)

lemma run_events_keys: "event_key ` set (run_events env cfg qs s) \<subseteq> lr_client ` set qs"
  by (induction qs arbitrary: s) (auto simp: login_events_def split: if_splits)

definition in_time :: "login_request list \<Rightarrow> bool" where
  "in_time qs \<longleftrightarrow> sorted (map lr_now qs) \<and> (\<forall>q\<in>set qs. lr_now q + LOGIN_WINDOW_SECONDS \<le> u64_max)"

lemma clocked_mono: "clocked t es \<Longrightarrow> t' \<le> t \<Longrightarrow> clocked t' es"
  by (induction t es rule: clocked.induct) auto

lemma run_events_clocked:
  "in_time qs \<Longrightarrow> (\<And>q. q \<in> set qs \<Longrightarrow> t \<le> lr_now q) \<Longrightarrow> clocked t (run_events env cfg qs s)"
proof (induction qs arbitrary: s t)
  case (Cons q qs)
  have "clocked (lr_now q) (run_events env cfg qs (snd (login env cfg q s)))"
    using Cons.IH [of "lr_now q"] Cons.prems(1) by (auto simp: in_time_def)
  then show ?case
    using Cons.prems clocked_mono [of "lr_now q" _ t] by (auto simp: login_events_def in_time_def)
qed simp

lemma login_refused:
  assumes "limiter_ok (api_limiter s)" "fst (login env cfg q s) = Inl (RateLimited r)"
    "login_passes cfg q'" "lr_client q' = lr_client q" "lr_now q \<le> lr_now q'"
  shows "password_checked (fst (login env cfg q' (snd (login env cfg q s)))) = (lr_now q + r \<le> lr_now q')"
proof -
  have "fst (limiter_consume (lr_client q) (lr_now q) (api_limiter s)) = Inl r"
    "api_limiter (snd (login env cfg q s)) = snd (limiter_consume (lr_client q) (lr_now q) (api_limiter s))"
    using assms(2) by (auto simp: login_def Let_def require_origin_def
        split: sum.splits bool.splits prod.splits option.splits if_splits)
  then show ?thesis
    using refused_until [OF assms(1) _ assms(5)] assms(3,4) by (simp add: login_checked)
qed

lemma login_run_limiter_ok: "limiter_ok (api_limiter s) \<Longrightarrow> limiter_ok (api_limiter (login_run env cfg qs s))"
proof (induction qs arbitrary: s)
  case (Cons q qs)
  have "limiter_ok m \<Longrightarrow> limiter_ok (fold limiter_apply es m)" for es m
  proof (induction es arbitrary: m)
    case (Cons e es)
    then show ?case by (cases e) (simp_all add: limiter_consume_ok limiter_reset_ok)
  qed simp
  then show ?case using Cons by (simp add: login_limiter)
qed simp



definition plain_config :: api_config where
  "plain_config = \<lparr>cfg_allowed_origins = [], cfg_secure = False, cfg_secure_cookie = False, cfg_e2e = False\<rparr>"

definition plain_request :: request where
  "plain_request = \<lparr>rq_origin = None, rq_host = None, rq_authority = None, rq_cookie = None\<rparr>"

definition plain_state :: api_state where
  "plain_state = \<lparr>api_auth = plain_service, api_limiter = [], api_views = av_empty\<rparr>"

definition wrong_guess :: "nat \<Rightarrow> login_request" where
  "wrong_guess t = \<lparr>lr_request = plain_request, lr_client = lit ''::1'', lr_password = lit ''12345678'',
     lr_now = t, lr_task = None, lr_nonce = 0\<rparr>"

definition wrong_guesses :: "login_request list" where
  "wrong_guesses = map wrong_guess [10, 11, 12, 13, 14, 15, 16, 17, 18, 19]"

lemmas login_eval = login_def wrong_guess_def plain_request_def plain_state_def plain_config_def
  require_origin_def auth_verify_password_def verify_password_def plain_service_def plain_env_def
  limiter_consume_def evict_soonest_def hm_retain_def scalar_width_def Let_def wrap_add_def
  LOGIN_WINDOW_SECONDS_def MAX_TRACKED_CLIENTS_def


section \<open>Watermarks\<close>

text \<open>A request cannot mark as seen what has not completed.\<close>

lemma watermark_not_ahead:
  assumes "av_ok (api_views s)"
    "update_terminal_activity_view env cfg outcome listing rq now k agent command s = (Inr view, s')"
  obtains terminals t where "listing = Inr terminals" "List.find (\<lambda>t. fst t = k) terminals = Some t"
    "view = av_get (api_views s') k"
    "agent_completed_at view \<le> max (agent_completed_at (av_get (api_views s) k)) (observable_agent_completion t)"
    "command_completed_at view \<le> max (command_completed_at (av_get (api_views s) k)) (observable_command_completion t)"
proof -
  obtain terminals t u v where h: "listing = Inr terminals" "List.find (\<lambda>t. fst t = k) terminals = Some t"
    "validated_activity_view t agent command = Inr u" "av_update outcome k u (api_views s) = (Inr view, v)"
    "s' = s\<lparr>api_views := v\<rparr>"
    using assms(2) by (auto simp: update_terminal_activity_view_def
        split: sum.splits if_splits option.splits prod.splits)
  note a = update_Inr [OF h(4) assms(1)]
  have "view_le u \<lparr>agent_completed_at = observable_agent_completion t,
      command_completed_at = observable_command_completion t\<rparr>"
    using h(3) by (auto simp: validated_activity_view_def view_le_def split: if_splits)
  then show ?thesis
    using that [OF h(1,2)] a(2) a(3) [of k] h(5) by (auto simp: view_merge_def view_le_def intro: max.coboundedI2)
qed

end
