(* ===== verification/ControlTabs.thy ===== *)
theory ControlTabs
  imports Interfaces "HOL-Library.Multiset"
begin

text \<open>
  The open tabs of the browsers, which a controlling terminal may list and close
  (\<open>src/terminal_control.rs\<close>: \<open>BrowserTabSnapshot\<close>, \<open>BrowserTabRegistry\<close>). A browser reports its
  tabs with a heartbeat and takes its close commands from the answer; a command waits until the
  browser acknowledges it, its view is pruned, or it times out. Times are milliseconds; SHA-256,
  base64 and the text of a UUID are the fields of \<open>tab_env\<close>; a completion channel is the id of its
  command.
\<close>

section \<open>Errors\<close>

datatype control_error =
    Unauthorized
  | ControlDisabled
  | NotShared
  | ReadOnly
  | Denied ustring
  | Invalid ustring
  | Unavailable ustring
  | Workspace ustring
  | ControlIo ustring
  | ControlJson ustring

text \<open>Whether the user's settings, rather than a fault, refused the request.\<close>

fun control_denied :: "control_error \<Rightarrow> bool" where
  "control_denied Unauthorized = True"
| "control_denied ControlDisabled = True"
| "control_denied NotShared = True"
| "control_denied ReadOnly = True"
| "control_denied (Denied _) = True"
| "control_denied _ = False"

section \<open>Snapshots\<close>

record browser_pane =
  bp_terminal :: uuid
  bp_label :: ustring
  bp_active :: bool

record browser_resource =
  br_path :: ustring
  br_name :: ustring
  br_dirty :: bool
  br_active :: bool

record tab_snapshot =
  bs_title :: ustring
  bs_focused :: bool
  bs_visible :: bool
  bs_panes :: "browser_pane list"
  bs_resources :: "browser_resource list"
  bs_settings_open :: bool
  bs_settings_active :: bool

definition BROWSER_VIEW_LEASE :: nat where "BROWSER_VIEW_LEASE = 5000"
definition MAX_BROWSER_VIEWS :: nat where "MAX_BROWSER_VIEWS = 32"
definition MAX_BROWSER_RESOURCES :: nat where "MAX_BROWSER_RESOURCES = 256"
definition MAX_BROWSER_TITLE_BYTES :: nat where "MAX_BROWSER_TITLE_BYTES = 512"
definition MAX_BROWSER_LABEL_BYTES :: nat where "MAX_BROWSER_LABEL_BYTES = 512"
definition MAX_BROWSER_PATH_BYTES :: nat where "MAX_BROWSER_PATH_BYTES = 8 * 1024"

fun validate_panes :: "uuid list \<Rightarrow> browser_pane list \<Rightarrow> control_error + unit" where
  "validate_panes seen [] = Inr ()"
| "validate_panes seen (p # ps) =
     (if MAX_BROWSER_LABEL_BYTES < utf8_len (bp_label p)
      then Inl (Invalid (lit ''terminal pane label is too long''))
      else if bp_terminal p \<in> set seen
      then Inl (Invalid (lit ''browser view contains a duplicate terminal pane''))
      else validate_panes (bp_terminal p # seen) ps)"

fun validate_resources :: "ustring list \<Rightarrow> browser_resource list \<Rightarrow> control_error + unit" where
  "validate_resources seen [] = Inr ()"
| "validate_resources seen (r # rs) =
     (if MAX_BROWSER_LABEL_BYTES < utf8_len (br_name r) \<or> MAX_BROWSER_PATH_BYTES < utf8_len (br_path r)
      then Inl (Invalid (lit ''browser resource metadata is too long''))
      else if br_path r \<in> set seen
      then Inl (Invalid (lit ''browser view contains a duplicate resource tab''))
      else validate_resources (br_path r # seen) rs)"

definition validate_snapshot :: "tab_snapshot \<Rightarrow> control_error + unit" where
  "validate_snapshot s =
     (if MAX_BROWSER_TITLE_BYTES < utf8_len (bs_title s) then Inl (Invalid (lit ''browser title is too long''))
      else if 8 < length (bs_panes s)
      then Inl (Invalid (lit ''browser view has more than eight terminal panes''))
      else if MAX_BROWSER_RESOURCES < length (bs_resources s)
      then Inl (Invalid (lit ''browser view has too many resource tabs''))
      else case validate_panes [] (bs_panes s) of Inl e \<Rightarrow> Inl e
        | Inr _ \<Rightarrow> validate_resources [] (bs_resources s))"

text \<open>What a validated snapshot satisfies.\<close>

definition snapshot_ok :: "tab_snapshot \<Rightarrow> bool" where
  "snapshot_ok s \<longleftrightarrow> utf8_len (bs_title s) \<le> MAX_BROWSER_TITLE_BYTES
     \<and> length (bs_panes s) \<le> 8 \<and> length (bs_resources s) \<le> MAX_BROWSER_RESOURCES
     \<and> distinct (map bp_terminal (bs_panes s)) \<and> distinct (map br_path (bs_resources s))
     \<and> (\<forall>p\<in>set (bs_panes s). utf8_len (bp_label p) \<le> MAX_BROWSER_LABEL_BYTES)
     \<and> (\<forall>r\<in>set (bs_resources s). utf8_len (br_name r) \<le> MAX_BROWSER_LABEL_BYTES
          \<and> utf8_len (br_path r) \<le> MAX_BROWSER_PATH_BYTES)"

lemma validate_panes_iff:
  "validate_panes seen ps = Inr () \<longleftrightarrow> distinct (map bp_terminal ps)
     \<and> set seen \<inter> bp_terminal ` set ps = {}
     \<and> (\<forall>p\<in>set ps. utf8_len (bp_label p) \<le> MAX_BROWSER_LABEL_BYTES)"
  by (induction seen ps rule: validate_panes.induct) auto

lemma validate_resources_iff:
  "validate_resources seen rs = Inr () \<longleftrightarrow> distinct (map br_path rs)
     \<and> set seen \<inter> br_path ` set rs = {}
     \<and> (\<forall>r\<in>set rs. utf8_len (br_name r) \<le> MAX_BROWSER_LABEL_BYTES
          \<and> utf8_len (br_path r) \<le> MAX_BROWSER_PATH_BYTES)"
  by (induction seen rs rule: validate_resources.induct) auto

lemma validate_snapshot_iff: "validate_snapshot s = Inr () \<longleftrightarrow> snapshot_ok s"
  using validate_panes_iff [of "[]" "bs_panes s"] validate_resources_iff [of "[]" "bs_resources s"]
  by (auto simp: validate_snapshot_def snapshot_ok_def split: sum.splits)

section \<open>Tabs\<close>

record tab_env =
  te_sha256 :: "bytes \<Rightarrow> bytes"
  te_b64 :: "bytes \<Rightarrow> ustring"
  te_uuid_bytes :: "uuid \<Rightarrow> bytes"
  te_uuid_text :: "uuid \<Rightarrow> ustring"

definition stable_tab_id :: "tab_env \<Rightarrow> uuid \<Rightarrow> string \<Rightarrow> ustring \<Rightarrow> ustring" where
  "stable_tab_id env view kind target =
     te_b64 env (take 12 (te_sha256 env
       (te_uuid_bytes env view @ [CHR 0x00] @ kind @ [CHR 0x00] @ utf8_encode target)))"

datatype tab_kind = TerminalTab | ResourceTab | SettingsTab

datatype tab_target = TerminalTarget uuid | ResourceTarget ustring | SettingsTarget

record tab_info =
  tb_id :: ustring
  tb_view :: uuid
  tb_view_title :: ustring
  tb_kind :: tab_kind
  tb_label :: ustring
  tb_active :: bool
  tb_focused :: bool
  tb_visible :: bool
  tb_dirty :: bool
  tb_terminal :: "uuid option"
  tb_path :: "ustring option"

definition tab_targets :: "tab_env \<Rightarrow> uuid \<Rightarrow> tab_snapshot \<Rightarrow> (ustring \<times> tab_target) list" where
  "tab_targets env view s =
     map (\<lambda>p. (stable_tab_id env view ''terminal'' (te_uuid_text env (bp_terminal p)),
                TerminalTarget (bp_terminal p))) (bs_panes s)
     @ map (\<lambda>r. (stable_tab_id env view ''resource'' (br_path r), ResourceTarget (br_path r))) (bs_resources s)
     @ (if bs_settings_open s
        then [(stable_tab_id env view ''settings'' (lit ''settings''), SettingsTarget)] else [])"

definition tab_infos :: "tab_env \<Rightarrow> uuid \<Rightarrow> tab_snapshot \<Rightarrow> tab_info list" where
  "tab_infos env view s =
     map (\<lambda>p. \<lparr>tb_id = stable_tab_id env view ''terminal'' (te_uuid_text env (bp_terminal p)),
        tb_view = view, tb_view_title = bs_title s, tb_kind = TerminalTab, tb_label = bp_label p,
        tb_active = bp_active p, tb_focused = bs_focused s, tb_visible = bs_visible s, tb_dirty = False,
        tb_terminal = Some (bp_terminal p), tb_path = None\<rparr>) (bs_panes s)
     @ map (\<lambda>r. \<lparr>tb_id = stable_tab_id env view ''resource'' (br_path r),
        tb_view = view, tb_view_title = bs_title s, tb_kind = ResourceTab, tb_label = br_name r,
        tb_active = br_active r, tb_focused = bs_focused s, tb_visible = bs_visible s,
        tb_dirty = br_dirty r, tb_terminal = None, tb_path = Some (br_path r)\<rparr>) (bs_resources s)
     @ (if bs_settings_open s
        then [\<lparr>tb_id = stable_tab_id env view ''settings'' (lit ''settings''),
          tb_view = view, tb_view_title = bs_title s, tb_kind = SettingsTab, tb_label = lit ''Settings'',
          tb_active = bs_settings_active s, tb_focused = bs_focused s, tb_visible = bs_visible s,
          tb_dirty = False, tb_terminal = None, tb_path = None\<rparr>] else [])"

text \<open>A listing shows exactly the tabs that can be named to close.\<close>

definition info_target :: "tab_info \<Rightarrow> tab_target" where
  "info_target t = (case tb_terminal t of Some k \<Rightarrow> TerminalTarget k
     | None \<Rightarrow> (case tb_path t of Some p \<Rightarrow> ResourceTarget p | None \<Rightarrow> SettingsTarget))"

lemma tab_infos_targets:
  "map (\<lambda>t. (tb_id t, info_target t)) (tab_infos env view s) = tab_targets env view s"
  by (simp add: tab_infos_def tab_targets_def info_target_def)

section \<open>The registry\<close>

datatype tab_command =
    CloseTerminalPane uuid uuid
  | CloseResource uuid ustring
  | CloseSettings uuid

record command_ack =
  ack_ok :: bool
  ack_error :: "ustring option"

record browser_view =
  bv_snapshot :: tab_snapshot
  bv_updated_at :: nat
  bv_pending :: "(uuid, tab_command) hmap"

type_synonym tab_views = "(uuid, browser_view) hmap"

definition prune_views :: "nat \<Rightarrow> tab_views \<Rightarrow> tab_views" where
  "prune_views now views = hm_retain (\<lambda>_ v. now - bv_updated_at v \<le> BROWSER_VIEW_LEASE) views"

definition tab_heartbeat ::
    "nat \<Rightarrow> uuid \<Rightarrow> tab_snapshot \<Rightarrow> tab_views \<Rightarrow> (control_error + tab_command list) \<times> tab_views" where
  "tab_heartbeat now view_id snapshot views0 =
     (case validate_snapshot snapshot of Inl e \<Rightarrow> (Inl e, views0) | Inr _ \<Rightarrow>
       (let views = prune_views now views0
        in if map_of views view_id = None \<and> MAX_BROWSER_VIEWS \<le> length views
           then (Inl (Invalid (lit ''too many browser views are connected'')), views)
           else let view = (case map_of views view_id of
                      Some v \<Rightarrow> v\<lparr>bv_snapshot := snapshot, bv_updated_at := now\<rparr>
                    | None \<Rightarrow> \<lparr>bv_snapshot = snapshot, bv_updated_at = now, bv_pending = []\<rparr>)
                in (Inr (hm_values (bv_pending view)), AList.update view_id view views)))"

text \<open>An acknowledgement takes the command out and sends the answer to who waits for it.\<close>

definition tab_acknowledge ::
    "uuid \<Rightarrow> uuid \<Rightarrow> tab_views \<Rightarrow> (control_error + unit) \<times> tab_views" where
  "tab_acknowledge view_id command_id views =
     (case map_of views view_id of
        None \<Rightarrow> (Inl (Invalid (lit ''browser view is no longer connected'')), views)
      | Some v \<Rightarrow>
          (case map_of (bv_pending v) command_id of
             None \<Rightarrow> (Inl (Invalid (lit ''browser command is no longer pending'')), views)
           | Some _ \<Rightarrow> (Inr (), AList.update view_id
                          (v\<lparr>bv_pending := AList.delete command_id (bv_pending v)\<rparr>) views)))"

definition tab_list :: "tab_env \<Rightarrow> nat \<Rightarrow> tab_views \<Rightarrow> tab_info list \<times> tab_views" where
  "tab_list env now views0 =
     (let views = prune_views now views0
      in (concat (map (\<lambda>(k, v). tab_infos env k (bv_snapshot v)) views), views))"

text \<open>The first view with a tab of that id, in the order of the map, and its target.\<close>

fun find_tab :: "tab_env \<Rightarrow> ustring \<Rightarrow> tab_views \<Rightarrow> (uuid \<times> tab_target) option" where
  "find_tab env tab_id [] = None"
| "find_tab env tab_id ((k, v) # views) =
     (case List.find (\<lambda>(i, _). i = tab_id) (tab_targets env k (bv_snapshot v)) of
        Some (_, target) \<Rightarrow> Some (k, target)
      | None \<Rightarrow> find_tab env tab_id views)"

definition dirty_resource :: "tab_snapshot \<Rightarrow> ustring \<Rightarrow> bool" where
  "dirty_resource s path =
     (case List.find (\<lambda>r. br_path r = path) (bs_resources s) of Some r \<Rightarrow> br_dirty r | None \<Rightarrow> False)"

fun close_command :: "uuid \<Rightarrow> tab_target \<Rightarrow> tab_command" where
  "close_command command_id (TerminalTarget k) = CloseTerminalPane command_id k"
| "close_command command_id (ResourceTarget path) = CloseResource command_id path"
| "close_command command_id SettingsTarget = CloseSettings command_id"

text \<open>The first half of \<open>close\<close>, under the lock: the command is queued for its view.\<close>

definition tab_close_begin ::
    "tab_env \<Rightarrow> nat \<Rightarrow> ustring \<Rightarrow> uuid \<Rightarrow> tab_views \<Rightarrow> (control_error + uuid) \<times> tab_views" where
  "tab_close_begin env now tab_id command_id views0 =
     (let views = prune_views now views0
      in case find_tab env tab_id views of
           None \<Rightarrow> (Inl (Invalid (lit ''tab is no longer open'')), views)
         | Some (view_id, target) \<Rightarrow>
             (case map_of views view_id of None \<Rightarrow> (Inl (Invalid (lit ''tab is no longer open'')), views)
              | Some v \<Rightarrow>
                 (if (case target of ResourceTarget path \<Rightarrow> dirty_resource (bv_snapshot v) path | _ \<Rightarrow> False)
                  then (Inl (Invalid (lit ''dirty resource tabs cannot be closed from another terminal'')), views)
                  else (Inr view_id, AList.update view_id
                         (v\<lparr>bv_pending := AList.update command_id (close_command command_id target) (bv_pending v)\<rparr>)
                         views))))"

text \<open>The second half: what the wait ends with.\<close>

datatype close_outcome = Acknowledged command_ack | Cancelled | TimedOut

definition tab_close_end ::
    "close_outcome \<Rightarrow> uuid \<Rightarrow> uuid \<Rightarrow> tab_views \<Rightarrow> (control_error + command_ack) \<times> tab_views" where
  "tab_close_end outcome view_id command_id views =
     (case outcome of
        Acknowledged ack \<Rightarrow> (Inr ack, views)
      | Cancelled \<Rightarrow> (Inl (Unavailable (lit ''browser tab command was cancelled'')), views)
      | TimedOut \<Rightarrow>
          (Inl (Unavailable (lit ''browser tab did not acknowledge the close command'')),
           case map_of views view_id of None \<Rightarrow> views
           | Some v \<Rightarrow> AList.update view_id
               (v\<lparr>bv_pending := AList.delete command_id (bv_pending v)\<rparr>) views))"


section \<open>Runs\<close>

text \<open>
  The registry with those who wait for an answer (a command and its view), the commands issued and
  the answers given. Pruning a view drops its commands, and with them the channels: their waiters
  find the wait cancelled.
\<close>

record tab_system =
  ts_views :: tab_views
  ts_waiting :: "(uuid \<times> uuid) list"
  ts_issued :: "uuid list"
  ts_answers :: "(uuid \<times> close_outcome) list"

definition tab_init :: tab_system where
  "tab_init = \<lparr>ts_views = [], ts_waiting = [], ts_issued = [], ts_answers = []\<rparr>"

definition settle :: "nat \<Rightarrow> tab_system \<Rightarrow> tab_system" where
  "settle now s =
     (let views = prune_views now (ts_views s)
      in s\<lparr>ts_views := views,
           ts_waiting := filter (\<lambda>(c, k). map_of views k \<noteq> None) (ts_waiting s),
           ts_answers := ts_answers s
             @ map (\<lambda>(c, k). (c, Cancelled)) (filter (\<lambda>(c, k). map_of views k = None) (ts_waiting s))\<rparr>)"

definition answer :: "uuid \<Rightarrow> close_outcome \<Rightarrow> tab_system \<Rightarrow> tab_system" where
  "answer c a s = s\<lparr>ts_waiting := filter (\<lambda>(c', k). c' \<noteq> c) (ts_waiting s),
     ts_answers := ts_answers s @ [(c, a)]\<rparr>"

datatype tab_op =
    Beat nat uuid tab_snapshot
  | ListTabs nat
  | CloseTab nat ustring uuid
  | Ack uuid uuid command_ack
  | Timeout uuid

fun tab_apply :: "tab_env \<Rightarrow> tab_op \<Rightarrow> tab_system \<Rightarrow> tab_system" where
  "tab_apply env (Beat now k snapshot) s =
     (case validate_snapshot snapshot of Inl _ \<Rightarrow> s
      | Inr _ \<Rightarrow> (settle now s)\<lparr>ts_views := snd (tab_heartbeat now k snapshot (ts_views s))\<rparr>)"
| "tab_apply env (ListTabs now) s = (settle now s)\<lparr>ts_views := snd (tab_list env now (ts_views s))\<rparr>"
| "tab_apply env (CloseTab now tab_id c) s =
     (let s1 = settle now s
      in case tab_close_begin env now tab_id c (ts_views s) of
           (Inl _, views) \<Rightarrow> s1\<lparr>ts_views := views\<rparr>
         | (Inr k, views) \<Rightarrow>
             s1\<lparr>ts_views := views, ts_waiting := ts_waiting s1 @ [(c, k)], ts_issued := ts_issued s1 @ [c]\<rparr>)"
| "tab_apply env (Ack k c a) s =
     (case tab_acknowledge k c (ts_views s) of
        (Inl _, views) \<Rightarrow> s
      | (Inr _, views) \<Rightarrow> answer c (Acknowledged a) (s\<lparr>ts_views := views\<rparr>))"
| "tab_apply env (Timeout c) s =
     (case map_of (ts_waiting s) c of
        None \<Rightarrow> s
      | Some k \<Rightarrow> answer c TimedOut (s\<lparr>ts_views := snd (tab_close_end TimedOut k c (ts_views s))\<rparr>))"

fun close_id :: "tab_op \<Rightarrow> uuid option" where
  "close_id (CloseTab _ _ c) = Some c"
| "close_id _ = None"

text \<open>The commands pending in the views, each with its view.\<close>

definition pend1 :: "uuid \<times> browser_view \<Rightarrow> (uuid \<times> uuid) list" where
  "pend1 kv = map (\<lambda>c. (c, fst kv)) (map fst (bv_pending (snd kv)))"

definition pend :: "tab_views \<Rightarrow> (uuid \<times> uuid) list" where
  "pend views = concat (map pend1 views)"

definition view_ok :: "browser_view \<Rightarrow> bool" where
  "view_ok v \<longleftrightarrow> hm_ok (bv_pending v) \<and> snapshot_ok (bv_snapshot v)"

definition tab_ok :: "tab_system \<Rightarrow> bool" where
  "tab_ok s \<longleftrightarrow> hm_ok (ts_views s) \<and> length (ts_views s) \<le> MAX_BROWSER_VIEWS
     \<and> (\<forall>(k, v)\<in>set (ts_views s). view_ok v)
     \<and> mset (ts_waiting s) = mset (pend (ts_views s))
     \<and> mset (ts_issued s) = mset (map fst (ts_waiting s)) + mset (map fst (ts_answers s))
     \<and> distinct (ts_issued s)"

lemma in_pend: "(c, k) \<in> set (pend views) \<longleftrightarrow> (\<exists>v. (k, v) \<in> set views \<and> c \<in> fst ` set (bv_pending v))"
  by (force simp: pend_def pend1_def)

lemma mset_pend_retain:
  "mset (pend (hm_retain P views)) = mset (filter (\<lambda>(c, k). map_of (hm_retain P views) k \<noteq> None) (pend views))"
  if "hm_ok views"
proof -
  have "pend (hm_retain P views) = filter (\<lambda>(c, k). map_of (hm_retain P views) k \<noteq> None) (pend views)"
    using that
  proof (induction views)
    case Nil
    then show ?case by (simp add: pend_def hm_retain_def)
  next
    case (Cons kv views)
    obtain k v where kv: "kv = (k, v)" by (cases kv)
    have ok: "hm_ok views" and new: "map_of views k = None"
      using Cons.prems by (auto simp: hm_ok_def kv map_of_eq_None_iff)
    have none: "map_of (hm_retain P views) k = None"
      using new by (simp add: map_of_retain [OF ok])
    have other: "(c, k') \<in> set (pend views) \<Longrightarrow>
        (map_of (hm_retain P (kv # views)) k' \<noteq> None) = (map_of (hm_retain P views) k' \<noteq> None)" for c k'
      using new by (auto simp: in_pend kv hm_retain_def map_of_eq_None_iff rev_image_eqI)
    have "filter (\<lambda>(c, k'). map_of (hm_retain P (kv # views)) k' \<noteq> None) (pend views)
        = filter (\<lambda>(c, k'). map_of (hm_retain P views) k' \<noteq> None) (pend views)"
      using other by (intro filter_cong) auto
    moreover have "filter (\<lambda>(c, k'). map_of (hm_retain P (kv # views)) k' \<noteq> None) (pend1 kv)
        = (if P k v then pend1 kv else [])"
      using none by (auto simp: pend1_def kv hm_retain_def filter_empty_conv intro!: filter_True)
    ultimately show ?case
      using Cons.IH [OF ok] by (simp add: pend_def hm_retain_def kv)
  qed
  then show ?thesis by simp
qed

lemma pend_update:
  assumes "hm_ok views"
  shows "mset (pend (AList.update k v views))
      + (case map_of views k of None \<Rightarrow> {#} | Some w \<Rightarrow> mset (pend1 (k, w)))
    = mset (pend views) + mset (pend1 (k, v))"
  using assms
proof (induction views)
  case (Cons kv views)
  then show ?case
    by (cases kv) (auto simp: pend_def hm_ok_def split: option.splits)
qed (simp add: pend_def)

lemma mset_pend1: "mset (pend1 (k, v)) = image_mset (\<lambda>c. (c, k)) (mset (map fst (bv_pending v)))"
  unfolding pend1_def mset_map fst_conv snd_conv ..

lemma mset_delete_key:
  assumes "hm_ok m" "map_of m c \<noteq> None"
  shows "mset (map fst m) = add_mset c (mset (map fst (AList.delete c m)))"
  using assms
proof (induction m)
  case (Cons kv m)
  obtain k v where kv: "kv = (k, v)" by (cases kv)
  show ?case
  proof (cases "k = c")
    case True
    then have "AList.delete c m = m" using Cons.prems(1) kv by (auto simp: hm_ok_def delete_id)
    then show ?thesis by (simp add: kv True)
  next
    case False
    then have "mset (map fst m) = add_mset c (mset (map fst (AList.delete c m)))"
      using Cons.IH Cons.prems kv by (simp add: hm_ok_def)
    then show ?thesis using False by (simp add: kv)
  qed
qed simp

text \<open>The parts of the invariant.\<close>

lemma tab_okD:
  assumes "tab_ok s"
  shows "hm_ok (ts_views s)" "length (ts_views s) \<le> MAX_BROWSER_VIEWS"
    "map_of (ts_views s) k = Some v \<Longrightarrow> view_ok v" "mset (ts_waiting s) = mset (pend (ts_views s))"
    "mset (ts_issued s) = mset (map fst (ts_waiting s)) + mset (map fst (ts_answers s))"
    "distinct (ts_issued s)"
  using assms map_of_SomeD [of "ts_views s" k v] by (auto simp: tab_ok_def)

lemma tab_okI:
  assumes "hm_ok (ts_views s)" "length (ts_views s) \<le> MAX_BROWSER_VIEWS"
    "\<And>k v. map_of (ts_views s) k = Some v \<Longrightarrow> view_ok v" "mset (ts_waiting s) = mset (pend (ts_views s))"
    "mset (ts_issued s) = mset (map fst (ts_waiting s)) + mset (map fst (ts_answers s))"
    "distinct (ts_issued s)"
  shows "tab_ok s"
proof -
  have "view_ok v" if "(k, v) \<in> set (ts_views s)" for k v
    using assms(3) map_of_is_SomeI [OF _ that] assms(1) by (simp add: hm_ok_def)
  then show ?thesis using assms by (auto simp: tab_ok_def)
qed

lemma tab_init_ok: "tab_ok tab_init"
  by (simp add: tab_ok_def tab_init_def pend_def MAX_BROWSER_VIEWS_def)

lemma prune_views_ok:
  assumes "hm_ok views"
  shows "hm_ok (prune_views now views)" "length (prune_views now views) \<le> length views"
    "map_of (prune_views now views) k = Some v \<Longrightarrow> map_of views k = Some v"
  using assms by (auto simp: prune_views_def map_of_retain split: option.splits if_splits)
    (simp add: hm_retain_def)

lemma mset_map_partition:
  "mset (map f xs) = mset (map f (filter P xs)) + mset (map f (filter (\<lambda>x. \<not> P x) xs))"
  by (induction xs) simp_all

lemma settle_ok: "tab_ok s \<Longrightarrow> tab_ok (settle now s)"
proof -
  assume ok: "tab_ok s"
  let ?views = "prune_views now (ts_views s)"
  let ?keep = "\<lambda>(c, k). map_of ?views k \<noteq> None"
  note d = tab_okD [OF ok]
  have "mset (filter ?keep (ts_waiting s)) = mset (filter ?keep (pend (ts_views s)))"
    using d(4) by (simp add: mset_filter)
  then have w: "mset (filter ?keep (ts_waiting s)) = mset (pend ?views)"
    using mset_pend_retain [OF d(1)] by (simp add: prune_views_def)
  let ?gone = "filter (\<lambda>(c, k). map_of ?views k = None) (ts_waiting s)"
  have "filter (\<lambda>x. \<not> ?keep x) (ts_waiting s) = ?gone" by (intro filter_cong) auto
  then have a: "mset (map fst (ts_waiting s)) = mset (map fst (filter ?keep (ts_waiting s))) + mset (map fst ?gone)"
    using mset_map_partition [of fst "ts_waiting s" ?keep] by simp
  have b: "map fst (map (\<lambda>(c, k). (c, Cancelled)) xs) = map fst xs" for xs :: "(uuid \<times> uuid) list"
    by (induction xs) auto
  have f: "ts_views (settle now s) = ?views" "ts_waiting (settle now s) = filter ?keep (ts_waiting s)"
    "ts_issued (settle now s) = ts_issued s"
    "ts_answers (settle now s) = ts_answers s @ map (\<lambda>(c, k). (c, Cancelled)) ?gone"
    by (simp_all add: settle_def Let_def)
  have i: "mset (ts_issued s) = mset (map fst (ts_waiting (settle now s)))
      + mset (map fst (ts_answers (settle now s)))"
    unfolding f map_append mset_append b using d(5) a by (simp only: ac_simps)
  show ?thesis
  proof (rule tab_okI)
    show "length (ts_views (settle now s)) \<le> MAX_BROWSER_VIEWS"
      unfolding f using prune_views_ok(2) [OF d(1)] d(2) le_trans by blast
    show "view_ok v" if "map_of (ts_views (settle now s)) k = Some v" for k v
      using that prune_views_ok(3) [OF d(1)] d(3) unfolding f by blast
  qed (use f w i d(6) prune_views_ok(1) [OF d(1)] in auto)
qed

text \<open>Replacing one view: what changes is what is pending in it.\<close>

lemma view_update_ok:
  assumes ok: "tab_ok s" and v: "view_ok v"
    and room: "map_of (ts_views s) k = None \<Longrightarrow> length (ts_views s) < MAX_BROWSER_VIEWS"
    and w: "mset waiting + (case map_of (ts_views s) k of None \<Rightarrow> {#} | Some old \<Rightarrow> mset (pend1 (k, old)))
        = mset (ts_waiting s) + mset (pend1 (k, v))"
    and i: "mset issued = mset (map fst waiting) + mset (map fst answers)" "distinct issued"
  shows "tab_ok (s\<lparr>ts_views := AList.update k v (ts_views s), ts_waiting := waiting,
    ts_issued := issued, ts_answers := answers\<rparr>)"
proof (rule tab_okI)
  note d = tab_okD [OF ok]
  have len: "length (AList.update k v m) = (if map_of m k = None then Suc (length m) else length m)" for m
    by (induction m) auto
  show "length (ts_views (s\<lparr>ts_views := AList.update k v (ts_views s), ts_waiting := waiting,
    ts_issued := issued, ts_answers := answers\<rparr>)) \<le> MAX_BROWSER_VIEWS"
    using room d(2) by (simp add: len Suc_leI)
  show "mset (ts_waiting (s\<lparr>ts_views := AList.update k v (ts_views s), ts_waiting := waiting,
      ts_issued := issued, ts_answers := answers\<rparr>))
    = mset (pend (ts_views (s\<lparr>ts_views := AList.update k v (ts_views s), ts_waiting := waiting,
      ts_issued := issued, ts_answers := answers\<rparr>)))"
    using pend_update [OF d(1), of k v] w d(4)
    by (cases "map_of (ts_views s) k") (simp_all, metis add_right_imp_eq)
qed (use tab_okD [OF ok] v i hm.ok_put in \<open>auto simp: hm.get_put split: if_splits\<close>)

lemma waiting_without:
  assumes "distinct (map fst ws)" "(c, k) \<in> set ws"
  shows "mset ws = add_mset (c, k) (mset (filter (\<lambda>(c', k'). c' \<noteq> c) ws))"
  using assms
proof (induction ws)
  case (Cons w ws)
  show ?case
  proof (cases "fst w = c")
    case True
    then have "w = (c, k)" using Cons.prems by (auto simp: rev_image_eqI)
    moreover have "filter (\<lambda>(c', k'). c' \<noteq> c) ws = ws"
      using Cons.prems(1) True by (auto simp: rev_image_eqI intro!: filter_True)
    ultimately show ?thesis by simp
  next
    case False
    then show ?thesis using Cons by (cases w) auto
  qed
qed simp

lemma waiting_distinct: "tab_ok s \<Longrightarrow> distinct (map fst (ts_waiting s))"
proof -
  assume ok: "tab_ok s"
  have "mset (ts_issued s) = mset (map fst (ts_waiting s) @ map fst (ts_answers s))"
    using tab_okD(5) [OF ok] by simp
  then have "distinct (map fst (ts_waiting s) @ map fst (ts_answers s))"
    using tab_okD(6) [OF ok] by (metis mset_eq_imp_distinct_iff)
  then show ?thesis by simp
qed

text \<open>A command that is pending is taken out and its waiter answered.\<close>

lemma answer_ok:
  assumes ok: "tab_ok s" and v: "map_of (ts_views s) k = Some v" and c: "map_of (bv_pending v) c \<noteq> None"
  shows "tab_ok (answer c a (s\<lparr>ts_views :=
      AList.update k (v\<lparr>bv_pending := AList.delete c (bv_pending v)\<rparr>) (ts_views s)\<rparr>))"
proof -
  note d = tab_okD [OF ok]
  let ?v = "v\<lparr>bv_pending := AList.delete c (bv_pending v)\<rparr>"
  have vok: "view_ok v" "view_ok ?v" using d(3) [OF v] by (auto simp: view_ok_def hm.ok_del)
  have p: "mset (pend1 (k, v)) = add_mset (c, k) (mset (pend1 (k, ?v)))"
    using mset_delete_key [of "bv_pending v" c] vok(1) c by (simp only: mset_pend1 view_ok_def) simp
  have "(c, k) \<in> set (pend (ts_views s))"
    using map_of_SomeD [OF v] c by (auto simp: in_pend map_of_eq_None_iff)
  then have "(c, k) \<in> set (ts_waiting s)" using mset_eq_setD [OF d(4)] by simp
  note w = waiting_without [OF waiting_distinct [OF ok] this]
  have i: "mset (ts_issued s) = mset (map fst (filter (\<lambda>(c', k'). c' \<noteq> c) (ts_waiting s)))
      + mset (map fst (ts_answers s @ [(c, a)]))"
    using d(5) arg_cong [OF w, of "image_mset fst"] by simp
  have "tab_ok (s\<lparr>ts_views := AList.update k ?v (ts_views s),
      ts_waiting := filter (\<lambda>(c', k'). c' \<noteq> c) (ts_waiting s),
      ts_issued := ts_issued s, ts_answers := ts_answers s @ [(c, a)]\<rparr>)"
    by (rule view_update_ok [OF ok vok(2)]) (use v w p i d(6) in auto)
  then show ?thesis by (simp add: answer_def)
qed


lemma answer_none_ok:
  assumes "tab_ok s" "map_of (ts_waiting s) c = Some k"
  obtains v where "map_of (ts_views s) k = Some v" "map_of (bv_pending v) c \<noteq> None"
proof -
  have "(c, k) \<in> set (pend (ts_views s))"
    using map_of_SomeD [OF assms(2)] mset_eq_setD [OF tab_okD(4) [OF assms(1)]] by simp
  then obtain v where v: "(k, v) \<in> set (ts_views s)" "c \<in> fst ` set (bv_pending v)"
    by (auto simp: in_pend)
  then have "map_of (ts_views s) k = Some v"
    using tab_okD(1) [OF assms(1)] by (auto simp: hm_ok_def intro: map_of_is_SomeI)
  then show ?thesis using that v(2) by (simp add: map_of_eq_None_iff)
qed

lemma settle_fields:
  "ts_views (settle now s) = prune_views now (ts_views s)" "ts_issued (settle now s) = ts_issued s"
  by (simp_all add: settle_def Let_def)

lemma tab_system_same [simp]: "s\<lparr>ts_views := ts_views s\<rparr> = (s :: tab_system)"
  by (cases s) simp

lemma close_begin_Inr:
  assumes "tab_close_begin env now tab_id c views = (Inr k, views')"
  obtains v target where "map_of (prune_views now views) k = Some v"
      "find_tab env tab_id (prune_views now views) = Some (k, target)"
      "\<And>path. target = ResourceTarget path \<Longrightarrow> \<not> dirty_resource (bv_snapshot v) path"
      "views' = AList.update k
         (v\<lparr>bv_pending := AList.update c (close_command c target) (bv_pending v)\<rparr>) (prune_views now views)"
proof -
  obtain target where f: "find_tab env tab_id (prune_views now views) = Some (k, target)"
    using assms by (auto simp: tab_close_begin_def Let_def split: option.splits prod.splits if_splits)
  obtain v where v: "map_of (prune_views now views) k = Some v"
    using assms f by (auto simp: tab_close_begin_def Let_def split: option.splits)
  show ?thesis
    by (rule that [OF v f]) (use assms f v in \<open>auto simp: tab_close_begin_def Let_def split: if_splits tab_target.splits\<close>)
qed

lemma close_begin_Inl:
  "tab_close_begin env now tab_id c views = (Inl e, views') \<Longrightarrow> views' = prune_views now views"
  by (auto simp: tab_close_begin_def Let_def split: option.splits prod.splits if_splits)

lemma mset_update_new: "map_of m k = None \<Longrightarrow> mset (map fst (AList.update k v m)) = add_mset k (mset (map fst m))"
  by (induction m) auto

lemma close_ok:
  assumes ok: "tab_ok s" and new: "c \<notin> set (ts_issued s)"
  shows "tab_ok (tab_apply env (CloseTab now tab_id c) s)"
proof -
  let ?s = "settle now s"
  note sok = settle_ok [OF ok, of now]
  note d = tab_okD [OF sok]
  obtain r views' where b: "tab_close_begin env now tab_id c (ts_views s) = (r, views')" by fastforce
  show ?thesis
  proof (cases r)
    case (Inl e)
    then show ?thesis
      using sok b close_begin_Inl [of env now tab_id c "ts_views s" e views']
      by (simp add: Let_def flip: settle_fields(1))
  next
    case r: (Inr k)
    obtain v target where v: "map_of (prune_views now (ts_views s)) k = Some v"
      and views': "views' = AList.update k
         (v\<lparr>bv_pending := AList.update c (close_command c target) (bv_pending v)\<rparr>) (prune_views now (ts_views s))"
      by (rule close_begin_Inr [OF b [unfolded r]]) auto
    let ?v = "v\<lparr>bv_pending := AList.update c (close_command c target) (bv_pending v)\<rparr>"
    have v': "map_of (ts_views ?s) k = Some v" using v by (simp add: settle_fields)
    have vok: "view_ok v" "view_ok ?v" using d(3) [OF v'] by (auto simp: view_ok_def hm.ok_put)
    have "c \<notin> fst ` set (ts_waiting ?s)"
    proof
      assume "c \<in> fst ` set (ts_waiting ?s)"
      then have "c \<in> set (ts_issued ?s)"
        using mset_eq_setD [of "ts_issued ?s" "map fst (ts_waiting ?s) @ map fst (ts_answers ?s)"] d(5) by simp
      then show False using new by (simp add: settle_fields)
    qed
    moreover have "set (ts_waiting ?s) = set (pend (ts_views ?s))" using mset_eq_setD [OF d(4)] .
    ultimately have "(c, k) \<notin> set (pend (ts_views ?s))" by (auto simp: rev_image_eqI)
    then have "map_of (bv_pending v) c = None"
      using map_of_SomeD [OF v'] by (auto simp: in_pend map_of_eq_None_iff)
    then have p: "mset (pend1 (k, ?v)) = add_mset (c, k) (mset (pend1 (k, v)))"
      by (simp add: mset_pend1 mset_update_new del: mset_map)
    have "tab_ok (?s\<lparr>ts_views := AList.update k ?v (ts_views ?s), ts_waiting := ts_waiting ?s @ [(c, k)],
        ts_issued := ts_issued ?s @ [c], ts_answers := ts_answers ?s\<rparr>)"
      by (rule view_update_ok [OF sok vok(2)]) (use v' p d(5,6) new in \<open>auto simp: settle_fields\<close>)
    then show ?thesis using b r views' by (simp add: Let_def settle_fields)
  qed
qed

lemma tab_apply_ok:
  assumes ok: "tab_ok s" and new: "\<And>c. close_id op = Some c \<Longrightarrow> c \<notin> set (ts_issued s)"
  shows "tab_ok (tab_apply env op s)"
proof (cases op)
  case (Beat now k snapshot)
  let ?s = "settle now s"
  note sok = settle_ok [OF ok, of now]
  show ?thesis
  proof (cases "validate_snapshot snapshot")
    case (Inr u)
    then have snap: "snapshot_ok snapshot" using validate_snapshot_iff by (cases u) simp
    show ?thesis
    proof (cases "map_of (ts_views ?s) k = None \<and> MAX_BROWSER_VIEWS \<le> length (ts_views ?s)")
      case True
      then show ?thesis
        using sok Inr by (simp add: Beat tab_heartbeat_def Let_def flip: settle_fields(1))
    next
      case False
      let ?v = "(case map_of (ts_views ?s) k of
          Some v \<Rightarrow> v\<lparr>bv_snapshot := snapshot, bv_updated_at := now\<rparr>
        | None \<Rightarrow> \<lparr>bv_snapshot = snapshot, bv_updated_at = now, bv_pending = []\<rparr>)"
      have "view_ok ?v"
        using snap tab_okD(3) [OF sok] by (auto simp: view_ok_def split: option.split)
      moreover have "mset (ts_waiting ?s) + (case map_of (ts_views ?s) k of None \<Rightarrow> {#}
          | Some old \<Rightarrow> mset (pend1 (k, old))) = mset (ts_waiting ?s) + mset (pend1 (k, ?v))"
        by (auto simp: pend1_def split: option.split)
      ultimately have "tab_ok (?s\<lparr>ts_views := AList.update k ?v (ts_views ?s), ts_waiting := ts_waiting ?s,
          ts_issued := ts_issued ?s, ts_answers := ts_answers ?s\<rparr>)"
        using False by (intro view_update_ok [OF sok]) (auto simp: tab_okD(5,6) [OF sok])
      moreover have "tab_apply env op s = ?s\<lparr>ts_views := AList.update k ?v (ts_views ?s),
          ts_waiting := ts_waiting ?s, ts_issued := ts_issued ?s, ts_answers := ts_answers ?s\<rparr>"
        using False Inr by (auto simp: Beat tab_heartbeat_def Let_def settle_fields(1) [symmetric])
      ultimately show ?thesis by simp
    qed
  qed (simp add: Beat ok)
next
  case (ListTabs now)
  then show ?thesis
    using settle_ok [OF ok, of now] by (simp add: tab_list_def Let_def flip: settle_fields(1))
next
  case (CloseTab now tab_id c)
  then show ?thesis using close_ok [OF ok] new by simp
next
  case (Ack k c a)
  show ?thesis
  proof (cases "map_of (ts_views s) k")
    case (Some v)
    then show ?thesis
      using ok answer_ok [OF ok Some, of c "Acknowledged a"]
      by (auto simp: Ack tab_acknowledge_def split: option.split)
  qed (simp add: Ack ok tab_acknowledge_def)
next
  case (Timeout c)
  show ?thesis
  proof (cases "map_of (ts_waiting s) c")
    case (Some k)
    obtain v where v: "map_of (ts_views s) k = Some v" "map_of (bv_pending v) c \<noteq> None"
      using answer_none_ok [OF ok Some] .
    then show ?thesis using answer_ok [OF ok v] by (simp add: Timeout Some tab_close_end_def)
  qed (simp add: Timeout ok)
qed


lemma ack_answers:
  "(c, Acknowledged a) \<in> set (ts_answers (tab_apply env op s)) \<Longrightarrow>
     (c, Acknowledged a) \<in> set (ts_answers s) \<or> (\<exists>k. op = Ack k c a)"
  by (cases op) (auto simp: settle_def answer_def Let_def split: sum.splits prod.splits option.splits)

lemma apply_issued:
  "set (ts_issued (tab_apply env op s)) \<subseteq> set (ts_issued s) \<union> set_option (close_id op)"
  by (cases op) (auto simp: settle_def answer_def Let_def split: sum.splits prod.splits option.splits)

lemma tab_run_ok:
  assumes "tab_ok s" "distinct (List.map_filter close_id ops)"
    "set (ts_issued s) \<inter> set (List.map_filter close_id ops) = {}"
  shows "tab_ok (fold (tab_apply env) ops s)
    \<and> ((c, Acknowledged a) \<in> set (ts_answers (fold (tab_apply env) ops s)) \<longrightarrow>
         (c, Acknowledged a) \<in> set (ts_answers s) \<or> (\<exists>k. Ack k c a \<in> set ops))"
  using assms
proof (induction ops arbitrary: s)
  case (Cons op ops)
  have "tab_ok (tab_apply env op s)"
    by (rule tab_apply_ok [OF Cons.prems(1)]) (use Cons.prems(3) in \<open>auto simp: map_filter_simps\<close>)
  moreover have "distinct (List.map_filter close_id ops)"
    "set (ts_issued (tab_apply env op s)) \<inter> set (List.map_filter close_id ops) = {}"
    using Cons.prems(2,3) apply_issued [of env op s]
    by (auto simp: map_filter_simps split: option.splits)
  ultimately show ?case
    using Cons.IH [of "tab_apply env op s"] ack_answers [of c a env op s] by auto
qed simp

lemma pending_waiting:
  assumes "tab_ok s" "map_of (ts_views s) k = Some v" "map_of (bv_pending v) c = Some cmd"
  shows "(c, k) \<in> set (ts_waiting s) \<and> c \<in> set (ts_issued s) \<and> c \<notin> fst ` set (ts_answers s)"
proof -
  note d = tab_okD [OF assms(1)]
  have "c \<in> fst ` set (bv_pending v)" using map_of_SomeD [OF assms(3)] by (auto simp: rev_image_eqI)
  then have "(c, k) \<in> set (pend (ts_views s))"
    using map_of_SomeD [OF assms(2)] by (auto simp: in_pend)
  then have w: "(c, k) \<in> set (ts_waiting s)" using mset_eq_setD [OF d(4)] by simp
  have m: "mset (ts_issued s) = mset (map fst (ts_waiting s) @ map fst (ts_answers s))"
    using d(5) by simp
  then have "distinct (map fst (ts_waiting s) @ map fst (ts_answers s))"
    using d(6) by (metis mset_eq_imp_distinct_iff)
  then have "c \<notin> fst ` set (ts_answers s)" using w by (auto simp: rev_image_eqI)
  then show ?thesis using w mset_eq_setD [OF m] by (auto simp: rev_image_eqI)
qed

lemma find_mem: "List.find P xs = Some x \<Longrightarrow> x \<in> set xs \<and> P x"
  by (induction xs) (auto split: if_splits)

lemma in_find_tab:
  "find_tab env tab_id views = Some (k, target) \<Longrightarrow>
     \<exists>v. (k, v) \<in> set views \<and> (tab_id, target) \<in> set (tab_targets env k (bv_snapshot v))"
proof (induction views)
  case (Cons kv views)
  obtain j w where kv: "kv = (j, w)" by (cases kv)
  show ?case
  proof (cases "List.find (\<lambda>(i, _). i = tab_id) (tab_targets env j (bv_snapshot w))")
    case (Some p)
    then show ?thesis using Cons.prems find_mem [OF Some] by (cases p) (auto simp: kv)
  qed (use Cons kv in auto)
qed simp


text \<open>One terminal pane, closed and acknowledged.\<close>

definition pane_view :: tab_snapshot where
  "pane_view = \<lparr>bs_title = lit ''t'', bs_focused = True, bs_visible = True,
     bs_panes = [\<lparr>bp_terminal = 5, bp_label = lit ''zsh'', bp_active = True\<rparr>], bs_resources = [],
     bs_settings_open = False, bs_settings_active = False\<rparr>"

definition plain_tabs :: tab_env where
  "plain_tabs = \<lparr>te_sha256 = (\<lambda>b. b), te_b64 = map of_char, te_uuid_bytes = (\<lambda>k. [char_of k]),
     te_uuid_text = (\<lambda>k. [k])\<rparr>"

definition close_ops :: "tab_op list" where
  "close_ops = [Beat 0 1 pane_view,
     CloseTab 10 (stable_tab_id plain_tabs 1 ''terminal'' [5]) 77, Ack 1 77 \<lparr>ack_ok = True, ack_error = None\<rparr>]"


end
