(* ===== verification/ControlState.thy ===== *)
theory ControlState
  imports ControlTabs
begin

text \<open>
  What the user allows controlling terminals to do (\<open>src/terminal_control.rs\<close>: the settings of
  \<open>TerminalControlService\<close>, their file, and the observations shown in the Access panel). Times of
  the observations are the clock's milliseconds, those of \<open>missing_since\<close> are milliseconds of a
  monotonic clock.
\<close>

section \<open>Exposure\<close>

datatype exposure = Off | Read | Write

text \<open>The derived order of the variants.\<close>

instantiation exposure :: linorder
begin

fun exposure_rank :: "exposure \<Rightarrow> nat" where
  "exposure_rank Off = 0"
| "exposure_rank Read = 1"
| "exposure_rank Write = 2"

definition less_eq_exposure :: "exposure \<Rightarrow> exposure \<Rightarrow> bool" where
  "less_eq_exposure a b \<longleftrightarrow> exposure_rank a \<le> exposure_rank b"

definition less_exposure :: "exposure \<Rightarrow> exposure \<Rightarrow> bool" where
  "less_exposure a b \<longleftrightarrow> exposure_rank a < exposure_rank b"

instance
proof
  fix a b c :: exposure
  show "a \<le> b \<Longrightarrow> b \<le> a \<Longrightarrow> a = b"
    by (cases a; cases b) (simp_all add: less_eq_exposure_def)
qed (auto simp: less_eq_exposure_def less_exposure_def)

end

lemma exposure_order [simp]:
  "Off \<le> x" "x \<le> Write" "(x \<le> Off) = (x = Off)" "(Read \<le> x) = (x \<noteq> Off)" "(Write \<le> x) = (x = Write)"
  "(x < Read) = (x = Off)" "(x < Write) = (x \<noteq> Write)"
  by (cases x; simp add: less_eq_exposure_def less_exposure_def)+

datatype exposure_choice = ChooseOff | ChooseRead | ChooseWrite | ChooseDefault

fun choice_exposure :: "exposure_choice \<Rightarrow> exposure option" where
  "choice_exposure ChooseOff = Some Off"
| "choice_exposure ChooseRead = Some Read"
| "choice_exposure ChooseWrite = Some Write"
| "choice_exposure ChooseDefault = None"

section \<open>Settings\<close>

record control_settings =
  cs_exposure :: "exposure option"
  cs_controller :: bool
  cs_created_by :: "uuid option"

definition default_settings :: control_settings where
  "default_settings = \<lparr>cs_exposure = None, cs_controller = False, cs_created_by = None\<rparr>"

record control_update =
  cu_exposure :: "exposure_choice option"
  cu_controller :: "bool option"

record control_activity =
  ca_at :: nat
  ca_controller_id :: uuid
  ca_controller_name :: ustring
  ca_agent :: ustring
  ca_action :: ustring

record observations =
  ob_last_read_at :: "nat option"
  ob_last_read_by :: "ustring option"
  ob_activity :: "control_activity list"

definition no_observations :: observations where
  "no_observations = \<lparr>ob_last_read_at = None, ob_last_read_by = None, ob_activity = []\<rparr>"

record stored_settings =
  st_schema_version :: nat
  st_default_exposure :: exposure
  st_terminals :: "(uuid, control_settings) hmap"

text \<open>The state of the service, with the settings file.\<close>

record control_state =
  ct_settings :: "(uuid, control_settings) hmap"
  ct_default :: exposure
  ct_observations :: "(uuid, observations) hmap"
  ct_missing :: "(uuid, nat) hmap"
  ct_tabs :: tab_views
  ct_file :: "stored_settings option"

definition SETTINGS_SCHEMA_VERSION :: nat where "SETTINGS_SCHEMA_VERSION = 2"
definition MAX_ACTIVITY_PER_TERMINAL :: nat where "MAX_ACTIVITY_PER_TERMINAL = 50"
definition MAX_ACTIVITY_PREVIEW_CHARS :: nat where "MAX_ACTIVITY_PREVIEW_CHARS = 80"
definition MAX_AGENT_LABEL_BYTES :: nat where "MAX_AGENT_LABEL_BYTES = 64"
definition PRUNE_GRACE :: nat where "PRUNE_GRACE = 10 * 60 * 1000"

text \<open>
  Version 1 stored every terminal's exposure, with off meaning not shared: an off of that version
  is no choice, and an entry without a choice is dropped.
\<close>

definition load_settings ::
    "stored_settings read_outcome \<Rightarrow> exposure \<times> (uuid, control_settings) hmap" where
  "load_settings r =
     (case r of
        Read_ok (Some stored) \<Rightarrow>
          if st_schema_version stored = SETTINGS_SCHEMA_VERSION
          then (st_default_exposure stored, st_terminals stored)
          else if st_schema_version stored = 1
          then (Off, hm_retain (\<lambda>_ c. c \<noteq> default_settings)
                  (hm_map (\<lambda>c. if cs_exposure c = Some Off then c\<lparr>cs_exposure := None\<rparr> else c)
                    (st_terminals stored)))
          else (Off, [])
      | Read_ok None \<Rightarrow> (Off, [])
      | Not_found \<Rightarrow> (Off, [])
      | Read_error \<Rightarrow> (Off, []))"

definition stored_control :: "exposure \<times> (uuid, control_settings) hmap \<Rightarrow> stored_settings" where
  "stored_control m = \<lparr>st_schema_version = SETTINGS_SCHEMA_VERSION, st_default_exposure = fst m,
     st_terminals = snd m\<rparr>"

interpretation control_file: document_store stored_control load_settings
  by unfold_locales (simp add: load_settings_def stored_control_def)

definition control_new :: "stored_settings read_outcome \<Rightarrow> stored_settings option \<Rightarrow> control_state" where
  "control_new r file = \<lparr>ct_settings = snd (load_settings r), ct_default = fst (load_settings r),
     ct_observations = [], ct_missing = [], ct_tabs = [], ct_file = file\<rparr>"

text \<open>A write of the settings under way: what the file system answers and the file after it.\<close>

definition persist_settings ::
    "ustring persist_outcome \<Rightarrow> exposure \<Rightarrow> (uuid, control_settings) hmap \<Rightarrow> control_state
       \<Rightarrow> (control_error + unit) \<times> control_state" where
  "persist_settings outcome default_exposure settings s =
     (case persist_document outcome (stored_control (default_exposure, settings)) (ct_file s) of
        (Inl e, file) \<Rightarrow> (Inl (ControlIo e), s\<lparr>ct_file := file\<rparr>)
      | (Inr u, file) \<Rightarrow> (Inr u, s\<lparr>ct_file := file\<rparr>))"

definition settings_of :: "control_state \<Rightarrow> uuid \<Rightarrow> control_settings" where
  "settings_of s k = (case map_of (ct_settings s) k of Some c \<Rightarrow> c | None \<Rightarrow> default_settings)"

definition exposure_of :: "control_state \<Rightarrow> uuid \<Rightarrow> exposure" where
  "exposure_of s k = (case cs_exposure (settings_of s k) of Some e \<Rightarrow> e | None \<Rightarrow> ct_default s)"

definition set_defaults ::
    "ustring persist_outcome \<Rightarrow> exposure \<Rightarrow> control_state \<Rightarrow> (control_error + exposure) \<times> control_state" where
  "set_defaults outcome e s =
     (if ct_default s \<noteq> e
      then (case persist_settings outcome e (ct_settings s) s of
              (Inl err, s1) \<Rightarrow> (Inl err, s1)
            | (Inr _, s1) \<Rightarrow> (Inr e, s1\<lparr>ct_default := e\<rparr>))
      else (Inr e, s))"

definition modify_settings ::
    "ustring persist_outcome \<Rightarrow> uuid \<Rightarrow> (control_settings \<Rightarrow> control_settings) \<Rightarrow> control_state
       \<Rightarrow> (control_error + unit) \<times> control_state" where
  "modify_settings outcome k change s =
     (let next_settings = change (settings_of s k)
      in if settings_of s k = next_settings then (Inr (), s)
         else let updated = (if next_settings = default_settings then AList.delete k (ct_settings s)
                             else AList.update k next_settings (ct_settings s))
           in case persist_settings outcome (ct_default s) updated s of
                (Inl e, s1) \<Rightarrow> (Inl e, s1)
              | (Inr _, s1) \<Rightarrow> (Inr (), s1\<lparr>ct_settings := updated\<rparr>))"

definition apply_update :: "control_update \<Rightarrow> control_settings \<Rightarrow> control_settings" where
  "apply_update u c =
     (let c1 = (case cu_exposure u of Some choice \<Rightarrow> c\<lparr>cs_exposure := choice_exposure choice\<rparr> | None \<Rightarrow> c)
      in case cu_controller u of Some b \<Rightarrow> c1\<lparr>cs_controller := b\<rparr> | None \<Rightarrow> c1)"

record control_summary =
  sm_exposure :: exposure
  sm_exposure_default :: bool
  sm_controller :: bool
  sm_created_by :: "uuid option"
  sm_last_read_at :: "nat option"
  sm_last_read_by :: "ustring option"

definition control_summary_of :: "control_state \<Rightarrow> uuid \<Rightarrow> control_summary" where
  "control_summary_of s k =
     (let settings = settings_of s k; observed = map_of (ct_observations s) k
      in \<lparr>sm_exposure = (case cs_exposure settings of Some e \<Rightarrow> e | None \<Rightarrow> ct_default s),
          sm_exposure_default = (cs_exposure settings = None), sm_controller = cs_controller settings,
          sm_created_by = cs_created_by settings,
          sm_last_read_at = Option.bind observed ob_last_read_at,
          sm_last_read_by = Option.bind observed ob_last_read_by\<rparr>)"

definition control_detail :: "control_state \<Rightarrow> uuid \<Rightarrow> control_summary \<times> control_activity list" where
  "control_detail s k =
     (control_summary_of s k,
      case map_of (ct_observations s) k of Some o1 \<Rightarrow> rev (ob_activity o1) | None \<Rightarrow> [])"

definition update_control ::
    "ustring persist_outcome \<Rightarrow> uuid \<Rightarrow> control_update \<Rightarrow> control_state
       \<Rightarrow> (control_error + control_summary) \<times> control_state" where
  "update_control outcome k u s =
     (case modify_settings outcome k (apply_update u) s of
        (Inl e, s1) \<Rightarrow> (Inl e, s1)
      | (Inr _, s1) \<Rightarrow> (Inr (control_summary_of s1 k), s1))"

definition forget_control ::
    "ustring persist_outcome \<Rightarrow> uuid \<Rightarrow> control_state \<Rightarrow> (control_error + unit) \<times> control_state" where
  "forget_control outcome k s0 =
     (let s = s0\<lparr>ct_observations := AList.delete k (ct_observations s0)\<rparr>
      in if map_of (ct_settings s) k = None then (Inr (), s)
         else let updated = AList.delete k (ct_settings s)
           in case persist_settings outcome (ct_default s) updated s of
                (Inl e, s1) \<Rightarrow> (Inl e, s1)
              | (Inr _, s1) \<Rightarrow> (Inr (), s1\<lparr>ct_settings := updated\<rparr>))"

text \<open>
  \<open>retain\<close>: a terminal that is known but not listed is noted with the time it was first missed,
  and what was missing for the grace period is forgotten.
\<close>

definition note_missing :: "nat \<Rightarrow> uuid list \<Rightarrow> (uuid, nat) hmap \<Rightarrow> (uuid, nat) hmap" where
  "note_missing now known missing =
     fold (\<lambda>k m. if map_of m k = None then AList.update k now m else m) known missing"

definition retain_control ::
    "ustring persist_outcome \<Rightarrow> nat \<Rightarrow> uuid list \<Rightarrow> control_state \<Rightarrow> control_state" where
  "retain_control outcome now live s =
     (let known = filter (\<lambda>k. k \<notin> set live) (map fst (ct_settings s) @ map fst (ct_observations s));
          missing = note_missing now known (hm_retain (\<lambda>k _. k \<notin> set live) (ct_missing s));
          expired = filter (\<lambda>k. case map_of missing k of Some t \<Rightarrow> PRUNE_GRACE \<le> now - t | None \<Rightarrow> False) known;
          s1 = s\<lparr>ct_missing := missing\<rparr>
      in if expired = [] then s1
         else let s2 = s1\<lparr>ct_observations := hm_retain (\<lambda>k _. k \<notin> set expired) (ct_observations s1)\<rparr>;
                  updated = hm_retain (\<lambda>k _. k \<notin> set expired) (ct_settings s2);
                  forget = (\<lambda>s. s\<lparr>ct_missing := hm_retain (\<lambda>k _. k \<notin> set expired) (ct_missing s)\<rparr>)
           in if (\<forall>k\<in>set (map fst (ct_settings s2)). k \<notin> set expired) then forget s2
              else case persist_settings outcome (ct_default s2) updated s2 of
                  (Inl _, s3) \<Rightarrow> s3
                | (Inr _, s3) \<Rightarrow> forget (s3\<lparr>ct_settings := updated\<rparr>))"

section \<open>Observations\<close>

definition observed :: "control_state \<Rightarrow> uuid \<Rightarrow> observations" where
  "observed s k = (case map_of (ct_observations s) k of Some o1 \<Rightarrow> o1 | None \<Rightarrow> no_observations)"

definition record_read :: "nat \<Rightarrow> uuid \<Rightarrow> ustring \<Rightarrow> ustring \<Rightarrow> control_state \<Rightarrow> control_state" where
  "record_read now k caller_name agent s =
     s\<lparr>ct_observations := AList.update k
        ((observed s k)\<lparr>ob_last_read_at := Some now, ob_last_read_by := Some (agent @ lit '' in '' @ caller_name)\<rparr>)
        (ct_observations s)\<rparr>"

definition push_activity :: "control_activity \<Rightarrow> control_activity list \<Rightarrow> control_activity list" where
  "push_activity a log =
     (if MAX_ACTIVITY_PER_TERMINAL \<le> length log then tl log else log) @ [a]"

definition record_action ::
    "nat \<Rightarrow> uuid \<Rightarrow> uuid \<Rightarrow> ustring \<Rightarrow> ustring \<Rightarrow> ustring \<Rightarrow> control_state \<Rightarrow> control_state" where
  "record_action now k caller_id caller_name agent action s =
     s\<lparr>ct_observations := AList.update k
        ((observed s k)\<lparr>ob_activity := push_activity
           \<lparr>ca_at = now, ca_controller_id = caller_id, ca_controller_name = caller_name,
            ca_agent = agent, ca_action = action\<rparr> (ob_activity (observed s k))\<rparr>)
        (ct_observations s)\<rparr>"

interpretation control_log: bounded_log push_activity rev MAX_ACTIVITY_PER_TERMINAL
proof
  fix l :: "control_activity list" and a
  assume "length (rev l) \<le> MAX_ACTIVITY_PER_TERMINAL"
  then show "rev (push_activity a l) = take MAX_ACTIVITY_PER_TERMINAL (a # rev l)"
    by (cases l) (auto simp: push_activity_def MAX_ACTIVITY_PER_TERMINAL_def)
qed

section \<open>Texts\<close>

text \<open>A short, control-free rendering of input for the activity log.\<close>

fun preview_scalar :: "scalar \<Rightarrow> ustring" where
  "preview_scalar c =
     (if c = 13 \<or> c = 10 then [9166] else if c = 9 then [8677]
      else if c = 27 then lit ''Esc'' else if c = 3 then lit ''Ctrl-C''
      else if c = 4 then lit ''Ctrl-D'' else if c = 26 then lit ''Ctrl-Z''
      else if is_control c then [183] else [c])"

definition input_preview :: "ustring \<Rightarrow> ustring" where
  "input_preview data =
     [34] @ concat (map preview_scalar (take MAX_ACTIVITY_PREVIEW_CHARS data))
     @ (if MAX_ACTIVITY_PREVIEW_CHARS < length data then [8230] else []) @ [34]"

fun pop_to :: "nat \<Rightarrow> ustring \<Rightarrow> ustring" where
  "pop_to n s = (if s \<noteq> [] \<and> n < utf8_len s then pop_to n (butlast s) else s)"

declare pop_to.simps [simp del]

definition agent_label :: "ustring \<Rightarrow> ustring" where
  "agent_label agent =
     (let agent = trim agent
      in if agent = [] then lit ''agent''
         else pop_to MAX_AGENT_LABEL_BYTES (filter (\<lambda>c. \<not> is_control c) agent))"

lemma preview_scalar_clean: "\<forall>c'\<in>set (preview_scalar c). \<not> is_control c'"
proof -
  have "\<forall>c'\<in>{9166, 8677, 183, 69, 115, 99, 67, 116, 114, 108, 45, 68, 90}. \<not> is_control c'"
    by (simp add: is_control_def)
  then show ?thesis by simp
qed

lemma input_preview_clean: "c \<in> set (input_preview data) \<Longrightarrow> \<not> is_control c"
proof -
  have "\<not> is_control 34" "\<not> is_control 8230" by (simp_all add: is_control_def)
  then show "c \<in> set (input_preview data) \<Longrightarrow> \<not> is_control c"
    using preview_scalar_clean
    by (auto simp: input_preview_def simp del: preview_scalar.simps split: if_splits)
qed

lemma length_preview_scalar: "length (preview_scalar c) \<le> 6"
  by simp

lemma length_input_preview: "length (input_preview data) \<le> 6 * MAX_ACTIVITY_PREVIEW_CHARS + 3"
proof -
  have "length (concat (map preview_scalar cs)) \<le> 6 * length cs" for cs
  proof (induction cs)
    case (Cons c cs)
    then show ?case using length_preview_scalar [of c] by (simp del: preview_scalar.simps)
  qed simp
  from this [of "take MAX_ACTIVITY_PREVIEW_CHARS data"] show ?thesis
    by (auto simp: input_preview_def not_less simp del: preview_scalar.simps)
qed

lemma pop_to_le: "utf8_len (pop_to n s) \<le> n \<and> set (pop_to n s) \<subseteq> set s"
proof (induction n s rule: pop_to.induct)
  case (1 n s)
  then show ?case
    by (subst (1 2) pop_to.simps) (auto simp: not_less dest: in_set_butlastD)
qed

lemma agent_label_ok:
  "utf8_len (agent_label a) \<le> MAX_AGENT_LABEL_BYTES" "c \<in> set (agent_label a) \<Longrightarrow> \<not> is_control c"
  using pop_to_le [of MAX_AGENT_LABEL_BYTES "filter (\<lambda>c. \<not> is_control c) (trim a)"]
  by (auto simp: agent_label_def Let_def MAX_AGENT_LABEL_BYTES_def scalar_width_def is_control_def
      split: if_splits)

text \<open>The fallback name is skipped when the given one is all control characters.\<close>

lemma agent_label_empty: "agent_label [7] = []"
  by (simp add: agent_label_def trim_def trim_start_def trim_end_def is_whitespace_def is_control_def
      pop_to.simps)


text \<open>The keys the command line names, and any single character as itself.\<close>

definition NAMED_KEY_SEQUENCES :: "(string \<times> ustring) list" where
  "NAMED_KEY_SEQUENCES = [(''enter'', [13]), (''tab'', [9]), (''escape'', [27]), (''esc'', [27]),
     (''ctrl-c'', [3]), (''ctrl-d'', [4]), (''ctrl-z'', [26]), (''up'', [27, 91, 65]),
     (''down'', [27, 91, 66]), (''right'', [27, 91, 67]), (''left'', [27, 91, 68])]"

definition key_sequence :: "ustring \<Rightarrow> ustring option" where
  "key_sequence key =
     (case List.find (\<lambda>(name, _). map ascii_lower key = lit name) NAMED_KEY_SEQUENCES of
        Some (_, sequence) \<Rightarrow> Some sequence
      | None \<Rightarrow> if length key = 1 then Some key else None)"

lemma key_sequence_single: "key_sequence [c] = Some [c]"
  by (simp add: key_sequence_def NAMED_KEY_SEQUENCES_def)

end
