(* ===== verification/ControlOps.thy ===== *)
theory ControlOps
  imports ControlState
begin

text \<open>
  A request of a controlling terminal, from the socket to the answer
  (\<open>src/terminal_control.rs\<close>: \<open>authorize\<close>, \<open>target\<close>, \<open>execute\<close>, \<open>handle_connection\<close>). The workspace, the
  kernel's answer about the peer, the clocks, the file system and the wait for a browser are the
  fields of \<open>control_env\<close>; what the request makes the workspace do is a list of calls.
\<close>

section \<open>Requests and answers\<close>

record listed_info =
  li_id :: uuid
  li_name :: ustring
  li_running :: bool
  li_pid :: "nat option"

datatype control_command =
    Terminals
  | Screen uuid nat
  | Send uuid ustring
  | Scrollback uuid "nat option" nat
  | Transcript uuid "nat option" nat "ustring list"
  | Rename uuid ustring
  | Create "ustring option" "ustring option" "ustring option"
  | Kill uuid
  | Processes uuid
  | Terminate uuid ustring
  | Tabs
  | CloseTabOf ustring

record control_request =
  cr_terminal :: uuid
  cr_pid :: nat
  cr_start_ticks :: nat
  cr_agent :: ustring
  cr_command :: control_command

text \<open>What the workspace is asked to do.\<close>

datatype workspace_call =
    CallScreen uuid nat
  | CallScrollback uuid "nat option" nat
  | CallTranscript uuid "nat option" nat "ustring list"
  | CallInspect uuid
  | CallWrite uuid ustring
  | CallRename uuid ustring
  | CallCreate "ustring option" "ustring option" "ustring option"
  | CallRemove uuid
  | CallTerminate uuid ustring

record controlled_terminal =
  cd_terminal :: listed_info
  cd_access :: exposure
  cd_self :: bool

datatype 'v control_value =
    ListedTerminals "controlled_terminal list"
  | Shown 'v
  | Renamed listed_info
  | Created controlled_terminal
  | Sent | Killed | Terminated | ClosedTab
  | ListedTabs "tab_info list"

record 'v control_response =
  rs_ok :: bool
  rs_denied :: bool
  rs_result :: "'v control_value option"
  rs_error :: "ustring option"

record 'v control_env =
  ce_list :: "ustring + listed_info list"
  ce_peer_pid :: "nat option"
  ce_identity :: "nat \<Rightarrow> nat \<Rightarrow> nat \<Rightarrow> bool"
  ce_show :: "workspace_call \<Rightarrow> ustring + 'v"
  ce_do :: "workspace_call \<Rightarrow> ustring + unit"
  ce_rename :: "uuid \<Rightarrow> ustring \<Rightarrow> ustring + listed_info"
  ce_create :: "ustring option \<Rightarrow> ustring option \<Rightarrow> ustring option \<Rightarrow> ustring + listed_info"
  ce_millis :: nat
  ce_instant :: nat
  ce_persist :: "ustring persist_outcome"
  ce_tabs :: tab_env
  ce_command_id :: uuid
  ce_close :: close_outcome
  ce_encoded :: "'v control_response \<Rightarrow> nat"

definition MAX_CONTROL_RESPONSE_BYTES :: nat where "MAX_CONTROL_RESPONSE_BYTES = 2 * 1024 * 1024"
definition MAX_TAIL_BYTES :: nat where "MAX_TAIL_BYTES = 64 * 1024"

type_synonym 'v control_result =
  "(control_error + 'v control_value) \<times> control_state \<times> workspace_call list"

section \<open>Guards\<close>

definition authorize ::
    "'v control_env \<Rightarrow> control_request \<Rightarrow> control_state
       \<Rightarrow> control_error + (listed_info \<times> listed_info list)" where
  "authorize env rq s =
     (case ce_list env of Inl e \<Rightarrow> Inl (Workspace e) | Inr terminals \<Rightarrow>
      (case List.find (\<lambda>t. li_id t = cr_terminal rq \<and> li_running t) terminals of
         None \<Rightarrow> Inl Unauthorized
       | Some caller \<Rightarrow>
          (case li_pid caller of None \<Rightarrow> Inl Unauthorized | Some shell_pid \<Rightarrow>
            (if ce_peer_pid env \<noteq> Some (cr_pid rq) \<or> cr_pid rq = shell_pid
                \<or> \<not> ce_identity env shell_pid (cr_pid rq) (cr_start_ticks rq)
             then Inl Unauthorized
             else if \<not> cs_controller (settings_of s (li_id caller)) then Inl ControlDisabled
             else Inr (caller, terminals)))))"

text \<open>A hidden terminal is not told from a missing one.\<close>

definition control_target ::
    "control_state \<Rightarrow> listed_info list \<Rightarrow> uuid \<Rightarrow> exposure \<Rightarrow> control_error + listed_info" where
  "control_target s terminals k needed =
     (case List.find (\<lambda>t. li_id t = k) terminals of
        None \<Rightarrow> Inl NotShared
      | Some t \<Rightarrow>
          (if exposure_of s k = Off then Inl NotShared
           else if exposure_of s k < needed then Inl ReadOnly else Inr t))"

section \<open>Commands\<close>

text \<open>The commands that show something of a terminal: the target is checked, asked and noted.\<close>

definition show_terminal ::
    "'v control_env \<Rightarrow> listed_info \<Rightarrow> ustring \<Rightarrow> listed_info list \<Rightarrow> uuid \<Rightarrow> workspace_call
       \<Rightarrow> control_state \<Rightarrow> 'v control_result" where
  "show_terminal env caller agent terminals k call s =
     (case control_target s terminals k Read of Inl e \<Rightarrow> (Inl e, s, []) | Inr _ \<Rightarrow>
      (case ce_show env call of
         Inl e \<Rightarrow> (Inl (Workspace e), s, [call])
       | Inr v \<Rightarrow> (Inr (Shown v), record_read (ce_millis env) k (li_name caller) agent s, [call])))"

text \<open>The commands that change a terminal and note what was done.\<close>

definition change_terminal ::
    "'v control_env \<Rightarrow> listed_info \<Rightarrow> ustring \<Rightarrow> listed_info list \<Rightarrow> uuid \<Rightarrow> workspace_call
       \<Rightarrow> ustring \<Rightarrow> 'v control_value \<Rightarrow> control_state \<Rightarrow> 'v control_result" where
  "change_terminal env caller agent terminals k call action v s =
     (case control_target s terminals k Write of Inl e \<Rightarrow> (Inl e, s, []) | Inr _ \<Rightarrow>
      (case ce_do env call of
         Inl e \<Rightarrow> (Inl (Workspace e), s, [call])
       | Inr _ \<Rightarrow> (Inr v, record_action (ce_millis env) k (li_id caller) (li_name caller) agent action s, [call])))"

definition execute_rename ::
    "'v control_env \<Rightarrow> listed_info \<Rightarrow> ustring \<Rightarrow> listed_info list \<Rightarrow> uuid \<Rightarrow> ustring
       \<Rightarrow> control_state \<Rightarrow> 'v control_result" where
  "execute_rename env caller agent terminals k name s =
     (case control_target s terminals k Write of Inl e \<Rightarrow> (Inl e, s, []) | Inr previous \<Rightarrow>
      (case ce_rename env k name of
         Inl e \<Rightarrow> (Inl (Workspace e), s, [CallRename k name])
       | Inr renamed \<Rightarrow>
           (Inr (Renamed renamed),
            record_action (ce_millis env) k (li_id caller) (li_name caller) agent
              (lit ''renamed it from '' @ li_name previous @ lit '' to '' @ li_name renamed) s,
            [CallRename k name])))"

definition execute_create ::
    "'v control_env \<Rightarrow> listed_info \<Rightarrow> ustring \<Rightarrow> ustring option \<Rightarrow> ustring option \<Rightarrow> ustring option
       \<Rightarrow> control_state \<Rightarrow> 'v control_result" where
  "execute_create env caller agent name cwd shell s =
     (case ce_create env name cwd shell of
        Inl e \<Rightarrow> (Inl (Workspace e), s, [CallCreate name cwd shell])
      | Inr created \<Rightarrow>
          (case modify_settings (ce_persist env) (li_id created)
                  (\<lambda>c. c\<lparr>cs_exposure := Some Write, cs_created_by := Some (li_id caller)\<rparr>) s of
             (Inl e, s1) \<Rightarrow> (Inl e, s1, [CallCreate name cwd shell, CallRemove (li_id created)])
           | (Inr _, s1) \<Rightarrow>
               (Inr (Created \<lparr>cd_terminal = created, cd_access = Write, cd_self = False\<rparr>),
                record_action (ce_millis env) (li_id created) (li_id caller) (li_name caller) agent
                  (lit ''opened this terminal'') s1,
                [CallCreate name cwd shell])))"

definition execute_kill ::
    "'v control_env \<Rightarrow> listed_info list \<Rightarrow> uuid \<Rightarrow> control_state \<Rightarrow> 'v control_result" where
  "execute_kill env terminals k s =
     (case control_target s terminals k Write of Inl e \<Rightarrow> (Inl e, s, []) | Inr _ \<Rightarrow>
      (case ce_do env (CallRemove k) of
         Inl e \<Rightarrow> (Inl (Workspace e), s, [CallRemove k])
       | Inr _ \<Rightarrow>
          (case forget_control (ce_persist env) k s of
             (Inl e, s1) \<Rightarrow> (Inl e, s1, [CallRemove k])
           | (Inr _, s1) \<Rightarrow> (Inr Killed, s1, [CallRemove k]))))"

definition execute_terminals ::
    "'v control_env \<Rightarrow> listed_info \<Rightarrow> listed_info list \<Rightarrow> control_state \<Rightarrow> 'v control_result" where
  "execute_terminals env caller terminals s0 =
     (let s = retain_control (ce_persist env) (ce_instant env) (map li_id terminals) s0
      in (Inr (ListedTerminals (List.map_filter (\<lambda>t.
            if li_id t = li_id caller \<or> exposure_of s (li_id t) \<noteq> Off
            then Some \<lparr>cd_terminal = t, cd_access = exposure_of s (li_id t), cd_self = (li_id t = li_id caller)\<rparr>
            else None) terminals)), s, []))"

definition tab_shared :: "control_state \<Rightarrow> listed_info list \<Rightarrow> tab_info \<Rightarrow> bool" where
  "tab_shared s terminals tab =
     (case tb_terminal tab of None \<Rightarrow> True
      | Some k \<Rightarrow> (case control_target s terminals k Read of Inr _ \<Rightarrow> True | Inl _ \<Rightarrow> False))"

definition execute_tabs :: "'v control_env \<Rightarrow> listed_info list \<Rightarrow> control_state \<Rightarrow> 'v control_result" where
  "execute_tabs env terminals s =
     (let (tabs, views) = tab_list (ce_tabs env) (ce_instant env) (ct_tabs s)
      in (Inr (ListedTabs (filter (tab_shared s terminals) tabs)), s\<lparr>ct_tabs := views\<rparr>, []))"

definition execute_close_tab ::
    "'v control_env \<Rightarrow> listed_info \<Rightarrow> ustring \<Rightarrow> listed_info list \<Rightarrow> ustring \<Rightarrow> control_state
       \<Rightarrow> 'v control_result" where
  "execute_close_tab env caller agent terminals tab_id s0 =
     (let (tabs, views) = tab_list (ce_tabs env) (ce_instant env) (ct_tabs s0);
          s = s0\<lparr>ct_tabs := views\<rparr>
      in case List.find (\<lambda>t. tb_id t = tab_id) tabs of
           None \<Rightarrow> (Inl (Invalid (lit ''tab is no longer open'')), s, [])
         | Some tab \<Rightarrow>
             (case (case tb_terminal tab of None \<Rightarrow> Inr ()
                    | Some k \<Rightarrow> (case control_target s terminals k Write of Inl e \<Rightarrow> Inl e | Inr _ \<Rightarrow> Inr ())) of
                Inl e \<Rightarrow> (Inl e, s, [])
              | Inr _ \<Rightarrow>
                 (case tab_close_begin (ce_tabs env) (ce_instant env) tab_id (ce_command_id env) (ct_tabs s) of
                    (Inl e, views1) \<Rightarrow> (Inl e, s\<lparr>ct_tabs := views1\<rparr>, [])
                  | (Inr view_id, views1) \<Rightarrow>
                     (case tab_close_end (ce_close env) view_id (ce_command_id env) views1 of
                        (Inl e, views2) \<Rightarrow> (Inl e, s\<lparr>ct_tabs := views2\<rparr>, [])
                      | (Inr ack, views2) \<Rightarrow>
                         (let s1 = s\<lparr>ct_tabs := views2\<rparr>
                          in if \<not> ack_ok ack
                             then (Inl (Invalid (case ack_error ack of Some e \<Rightarrow> e
                                     | None \<Rightarrow> lit ''browser rejected the close command'')), s1, [])
                             else (Inr ClosedTab,
                               case tb_terminal tab of None \<Rightarrow> s1
                               | Some k \<Rightarrow> record_action (ce_millis env) k (li_id caller) (li_name caller) agent
                                             (lit ''closed its pane'') s1, []))))))"

fun execute ::
    "'v control_env \<Rightarrow> control_command \<Rightarrow> listed_info \<Rightarrow> ustring \<Rightarrow> listed_info list \<Rightarrow> control_state
       \<Rightarrow> 'v control_result" where
  "execute env Terminals caller agent terminals s = execute_terminals env caller terminals s"
| "execute env (Screen k tail_bytes) caller agent terminals s =
     show_terminal env caller agent terminals k (CallScreen k (min tail_bytes MAX_TAIL_BYTES)) s"
| "execute env (Scrollback k from_sequence limit_bytes) caller agent terminals s =
     show_terminal env caller agent terminals k (CallScrollback k from_sequence limit_bytes) s"
| "execute env (Transcript k from_sequence limit_records kinds) caller agent terminals s =
     show_terminal env caller agent terminals k (CallTranscript k from_sequence limit_records kinds) s"
| "execute env (Processes k) caller agent terminals s =
     show_terminal env caller agent terminals k (CallInspect k) s"
| "execute env (Send k data) caller agent terminals s =
     change_terminal env caller agent terminals k (CallWrite k data)
       (lit ''typed '' @ input_preview data) Sent s"
| "execute env (Rename k name) caller agent terminals s = execute_rename env caller agent terminals k name s"
| "execute env (Create name cwd shell) caller agent terminals s =
     execute_create env caller agent name cwd shell s"
| "execute env (Kill k) caller agent terminals s = execute_kill env terminals k s"
| "execute env (Terminate k process_id) caller agent terminals s =
     change_terminal env caller agent terminals k (CallTerminate k process_id)
       (lit ''terminated process '' @ process_id) Terminated s"
| "execute env Tabs caller agent terminals s = execute_tabs env terminals s"
| "execute env (CloseTabOf tab_id) caller agent terminals s =
     execute_close_tab env caller agent terminals tab_id s"

definition handle_request :: "'v control_env \<Rightarrow> control_request \<Rightarrow> control_state \<Rightarrow> 'v control_result" where
  "handle_request env rq s =
     (case authorize env rq s of
        Inl e \<Rightarrow> (Inl e, s, [])
      | Inr (caller, terminals) \<Rightarrow>
          execute env (cr_command rq) caller (agent_label (cr_agent rq)) terminals s)"


fun control_error_text :: "control_error \<Rightarrow> ustring" where
  "control_error_text Unauthorized = lit ''terminal control is not authorized for this process''"
| "control_error_text ControlDisabled = lit ''terminal control is off for this terminal; the user can turn on \"Control other terminals\" in its Access panel''"
| "control_error_text NotShared = lit ''terminal not found or not shared with controlling terminals''"
| "control_error_text ReadOnly = lit ''this terminal is shared read-only; the user can allow read & write in its Access panel''"
| "control_error_text (Denied e) = e"
| "control_error_text (Invalid e) = e"
| "control_error_text (Unavailable e) = e"
| "control_error_text (Workspace e) = e"
| "control_error_text (ControlIo e) = e"
| "control_error_text (ControlJson e) = e"

text \<open>The response written to the socket: one that is too long in JSON is replaced by an error.\<close>

definition control_response ::
    "'v control_env \<Rightarrow> control_error + 'v control_value \<Rightarrow> 'v control_response" where
  "control_response env outcome =
     (let response = (case outcome of
          Inr v \<Rightarrow> \<lparr>rs_ok = True, rs_denied = False, rs_result = Some v, rs_error = None\<rparr>
        | Inl e \<Rightarrow> \<lparr>rs_ok = False, rs_denied = control_denied e, rs_result = None,
                    rs_error = Some (control_error_text e)\<rparr>)
      in if MAX_CONTROL_RESPONSE_BYTES < ce_encoded env response
         then \<lparr>rs_ok = False, rs_denied = False, rs_result = None,
               rs_error = Some (lit ''terminal control response exceeds the 2 MiB limit'')\<rparr>
         else response)"

definition handle_connection ::
    "'v control_env \<Rightarrow> control_request \<Rightarrow> control_state
       \<Rightarrow> 'v control_response \<times> control_state \<times> workspace_call list" where
  "handle_connection env rq s =
     (let (outcome, s', calls) = handle_request env rq s in (control_response env outcome, s', calls))"

end
