(* ===== verification/ControlProps.thy ===== *)
theory ControlProps
  imports ControlOps
begin

text \<open>
  What the consent of the user is worth: a request acts only on what was shared, cannot widen what
  it may do, and does not learn of what is hidden.
\<close>

section \<open>Consent\<close>

text \<open>The terminal a call is about and the exposure it takes.\<close>

fun call_needs :: "workspace_call \<Rightarrow> (uuid \<times> exposure) option" where
  "call_needs (CallScreen k _) = Some (k, Read)"
| "call_needs (CallScrollback k _ _) = Some (k, Read)"
| "call_needs (CallTranscript k _ _ _) = Some (k, Read)"
| "call_needs (CallInspect k) = Some (k, Read)"
| "call_needs (CallWrite k _) = Some (k, Write)"
| "call_needs (CallRename k _) = Some (k, Write)"
| "call_needs (CallCreate _ _ _) = None"
| "call_needs (CallRemove k) = Some (k, Write)"
| "call_needs (CallTerminate k _) = Some (k, Write)"

text \<open>The process that asks runs in a terminal the user allowed to control others.\<close>

definition may_control :: "'v control_env \<Rightarrow> control_request \<Rightarrow> control_state \<Rightarrow> bool" where
  "may_control env rq s \<longleftrightarrow>
     (\<exists>terminals caller shell_pid. ce_list env = Inr terminals \<and> caller \<in> set terminals
        \<and> li_id caller = cr_terminal rq \<and> li_running caller \<and> li_pid caller = Some shell_pid
        \<and> ce_peer_pid env = Some (cr_pid rq) \<and> cr_pid rq \<noteq> shell_pid
        \<and> ce_identity env shell_pid (cr_pid rq) (cr_start_ticks rq)
        \<and> cs_controller (settings_of s (cr_terminal rq)))"

text \<open>A call is allowed: it creates, or its terminal is shared enough, or this request created it.\<close>

definition call_allowed :: "'v control_env \<Rightarrow> control_request \<Rightarrow> control_state \<Rightarrow> workspace_call \<Rightarrow> bool" where
  "call_allowed env rq s call \<longleftrightarrow>
     (case call_needs call of
        None \<Rightarrow> True
      | Some (k, needed) \<Rightarrow>
          needed \<le> exposure_of s k \<and> (\<exists>terminals. ce_list env = Inr terminals \<and> k \<in> li_id ` set terminals)
          \<or> (\<exists>name cwd shell created. cr_command rq = Create name cwd shell
               \<and> ce_create env name cwd shell = Inr created \<and> call = CallRemove k \<and> k = li_id created))"

lemma authorize_Inr:
  assumes "authorize env rq s = Inr (caller, terminals)"
  shows "may_control env rq s" "ce_list env = Inr terminals" "caller \<in> set terminals"
    "li_id caller = cr_terminal rq"
proof -
  obtain shell_pid where "ce_list env = Inr terminals"
    and f: "List.find (\<lambda>t. li_id t = cr_terminal rq \<and> li_running t) terminals = Some caller"
    and g: "li_pid caller = Some shell_pid" "ce_peer_pid env = Some (cr_pid rq)" "cr_pid rq \<noteq> shell_pid"
      "ce_identity env shell_pid (cr_pid rq) (cr_start_ticks rq)" "cs_controller (settings_of s (li_id caller))"
    using assms by (auto simp: authorize_def split: sum.splits option.splits if_splits)
  moreover have "caller \<in> set terminals" "li_id caller = cr_terminal rq" "li_running caller"
    using find_mem [OF f] by auto
  ultimately show "may_control env rq s" "ce_list env = Inr terminals" "caller \<in> set terminals"
    "li_id caller = cr_terminal rq"
    unfolding may_control_def by metis+
qed

lemma target_Inr:
  assumes "control_target s terminals k needed = Inr t"
  shows "needed \<le> exposure_of s k \<and> k \<in> li_id ` set terminals"
  using assms find_mem [of "\<lambda>t. li_id t = k" terminals t]
  by (auto simp: control_target_def not_less split: option.splits if_splits)

lemma execute_calls:
  assumes "execute env (cr_command rq) caller agent terminals s = (r, s', calls)"
    "ce_list env = Inr terminals" "call \<in> set calls"
  shows "call_allowed env rq s call"
proof (cases "cr_command rq")
  case (Create name cwd shell)
  then show ?thesis
    using assms by (auto simp: execute_create_def call_allowed_def split: sum.splits prod.splits)
qed (use assms in \<open>auto simp: execute_terminals_def show_terminal_def change_terminal_def execute_rename_def
      execute_kill_def execute_tabs_def execute_close_tab_def call_allowed_def Let_def
      split: sum.splits prod.splits option.splits if_splits dest: target_Inr\<close>)

text \<open>
  C9. A controlling terminal does nothing without the user's consent. Whatever a request asks, if
  it is answered with a result or makes the workspace do anything, then the peer of the socket is the
  process it claims to be, that process descends from the shell of the claimed running terminal,
  and the user allowed that terminal to control others; and every call on a terminal is on a listed
  one whose exposure covers it, reading or writing, except that a terminal this very request
  created may be removed again.
\<close>

theorem control_needs_consent:
  assumes "handle_request env rq s = (r, s', calls)"
  shows "(calls \<noteq> [] \<or> (\<exists>v. r = Inr v) \<longrightarrow> may_control env rq s)
    \<and> (\<forall>call\<in>set calls. call_allowed env rq s call)
    \<and> (\<not> may_control env rq s \<longrightarrow> s' = s)"
proof (cases "authorize env rq s")
  case (Inl e)
  then show ?thesis using assms by (auto simp: handle_request_def)
next
  case (Inr ct)
  obtain caller terminals where ct: "ct = (caller, terminals)" by (cases ct)
  note a = authorize_Inr [OF Inr [unfolded ct]]
  have "execute env (cr_command rq) caller (agent_label (cr_agent rq)) terminals s = (r, s', calls)"
    using assms Inr ct by (simp add: handle_request_def)
  then show ?thesis using execute_calls [OF _ a(2)] a(1) by blast
qed

section \<open>No escalation\<close>

lemma settings_of_update:
  "hm_ok (ct_settings s) \<Longrightarrow> settings_of (s\<lparr>ct_settings := AList.update j c (ct_settings s)\<rparr>) k
     = (if k = j then c else settings_of s k)"
  by (simp add: settings_of_def hm.get_put)

lemma settings_of_delete:
  "hm_ok (ct_settings s) \<Longrightarrow> settings_of (s\<lparr>ct_settings := AList.delete j (ct_settings s)\<rparr>) k
     = (if k = j then default_settings else settings_of s k)"
  by (simp add: settings_of_def hm.get_del)

lemma persist_fields:
  "ct_settings (snd (persist_settings p d m s)) = ct_settings s"
  "ct_default (snd (persist_settings p d m s)) = ct_default s"
  by (auto simp: persist_settings_def split: prod.splits sum.splits)

text \<open>What no operation of a controlling terminal changes: the default and the well-formed maps.\<close>

definition same_default :: "control_state \<Rightarrow> control_state \<Rightarrow> bool" where
  "same_default s s' \<longleftrightarrow> ct_default s' = ct_default s \<and> (hm_ok (ct_settings s) \<longrightarrow> hm_ok (ct_settings s'))"

lemma modify_effect:
  assumes "modify_settings p k f s = (r, s')" "hm_ok (ct_settings s)"
  shows "same_default s s'" "settings_of s' j \<in> {settings_of s j, if j = k then f (settings_of s k) else settings_of s j}"
proof -
  let ?n = "f (settings_of s k)"
  let ?u = "if ?n = default_settings then AList.delete k (ct_settings s) else AList.update k ?n (ct_settings s)"
  obtain q s1 where q: "persist_settings p (ct_default s) ?u s = (q, s1)" by fastforce
  have s1: "ct_settings s1 = ct_settings s" "ct_default s1 = ct_default s"
    using persist_fields [of p "ct_default s" ?u s] q by simp_all
  have "s' = s \<or> s' = s1 \<or> s' = s1\<lparr>ct_settings := ?u\<rparr>"
    using assms(1) q by (auto simp: modify_settings_def Let_def split: if_splits sum.splits)
  moreover have "hm_ok ?u" using assms(2) by (simp add: hm.ok_put hm.ok_del)
  moreover have "settings_of (s1\<lparr>ct_settings := ?u\<rparr>) j = (if j = k then ?n else settings_of s j)"
    using assms(2) by (auto simp: settings_of_def hm.get_put hm.get_del)
  moreover have "settings_of s1 j = settings_of s j" by (simp add: settings_of_def s1)
  ultimately show "same_default s s'"
    "settings_of s' j \<in> {settings_of s j, if j = k then f (settings_of s k) else settings_of s j}"
    using s1 by (auto simp: same_default_def)
qed

lemma forget_effect:
  assumes "forget_control p k s = (r, s')" "hm_ok (ct_settings s)"
  shows "same_default s s'" "settings_of s' j \<in> {settings_of s j, if j = k then default_settings else settings_of s j}"
proof -
  let ?s = "s\<lparr>ct_observations := AList.delete k (ct_observations s)\<rparr>"
  let ?u = "AList.delete k (ct_settings s)"
  obtain q s1 where q: "persist_settings p (ct_default s) ?u ?s = (q, s1)" by fastforce
  have s1: "ct_settings s1 = ct_settings s" "ct_default s1 = ct_default s"
    using persist_fields [of p "ct_default s" ?u ?s] q by simp_all
  have "s' = ?s \<or> s' = s1 \<or> s' = s1\<lparr>ct_settings := ?u\<rparr>"
    using assms(1) q by (auto simp: forget_control_def Let_def split: if_splits sum.splits)
  then show "same_default s s'"
    "settings_of s' j \<in> {settings_of s j, if j = k then default_settings else settings_of s j}"
    using s1 assms(2) by (auto simp: same_default_def settings_of_def hm.get_del hm.ok_del)
qed

lemma retain_effect:
  assumes "hm_ok (ct_settings s)"
  shows "same_default s (retain_control p now live s)"
    "settings_of (retain_control p now live s) j \<in> {settings_of s j, default_settings}"
    "j \<in> set live \<Longrightarrow> settings_of (retain_control p now live s) j = settings_of s j"
proof -
  obtain expired s2 q s3 where e: "\<forall>k\<in>set expired. k \<notin> set live"
    and s2: "ct_settings s2 = ct_settings s" "ct_default s2 = ct_default s"
    and q: "persist_settings p (ct_default s2) (hm_retain (\<lambda>k _. k \<notin> set expired) (ct_settings s2)) s2 = (q, s3)"
    and r: "ct_settings (retain_control p now live s) \<in> {ct_settings s, hm_retain (\<lambda>k _. k \<notin> set expired) (ct_settings s)}"
      "ct_default (retain_control p now live s) = ct_default s"
  proof -
    define known where "known = filter (\<lambda>k. k \<notin> set live) (map fst (ct_settings s) @ map fst (ct_observations s))"
    define missing where "missing = note_missing now known (hm_retain (\<lambda>k _. k \<notin> set live) (ct_missing s))"
    define expired where "expired = filter (\<lambda>k. case map_of missing k of Some t \<Rightarrow> PRUNE_GRACE \<le> now - t | None \<Rightarrow> False) known"
    define s2 where "s2 = s\<lparr>ct_missing := missing, ct_observations := hm_retain (\<lambda>k _. k \<notin> set expired) (ct_observations s)\<rparr>"
    obtain q s3 where q: "persist_settings p (ct_default s2) (hm_retain (\<lambda>k _. k \<notin> set expired) (ct_settings s2)) s2 = (q, s3)"
      by fastforce
    have s3: "ct_settings s3 = ct_settings s" "ct_default s3 = ct_default s"
      using persist_fields [of p "ct_default s2" "hm_retain (\<lambda>k _. k \<notin> set expired) (ct_settings s2)" s2] q
      by (simp_all add: s2_def)
    have "\<forall>k\<in>set expired. k \<notin> set live" by (auto simp: expired_def known_def)
    moreover have "ct_settings (retain_control p now live s) \<in> {ct_settings s, hm_retain (\<lambda>k _. k \<notin> set expired) (ct_settings s)}
      \<and> ct_default (retain_control p now live s) = ct_default s"
      using q s3 unfolding retain_control_def Let_def known_def [symmetric] missing_def [symmetric]
        expired_def [symmetric] s2_def
      by (auto split: sum.splits)
    ultimately show ?thesis using that [of expired s2 q s3] q by (simp add: s2_def)
  qed
  have g: "map_of (hm_retain (\<lambda>k _. k \<notin> set expired) (ct_settings s)) k
      = (if k \<in> set expired then None else map_of (ct_settings s) k)" for k
    by (simp add: map_of_retain [OF assms] split: option.split)
  show "same_default s (retain_control p now live s)"
    using r assms by (auto simp: same_default_def)
  show "settings_of (retain_control p now live s) j \<in> {settings_of s j, default_settings}"
    using r(1) g [of j] by (auto simp: settings_of_def)
  show "j \<in> set live \<Longrightarrow> settings_of (retain_control p now live s) j = settings_of s j"
    using r(1) g [of j] e by (auto simp: settings_of_def)
qed


lemma record_settings [simp]:
  "ct_settings (record_read now k n a s) = ct_settings s" "ct_default (record_read now k n a s) = ct_default s"
  "ct_settings (record_action now k i n a act s) = ct_settings s"
  "ct_default (record_action now k i n a act s) = ct_default s"
  by (simp_all add: record_read_def record_action_def)

lemma settings_of_cong: "ct_settings s' = ct_settings s \<Longrightarrow> settings_of s' k = settings_of s k"
  by (simp add: settings_of_def)

text \<open>
  What a request may do to the settings of a terminal: nothing to its right to control others, and
  nothing at all to one that is listed and that it neither creates nor kills.
\<close>

definition spared :: "'v control_env \<Rightarrow> control_command \<Rightarrow> listed_info list \<Rightarrow> uuid \<Rightarrow> bool" where
  "spared env cmd terminals k \<longleftrightarrow> k \<in> li_id ` set terminals \<and> cmd \<noteq> Kill k
     \<and> (case cmd of Create name cwd shell \<Rightarrow>
          (case ce_create env name cwd shell of Inr created \<Rightarrow> li_id created \<noteq> k | Inl _ \<Rightarrow> True)
        | _ \<Rightarrow> True)"

definition settings_step ::
    "bool \<Rightarrow> uuid \<Rightarrow> control_state \<Rightarrow> control_state \<Rightarrow> bool" where
  "settings_step sp k s s' \<longleftrightarrow> same_default s s'
     \<and> (cs_controller (settings_of s' k) \<longrightarrow> cs_controller (settings_of s k))
     \<and> (sp \<longrightarrow> settings_of s' k = settings_of s k)"

lemma settings_step_same: "ct_settings s' = ct_settings s \<Longrightarrow> ct_default s' = ct_default s \<Longrightarrow> settings_step sp k s s'"
  by (simp add: settings_step_def same_default_def settings_of_def)

lemma settings_step_trans:
  "settings_step sp k s t \<Longrightarrow> ct_settings u = ct_settings t \<Longrightarrow> ct_default u = ct_default t \<Longrightarrow> settings_step sp k s u"
  by (simp add: settings_step_def same_default_def settings_of_def)

lemma create_settings:
  assumes "execute_create env caller agent name cwd shell s = (r, s', calls)" "hm_ok (ct_settings s)"
  shows "settings_step (spared env (Create name cwd shell) terminals k) k s s'"
proof (cases "ce_create env name cwd shell")
  case (Inl e)
  then show ?thesis using assms by (simp add: execute_create_def settings_step_same)
next
  case (Inr created)
  obtain q s1 where q: "modify_settings (ce_persist env) (li_id created)
      (\<lambda>c. c\<lparr>cs_exposure := Some Write, cs_created_by := Some (li_id caller)\<rparr>) s = (q, s1)" by fastforce
  have "settings_step (li_id created \<noteq> k) k s s1"
    using modify_effect(1) [OF q assms(2)] modify_effect(2) [OF q assms(2), of k] by (auto simp: settings_step_def split: if_splits)
  moreover have "ct_settings s' = ct_settings s1" "ct_default s' = ct_default s1"
    using assms(1) q Inr by (auto simp: execute_create_def split: sum.splits)
  ultimately show ?thesis
    using Inr by (auto simp: settings_step_def spared_def same_default_def settings_of_def)
qed

lemma kill_settings:
  assumes "execute_kill env terminals j s = (r, s', calls)" "hm_ok (ct_settings s)"
  shows "settings_step (j \<noteq> k) k s s'"
proof -
  obtain q s1 where q: "forget_control (ce_persist env) j s = (q, s1)" by fastforce
  have "settings_step (j \<noteq> k) k s s1"
    using forget_effect(1) [OF q assms(2)] forget_effect(2) [OF q assms(2), of k]
    by (auto simp: settings_step_def default_settings_def split: if_splits)
  moreover have "s' = s \<or> s' = s1"
    using assms(1) q by (auto simp: execute_kill_def split: sum.splits)
  ultimately show ?thesis by (auto simp: settings_step_same)
qed

lemma execute_settings:
  assumes e: "execute env cmd caller agent terminals s = (r, s', calls)" and ok: "hm_ok (ct_settings s)"
  shows "settings_step (spared env cmd terminals k) k s s'"
proof (cases cmd)
  case Terminals
  have "s' = retain_control (ce_persist env) (ce_instant env) (map li_id terminals) s"
    using e by (simp add: Terminals execute_terminals_def Let_def)
  then show ?thesis
    using retain_effect(1) [OF ok] retain_effect(2) [OF ok, of "ce_persist env" "ce_instant env" "map li_id terminals" k]
      retain_effect(3) [OF ok, of k "map li_id terminals"]
    by (auto simp: settings_step_def spared_def default_settings_def)
next
  case (Create name cwd shell)
  then show ?thesis using create_settings [OF _ ok] e by simp
next
  case (Kill j)
  then show ?thesis using kill_settings [OF _ ok, of env terminals j] e
    by (auto simp: settings_step_def spared_def)
qed (use e in \<open>auto intro!: settings_step_same simp: show_terminal_def change_terminal_def execute_rename_def
      execute_tabs_def execute_close_tab_def Let_def split: sum.splits prod.splits option.splits if_splits\<close>)

fun control_run :: "('v control_env \<times> control_request) list \<Rightarrow> control_state \<Rightarrow> control_state" where
  "control_run [] s = s"
| "control_run ((env, rq) # rs) s = control_run rs (fst (snd (handle_request env rq s)))"

definition request_spares :: "uuid \<Rightarrow> 'v control_env \<times> control_request \<Rightarrow> bool" where
  "request_spares k q \<longleftrightarrow>
     (case ce_list (fst q) of Inl _ \<Rightarrow> True
      | Inr terminals \<Rightarrow> spared (fst q) (cr_command (snd q)) terminals k)"

lemma handle_settings:
  assumes "hm_ok (ct_settings s)"
  shows "settings_step (request_spares k (env, rq)) k s (fst (snd (handle_request env rq s)))"
proof (cases "authorize env rq s")
  case (Inl e)
  then show ?thesis by (simp add: handle_request_def settings_step_same)
next
  case (Inr ct)
  obtain caller terminals where ct: "ct = (caller, terminals)" by (cases ct)
  obtain r s' calls where e: "execute env (cr_command rq) caller (agent_label (cr_agent rq)) terminals s = (r, s', calls)"
    by (metis prod_cases3)
  show ?thesis
    using execute_settings [OF e assms, of k] authorize_Inr(2) [OF Inr [unfolded ct]] e
    by (simp add: handle_request_def Inr ct request_spares_def)
qed

lemma control_run_settings:
  assumes "hm_ok (ct_settings s)"
  shows "(cs_controller (settings_of (control_run rs s) k) \<longrightarrow> cs_controller (settings_of s k))
    \<and> ct_default (control_run rs s) = ct_default s
    \<and> ((\<forall>q\<in>set rs. request_spares k q) \<longrightarrow> settings_of (control_run rs s) k = settings_of s k)"
  using assms
proof (induction rs arbitrary: s)
  case (Cons q rs)
  obtain env rq where q: "q = (env, rq)" by (cases q)
  let ?t = "fst (snd (handle_request env rq s))"
  note step = handle_settings [OF Cons.prems, of k env rq]
  have "hm_ok (ct_settings ?t)" using step Cons.prems by (simp add: settings_step_def same_default_def)
  then show ?case
    using Cons.IH [of ?t] step by (auto simp: q settings_step_def same_default_def)
qed simp

text \<open>
  C10. Controlling terminals cannot widen their rights. Over any sequence of requests, whoever sends
  them and whatever the workspace, the clocks and the disk answer: no terminal gains the right to
  control others, the default exposure stays what the user chose, and the settings and so the
  exposure of a terminal stay as they are as long as it is listed and is neither created nor
  killed by one of the requests.
\<close>

theorem control_cannot_escalate:
  assumes "hm_ok (ct_settings s)"
  shows "(cs_controller (settings_of (control_run rs s) k) \<longrightarrow> cs_controller (settings_of s k))
    \<and> ct_default (control_run rs s) = ct_default s
    \<and> ((\<forall>q\<in>set rs. request_spares k q) \<longrightarrow>
         settings_of (control_run rs s) k = settings_of s k
         \<and> exposure_of (control_run rs s) k = exposure_of s k)"
  using control_run_settings [OF assms, of rs k] by (auto simp: exposure_of_def split: option.split)

section \<open>Hidden terminals\<close>

text \<open>The listing without what is hidden from a caller.\<close>

definition shown_to :: "control_state \<Rightarrow> uuid \<Rightarrow> listed_info list \<Rightarrow> listed_info list" where
  "shown_to s caller terminals = filter (\<lambda>t. li_id t = caller \<or> exposure_of s (li_id t) \<noteq> Off) terminals"

definition without_hidden :: "control_state \<Rightarrow> uuid \<Rightarrow> 'v control_env \<Rightarrow> 'v control_env" where
  "without_hidden s caller env =
     env\<lparr>ce_list := (case ce_list env of Inl e \<Rightarrow> Inl e | Inr ts \<Rightarrow> Inr (shown_to s caller ts))\<rparr>"

lemma find_filter: "(\<And>x. x \<in> set xs \<Longrightarrow> P x \<Longrightarrow> Q x) \<Longrightarrow> List.find P (filter Q xs) = List.find P xs"
  by (induction xs) auto

lemma authorize_shown:
  "authorize (without_hidden s (cr_terminal rq) env) rq s =
     (case authorize env rq s of Inl e \<Rightarrow> Inl e
      | Inr (caller, terminals) \<Rightarrow> Inr (caller, shown_to s (cr_terminal rq) terminals))"
proof (cases "ce_list env")
  case (Inr terminals)
  have "List.find (\<lambda>t. li_id t = cr_terminal rq \<and> li_running t) (shown_to s (cr_terminal rq) terminals)
      = List.find (\<lambda>t. li_id t = cr_terminal rq \<and> li_running t) terminals"
    unfolding shown_to_def by (rule find_filter) simp
  then show ?thesis
    by (simp add: authorize_def without_hidden_def Inr split: option.split)
qed (simp add: authorize_def without_hidden_def)

lemma target_shown:
  "control_target s' (shown_to s caller terminals) k needed = control_target s' terminals k needed"
  if "exposure_of s' k = exposure_of s k"
proof (cases "exposure_of s k = Off")
  case True
  then show ?thesis using that by (auto simp: control_target_def split: option.split)
next
  case False
  have "List.find (\<lambda>t. li_id t = k) (shown_to s caller terminals) = List.find (\<lambda>t. li_id t = k) terminals"
    unfolding shown_to_def by (rule find_filter) (use False in simp)
  then show ?thesis by (simp add: control_target_def)
qed

lemma exposure_tabs [simp]: "exposure_of (s\<lparr>ct_tabs := v\<rparr>) k = exposure_of s k"
  by (simp add: exposure_of_def settings_of_def split: option.split)

lemma target_shown_tabs:
  "control_target (s\<lparr>ct_tabs := v\<rparr>) (shown_to s caller terminals) k needed
     = control_target (s\<lparr>ct_tabs := v\<rparr>) terminals k needed"
  by (rule target_shown) simp

lemma map_filter_filter:
  "(\<And>x. x \<in> set xs \<Longrightarrow> \<not> P x \<Longrightarrow> f x = None) \<Longrightarrow> (\<And>x. x \<in> set xs \<Longrightarrow> P x \<Longrightarrow> f x = g x) \<Longrightarrow>
     List.map_filter g (filter P xs) = List.map_filter f xs"
  by (induction xs) (auto simp: map_filter_simps split: option.splits)

lemma terminals_shown:
  assumes "hm_ok (ct_settings s)"
  shows "fst (execute_terminals env' caller (shown_to s (li_id caller) terminals) s)
    = fst (execute_terminals env caller terminals s)"
proof -
  have e: "exposure_of (retain_control p now (map li_id xs) s) (li_id x) = exposure_of s (li_id x)"
    if "x \<in> set xs" for p now xs x
    using retain_effect(1) [OF assms] retain_effect(3) [OF assms, of "li_id x" "map li_id xs" p now] that
    by (simp add: exposure_of_def same_default_def split: option.split)
  let ?P = "\<lambda>t. li_id t = li_id caller \<or> exposure_of s (li_id t) \<noteq> Off"
  let ?f = "\<lambda>s' t. if li_id t = li_id caller \<or> exposure_of s' (li_id t) \<noteq> Off
      then Some \<lparr>cd_terminal = t, cd_access = exposure_of s' (li_id t), cd_self = (li_id t = li_id caller)\<rparr>
      else None"
  have "List.map_filter (?f (retain_control p' now' (map li_id (filter ?P terminals)) s)) (filter ?P terminals)
      = List.map_filter (?f (retain_control p now (map li_id terminals) s)) terminals" for p p' now now'
  proof (rule map_filter_filter)
    fix x assume x: "x \<in> set terminals"
    note a = e [OF x, of p now]
    show "\<not> ?P x \<Longrightarrow> ?f (retain_control p now (map li_id terminals) s) x = None" unfolding a by simp
    assume "?P x"
    then have b: "exposure_of (retain_control p' now' (map li_id (filter ?P terminals)) s) (li_id x) = exposure_of s (li_id x)"
      using x by (intro e) simp
    show "?f (retain_control p now (map li_id terminals) s) x
        = ?f (retain_control p' now' (map li_id (filter ?P terminals)) s) x" unfolding a b ..
  qed
  then show ?thesis by (simp add: execute_terminals_def Let_def shown_to_def)
qed

lemma tabs_shown: "fst (execute_tabs env (shown_to s caller terminals) s) = fst (execute_tabs env terminals s)"
proof -
  have "tab_shared s (shown_to s caller terminals) = tab_shared s terminals"
    by (simp add: tab_shared_def target_shown fun_eq_iff split: option.split)
  then show ?thesis by (simp add: execute_tabs_def split: prod.split)
qed


lemma close_tab_shown:
  "fst (execute_close_tab env' caller agent (shown_to s c terminals) tab_id s)
     = fst (execute_close_tab env caller agent terminals tab_id s)"
  if "ce_tabs env' = ce_tabs env" "ce_instant env' = ce_instant env" "ce_command_id env' = ce_command_id env"
    "ce_close env' = ce_close env" for env env' :: "'v control_env"
  using that by (simp add: execute_close_tab_def Let_def target_shown_tabs
      split: prod.split option.split sum.split)

lemma execute_shown:
  fixes env :: "'v control_env"
  assumes "hm_ok (ct_settings s)"
  shows "fst (execute (without_hidden s (li_id caller) env) cmd caller agent (shown_to s (li_id caller) terminals) s)
      = fst (execute env cmd caller agent terminals s)
    \<and> snd (snd (execute (without_hidden s (li_id caller) env) cmd caller agent (shown_to s (li_id caller) terminals) s))
      = snd (snd (execute env cmd caller agent terminals s))"
proof (cases cmd)
  case Terminals
  have "snd (snd (execute_terminals e c ts s)) = []" for e :: "'v control_env" and c ts
    by (simp add: execute_terminals_def Let_def)
  then show ?thesis using terminals_shown [OF assms] by (simp add: Terminals)
next
  case Tabs
  then show ?thesis
    using tabs_shown [of "without_hidden s (li_id caller) env" s "li_id caller" terminals]
    by (simp add: execute_tabs_def without_hidden_def Let_def split: prod.split)
next
  case (CloseTabOf tab_id)
  have "snd (snd (execute_close_tab e c a ts tab_id s)) = []" for e :: "'v control_env" and c a ts
    by (simp add: execute_close_tab_def Let_def split: prod.split option.split sum.split)
  moreover have "fst (execute_close_tab (without_hidden s (li_id caller) env) caller agent
        (shown_to s (li_id caller) terminals) tab_id s)
      = fst (execute_close_tab env caller agent terminals tab_id s)"
    by (rule close_tab_shown) (simp_all add: without_hidden_def)
  ultimately show ?thesis by (simp add: CloseTabOf)
qed (simp_all add: show_terminal_def change_terminal_def execute_rename_def execute_kill_def
    execute_create_def target_shown without_hidden_def split: sum.split prod.split)


section \<open>An instance\<close>

definition agent_terminal :: listed_info where
  "agent_terminal = \<lparr>li_id = 1, li_name = lit ''agent'', li_running = True, li_pid = Some 100\<rparr>"

definition shared_terminal :: listed_info where
  "shared_terminal = \<lparr>li_id = 2, li_name = lit ''build'', li_running = True, li_pid = Some 200\<rparr>"

definition private_terminal :: listed_info where
  "private_terminal = \<lparr>li_id = 3, li_name = lit ''mail'', li_running = True, li_pid = Some 300\<rparr>"

definition consent_env :: "unit control_env" where
  "consent_env = \<lparr>ce_list = Inr [agent_terminal, shared_terminal, private_terminal], ce_peer_pid = Some 101,
     ce_identity = (\<lambda>shell pid ticks. shell = 100 \<and> pid = 101), ce_show = (\<lambda>_. Inr ()), ce_do = (\<lambda>_. Inr ()),
     ce_rename = (\<lambda>_ _. Inr shared_terminal), ce_create = (\<lambda>_ _ _. Inl []), ce_millis = 5, ce_instant = 5,
     ce_persist = Persisted, ce_tabs = plain_tabs, ce_command_id = 9, ce_close = TimedOut, ce_encoded = (\<lambda>_. 0)\<rparr>"

definition consent_state :: control_state where
  "consent_state = \<lparr>ct_settings = [(1, \<lparr>cs_exposure = None, cs_controller = True, cs_created_by = None\<rparr>),
       (2, \<lparr>cs_exposure = Some Write, cs_controller = False, cs_created_by = None\<rparr>)],
     ct_default = Off, ct_observations = [], ct_missing = [], ct_tabs = [], ct_file = None\<rparr>"

definition send_request :: "uuid \<Rightarrow> control_request" where
  "send_request k = \<lparr>cr_terminal = 1, cr_pid = 101, cr_start_ticks = 7, cr_agent = lit ''a'',
     cr_command = Send k (lit ''ls'')\<rparr>"

lemmas consent_eval = handle_request_def authorize_def consent_env_def consent_state_def send_request_def
  agent_terminal_def shared_terminal_def private_terminal_def settings_of_def exposure_of_def
  default_settings_def change_terminal_def control_target_def

theorem control_needs_consent_witness:
  "snd (snd (handle_request consent_env (send_request 2) consent_state)) = [CallWrite 2 (lit ''ls'')]
   \<and> may_control consent_env (send_request 2) consent_state
   \<and> fst (handle_request consent_env (send_request 3) consent_state) = Inl NotShared"
proof -
  obtain r s' calls where h: "handle_request consent_env (send_request 2) consent_state = (r, s', calls)"
    by (metis prod_cases3)
  have "calls = [CallWrite 2 (lit ''ls'')]" using h by (auto simp: consent_eval)
  then show ?thesis
    using control_needs_consent [OF h] h by (simp add: consent_eval)
qed

theorem control_cannot_escalate_witness:
  "exposure_of (control_run [(consent_env, send_request 2), (consent_env, send_request 3)] consent_state) 3 = Off"
proof -
  have "hm_ok (ct_settings consent_state)" by (simp add: hm_ok_def consent_state_def)
  moreover have "\<forall>q\<in>set [(consent_env, send_request 2), (consent_env, send_request 3)]. request_spares 3 q"
    by (simp add: request_spares_def spared_def consent_env_def send_request_def agent_terminal_def
        shared_terminal_def private_terminal_def)
  ultimately have "exposure_of (control_run [(consent_env, send_request 2), (consent_env, send_request 3)] consent_state) 3
      = exposure_of consent_state 3"
    using control_cannot_escalate by blast
  then show ?thesis by (simp add: exposure_of_def settings_of_def consent_state_def default_settings_def)
qed


end
