(* ===== verification/SocketFrames.thy ===== *)
theory SocketFrames
  imports OutputState
begin

text \<open>
  What a terminal socket puts on the wire (\<open>src/src/workspace.rs\<close>: \<open>send_terminal_bytes\<close>,
  \<open>send_terminal_output\<close>, \<open>send_terminal_sync\<close>, \<open>coalesce_terminal_output\<close>) and what a viewer that
  follows the protocol has after receiving it.

  A control message is the value the code serialises to JSON. A binary frame is its bytes: the
  kind, the big-endian sequence number of the first byte, the payload. The wire counts the sends
  that still succeed: a send that times out or fails is the last one, because the socket closes.
\<close>

section \<open>Messages\<close>

definition TERMINAL_FRAME_HEADER_BYTES :: nat where "TERMINAL_FRAME_HEADER_BYTES = 9"
definition TERMINAL_FRAME_SNAPSHOT :: byte where "TERMINAL_FRAME_SNAPSHOT = char_of (0 :: nat)"
definition TERMINAL_FRAME_OUTPUT :: byte where "TERMINAL_FRAME_OUTPUT = char_of (1 :: nat)"

datatype server_message =
    ReadyMessage nat
  | ExitMessage nat
  | SizeMessage nat nat bool bool bool nat
  | SyncMessage sync_mode nat
  | SyncedMessage nat
  | PongMessage
  | ErrorMessage ustring

datatype socket_message = TextMessage server_message | BinaryMessage bytes | PongFrame bytes

text \<open>\<open>slice::chunks\<close>: pieces of the given size, the last one what is left.\<close>

function chunks :: "nat \<Rightarrow> 'a list \<Rightarrow> 'a list list" where
  "chunks n bs = (if n = 0 \<or> bs = [] then [] else take n bs # chunks n (drop n bs))"
  by pat_completeness auto
termination
  by (relation "measure (length \<circ> snd)") auto

declare chunks.simps [simp del]

lemma chunks_Nil [simp]: "chunks n [] = []"
  by (simp add: chunks.simps)

lemma concat_chunks: "0 < n \<Longrightarrow> concat (chunks n bs) = bs"
  by (induction n bs rule: chunks.induct) (subst chunks.simps, simp)

lemma chunks_bounds: "c \<in> set (chunks n bs) \<Longrightarrow> c \<noteq> [] \<and> length c \<le> n"
  by (induction n bs rule: chunks.induct) (subst (asm) (2) chunks.simps, auto split: if_splits)

section \<open>Sending\<close>

record wire =
  wr_sent :: "socket_message list"
  wr_left :: nat

definition send :: "socket_message \<Rightarrow> wire \<Rightarrow> bool \<times> wire" where
  "send m w =
     (if wr_left w = 0 then (False, w)
      else (True, w\<lparr>wr_sent := wr_sent w @ [m], wr_left := wr_left w - 1\<rparr>))"

text \<open>The \<open>?\<close> operator between two sends.\<close>

definition and_then :: "(wire \<Rightarrow> bool \<times> wire) \<Rightarrow> (wire \<Rightarrow> bool \<times> wire) \<Rightarrow> wire \<Rightarrow> bool \<times> wire" where
  "and_then f g w = (let (ok, w') = f w in if ok then g w' else (False, w'))"

definition frame :: "byte \<Rightarrow> nat \<Rightarrow> bytes \<Rightarrow> bytes" where
  "frame kind sequence chunk = kind # be64 sequence @ chunk"

fun send_frames :: "byte \<Rightarrow> nat \<Rightarrow> bytes list \<Rightarrow> wire \<Rightarrow> bool \<times> wire" where
  "send_frames kind sequence [] w = (True, w)"
| "send_frames kind sequence (chunk # cs) w =
     and_then (send (BinaryMessage (frame kind sequence chunk)))
       (send_frames kind
          (if kind = TERMINAL_FRAME_OUTPUT then sequence + length chunk else sequence) cs) w"

definition send_terminal_bytes :: "byte \<Rightarrow> nat \<Rightarrow> bytes \<Rightarrow> wire \<Rightarrow> bool \<times> wire" where
  "send_terminal_bytes kind sequence bs =
     send_frames kind sequence (chunks TERMINAL_OUTPUT_FRAME_BYTES bs)"

definition send_terminal_output :: "sequenced_output \<Rightarrow> wire \<Rightarrow> bool \<times> wire" where
  "send_terminal_output output =
     send_terminal_bytes TERMINAL_FRAME_OUTPUT (out_seq output) (out_bytes output)"

fun send_outputs :: "sequenced_output list \<Rightarrow> wire \<Rightarrow> bool \<times> wire" where
  "send_outputs [] w = (True, w)"
| "send_outputs (output # outputs) w =
     and_then (send_terminal_output output) (send_outputs outputs) w"

definition send_terminal_sync :: "terminal_sync \<Rightarrow> wire \<Rightarrow> bool \<times> wire" where
  "send_terminal_sync sync =
     and_then (send (TextMessage (SyncMessage (sy_mode sync) (sy_sequence sync))))
      (and_then
        (case sy_snapshot sync of
           None \<Rightarrow> Pair True
         | Some snapshot \<Rightarrow>
             send_terminal_bytes TERMINAL_FRAME_SNAPSHOT (sy_sequence sync) snapshot)
        (and_then (send_outputs (sy_output sync))
           (send (TextMessage (SyncedMessage (sy_sequence sync))))))"

text \<open>
  Every sender sends a list of messages, in order, until a send fails: \<open>sends f ms\<close>.
\<close>

definition sends :: "(wire \<Rightarrow> bool \<times> wire) \<Rightarrow> socket_message list \<Rightarrow> bool" where
  "sends f ms \<longleftrightarrow>
     (\<forall>w. f w = (length ms \<le> wr_left w,
                w\<lparr>wr_sent := wr_sent w @ take (wr_left w) ms, wr_left := wr_left w - length ms\<rparr>))"

lemma wire_update_same [simp]: "w\<lparr>wr_sent := wr_sent w, wr_left := wr_left w\<rparr> = w" for w :: wire
  by (cases w) simp

lemma sends_send: "sends (send m) [m]"
  unfolding sends_def
proof
  fix w :: wire
  show "send m w = (length [m] \<le> wr_left w,
      w\<lparr>wr_sent := wr_sent w @ take (wr_left w) [m], wr_left := wr_left w - length [m]\<rparr>)"
    by (cases w; cases "wr_left w") (simp_all add: send_def)
qed

lemma sends_nothing: "sends (Pair True) []"
  unfolding sends_def by simp

lemma sends_and_then: "sends f ms \<Longrightarrow> sends g ns \<Longrightarrow> sends (and_then f g) (ms @ ns)"
  by (auto simp: sends_def and_then_def)

text \<open>The frames of one payload.\<close>

fun frames :: "byte \<Rightarrow> nat \<Rightarrow> bytes list \<Rightarrow> socket_message list" where
  "frames kind sequence [] = []"
| "frames kind sequence (chunk # cs) =
     BinaryMessage (frame kind sequence chunk)
       # frames kind (if kind = TERMINAL_FRAME_OUTPUT then sequence + length chunk else sequence) cs"

lemma sends_frames: "sends (send_frames kind sequence cs) (frames kind sequence cs)"
proof (induction cs arbitrary: sequence)
  case Nil
  have "send_frames kind sequence [] = Pair True" by (rule ext) simp
  then show ?case by (simp add: sends_nothing)
next
  case (Cons c cs)
  let ?next = "if kind = TERMINAL_FRAME_OUTPUT then sequence + length c else sequence"
  have "send_frames kind sequence (c # cs)
      = and_then (send (BinaryMessage (frame kind sequence c))) (send_frames kind ?next cs)"
    by (rule ext) simp
  then show ?case
    using sends_and_then [OF sends_send Cons.IH, of "BinaryMessage (frame kind sequence c)" ?next]
    by simp
qed

definition payload_frames :: "byte \<Rightarrow> nat \<Rightarrow> bytes \<Rightarrow> socket_message list" where
  "payload_frames kind sequence bs = frames kind sequence (chunks TERMINAL_OUTPUT_FRAME_BYTES bs)"

definition output_frames :: "sequenced_output \<Rightarrow> socket_message list" where
  "output_frames c = payload_frames TERMINAL_FRAME_OUTPUT (out_seq c) (out_bytes c)"

definition sync_messages :: "terminal_sync \<Rightarrow> socket_message list" where
  "sync_messages y =
     TextMessage (SyncMessage (sy_mode y) (sy_sequence y))
       # (case sy_snapshot y of None \<Rightarrow> []
          | Some snapshot \<Rightarrow> payload_frames TERMINAL_FRAME_SNAPSHOT (sy_sequence y) snapshot)
       @ concat (map output_frames (sy_output y))
       @ [TextMessage (SyncedMessage (sy_sequence y))]"

lemma sends_output: "sends (send_terminal_output c) (output_frames c)"
  unfolding send_terminal_output_def send_terminal_bytes_def output_frames_def payload_frames_def
  by (rule sends_frames)

lemma sends_outputs: "sends (send_outputs cs) (concat (map output_frames cs))"
proof (induction cs)
  case Nil
  have "send_outputs [] = Pair True" by (rule ext) simp
  then show ?case by (simp add: sends_nothing)
next
  case (Cons c cs)
  have "send_outputs (c # cs) = and_then (send_terminal_output c) (send_outputs cs)"
    by (rule ext) simp
  then show ?case using sends_and_then [OF sends_output Cons.IH, of c] by simp
qed

lemma sends_sync: "sends (send_terminal_sync y) (sync_messages y)"
proof -
  have snap: "sends (case sy_snapshot y of None \<Rightarrow> Pair True
        | Some snapshot \<Rightarrow> send_terminal_bytes TERMINAL_FRAME_SNAPSHOT (sy_sequence y) snapshot)
      (case sy_snapshot y of None \<Rightarrow> []
        | Some snapshot \<Rightarrow> payload_frames TERMINAL_FRAME_SNAPSHOT (sy_sequence y) snapshot)"
    by (auto simp: sends_nothing send_terminal_bytes_def payload_frames_def sends_frames
        split: option.split)
  show ?thesis
    using sends_and_then [OF sends_send sends_and_then [OF snap sends_and_then
          [OF sends_outputs sends_send]]]
    by (simp add: send_terminal_sync_def sync_messages_def)
qed

lemma sends_cases:
  assumes "sends f ms" and "f w = (ok, w')"
  obtains "ok" "wr_sent w' = wr_sent w @ ms" | n where "\<not> ok" "wr_sent w' = wr_sent w @ take n ms"
  using assms by (cases ok) (auto simp: sends_def)

section \<open>What a viewer has\<close>

text \<open>
  A viewer that follows the protocol: a \<open>snapshot\<close> synchronisation empties it, snapshot frames are
  the redraw, output frames carry the bytes that follow. \<open>vr_from\<close> is the sequence of the first byte
  it holds; a frame that does not begin where the last one ended is noted in \<open>vr_contiguous\<close>.
\<close>

record viewer =
  vr_from :: nat
  vr_bytes :: bytes
  vr_redraw :: bytes
  vr_contiguous :: bool

definition frame_sequence :: "bytes \<Rightarrow> nat" where
  "frame_sequence f = from_be_bytes (take 8 (tl f))"

fun viewer_receive :: "socket_message \<Rightarrow> viewer \<Rightarrow> viewer" where
  "viewer_receive (TextMessage m) v =
     (case m of SyncMessage Snapshot q \<Rightarrow> v\<lparr>vr_from := q, vr_bytes := [], vr_redraw := []\<rparr>
      | _ \<Rightarrow> v)"
| "viewer_receive (BinaryMessage f) v =
     (let payload = drop TERMINAL_FRAME_HEADER_BYTES f in
      if f \<noteq> [] \<and> hd f = TERMINAL_FRAME_OUTPUT then
        (if frame_sequence f = vr_from v + length (vr_bytes v)
         then v\<lparr>vr_bytes := vr_bytes v @ payload\<rparr> else v\<lparr>vr_contiguous := False\<rparr>)
      else (if frame_sequence f = vr_from v
            then v\<lparr>vr_redraw := vr_redraw v @ payload\<rparr> else v\<lparr>vr_contiguous := False\<rparr>))"
| "viewer_receive (PongFrame _) v = v"

text \<open>\<open>viewed v s m\<close>: the viewer holds the stream \<open>s\<close> from its start to sequence \<open>m\<close>.\<close>

definition viewed :: "viewer \<Rightarrow> bytes \<Rightarrow> nat \<Rightarrow> bool" where
  "viewed v s m \<longleftrightarrow>
     vr_contiguous v \<and> vr_from v \<le> m \<and> m \<le> length s \<and> vr_bytes v = drop (vr_from v) (take m s)"

lemma viewed_length: "viewed v s m \<Longrightarrow> vr_from v + length (vr_bytes v) = m"
  by (auto simp: viewed_def)

lemma viewed_append: "viewed v s m \<Longrightarrow> viewed v (s @ t) m"
  by (auto simp: viewed_def)

lemma viewed_at: "viewed v s m \<Longrightarrow> viewed v s n \<Longrightarrow> m = n"
  using viewed_length by metis

lemma frame_fields:
  "n \<le> u64_max \<Longrightarrow> frame_sequence (frame k n c) = n"
  "hd (frame k n c) = k" "frame k n c \<noteq> []"
  "drop TERMINAL_FRAME_HEADER_BYTES (frame k n c) = c"
  by (simp_all add: frame_sequence_def frame_def from_be64 TERMINAL_FRAME_HEADER_BYTES_def)

lemma viewed_frame:
  assumes "viewed v s q" "q + length c \<le> length s" "take (length c) (drop q s) = c" "q \<le> u64_max"
  shows "viewed (viewer_receive (BinaryMessage (frame TERMINAL_FRAME_OUTPUT q c)) v) s (q + length c)"
proof -
  have "take (q + length c) s = take q s @ c"
    using assms(3) by (simp add: take_add)
  moreover have "vr_from v \<le> q" "q \<le> length s" using assms(1) by (auto simp: viewed_def)
  ultimately show ?thesis
    using assms viewed_length [OF assms(1)]
    by (simp add: viewed_def frame_fields Let_def)
qed

lemma viewed_frames:
  assumes "viewed v s q" "q + length (concat cs) \<le> length s"
    and "take (length (concat cs)) (drop q s) = concat cs" "q + length (concat cs) \<le> u64_max"
  shows "viewed (fold viewer_receive (frames TERMINAL_FRAME_OUTPUT q cs) v) s (q + length (concat cs))"
  using assms
proof (induction cs arbitrary: q v)
  case (Cons c cs)
  have c: "take (length c) (drop q s) = c"
    using Cons.prems(3) by (simp add: append_eq_conv_conj take_add min_def split: if_splits)
  have rest: "take (length (concat cs)) (drop (q + length c) s) = concat cs"
    using Cons.prems(2,3) by (simp add: append_eq_conv_conj drop_take take_add add.commute)
  have "viewed (viewer_receive (BinaryMessage (frame TERMINAL_FRAME_OUTPUT q c)) v) s (q + length c)"
    using Cons.prems by (intro viewed_frame c) auto
  from Cons.IH [OF this _ rest] show ?case
    using Cons.prems by (simp add: add.assoc)
qed simp

lemma take_frames: "take n (frames k q cs) = frames k q (take n cs)"
  by (induction cs arbitrary: n q) (auto simp: take_Cons split: nat.splits)

lemma frames_append:
  "frames TERMINAL_FRAME_OUTPUT q (cs @ ds)
     = frames TERMINAL_FRAME_OUTPUT q cs @ frames TERMINAL_FRAME_OUTPUT (q + length (concat cs)) ds"
  by (induction cs arbitrary: q) (simp_all add: add.assoc)

text \<open>A property that holds after every prefix of what was sent.\<close>

definition along :: "(viewer \<Rightarrow> bool) \<Rightarrow> socket_message list \<Rightarrow> viewer \<Rightarrow> bool" where
  "along P ms v \<longleftrightarrow> (\<forall>n. P (fold viewer_receive (take n ms) v))"

lemma along_append:
  "along P ms v \<Longrightarrow> along P ns (fold viewer_receive ms v) \<Longrightarrow> along P (ms @ ns) v"
  unfolding along_def
proof
  fix n assume ms: "\<forall>n. P (fold viewer_receive (take n ms) v)"
    and ns: "\<forall>n. P (fold viewer_receive (take n ns) (fold viewer_receive ms v))"
  show "P (fold viewer_receive (take n (ms @ ns)) v)"
    using ms ns by (cases "n \<le> length ms") simp_all
qed

lemma along_Cons: "P v \<Longrightarrow> along P ms (viewer_receive m v) \<Longrightarrow> along P (m # ms) v"
  unfolding along_def by (simp add: take_Cons split: nat.split)

lemma along_Nil: "along P [] v = P v"
  by (simp add: along_def)

lemma along_frames:
  assumes "viewed v s q" "q + length (concat cs) \<le> length s"
    and "take (length (concat cs)) (drop q s) = concat cs" "q + length (concat cs) \<le> u64_max"
  shows "along (\<lambda>v. \<exists>m. viewed v s m) (frames TERMINAL_FRAME_OUTPUT q cs) v"
  unfolding along_def take_frames
proof
  fix n
  let ?t = "concat (take n cs)"
  have c: "concat cs = ?t @ concat (drop n cs)" by (metis append_take_drop_id concat_append)
  have "take (length ?t) (drop q s) = take (length ?t) (take (length (concat cs)) (drop q s))"
    by (simp add: c)
  also have "\<dots> = ?t" unfolding assms(3) by (simp add: c)
  finally have t: "take (length ?t) (drop q s) = ?t" .
  have "length ?t \<le> length (concat cs)" by (simp add: c)
  then show "\<exists>m. viewed (fold viewer_receive (frames TERMINAL_FRAME_OUTPUT q (take n cs)) v) s m"
    using viewed_frames [OF assms(1) _ t] assms(2,4) by auto
qed

text \<open>Outputs that follow each other are one list of frames.\<close>

lemma frame_limit [simp]: "0 < TERMINAL_OUTPUT_FRAME_BYTES"
  by (simp add: TERMINAL_OUTPUT_FRAME_BYTES_def)

lemma linked_frames:
  "linked q outs e \<Longrightarrow> concat (map output_frames outs)
     = frames TERMINAL_FRAME_OUTPUT q
         (concat (map (\<lambda>c. chunks TERMINAL_OUTPUT_FRAME_BYTES (out_bytes c)) outs))"
  by (induction outs arbitrary: q)
    (auto simp: output_frames_def payload_frames_def frames_append concat_chunks end_sequence_def)

lemma replayed_chunks:
  "concat (concat (map (\<lambda>c. chunks TERMINAL_OUTPUT_FRAME_BYTES (out_bytes c)) outs)) = replayed outs"
  by (induction outs) (simp_all add: concat_chunks)

lemma output_single:
  "output_frames c = frames TERMINAL_FRAME_OUTPUT (out_seq c)
     (chunks TERMINAL_OUTPUT_FRAME_BYTES (out_bytes c))"
  by (simp add: output_frames_def payload_frames_def)

lemma output_viewed:
  assumes "viewed v s (out_seq c)" "end_sequence c \<le> length s" "length s \<le> u64_max"
    and "take (length (out_bytes c)) (drop (out_seq c) s) = out_bytes c"
  shows "viewed (fold viewer_receive (output_frames c) v) s (end_sequence c)"
    and "along (\<lambda>v. \<exists>m. viewed v s m) (output_frames c) v"
  using viewed_frames [OF assms(1), of "chunks TERMINAL_OUTPUT_FRAME_BYTES (out_bytes c)"]
    along_frames [OF assms(1), of "chunks TERMINAL_OUTPUT_FRAME_BYTES (out_bytes c)"] assms
  by (simp_all add: output_single concat_chunks end_sequence_def)

text \<open>The redraw.\<close>

lemma snapshot_frames:
  assumes "q \<le> u64_max" "vr_from v = q"
  shows "fold viewer_receive (frames TERMINAL_FRAME_SNAPSHOT q cs) v
    = v\<lparr>vr_redraw := vr_redraw v @ concat cs\<rparr>"
  using assms(2)
proof (induction cs arbitrary: v)
  case (Cons c cs)
  have k: "TERMINAL_FRAME_SNAPSHOT \<noteq> TERMINAL_FRAME_OUTPUT"
    by (simp add: TERMINAL_FRAME_SNAPSHOT_def TERMINAL_FRAME_OUTPUT_def)
  show ?case using Cons assms(1) k by (simp add: frame_fields Let_def)
qed simp

lemma snapshot_viewed:
  assumes "viewed v s q" "vr_from v = q" "q \<le> u64_max"
  shows "viewed (fold viewer_receive (payload_frames TERMINAL_FRAME_SNAPSHOT q bs) v) s q"
    and "along (\<lambda>v. \<exists>m. viewed v s m) (payload_frames TERMINAL_FRAME_SNAPSHOT q bs) v"
  using assms(1) snapshot_frames [OF assms(3,2)]
  by (auto simp: payload_frames_def along_def take_frames viewed_def)

end
