(* ===== verification/SocketUpload.thy ===== *)
theory SocketUpload
  imports SocketFrames
begin

text \<open>
  The checkpoint uploads of a terminal socket (\<open>src/src/workspace.rs\<close>: \<open>CheckpointAssembly\<close>,
  \<open>start_binary_checkpoint\<close>, \<open>append_binary_checkpoint\<close>, \<open>start_checkpoint\<close>, \<open>append_checkpoint\<close>).
  A browser sends an xterm serialisation in pieces, as announced binary frames or as base64 JSON
  chunks with offsets; the socket assembles it and stores it in the terminal's output state.

  The base64 decoder is the third-party \<open>base64\<close> crate and a parameter. An error is the message
  sent to the browser.
\<close>

section \<open>State\<close>

definition TERMINAL_CHECKPOINT_CHUNK_BYTES :: nat where
  "TERMINAL_CHECKPOINT_CHUNK_BYTES = 32 * 1024"
definition TERMINAL_CHECKPOINT_CHUNK_BASE64_BYTES :: nat where
  "TERMINAL_CHECKPOINT_CHUNK_BASE64_BYTES = (TERMINAL_CHECKPOINT_CHUNK_BYTES + 2) div 3 * 4"
definition TERMINAL_CHECKPOINT_FRAME_KIND :: byte where
  "TERMINAL_CHECKPOINT_FRAME_KIND = char_of (2 :: nat)"
definition TERMINAL_CHECKPOINT_FRAME_HEADER_BYTES :: nat where
  "TERMINAL_CHECKPOINT_FRAME_HEADER_BYTES = 9"

record pending_checkpoint =
  pc_sequence :: nat
  pc_epoch :: nat
  pc_bytes :: bytes

record pending_binary =
  pb_sequence :: nat
  pb_epoch :: nat
  pb_expected :: nat
  pb_bytes :: bytes

record checkpoint_assembly =
  ca_chunked :: "pending_checkpoint option"
  ca_binary :: "pending_binary option"

definition assembly_default :: checkpoint_assembly where
  "assembly_default = \<lparr>ca_chunked = None, ca_binary = None\<rparr>"

section \<open>Binary uploads\<close>

definition start_binary_checkpoint ::
    "nat \<Rightarrow> nat \<Rightarrow> nat \<Rightarrow> nat \<Rightarrow> checkpoint_assembly \<Rightarrow> (ustring + unit) \<times> checkpoint_assembly" where
  "start_binary_checkpoint maximum sequence epoch announced assembly =
     (let a = assembly\<lparr>ca_chunked := None\<rparr> in
      if ca_binary a \<noteq> None
      then (Inl (lit ''terminal checkpoint announced during another upload''),
            a\<lparr>ca_binary := None\<rparr>)
      else if announced = 0 \<or> maximum < announced
      then (Inl (lit ''terminal checkpoint exceeds the replay limit''), a)
      else (Inr (), a\<lparr>ca_binary := Some \<lparr>pb_sequence = sequence, pb_epoch = epoch,
                                         pb_expected = announced, pb_bytes = []\<rparr>\<rparr>))"

definition append_binary_checkpoint ::
    "bytes \<Rightarrow> pending_binary option \<Rightarrow> (ustring + pending_binary option) \<times> pending_binary option" where
  "append_binary_checkpoint data pending =
     (case pending of
        None \<Rightarrow> (Inl (lit ''terminal checkpoint is missing its announcement''), None)
      | Some current \<Rightarrow>
          if length data \<le> TERMINAL_CHECKPOINT_FRAME_HEADER_BYTES
             \<or> TERMINAL_CHECKPOINT_FRAME_HEADER_BYTES + TERMINAL_CHECKPOINT_CHUNK_BYTES < length data
          then (Inl (lit ''terminal checkpoint chunk exceeds the message limit''), None)
          else let sequence_bytes =
                     take (TERMINAL_CHECKPOINT_FRAME_HEADER_BYTES - 1) (drop 1 data) in
          if data ! 0 \<noteq> TERMINAL_CHECKPOINT_FRAME_KIND
             \<or> from_be_bytes sequence_bytes \<noteq> pb_sequence current
          then (Inl (lit ''terminal checkpoint chunk header does not match its announcement''), None)
          else let payload = drop TERMINAL_CHECKPOINT_FRAME_HEADER_BYTES data in
          if pb_expected current < sat_add (length (pb_bytes current)) (length payload)
          then (Inl (lit ''terminal checkpoint chunks exceed the announced size''), None)
          else let current' = current\<lparr>pb_bytes := pb_bytes current @ payload\<rparr> in
          if length (pb_bytes current') < pb_expected current'
          then (Inr None, Some current')
          else (Inr (Some current'), None))"

section \<open>Base64 uploads\<close>

definition start_checkpoint ::
    "nat \<Rightarrow> nat \<Rightarrow> nat \<Rightarrow> pending_checkpoint option
       \<Rightarrow> (ustring + unit) \<times> pending_checkpoint option" where
  "start_checkpoint sequence epoch offset pending =
     (if offset \<noteq> 0 then (Inr (), pending)
      else if pending \<noteq> None
      then (Inl (lit ''terminal checkpoint chunks are out of order''), None)
      else (Inr (), Some \<lparr>pc_sequence = sequence, pc_epoch = epoch, pc_bytes = []\<rparr>))"

text \<open>The flag of a success says whether a checkpoint was stored.\<close>

definition append_checkpoint ::
    "(ustring \<Rightarrow> bytes option) \<Rightarrow> nat \<Rightarrow> nat \<Rightarrow> nat \<Rightarrow> ustring \<Rightarrow> bool
       \<Rightarrow> pending_checkpoint option \<Rightarrow> 't output_state
       \<Rightarrow> (ustring + bool) \<times> pending_checkpoint option \<times> 't output_state" where
  "append_checkpoint decode sequence epoch offset data final_chunk pending out =
     (case start_checkpoint sequence epoch offset pending of
        (Inl e, pending') \<Rightarrow> (Inl e, pending', out)
      | (Inr _, None) \<Rightarrow> (Inl (lit ''terminal checkpoint is missing its first chunk''), None, out)
      | (Inr _, Some current) \<Rightarrow>
          if pc_sequence current \<noteq> sequence \<or> pc_epoch current \<noteq> epoch
             \<or> length (pc_bytes current) \<noteq> offset
          then (Inl (lit ''terminal checkpoint chunks are out of order''), None, out)
          else if TERMINAL_CHECKPOINT_CHUNK_BASE64_BYTES < utf8_len data
          then (Inl (lit ''terminal checkpoint chunk exceeds the message limit''), None, out)
          else (case decode data of
                  None \<Rightarrow> (Inl (lit ''terminal checkpoint contains invalid data''), None, out)
                | Some decoded \<Rightarrow>
          if TERMINAL_CHECKPOINT_CHUNK_BYTES < length decoded
          then (Inl (lit ''terminal checkpoint chunk exceeds the message limit''), None, out)
          else if os_checkpoint_bytes out < sat_add (length (pc_bytes current)) (length decoded)
          then (Inl (lit ''terminal checkpoint exceeds the replay limit''), None, out)
          else let current' = current\<lparr>pc_bytes := pc_bytes current @ decoded\<rparr> in
          if \<not> final_chunk then (Inr False, Some current', out)
          else (let (stored, out') = os_store_checkpoint out (pc_sequence current')
                                       (pc_epoch current') (pc_bytes current')
                in (Inr stored, None, out'))))"

section \<open>What an assembly holds\<close>

text \<open>An assembly in progress stays within the limit it was started under.\<close>

definition assembly_ok :: "nat \<Rightarrow> checkpoint_assembly \<Rightarrow> bool" where
  "assembly_ok maximum a \<longleftrightarrow>
     (case ca_chunked a of None \<Rightarrow> True | Some c \<Rightarrow> length (pc_bytes c) \<le> maximum)
     \<and> (case ca_binary a of None \<Rightarrow> True
        | Some b \<Rightarrow> length (pb_bytes b) < pb_expected b \<and> pb_expected b \<le> maximum)"

lemma assembly_default_ok: "assembly_ok m assembly_default"
  by (simp add: assembly_ok_def assembly_default_def)

lemma start_binary_ok:
  "assembly_ok m a \<Longrightarrow> assembly_ok m (snd (start_binary_checkpoint m q e n a))"
  by (auto simp: assembly_ok_def start_binary_checkpoint_def Let_def)

lemma append_binary_ok:
  assumes "append_binary_checkpoint data (Some b) = (r, p)"
    and "length (pb_bytes b) < pb_expected b" and "pb_expected b \<le> m"
  shows "case p of None \<Rightarrow> True
    | Some b' \<Rightarrow> length (pb_bytes b') < pb_expected b' \<and> pb_expected b' \<le> m"
  using assms by (auto simp: append_binary_checkpoint_def Let_def split: if_splits)

lemma append_chunk_ok:
  assumes "append_checkpoint dec q e off d f p out = (r, p', out')"
    and "case p of None \<Rightarrow> True | Some c \<Rightarrow> length (pc_bytes c) \<le> os_checkpoint_bytes out"
    and "os_checkpoint_bytes out < u64_max"
  shows "case p' of None \<Rightarrow> True | Some c \<Rightarrow> length (pc_bytes c) \<le> os_checkpoint_bytes out"
  using assms
  by (auto simp: append_checkpoint_def start_checkpoint_def Let_def not_less
      dest: sat_add_limit split: if_splits option.splits prod.splits sum.splits)

lemma append_chunk_out:
  "append_checkpoint dec q e off d f p out = (r, p', out') \<Longrightarrow>
     out' = out \<or> (\<exists>b. out' = snd (os_store_checkpoint out q e b))"
  by (auto simp: append_checkpoint_def start_checkpoint_def Let_def
      split: if_splits option.splits prod.splits sum.splits) (metis snd_conv)+

text \<open>A frame of the announced upload extends the assembly or completes it.\<close>

lemma append_binary_frame:
  assumes "c \<noteq> []" "length c \<le> TERMINAL_CHECKPOINT_CHUNK_BYTES" "pb_sequence b \<le> u64_max"
    and "length (pb_bytes b) + length c \<le> pb_expected b"
  shows "append_binary_checkpoint (frame TERMINAL_CHECKPOINT_FRAME_KIND (pb_sequence b) c) (Some b)
    = (let b' = b\<lparr>pb_bytes := pb_bytes b @ c\<rparr> in
       if length (pb_bytes b') < pb_expected b then (Inr None, Some b') else (Inr (Some b'), None))"
proof -
  have "sat_add (length (pb_bytes b)) (length c) \<le> pb_expected b"
    using assms(4) by (simp add: sat_add_def)
  then show ?thesis
    using assms
    by (simp add: append_binary_checkpoint_def frame_def TERMINAL_CHECKPOINT_FRAME_HEADER_BYTES_def
        Let_def from_be64 not_less)
qed

text \<open>The next base64 chunk of an assembly.\<close>

lemma append_next_chunk:
  assumes "dec d = Some c" "length c \<le> TERMINAL_CHECKPOINT_CHUNK_BYTES"
    and "utf8_len d \<le> TERMINAL_CHECKPOINT_CHUNK_BASE64_BYTES"
    and "length b + length c \<le> os_checkpoint_bytes out"
    and "off = length b"
    and "p = (if b = [] then None else Some \<lparr>pc_sequence = q, pc_epoch = e, pc_bytes = b\<rparr>)"
  shows "append_checkpoint dec q e off d f p out
    = (if f then (Inr (fst (os_store_checkpoint out q e (b @ c))), None,
                  snd (os_store_checkpoint out q e (b @ c)))
       else (Inr False, Some \<lparr>pc_sequence = q, pc_epoch = e, pc_bytes = b @ c\<rparr>, out))"
proof -
  have "sat_add (length b) (length c) \<le> os_checkpoint_bytes out"
    using assms(4) by (simp add: sat_add_def)
  then show ?thesis
    using assms
    by (cases "b = []") (simp_all add: append_checkpoint_def start_checkpoint_def Let_def not_less
        split: prod.split)
qed

end
