(* ===== verification/SocketSession.thy ===== *)
theory SocketSession
  imports SocketUpload ViewportSession FlowControl InputQueue
begin

text \<open>
  The two ends of a terminal socket: the terminal as the socket sees it (\<open>src/src/terminal.rs\<close>:
  \<open>publish\<close>, \<open>update_viewports\<close>, \<open>exited\<close>, \<open>subscribe\<close>, \<open>write\<close>), and what the socket does with one
  message of its client (\<open>src/src/workspace.rs\<close>: \<open>handle_client_message\<close>, \<open>forward_terminal_input\<close>,
  \<open>write_terminal_input\<close>, \<open>synchronize_terminal\<close>).

  The broadcast channel is tokio's: every subscriber sees the events in the order they were sent,
  from the moment it subscribed, except that one more than the capacity behind is told how many it
  missed and goes on with the oldest one kept. It is the list of all events sent and a position.
  Debug recording is left out: it only observes.
\<close>

section \<open>The terminal\<close>

datatype terminal_event =
    OutputEvent sequenced_output | ExitEvent nat | SizeEvent terminal_size_state

record 't terminal =
  tl_session :: "'t view_session"
  tl_flow :: flow_state
  tl_input :: input_state
  tl_log :: "terminal_event list"

definition TERMINAL_EVENT_CAPACITY :: nat where "TERMINAL_EVENT_CAPACITY = 1024"

datatype channel_answer = AnswerEvent terminal_event | AnswerLagged nat | AnswerClosed

definition try_recv :: "terminal_event list \<Rightarrow> nat \<Rightarrow> channel_answer option \<times> nat" where
  "try_recv log position =
     (if position + TERMINAL_EVENT_CAPACITY < length log
      then (let oldest = length log - TERMINAL_EVENT_CAPACITY in
            (Some (AnswerLagged (oldest - position)), oldest))
      else if position < length log then (Some (AnswerEvent (log ! position)), Suc position)
      else (None, position))"

definition terminal_new :: "'t term_ops \<Rightarrow> nat \<Rightarrow> 't terminal" where
  "terminal_new ops maximum_bytes =
     \<lparr>tl_session = view_session_new ops maximum_bytes, tl_flow = flow_default,
      tl_input = input_state_default, tl_log = []\<rparr>"

definition queue_response :: "bytes \<Rightarrow> input_state \<Rightarrow> input_state" where
  "queue_response response i = (case enqueue_unobserved response i of Inl _ \<Rightarrow> i | Inr i' \<Rightarrow> i')"

definition terminal_publish :: "'t term_ops \<Rightarrow> bytes \<Rightarrow> 't terminal \<Rightarrow> 't terminal" where
  "terminal_publish ops bs t =
     (let (output, out) = os_publish ops (vs_output (tl_session t)) bs;
          (responses, out') = os_drain_responses ops out
      in t\<lparr>tl_flow := flow_published (length bs) (tl_flow t),
           tl_session := (tl_session t)\<lparr>vs_output := out'\<rparr>,
           tl_log := tl_log t @ [OutputEvent output],
           tl_input := fold queue_response responses (tl_input t)\<rparr>)"

text \<open>The size events a viewport change publishes are what it adds to the session's own log.\<close>

definition terminal_viewports ::
    "'t term_ops \<Rightarrow> viewport_op \<Rightarrow> bool \<Rightarrow> 't terminal
       \<Rightarrow> (unit + terminal_size_state) \<times> 't terminal" where
  "terminal_viewports ops op resize_succeeds t =
     (let (r, vs) = update_viewports ops (apply_viewport_op op) resize_succeeds (tl_session t)
      in (r, t\<lparr>tl_session := vs,
               tl_log := tl_log t @ map SizeEvent
                           (drop (length (vs_events (tl_session t))) (vs_events vs))\<rparr>))"

definition terminal_exited :: "nat \<Rightarrow> 't terminal \<Rightarrow> 't terminal" where
  "terminal_exited code t =
     t\<lparr>tl_flow := flow_release (tl_flow t),
       tl_session := (tl_session t)\<lparr>vs_running := False,
                                     vs_output := os_mark_exited (vs_output (tl_session t)) code\<rparr>,
       tl_log := tl_log t @ [ExitEvent code]\<rparr>"

text \<open>
  \<open>subscribe\<close>: the position of the new receiver, the synchronisation, the size and the exit code. A
  client that is redrawn starts without flow debt.
\<close>

definition subscribe_terminal ::
    "'t term_ops \<Rightarrow> terminal_resume option \<Rightarrow> bool \<Rightarrow> 't terminal
       \<Rightarrow> (nat \<times> terminal_sync \<times> terminal_size_state \<times> nat option) \<times> 't terminal" where
  "subscribe_terminal ops requested flow_control t =
     (let sync = os_sync ops (vs_output (tl_session t)) requested;
          reset_flow = (flow_control \<and> sy_mode sync = Snapshot)
      in ((length (tl_log t), sync, cv_published (vs_viewports (tl_session t)),
           os_exit (vs_output (tl_session t))),
          if reset_flow then t\<lparr>tl_flow := flow_clear (tl_flow t)\<rparr> else t))"

datatype write_error = Not_running | Input_refused input_error

definition terminal_write :: "bytes \<Rightarrow> 't terminal \<Rightarrow> write_error + 't terminal" where
  "terminal_write data t =
     (if \<not> vs_running (tl_session t) then Inl Not_running
      else (case enqueue data None (tl_input t) of
              Inl e \<Rightarrow> Inl (Input_refused e)
            | Inr i \<Rightarrow> Inr (t\<lparr>tl_input := i\<rparr>)))"

definition write_error_text :: "write_error \<Rightarrow> ustring" where
  "write_error_text e =
     (case e of
        Not_running \<Rightarrow> lit ''terminal is not running''
      | Input_refused InputTooLarge \<Rightarrow> lit ''terminal input exceeds the 64 KiB message limit''
      | Input_refused InputQueueFull \<Rightarrow>
          lit ''terminal input queue is full; wait for the terminal to catch up''
      | Input_refused (WriterStopped None) \<Rightarrow>
          lit ''terminal I/O failed: terminal input writer stopped''
      | Input_refused (WriterStopped (Some failure)) \<Rightarrow>
          lit ''terminal I/O failed: terminal input writer stopped: '' @ failure)"

section \<open>Synchronising a socket\<close>

record 't connection =
  cn_terminal :: "'t terminal"
  cn_wire :: wire
  cn_assembly :: checkpoint_assembly

definition size_message :: "terminal_size_state \<Rightarrow> uuid \<Rightarrow> server_message" where
  "size_message grid client =
     SizeMessage (sz_cols grid) (sz_rows grid) (sz_focused grid \<noteq> None)
       (sz_focused grid = Some client) (sz_responder grid = Some client) (sz_epoch grid)"

text \<open>
  The receiver's position and the sequence the client is at, or None when the socket is to close:
  a send failed or the program has exited. Nothing the sends do depends on the terminal, so what
  others do to it meanwhile is ordered after the call.
\<close>

definition synchronize_terminal ::
    "'t term_ops \<Rightarrow> uuid \<Rightarrow> terminal_resume option \<Rightarrow> bool \<Rightarrow> 't connection
       \<Rightarrow> (nat \<times> nat) option \<times> 't connection" where
  "synchronize_terminal ops client requested flow_control c =
     (let ((position, sync, grid, exit_code), t) =
            subscribe_terminal ops requested flow_control (cn_terminal c);
          (ok, w) = and_then (send (TextMessage (size_message grid client)))
            (and_then (send_terminal_sync sync)
              (case exit_code of None \<Rightarrow> Pair True
               | Some code \<Rightarrow> send (TextMessage (ExitMessage code)))) (cn_wire c)
      in (if ok \<and> exit_code = None then Some (position, sy_sequence sync) else None,
          c\<lparr>cn_terminal := t, cn_wire := w\<rparr>))"

section \<open>Messages of the client\<close>

text \<open>\<open>handled\<close> is how \<open>handle_client_message\<close> goes on: back to the loop, the socket closed, or input
  on its way to the terminal.\<close>

datatype client_message =
    ClientInput ustring
  | ClientResize nat nat nat nat
  | ClientFocus bool
  | ClientRelease
  | ClientAck nat
  | ClientCheckpoint nat nat nat ustring bool
  | ClientCheckpointBinary nat nat nat
  | ClientPing

datatype incoming =
    InText "client_message option" | InBinary bytes | InClose | InPing bytes | InPong bytes

datatype handled = Handled | Halted | Forward bytes

definition reply :: "socket_message \<Rightarrow> 't connection \<Rightarrow> handled \<times> 't connection" where
  "reply m c =
     (let (ok, w) = send m (cn_wire c)
      in (if ok then Handled else Halted, c\<lparr>cn_wire := w\<rparr>))"

definition reply_error :: "ustring \<Rightarrow> 't connection \<Rightarrow> handled \<times> 't connection" where
  "reply_error message = reply (TextMessage (ErrorMessage message))"

text \<open>An error after which the connection cannot go on.\<close>

definition fail_error :: "ustring \<Rightarrow> 't connection \<Rightarrow> handled \<times> 't connection" where
  "fail_error message c = (Halted, snd (reply_error message c))"

definition change_viewport ::
    "'t term_ops \<Rightarrow> bool \<Rightarrow> viewport_op \<Rightarrow> 't connection \<Rightarrow> handled \<times> 't connection" where
  "change_viewport ops resize_succeeds op c =
     (case terminal_viewports ops op resize_succeeds (cn_terminal c) of
        (Inl _, t) \<Rightarrow> (Halted, c\<lparr>cn_terminal := t\<rparr>)
      | (Inr _, t) \<Rightarrow> (Handled, c\<lparr>cn_terminal := t\<rparr>))"

definition forward_terminal_input ::
    "'t term_ops \<Rightarrow> uuid \<Rightarrow> bool \<Rightarrow> bytes \<Rightarrow> 't connection \<Rightarrow> handled \<times> 't connection" where
  "forward_terminal_input ops client resize_succeeds data c =
     (case change_viewport ops resize_succeeds (ActivateClient client) c of
        (Handled, c') \<Rightarrow> (Forward data, c')
      | (_, c') \<Rightarrow> (Halted, c'))"

text \<open>One attempt of the write, and what follows its result.\<close>

definition write_attempt :: "bool \<Rightarrow> bytes \<Rightarrow> 't connection \<Rightarrow> handled \<times> 't connection" where
  "write_attempt deadline_passed data c =
     (case terminal_write data (cn_terminal c) of
        Inr t \<Rightarrow> (Handled, c\<lparr>cn_terminal := t\<rparr>)
      | Inl e \<Rightarrow>
          if e = Input_refused InputQueueFull \<and> \<not> deadline_passed then (Forward data, c)
          else if e = Input_refused InputQueueFull \<or> e = Input_refused InputTooLarge
          then reply_error (write_error_text e) c
          else fail_error (write_error_text e) c)"

definition set_output :: "'t output_state \<Rightarrow> 't terminal \<Rightarrow> 't terminal" where
  "set_output out t = t\<lparr>tl_session := (tl_session t)\<lparr>vs_output := out\<rparr>\<rparr>"

definition handle_command ::
    "'t term_ops \<Rightarrow> (ustring \<Rightarrow> bytes option) \<Rightarrow> uuid \<Rightarrow> bool \<Rightarrow> client_message \<Rightarrow> 't connection
       \<Rightarrow> handled \<times> 't connection" where
  "handle_command ops decode client resize_succeeds m c =
     (case m of
        ClientInput data \<Rightarrow>
          if utf8_len data \<le> 64 * 1024
          then forward_terminal_input ops client resize_succeeds (utf8_encode data) c
          else reply_error (lit ''invalid terminal message'') c
      | ClientResize cols rows pw ph \<Rightarrow>
          change_viewport ops resize_succeeds (ResizeClient client cols rows pw ph) c
      | ClientFocus focused \<Rightarrow> change_viewport ops resize_succeeds (FocusClient client focused) c
      | ClientRelease \<Rightarrow> change_viewport ops resize_succeeds (ReleaseClient client) c
      | ClientCheckpoint sequence epoch offset data final_chunk \<Rightarrow>
          (case append_checkpoint decode sequence epoch offset data final_chunk
                  (ca_chunked (cn_assembly c)) (vs_output (tl_session (cn_terminal c))) of
             (r, chunked, out) \<Rightarrow>
               (let c' = c\<lparr>cn_assembly := (cn_assembly c)\<lparr>ca_chunked := chunked\<rparr>,
                           cn_terminal := set_output out (cn_terminal c)\<rparr>
                in case r of Inr _ \<Rightarrow> (Handled, c') | Inl message \<Rightarrow> reply_error message c'))
      | ClientCheckpointBinary sequence epoch announced \<Rightarrow>
          (case start_binary_checkpoint
                  (os_checkpoint_bytes (vs_output (tl_session (cn_terminal c))))
                  sequence epoch announced (cn_assembly c) of
             (r, assembly) \<Rightarrow>
               (let c' = c\<lparr>cn_assembly := assembly\<rparr>
                in case r of Inr _ \<Rightarrow> (Handled, c') | Inl message \<Rightarrow> fail_error message c'))
      | ClientAck n \<Rightarrow>
          (Handled, c\<lparr>cn_terminal := (cn_terminal c)\<lparr>tl_flow :=
                       snd (flow_acknowledge n (tl_flow (cn_terminal c)))\<rparr>\<rparr>)
      | ClientPing \<Rightarrow> reply (TextMessage PongMessage) c)"

definition handle_binary ::
    "'t term_ops \<Rightarrow> uuid \<Rightarrow> bool \<Rightarrow> bytes \<Rightarrow> 't connection \<Rightarrow> handled \<times> 't connection" where
  "handle_binary ops client resize_succeeds data c =
     (if ca_binary (cn_assembly c) \<noteq> None
      then (case append_binary_checkpoint data (ca_binary (cn_assembly c)) of
              (r, binary) \<Rightarrow>
                (let c' = c\<lparr>cn_assembly := (cn_assembly c)\<lparr>ca_binary := binary\<rparr>\<rparr> in
                 case r of
                   Inr (Some completed) \<Rightarrow>
                     (Handled, c'\<lparr>cn_terminal := set_output
                        (snd (os_store_checkpoint (vs_output (tl_session (cn_terminal c')))
                                (pb_sequence completed) (pb_epoch completed) (pb_bytes completed)))
                        (cn_terminal c')\<rparr>)
                 | Inr None \<Rightarrow> (Handled, c')
                 | Inl message \<Rightarrow> fail_error message c'))
      else if data \<noteq> [] then forward_terminal_input ops client resize_succeeds data c
      else (Handled, c))"

definition handle_client_message ::
    "'t term_ops \<Rightarrow> (ustring \<Rightarrow> bytes option) \<Rightarrow> uuid \<Rightarrow> bool \<Rightarrow> bool \<Rightarrow> incoming \<Rightarrow> 't connection
       \<Rightarrow> handled \<times> 't connection" where
  "handle_client_message ops decode client observer resize_succeeds message c =
     (case message of
        InText (Some ClientPing) \<Rightarrow> reply (TextMessage PongMessage) c
      | InText (Some m) \<Rightarrow>
          if observer then reply_error (lit ''observer connections are read-only'') c
          else handle_command ops decode client resize_succeeds m c
      | InText None \<Rightarrow> reply_error (lit ''invalid terminal message'') c
      | InBinary data \<Rightarrow>
          if observer then reply_error (lit ''observer connections are read-only'') c
          else handle_binary ops client resize_succeeds data c
      | InClose \<Rightarrow> (Halted, c)
      | InPing payload \<Rightarrow> reply (PongFrame payload) c
      | InPong _ \<Rightarrow> (Handled, c))"

fun handle_all ::
    "'t term_ops \<Rightarrow> (ustring \<Rightarrow> bytes option) \<Rightarrow> uuid \<Rightarrow> bool \<Rightarrow> bool \<Rightarrow> incoming list \<Rightarrow> 't connection
       \<Rightarrow> handled \<times> 't connection" where
  "handle_all ops decode client observer ok [] c = (Handled, c)"
| "handle_all ops decode client observer ok (m # ms) c =
     (case handle_client_message ops decode client observer ok m c of
        (Handled, c') \<Rightarrow> handle_all ops decode client observer ok ms c'
      | r \<Rightarrow> r)"

end
