(* ===== verification/SocketStream.thy ===== *)
theory SocketStream
  imports SocketSession
begin

text \<open>
  The event loop of a terminal socket (\<open>src/src/workspace.rs\<close>: \<open>serve_terminal_socket\<close>,
  \<open>coalesce_terminal_output\<close>) as a state machine that runs beside everything else that happens to the
  terminal: the program's output, other clients' viewports, checkpoints and acknowledgements, the
  input writer, the exit. Between any two looks of the socket at its channel the terminal may do
  any number of steps.

  The property is end to end: whatever the interleaving, the lag of the channel and the failure of
  a send, a viewer that follows the protocol holds exactly the bytes the terminal published.
\<close>

section \<open>Coalescing\<close>

text \<open>
  \<open>coalesce_terminal_output\<close> merges output events already queued behind one into a single frame. A
  run is the output it began with, the sequence reached and the merged bytes once there are any;
  one pass of the loop takes what \<open>try_recv\<close> answers (None for an empty channel) and goes on with a
  longer run, or ends it (\<open>Inr\<close>), perhaps handing back the event that ended it.
\<close>

record merge_run =
  mr_output :: sequenced_output
  mr_end :: nat
  mr_merged :: "bytes option"

definition merge_begin :: "sequenced_output \<Rightarrow> merge_run" where
  "merge_begin output = \<lparr>mr_output = output, mr_end = end_sequence output, mr_merged = None\<rparr>"

definition merge_more :: "merge_run \<Rightarrow> bool" where
  "merge_more r \<longleftrightarrow> mr_end r - out_seq (mr_output r) < TERMINAL_OUTPUT_FRAME_BYTES"

definition merge_answer ::
    "channel_answer option \<Rightarrow> merge_run \<Rightarrow> merge_run + channel_answer option" where
  "merge_answer answer r =
     (case answer of
        Some (AnswerEvent (OutputEvent output)) \<Rightarrow>
          if end_sequence output \<le> mr_end r then Inl r
          else if mr_end r < out_seq output then Inr answer
          else if TERMINAL_OUTPUT_FRAME_BYTES
                    < mr_end r - out_seq (mr_output r) + (end_sequence output - mr_end r)
          then Inr answer
          else (case slice_from output (mr_end r) of
                  None \<Rightarrow> Inl r
                | Some part \<Rightarrow>
                    Inl (r\<lparr>mr_end := end_sequence part,
                           mr_merged := Some ((case mr_merged r of
                               None \<Rightarrow> out_bytes (mr_output r) | Some bs \<Rightarrow> bs)
                             @ out_bytes part)\<rparr>))
      | _ \<Rightarrow> Inr answer)"

definition merge_result :: "merge_run \<Rightarrow> sequenced_output" where
  "merge_result r =
     (case mr_merged r of
        Some bs \<Rightarrow> \<lparr>out_seq = out_seq (mr_output r), out_bytes = bs\<rparr>
      | None \<Rightarrow> mr_output r)"

section \<open>The loop\<close>

datatype socket_pc = AtLoop | Merging merge_run | Forwarding bytes | Ended

record 't socket =
  sk_conn :: "'t connection"
  sk_position :: nat
  sk_deferred :: "channel_answer option"
  sk_sequence :: nat
  sk_pc :: socket_pc

abbreviation socket_log :: "'t socket \<Rightarrow> terminal_event list" where
  "socket_log s \<equiv> tl_log (cn_terminal (sk_conn s))"

abbreviation socket_sent :: "'t socket \<Rightarrow> socket_message list" where
  "socket_sent s \<equiv> wr_sent (cn_wire (sk_conn s))"

definition socket_send :: "(wire \<Rightarrow> bool \<times> wire) \<Rightarrow> 't socket \<Rightarrow> bool \<times> 't socket" where
  "socket_send f s =
     (let (ok, w) = f (cn_wire (sk_conn s)) in (ok, s\<lparr>sk_conn := (sk_conn s)\<lparr>cn_wire := w\<rparr>\<rparr>))"

definition socket_synchronize ::
    "'t term_ops \<Rightarrow> uuid \<Rightarrow> terminal_resume option \<Rightarrow> bool \<Rightarrow> 't socket \<Rightarrow> 't socket" where
  "socket_synchronize ops client requested observer s =
     (case synchronize_terminal ops client requested (\<not> observer) (sk_conn s) of
        (Some (position, sequence), c) \<Rightarrow>
          s\<lparr>sk_conn := c, sk_position := position, sk_sequence := sequence\<rparr>
      | (None, c) \<Rightarrow> s\<lparr>sk_conn := c, sk_pc := Ended\<rparr>)"

definition handle_event ::
    "'t term_ops \<Rightarrow> uuid \<Rightarrow> bool \<Rightarrow> channel_answer \<Rightarrow> 't socket \<Rightarrow> 't socket" where
  "handle_event ops client observer event s =
     (case event of
        AnswerEvent (OutputEvent output) \<Rightarrow>
          if end_sequence output \<le> sk_sequence s then s
          else if sk_sequence s < out_seq output
          then socket_synchronize ops client None observer s
          else (case slice_from output (sk_sequence s) of
                  None \<Rightarrow> s
                | Some part \<Rightarrow> s\<lparr>sk_pc := Merging (merge_begin part)\<rparr>)
      | AnswerEvent (ExitEvent code) \<Rightarrow>
          (snd (socket_send (send (TextMessage (ExitMessage code))) s))\<lparr>sk_pc := Ended\<rparr>
      | AnswerEvent (SizeEvent grid) \<Rightarrow>
          (case socket_send (send (TextMessage (size_message grid client))) s of
             (ok, s') \<Rightarrow> if ok then s' else s'\<lparr>sk_pc := Ended\<rparr>)
      | AnswerLagged _ \<Rightarrow> socket_synchronize ops client None observer s
      | AnswerClosed \<Rightarrow> s\<lparr>sk_pc := Ended\<rparr>)"

text \<open>The socket's look at its channel; it waits where the channel is empty.\<close>

definition socket_recv :: "'t term_ops \<Rightarrow> uuid \<Rightarrow> bool \<Rightarrow> 't socket \<Rightarrow> 't socket" where
  "socket_recv ops client observer s =
     (case sk_deferred s of
        Some event \<Rightarrow> handle_event ops client observer event (s\<lparr>sk_deferred := None\<rparr>)
      | None \<Rightarrow>
          (case try_recv (socket_log s) (sk_position s) of
             (Some event, position) \<Rightarrow>
               handle_event ops client observer event (s\<lparr>sk_position := position\<rparr>)
           | (None, _) \<Rightarrow> s))"

text \<open>The merged output is sent, and the sequence advances once the send has succeeded.\<close>

definition socket_flush :: "channel_answer option \<Rightarrow> merge_run \<Rightarrow> 't socket \<Rightarrow> 't socket" where
  "socket_flush deferred r s =
     (let output = merge_result r in
      case socket_send (send_terminal_output output) (s\<lparr>sk_deferred := deferred\<rparr>) of
        (ok, s') \<Rightarrow>
          if ok then s'\<lparr>sk_sequence := end_sequence output, sk_pc := AtLoop\<rparr>
          else s'\<lparr>sk_pc := Ended\<rparr>)"

definition socket_merge :: "merge_run \<Rightarrow> 't socket \<Rightarrow> 't socket" where
  "socket_merge r s =
     (if \<not> merge_more r then socket_flush None r s
      else (case try_recv (socket_log s) (sk_position s) of
              (answer, position) \<Rightarrow>
                (case merge_answer answer r of
                   Inl r' \<Rightarrow> s\<lparr>sk_position := position, sk_pc := Merging r'\<rparr>
                 | Inr deferred \<Rightarrow> socket_flush deferred r (s\<lparr>sk_position := position\<rparr>))))"

definition socket_outcome :: "handled \<times> 't connection \<Rightarrow> 't socket \<Rightarrow> 't socket" where
  "socket_outcome r s =
     s\<lparr>sk_conn := snd r,
       sk_pc := (case fst r of Handled \<Rightarrow> AtLoop | Halted \<Rightarrow> Ended | Forward data \<Rightarrow> Forwarding data)\<rparr>"

text \<open>
  The start of a socket: a client attaches its viewport and enrols in flow control, an observer
  does neither (None when the attach fails); then \<open>ready\<close> and the first synchronisation.
\<close>

definition socket_attach ::
    "'t term_ops \<Rightarrow> uuid \<Rightarrow> terminal_viewport option \<Rightarrow> bool \<Rightarrow> bool \<Rightarrow> 't terminal \<Rightarrow> 't terminal option" where
  "socket_attach ops client initial_size observer resize_succeeds t =
     (if observer then Some t
      else (case terminal_viewports ops (AttachClient client initial_size) resize_succeeds t of
              (Inl _, _) \<Rightarrow> None
            | (Inr _, t') \<Rightarrow> Some (t'\<lparr>tl_flow := flow_attach (tl_flow t')\<rparr>)))"

definition socket_new :: "nat \<Rightarrow> 't terminal \<Rightarrow> 't socket" where
  "socket_new sends_left t =
     \<lparr>sk_conn = \<lparr>cn_terminal = t, cn_wire = \<lparr>wr_sent = [], wr_left = sends_left\<rparr>,
                 cn_assembly = assembly_default\<rparr>,
      sk_position = length (tl_log t), sk_deferred = None, sk_sequence = 0, sk_pc = AtLoop\<rparr>"

definition socket_start ::
    "'t term_ops \<Rightarrow> uuid \<Rightarrow> terminal_resume option \<Rightarrow> bool \<Rightarrow> nat \<Rightarrow> 't terminal \<Rightarrow> 't socket" where
  "socket_start ops client requested observer sends_left t =
     (case socket_send (send (TextMessage (ReadyMessage
             (os_checkpoint_bytes (vs_output (tl_session t)))))) (socket_new sends_left t) of
        (ok, s) \<Rightarrow>
          if ok then socket_synchronize ops client requested observer s else s\<lparr>sk_pc := Ended\<rparr>)"

definition socket_open ::
    "'t term_ops \<Rightarrow> uuid \<Rightarrow> terminal_viewport option \<Rightarrow> terminal_resume option \<Rightarrow> bool \<Rightarrow> bool \<Rightarrow> nat
       \<Rightarrow> 't terminal \<Rightarrow> 't socket option" where
  "socket_open ops client initial_size requested observer resize_succeeds sends_left t =
     map_option (socket_start ops client requested observer sends_left)
       (socket_attach ops client initial_size observer resize_succeeds t)"

section \<open>Runs\<close>

text \<open>
  What else happens to a terminal: \<open>terminal_step ops t bs t'\<close> publishes the bytes \<open>bs\<close>. Input and
  flow control are changed by other threads in ways the stream does not depend on, and may become
  anything.
\<close>

inductive terminal_step :: "'t term_ops \<Rightarrow> 't terminal \<Rightarrow> bytes \<Rightarrow> 't terminal \<Rightarrow> bool"
  for ops :: "'t term_ops" where
  publish: "terminal_step ops t bs (terminal_publish ops bs t)"
| viewport: "terminal_step ops t [] (snd (terminal_viewports ops op b t))"
| exited: "terminal_step ops t [] (terminal_exited code t)"
| checkpoint: "terminal_step ops t []
    (set_output (snd (os_store_checkpoint (vs_output (tl_session t)) q e cp)) t)"
| flow: "terminal_step ops t [] (t\<lparr>tl_flow := f\<rparr>)"
| input: "terminal_step ops t [] (t\<lparr>tl_input := i\<rparr>)"

inductive terminal_reach :: "'t term_ops \<Rightarrow> 't terminal \<Rightarrow> bytes \<Rightarrow> bool"
  for ops :: "'t term_ops" where
  new: "2 * max (maximum div 2) (64 * 1024) \<le> u64_max \<Longrightarrow>
      terminal_reach ops (terminal_new ops maximum) []"
| step: "terminal_reach ops t st \<Longrightarrow> terminal_step ops t bs t' \<Longrightarrow> terminal_reach ops t' (st @ bs)"

text \<open>
  One step of a socket or of the terminal behind it. The last two of the socket's own steps are a
  write attempt of forwarded input and the end of the client's lease.
\<close>

inductive socket_step ::
    "'t term_ops \<Rightarrow> (ustring \<Rightarrow> bytes option) \<Rightarrow> uuid \<Rightarrow> bool \<Rightarrow> 't socket \<Rightarrow> bytes \<Rightarrow> 't socket \<Rightarrow> bool"
  for ops :: "'t term_ops" and decode and client and observer where
  recv: "sk_pc s = AtLoop \<Longrightarrow>
      socket_step ops decode client observer s [] (socket_recv ops client observer s)"
| merge: "sk_pc s = Merging r \<Longrightarrow> socket_step ops decode client observer s [] (socket_merge r s)"
| message: "sk_pc s = AtLoop \<Longrightarrow> sk_deferred s = None \<Longrightarrow>
      socket_step ops decode client observer s []
        (socket_outcome (handle_client_message ops decode client observer b m (sk_conn s)) s)"
| attempt: "sk_pc s = Forwarding data \<Longrightarrow>
      socket_step ops decode client observer s []
        (socket_outcome (write_attempt deadline_passed data (sk_conn s)) s)"
| lease: "sk_pc s = AtLoop \<Longrightarrow> sk_deferred s = None \<Longrightarrow>
      socket_step ops decode client observer s [] (s\<lparr>sk_pc := Ended\<rparr>)"
| world: "terminal_step ops (cn_terminal (sk_conn s)) bs t \<Longrightarrow>
      socket_step ops decode client observer s bs (s\<lparr>sk_conn := (sk_conn s)\<lparr>cn_terminal := t\<rparr>\<rparr>)"

text \<open>
  \<open>socket_reach \<dots> v s st\<close>: a socket opened by a viewer \<open>v\<close> is at \<open>s\<close>, and the terminal has published
  \<open>st\<close>. A viewer that asks to resume holds the stream up to the sequence it names; one that does
  not holds nothing.
\<close>

definition viewer_start :: "terminal_resume option \<Rightarrow> bytes \<Rightarrow> viewer" where
  "viewer_start requested st =
     \<lparr>vr_from = 0,
      vr_bytes = (case requested of None \<Rightarrow> [] | Some r \<Rightarrow> take (rs_sequence r) st),
      vr_redraw = [], vr_contiguous = True\<rparr>"

inductive socket_reach ::
    "'t term_ops \<Rightarrow> (ustring \<Rightarrow> bytes option) \<Rightarrow> uuid \<Rightarrow> bool \<Rightarrow> viewer \<Rightarrow> 't socket \<Rightarrow> bytes \<Rightarrow> bool"
  for ops :: "'t term_ops" and decode and client and observer where
  connect: "terminal_reach ops t st \<Longrightarrow>
      socket_open ops client initial requested observer b n t = Some s \<Longrightarrow>
      socket_reach ops decode client observer (viewer_start requested st) s st"
| step: "socket_reach ops decode client observer v s st \<Longrightarrow>
      socket_step ops decode client observer s bs s' \<Longrightarrow>
      socket_reach ops decode client observer v s' (st @ bs)"

section \<open>The terminal's log\<close>

text \<open>\<open>chain q es e\<close>: the outputs among the events follow each other from sequence \<open>q\<close> to \<open>e\<close>.\<close>

fun chain :: "nat \<Rightarrow> terminal_event list \<Rightarrow> nat \<Rightarrow> bool" where
  "chain q [] e \<longleftrightarrow> q = e"
| "chain q (OutputEvent c # es) e \<longleftrightarrow> out_seq c = q \<and> chain (end_sequence c) es e"
| "chain q (_ # es) e \<longleftrightarrow> chain q es e"

lemma chain_append: "chain q (xs @ ys) e \<longleftrightarrow> (\<exists>m. chain q xs m \<and> chain m ys e)"
  by (induction q xs e rule: chain.induct) auto

lemma chain_other: "(\<And>c. OutputEvent c \<notin> set es) \<Longrightarrow> chain q es e \<longleftrightarrow> q = e"
proof (induction es)
  case (Cons x es)
  then show ?case by (cases x) auto
qed simp

lemma chain_drop: "chain q es e \<Longrightarrow> \<exists>m. chain m (drop n es) e"
  by (metis append_take_drop_id chain_append)

definition carried :: "terminal_event \<Rightarrow> bytes \<Rightarrow> bool" where
  "carried ev st \<longleftrightarrow>
     (case ev of OutputEvent c \<Rightarrow>
        end_sequence c \<le> length st \<and> take (length (out_bytes c)) (drop (out_seq c) st) = out_bytes c
      | _ \<Rightarrow> True)"

lemma carried_append: "carried ev st \<Longrightarrow> carried ev (st @ bs)"
  by (auto simp: carried_def end_sequence_def split: terminal_event.splits)

definition has_exited :: "'t terminal \<Rightarrow> bool" where
  "has_exited t \<longleftrightarrow> os_exit (vs_output (tl_session t)) \<noteq> None"

definition exit_known :: "bool \<Rightarrow> terminal_event \<Rightarrow> bool" where
  "exit_known ex ev \<longleftrightarrow> (case ev of ExitEvent _ \<Rightarrow> ex | _ \<Rightarrow> True)"

lemma exit_known_mono: "exit_known ex ev \<Longrightarrow> (ex \<Longrightarrow> ex') \<Longrightarrow> exit_known ex' ev"
  by (auto simp: exit_known_def split: terminal_event.splits)

definition terminal_ok :: "'t term_ops \<Rightarrow> 't terminal \<Rightarrow> bytes \<Rightarrow> bool" where
  "terminal_ok ops t st \<longleftrightarrow>
     (\<exists>G. os_reach ops (vs_output (tl_session t)) st G)
     \<and> chain 0 (tl_log t) (length st)
     \<and> (\<forall>ev \<in> set (tl_log t). carried ev st \<and> exit_known (has_exited t) ev)"


text \<open>Every step of the terminal keeps this, and adds to the log outputs that continue the stream.\<close>

lemma os_publish_output:
  "fst (os_publish ops out bs) = \<lparr>out_seq = os_sequence out, out_bytes = bs\<rparr>"
  by (simp add: os_publish_def Let_def)

lemma terminal_reach_stream:
  "os_reach ops out st G \<Longrightarrow> os_sequence out = length st"
  using os_reach_ok [of ops out st G] by (simp add: os_ok_def)

lemma terminal_ok_new:
  "2 * max (maximum div 2) (64 * 1024) \<le> u64_max \<Longrightarrow> terminal_ok ops (terminal_new ops maximum) []"
  unfolding terminal_ok_def terminal_new_def view_session_new_def
  using os_reach.new by fastforce

text \<open>What a viewport change does to the output state and the log.\<close>

lemma update_viewports_output:
  assumes "update_viewports ops f b vs = (r, vs')"
  obtains "vs_output vs' = vs_output vs"
  | rows cols pw ph where "vs_output vs' = os_resize ops (vs_output vs) rows cols pw ph"
  using assms by (auto simp: update_viewports_def Let_def split: if_splits)

lemma os_exit_kept [simp]:
  "os_exit (snd (os_publish ops s bs)) = os_exit s"
  "os_exit (snd (os_drain_responses ops s)) = os_exit s"
  "os_exit (snd (os_store_checkpoint s q e cp)) = os_exit s"
  "os_exit (os_resize ops s rows cols pw ph) = os_exit s"
  by (simp_all add: os_publish_def os_drain_responses_def os_store_checkpoint_def os_resize_def
      Let_def split: prod.splits)

lemma terminal_viewports_exit [simp]:
  "has_exited (snd (terminal_viewports ops op b t)) = has_exited t"
proof -
  obtain r vs where u: "update_viewports ops (apply_viewport_op op) b (tl_session t) = (r, vs)"
    by fastforce
  from u have "os_exit (vs_output vs) = os_exit (vs_output (tl_session t))"
    by (cases rule: update_viewports_output) simp_all
  then show ?thesis by (simp add: terminal_viewports_def has_exited_def u)
qed

lemma terminal_viewports_log:
  "\<exists>sizes. tl_log (snd (terminal_viewports ops op b t)) = tl_log t @ map SizeEvent sizes"
  by (auto simp: terminal_viewports_def split: prod.split)

lemma sizes_no_output: "OutputEvent c \<notin> set (map SizeEvent sizes)"
  by auto

lemma terminal_viewports_reach:
  assumes "os_reach ops (vs_output (tl_session t)) st G"
  shows "\<exists>G. os_reach ops (vs_output (tl_session (snd (terminal_viewports ops op b t)))) st G"
proof -
  obtain r vs where u: "update_viewports ops (apply_viewport_op op) b (tl_session t) = (r, vs)"
    by fastforce
  have s: "tl_session (snd (terminal_viewports ops op b t)) = vs"
    by (simp add: terminal_viewports_def u)
  from u show ?thesis
  proof (cases rule: update_viewports_output)
    case 1
    then show ?thesis using assms s by auto
  next
    case (2 rows cols pw ph)
    then show ?thesis using os_reach.resize [OF assms refl, of rows cols pw ph] s by auto
  qed
qed

lemma terminal_ok_grow:
  assumes "terminal_ok ops t st" and "os_reach ops (vs_output (tl_session t')) (st @ bs) G"
    and "tl_log t' = tl_log t @ es" and "chain (length st) es (length (st @ bs))"
    and "\<And>ev. ev \<in> set es \<Longrightarrow> carried ev (st @ bs) \<and> exit_known (has_exited t') ev"
    and "has_exited t \<Longrightarrow> has_exited t'"
  shows "terminal_ok ops t' (st @ bs)"
  using assms(1-5) by (auto simp: terminal_ok_def chain_append
      intro: carried_append exit_known_mono [OF _ assms(6)])

definition grows :: "'t term_ops \<Rightarrow> 't terminal \<Rightarrow> bytes \<Rightarrow> bytes \<Rightarrow> 't terminal \<Rightarrow> bool" where
  "grows ops t st bs t' \<longleftrightarrow>
     terminal_ok ops t' (st @ bs) \<and> (has_exited t \<longrightarrow> has_exited t')
     \<and> (\<exists>es. tl_log t' = tl_log t @ es \<and> chain (length st) es (length (st @ bs)))"

lemma grows_quiet:
  assumes "terminal_ok ops t st" "\<exists>G. os_reach ops (vs_output (tl_session t')) st G"
    and "tl_log t' = tl_log t @ es" "\<And>c. OutputEvent c \<notin> set es"
    and x: "has_exited t \<Longrightarrow> has_exited t'"
      "\<And>ev. ev \<in> set es \<Longrightarrow> exit_known (has_exited t') ev"
  shows "grows ops t st [] t'"
proof -
  have c: "chain (length st) es (length (st @ []))" using assms(4) by (simp add: chain_other)
  have e: "carried ev (st @ []) \<and> exit_known (has_exited t') ev" if "ev \<in> set es" for ev
    using assms(4) x(2) that by (auto simp: carried_def split: terminal_event.split)
  obtain G where g: "os_reach ops (vs_output (tl_session t')) (st @ []) G" using assms(2) by auto
  show ?thesis
    unfolding grows_def using terminal_ok_grow [OF assms(1) g assms(3) c e x(1)] assms(3) c x(1)
    by auto
qed

lemma grows_viewport:
  "terminal_ok ops t st \<Longrightarrow> grows ops t st [] (snd (terminal_viewports ops op b t))"
  using terminal_viewports_log [of ops op b t] terminal_viewports_reach [of ops t st _ op b]
  by (auto simp: terminal_ok_def sizes_no_output exit_known_def intro!: grows_quiet)

lemma grows_store:
  "terminal_ok ops t st \<Longrightarrow>
     grows ops t st [] (set_output (snd (os_store_checkpoint (vs_output (tl_session t)) q e cp)) t)"
  by (rule grows_quiet [where es = "[]"])
    (auto simp: terminal_ok_def set_output_def has_exited_def intro: os_reach.store)

lemma grows_keep:
  "terminal_ok ops t st \<Longrightarrow> tl_session t' = tl_session t \<Longrightarrow> tl_log t' = tl_log t \<Longrightarrow>
     grows ops t st [] t'"
  by (rule grows_quiet [where es = "[]"]) (auto simp: terminal_ok_def has_exited_def)

lemma grows_publish:
  assumes "terminal_ok ops t st"
  shows "grows ops t st bs (terminal_publish ops bs t)"
proof -
  obtain G where g: "os_reach ops (vs_output (tl_session t)) st G"
    using assms by (auto simp: terminal_ok_def)
  let ?p = "os_publish ops (vs_output (tl_session t)) bs"
  let ?o = "\<lparr>out_seq = length st, out_bytes = bs\<rparr>"
  let ?t = "terminal_publish ops bs t"
  have o: "fst ?p = ?o"
    using terminal_reach_stream [OF g] by (simp add: os_publish_output)
  have out: "vs_output (tl_session ?t) = snd (os_drain_responses ops (snd ?p))"
    and log: "tl_log ?t = tl_log t @ [OutputEvent ?o]"
    using o by (auto simp: terminal_publish_def split: prod.split)
  obtain G' where g': "os_reach ops (vs_output (tl_session ?t)) (st @ bs) G'"
    unfolding out using os_reach.drain [OF os_reach.publish [OF g refl, of bs]] by blast
  have c: "chain (length st) [OutputEvent ?o] (length (st @ bs))"
    by (simp add: end_sequence_def)
  have e: "carried ev (st @ bs) \<and> exit_known (has_exited ?t) ev"
    if "ev \<in> set [OutputEvent ?o]" for ev
    using that by (simp add: carried_def end_sequence_def exit_known_def)
  have x: "has_exited t \<Longrightarrow> has_exited ?t" by (simp add: out has_exited_def)
  show ?thesis
    unfolding grows_def using terminal_ok_grow [OF assms g' log c e x] log c x by blast
qed

lemma grows_exited:
  assumes "terminal_ok ops t st"
  shows "grows ops t st [] (terminal_exited code t)"
proof -
  obtain G where g: "os_reach ops (vs_output (tl_session t)) st G"
    using assms by (auto simp: terminal_ok_def)
  have "os_reach ops (vs_output (tl_session (terminal_exited code t))) st G"
    using os_reach.exit [OF g, of code] by (simp add: terminal_exited_def)
  then show ?thesis
    by (intro grows_quiet [OF assms, where es = "[ExitEvent code]"])
      (auto simp: terminal_exited_def exit_known_def os_mark_exited_def has_exited_def)
qed

lemma terminal_step_grows: "terminal_step ops t bs t' \<Longrightarrow> terminal_ok ops t st \<Longrightarrow> grows ops t st bs t'"
  by (induction rule: terminal_step.induct)
    (simp_all add: grows_publish grows_viewport grows_exited grows_store grows_keep)

lemma terminal_reach_ok: "terminal_reach ops t st \<Longrightarrow> terminal_ok ops t st"
proof (induction rule: terminal_reach.induct)
  case (new maximum)
  then show ?case by (rule terminal_ok_new)
next
  case (step t st bs t')
  then show ?case using terminal_step_grows [of ops t bs t' st] by (simp add: grows_def)
qed

text \<open>Handling a client's message is a terminal step or none, and tells the viewer nothing new.\<close>

definition unseen :: "socket_message list \<Rightarrow> bool" where
  "unseen ms \<longleftrightarrow> (\<forall>v. fold viewer_receive ms v = v)"

lemma unseen_simps [simp]:
  "unseen []" "unseen ms \<Longrightarrow> unseen ns \<Longrightarrow> unseen (ms @ ns)"
  "unseen (PongFrame p # ms) = unseen ms" "unseen (TextMessage PongMessage # ms) = unseen ms"
  "unseen (TextMessage (ErrorMessage e) # ms) = unseen ms"
  "unseen (TextMessage (ExitMessage n) # ms) = unseen ms"
  "unseen (TextMessage (ReadyMessage n) # ms) = unseen ms"
  "unseen (TextMessage (size_message g c) # ms) = unseen ms"
  by (simp_all add: unseen_def size_message_def)

text \<open>The effect of a call on a connection: the terminal grew silently and the viewer saw nothing.\<close>

definition quiet :: "'t term_ops \<Rightarrow> bytes \<Rightarrow> 't connection \<Rightarrow> 't connection \<Rightarrow> bool" where
  "quiet ops st c c' \<longleftrightarrow>
     grows ops (cn_terminal c) st [] (cn_terminal c')
     \<and> (\<exists>ms. wr_sent (cn_wire c') = wr_sent (cn_wire c) @ ms \<and> unseen ms)"

lemma grows_refl: "terminal_ok ops t st \<Longrightarrow> grows ops t st [] t"
  by (rule grows_keep) simp_all

lemma quiet_refl: "terminal_ok ops (cn_terminal c) st \<Longrightarrow> quiet ops st c c"
  by (auto simp: quiet_def grows_refl intro: exI [of _ "[]"])

lemma grows_trans: "grows ops t st [] t' \<Longrightarrow> grows ops t' st [] t'' \<Longrightarrow> grows ops t st [] t''"
  by (auto simp: grows_def chain_append)

lemma quiet_trans: "quiet ops st c c' \<Longrightarrow> quiet ops st c' c'' \<Longrightarrow> quiet ops st c c''"
  unfolding quiet_def by (metis grows_trans append_assoc unseen_simps(2))

lemma quiet_terminal:
  "grows ops (cn_terminal c) st [] t \<Longrightarrow> quiet ops st c (c\<lparr>cn_terminal := t\<rparr>)"
  by (simp add: quiet_def)

lemma quiet_assembly:
  "terminal_ok ops (cn_terminal c) st \<Longrightarrow> quiet ops st c (c\<lparr>cn_assembly := a\<rparr>)"
  by (simp add: quiet_def grows_refl)

lemma quiet_reply:
  assumes "terminal_ok ops (cn_terminal c) st" "unseen [m]"
  shows "quiet ops st c (snd (reply m c))"
proof -
  have "wr_sent (cn_wire (snd (reply m c))) = wr_sent (cn_wire c) \<or>
      wr_sent (cn_wire (snd (reply m c))) = wr_sent (cn_wire c) @ [m]"
    by (simp add: reply_def send_def)
  moreover have "cn_terminal (snd (reply m c)) = cn_terminal c"
    by (simp add: reply_def send_def)
  ultimately show ?thesis
    using assms grows_refl [OF assms(1)] unfolding quiet_def by (metis append_Nil2 unseen_simps(1))
qed

lemma quiet_ok: "quiet ops st c c' \<Longrightarrow> terminal_ok ops (cn_terminal c') st"
  by (simp add: quiet_def grows_def)

lemma quiet_change_viewport:
  "terminal_ok ops (cn_terminal c) st \<Longrightarrow> quiet ops st c (snd (change_viewport ops b op c))"
  using grows_viewport [of ops "cn_terminal c" st op b] quiet_terminal [of ops c st]
  by (auto simp: change_viewport_def split: prod.split sum.split)

lemma quiet_forward:
  "terminal_ok ops (cn_terminal c) st \<Longrightarrow>
     quiet ops st c (snd (forward_terminal_input ops client b data c))"
  using quiet_change_viewport [of ops c st b "ActivateClient client"]
  by (auto simp: forward_terminal_input_def split: prod.split handled.split)

lemma quiet_write:
  "terminal_ok ops (cn_terminal c) st \<Longrightarrow> quiet ops st c (snd (write_attempt p data c))"
  by (auto simp: write_attempt_def fail_error_def reply_error_def terminal_write_def
      intro!: quiet_refl quiet_reply quiet_terminal grows_keep split: sum.split if_splits)

lemma quiet_chunk:
  assumes ok: "terminal_ok ops (cn_terminal c) st"
    and r: "append_checkpoint dec q e off d f (ca_chunked (cn_assembly c))
        (vs_output (tl_session (cn_terminal c))) = (r, chunked, out)"
  shows "quiet ops st c (c\<lparr>cn_assembly := a, cn_terminal := set_output out (cn_terminal c)\<rparr>)"
proof -
  have "grows ops (cn_terminal c) st [] (set_output out (cn_terminal c))"
    using append_chunk_out [OF r] grows_store [OF ok] grows_keep [OF ok]
    by (auto simp: set_output_def)
  then show ?thesis by (simp add: quiet_def)
qed

lemma quiet_command:
  assumes ok: "terminal_ok ops (cn_terminal c) st"
  shows "quiet ops st c (snd (handle_command ops dec client b m c))"
proof (cases m)
  case (ClientCheckpoint q e off d f)
  obtain r chunked out where a: "append_checkpoint dec q e off d f (ca_chunked (cn_assembly c))
      (vs_output (tl_session (cn_terminal c))) = (r, chunked, out)" by (metis prod_cases3)
  let ?c = "c\<lparr>cn_assembly := (cn_assembly c)\<lparr>ca_chunked := chunked\<rparr>,
    cn_terminal := set_output out (cn_terminal c)\<rparr>"
  have q: "quiet ops st c ?c" by (rule quiet_chunk [OF ok a])
  have "quiet ops st c (snd (reply_error x ?c))" for x
    using quiet_trans [OF q quiet_reply [OF quiet_ok [OF q]]] by (simp add: reply_error_def)
  with q show ?thesis
    by (auto simp: handle_command_def ClientCheckpoint a Let_def split: sum.split)
next
  case (ClientCheckpointBinary q e n)
  have "quiet ops st c (snd (fail_error x (c\<lparr>cn_assembly := a\<rparr>)))" for x a
    using quiet_trans [OF quiet_assembly [OF ok, of a] quiet_reply [OF quiet_ok [OF
          quiet_assembly [OF ok, of a]]]]
    by (simp add: fail_error_def reply_error_def)
  then show ?thesis
    by (auto simp: handle_command_def ClientCheckpointBinary Let_def quiet_assembly [OF ok]
        split: sum.split prod.split)
qed (auto simp: handle_command_def reply_error_def intro!: quiet_forward quiet_reply
    quiet_change_viewport quiet_terminal grows_keep ok)

lemma quiet_binary:
  assumes ok: "terminal_ok ops (cn_terminal c) st"
  shows "quiet ops st c (snd (handle_binary ops client b data c))"
proof -
  have e: "quiet ops st c (snd (fail_error x (c\<lparr>cn_assembly := a\<rparr>)))" for x a
    using quiet_trans [OF quiet_assembly [OF ok, of a] quiet_reply [OF quiet_ok [OF
          quiet_assembly [OF ok, of a]]]]
    by (simp add: fail_error_def reply_error_def)
  have s: "quiet ops st c (c\<lparr>cn_assembly := a, cn_terminal := set_output
      (snd (os_store_checkpoint (vs_output (tl_session (cn_terminal c))) q ep bs)) (cn_terminal c)\<rparr>)"
    for a q ep bs
    using grows_store [OF ok] by (simp add: quiet_def)
  show ?thesis
    by (auto simp: handle_binary_def Let_def e s quiet_assembly [OF ok] quiet_forward [OF ok]
        quiet_refl [OF ok] split: prod.split sum.split option.split)
qed

lemma quiet_message:
  assumes ok: "terminal_ok ops (cn_terminal c) st"
  shows "quiet ops st c (snd (handle_client_message ops dec client observer b m c))"
proof -
  show ?thesis
    by (auto simp: handle_client_message_def reply_error_def quiet_command [OF ok]
        quiet_refl [OF ok] quiet_binary [OF ok] intro!: quiet_reply [OF ok]
        split: incoming.split option.split client_message.split)
qed

section \<open>Synchronising shows the whole stream\<close>

lemma sync_shape:
  fixes requested :: "terminal_resume option"
  assumes "os_reach ops s st G"
  defines "y \<equiv> os_sync ops s requested"
  shows "sy_sequence y = length st
    \<and> (sy_mode y = Snapshot \<and> sy_output y = []
       \<or> (\<exists>r. requested = Some r \<and> sy_mode y = Resume \<and> sy_snapshot y = None
            \<and> linked (rs_sequence r) (sy_output y) (length st)
            \<and> replayed (sy_output y) = drop (rs_sequence r) st))"
proof (cases "sy_mode y")
  case Snapshot
  then show ?thesis
    using terminal_reach_stream [OF assms(1)]
    by (auto simp: y_def os_sync_def Let_def split: option.splits)
next
  case Resume
  then obtain r where r: "requested = Some r"
    by (auto simp: y_def os_sync_def Let_def split: option.splits)
  note f = os_sync_resume [OF assms(1), of r, folded r, folded y_def, OF Resume]
  then have "rs_sequence r \<le> length st" using linked_length by fastforce
  then have "length (take (rs_sequence r) st) = rs_sequence r" by simp
  then have "replayed (sy_output y) = drop (rs_sequence r) st"
    using f by (metis append_eq_conv_conj)
  with f r Resume show ?thesis by blast
qed

lemma sync_viewed:
  assumes v: "viewed v st m" and len: "length st \<le> u64_max" and q: "sy_sequence y = length st"
    and y: "sy_mode y = Snapshot \<and> sy_output y = []
       \<or> (sy_mode y = Resume \<and> sy_snapshot y = None \<and> linked m (sy_output y) (length st)
          \<and> replayed (sy_output y) = drop m st)"
  shows "viewed (fold viewer_receive (sync_messages y) v) st (length st)"
    and "along (\<lambda>v. \<exists>m. viewed v st m) (sync_messages y) v"
proof -
  let ?P = "\<lambda>v. \<exists>m. viewed v st m"
  let ?fin = "TextMessage (SyncedMessage (length st))"
  have fin: "along ?P [?fin] u \<and> fold viewer_receive [?fin] u = u" if "?P u" for u
    using that by (simp add: along_def take_Cons split: nat.split)
  have "viewed (fold viewer_receive (sync_messages y) v) st (length st)
    \<and> along ?P (sync_messages y) v"
  proof (cases "sy_mode y")
    case Snapshot
    then have o: "sy_output y = []" using y by auto
    let ?v = "v\<lparr>vr_from := length st, vr_bytes := [], vr_redraw := []\<rparr>"
    have v1: "viewed ?v st (length st)" using v by (simp add: viewed_def)
    let ?snap = "case sy_snapshot y of None \<Rightarrow> []
      | Some snapshot \<Rightarrow> payload_frames TERMINAL_FRAME_SNAPSHOT (length st) snapshot"
    have s: "viewed (fold viewer_receive ?snap ?v) st (length st)" "along ?P ?snap ?v"
      using snapshot_viewed [OF v1 _ len] v1 by (auto simp: along_Nil split: option.split)
    have m: "sync_messages y = TextMessage (SyncMessage Snapshot (length st)) # ?snap @ [?fin]"
      by (simp add: sync_messages_def Snapshot o q split: option.split)
    have "along ?P (?snap @ [?fin]) ?v"
      using along_append [OF s(2)] fin [of "fold viewer_receive ?snap ?v"] s(1) by blast
    then have "along ?P (sync_messages y) v"
      unfolding m using v by (intro along_Cons) auto
    with s(1) m show ?thesis by simp
  next
    case Resume
    then have l: "linked m (sy_output y) (length st)" and r: "replayed (sy_output y) = drop m st"
      and n: "sy_snapshot y = None" using y by auto
    let ?cs = "concat (map (\<lambda>c. chunks TERMINAL_OUTPUT_FRAME_BYTES (out_bytes c)) (sy_output y))"
    let ?f = "frames TERMINAL_FRAME_OUTPUT m ?cs"
    have c: "concat ?cs = drop m st" using r by (simp add: replayed_chunks)
    have le: "m \<le> length st" using v by (simp add: viewed_def)
    have a: "m + length (concat ?cs) \<le> length st"
      "take (length (concat ?cs)) (drop m st) = concat ?cs"
      "m + length (concat ?cs) \<le> u64_max" using le len by (simp_all add: c)
    have m: "sync_messages y = TextMessage (SyncMessage Resume (length st)) # ?f @ [?fin]"
      by (simp add: sync_messages_def Resume n q linked_frames [OF l])
    have s: "viewed (fold viewer_receive ?f v) st (length st)" "along ?P ?f v"
      using viewed_frames [OF v a] along_frames [OF v a] le by (simp_all add: c)
    have "along ?P (?f @ [?fin]) v"
      using along_append [OF s(2)] fin [of "fold viewer_receive ?f v"] s(1) by blast
    then have "along ?P (sync_messages y) v"
      unfolding m using v by (intro along_Cons) auto
    with s(1) m show ?thesis by simp
  qed
  then show "viewed (fold viewer_receive (sync_messages y) v) st (length st)"
    and "along ?P (sync_messages y) v" by auto
qed

abbreviation seen :: "viewer \<Rightarrow> wire \<Rightarrow> viewer" where
  "seen v w \<equiv> fold viewer_receive (wr_sent w) v"

lemma sends_viewed:
  assumes "sends f ms" "f w = (ok, w')" "along P ms (seen v w)"
  shows "P (seen v w') \<and> (ok \<longrightarrow> seen v w' = fold viewer_receive ms (seen v w))"
  using assms(1,2)
proof (cases rule: sends_cases)
  case 1
  then show ?thesis using assms(3) by (auto simp: along_def dest: spec [of _ "length ms"])
next
  case (2 n)
  then show ?thesis using assms(3) by (auto simp: along_def)
qed

lemma synchronize_viewed:
  assumes ok: "terminal_ok ops (cn_terminal c) st" and len: "length st \<le> u64_max"
    and v: "viewed (seen v0 (cn_wire c)) st m"
    and r: "\<And>r. requested = Some r \<Longrightarrow> rs_sequence r \<le> length st \<Longrightarrow> m = rs_sequence r"
    and s: "synchronize_terminal ops client requested fl c = (res, c')"
  shows "terminal_ok ops (cn_terminal c') st \<and> tl_log (cn_terminal c') = tl_log (cn_terminal c)
    \<and> (\<exists>m. viewed (seen v0 (cn_wire c')) st m)
    \<and> (\<forall>p q. res = Some (p, q) \<longrightarrow> p = length (tl_log (cn_terminal c)) \<and> q = length st
         \<and> viewed (seen v0 (cn_wire c')) st q)"
proof -
  let ?P = "\<lambda>v. \<exists>m. viewed v st m"
  obtain G where g: "os_reach ops (vs_output (tl_session (cn_terminal c))) st G"
    using ok by (auto simp: terminal_ok_def)
  define y where "y = os_sync ops (vs_output (tl_session (cn_terminal c))) requested"
  define size where "size = TextMessage (size_message
    (cv_published (vs_viewports (tl_session (cn_terminal c)))) client)"
  define code where "code = os_exit (vs_output (tl_session (cn_terminal c)))"
  define ms where "ms = [size] @ sync_messages y @ (case code of None \<Rightarrow> []
    | Some n \<Rightarrow> [TextMessage (ExitMessage n)])"
  have f: "sends (and_then (send size) (and_then (send_terminal_sync y)
      (case code of None \<Rightarrow> Pair True | Some n \<Rightarrow> send (TextMessage (ExitMessage n))))) ms"
    unfolding ms_def
    by (rule sends_and_then [OF sends_send sends_and_then [OF sends_sync]])
      (simp add: sends_nothing sends_send split: option.split)
  obtain fine w where w: "and_then (send size) (and_then (send_terminal_sync y)
      (case code of None \<Rightarrow> Pair True | Some n \<Rightarrow> send (TextMessage (ExitMessage n))))
      (cn_wire c) = (fine, w)" by fastforce
  have shape: "sy_sequence y = length st" "sy_mode y = Snapshot \<and> sy_output y = []
       \<or> (sy_mode y = Resume \<and> sy_snapshot y = None \<and> linked m (sy_output y) (length st)
          \<and> replayed (sy_output y) = drop m st)"
    using sync_shape [OF g, of requested, folded y_def] r linked_length by fastforce+
  note sync = sync_viewed [OF v len shape]
  have size: "viewer_receive size u = u" for u by (simp add: size_def size_message_def)
  have exit: "along ?P (case code of None \<Rightarrow> [] | Some n \<Rightarrow> [TextMessage (ExitMessage n)]) u
      \<and> fold viewer_receive (case code of None \<Rightarrow> [] | Some n \<Rightarrow> [TextMessage (ExitMessage n)]) u = u"
    if "?P u" for u
    using that by (simp add: along_def take_Cons split: nat.split option.split)
  have "along ?P ms (seen v0 (cn_wire c))"
    unfolding ms_def append_Cons append_Nil
    using v sync exit by (intro along_Cons along_append) (auto simp: size)
  note sent = sends_viewed [OF f w this]
  have fin: "fold viewer_receive ms (seen v0 (cn_wire c))
      = fold viewer_receive (sync_messages y) (seen v0 (cn_wire c))"
    using exit [of "fold viewer_receive (sync_messages y) (seen v0 (cn_wire c))"] sync(1)
    by (auto simp: ms_def size)
  have c': "cn_wire c' = w" "tl_log (cn_terminal c') = tl_log (cn_terminal c)"
    "tl_session (cn_terminal c') = tl_session (cn_terminal c)"
    "res = (if fine \<and> code = None then Some (length (tl_log (cn_terminal c)), sy_sequence y) else None)"
    using s w by (auto simp: synchronize_terminal_def subscribe_terminal_def Let_def
        split: prod.splits simp flip: y_def size_def code_def)
  have "terminal_ok ops (cn_terminal c') st"
    using ok c' by (simp add: terminal_ok_def has_exited_def)
  with sent fin sync(1) shape(1) c' show ?thesis by auto
qed

section \<open>The invariant\<close>

definition slice_of :: "bytes \<Rightarrow> nat \<Rightarrow> bytes \<Rightarrow> bool" where
  "slice_of st q bs \<longleftrightarrow> q + length bs \<le> length st \<and> take (length bs) (drop q st) = bs"

lemma carried_slice: "carried (OutputEvent c) st \<longleftrightarrow> slice_of st (out_seq c) (out_bytes c)"
  by (simp add: carried_def slice_of_def end_sequence_def)

lemma slice_of_append: "slice_of st q a \<Longrightarrow> slice_of st (q + length a) b \<Longrightarrow> slice_of st q (a @ b)"
  by (auto simp: slice_of_def take_add add.commute)

lemma slice_of_drop:
  assumes "slice_of st q a" "k \<le> length a"
  shows "slice_of st (q + k) (drop k a)"
proof -
  have "take (length a - k) (drop (q + k) st) = drop k (take (length a) (drop q st))"
    by (simp add: drop_take add.commute)
  then show ?thesis using assms by (simp add: slice_of_def)
qed

lemma slice_of_grow: "slice_of st q a \<Longrightarrow> slice_of (st @ bs) q a"
  by (simp add: slice_of_def)

lemma slice_from_part:
  assumes "slice_from c q = Some part" "out_seq c \<le> q" "carried (OutputEvent c) st"
  shows "out_seq part = q" "end_sequence part = end_sequence c" "slice_of st q (out_bytes part)"
proof -
  have q: "q < end_sequence c" and p: "part = \<lparr>out_seq = out_seq c + (q - out_seq c),
      out_bytes = drop (q - out_seq c) (out_bytes c)\<rparr>"
    using assms(1) by (auto simp: slice_from_def Let_def split: if_splits)
  show "out_seq part = q" "end_sequence part = end_sequence c"
    using assms(2) q by (auto simp: p end_sequence_def)
  have "slice_of st (out_seq c + (q - out_seq c)) (drop (q - out_seq c) (out_bytes c))"
    using assms(3) q by (intro slice_of_drop) (auto simp: carried_slice end_sequence_def)
  then show "slice_of st q (out_bytes part)" using assms(2) by (simp add: p)
qed

definition run_ok :: "bytes \<Rightarrow> nat \<Rightarrow> merge_run \<Rightarrow> bool" where
  "run_ok st q r \<longleftrightarrow>
     out_seq (mr_output r) = q \<and> mr_end r = q + length (out_bytes (merge_result r))
     \<and> slice_of st q (out_bytes (merge_result r))"

lemma merge_result_seq [simp]: "out_seq (merge_result r) = out_seq (mr_output r)"
  by (simp add: merge_result_def split: option.split)

lemma merge_result_old: "(case mr_merged r of None \<Rightarrow> out_bytes (mr_output r) | Some bs \<Rightarrow> bs)
    = out_bytes (merge_result r)"
  by (simp add: merge_result_def split: option.split)

lemma merge_result_some:
  "merge_result (r\<lparr>mr_end := e, mr_merged := Some bs\<rparr>)
     = \<lparr>out_seq = out_seq (mr_output r), out_bytes = bs\<rparr>"
  by (simp add: merge_result_def)

text \<open>What the socket has yet to look at continues the stream from at most the sequence reached.\<close>

definition pending_ok :: "bool \<Rightarrow> bytes \<Rightarrow> nat \<Rightarrow> channel_answer option \<Rightarrow> terminal_event list \<Rightarrow> bool" where
  "pending_ok ex st q deferred rest \<longleftrightarrow>
     (case deferred of
        None \<Rightarrow> \<exists>m \<le> q. chain m rest (length st)
      | Some (AnswerEvent ev) \<Rightarrow> carried ev st \<and> exit_known ex ev \<and> (\<exists>m \<le> q. chain m (ev # rest) (length st))
      | Some (AnswerLagged _) \<Rightarrow> True
      | Some AnswerClosed \<Rightarrow> False)"

definition socket_reached :: "'t socket \<Rightarrow> nat" where
  "socket_reached s = (case sk_pc s of Merging r \<Rightarrow> mr_end r | _ \<Rightarrow> sk_sequence s)"

definition socket_ok :: "'t term_ops \<Rightarrow> viewer \<Rightarrow> 't socket \<Rightarrow> bytes \<Rightarrow> bool" where
  "socket_ok ops v0 s st \<longleftrightarrow>
     terminal_ok ops (cn_terminal (sk_conn s)) st \<and> sk_position s \<le> length (socket_log s)
     \<and> (\<exists>m. viewed (seen v0 (cn_wire (sk_conn s))) st m)
     \<and> (sk_pc s \<noteq> Ended \<longrightarrow>
          viewed (seen v0 (cn_wire (sk_conn s))) st (sk_sequence s)
          \<and> pending_ok (has_exited (cn_terminal (sk_conn s))) st (socket_reached s)
               (sk_deferred s) (drop (sk_position s) (socket_log s))
          \<and> (\<forall>r. sk_pc s = Merging r \<longrightarrow> sk_deferred s = None \<and> run_ok st (sk_sequence s) r))"

lemma socket_synchronize_ok:
  assumes "terminal_ok ops (cn_terminal (sk_conn s)) st" "length st \<le> u64_max"
    and "viewed (seen v0 (cn_wire (sk_conn s))) st m" and pos: "sk_position s \<le> length (socket_log s)"
    and "\<And>r. requested = Some r \<Longrightarrow> rs_sequence r \<le> length st \<Longrightarrow> m = rs_sequence r"
    and pc: "sk_pc s = AtLoop" "sk_deferred s = None"
  shows "socket_ok ops v0 (socket_synchronize ops client requested observer s) st"
proof -
  obtain res c where s: "synchronize_terminal ops client requested (\<not> observer) (sk_conn s) = (res, c)"
    by fastforce
  from synchronize_viewed [OF assms(1-3,5) s] show ?thesis
    using pc pos by (cases res)
      (auto simp: socket_synchronize_def s socket_ok_def socket_reached_def pending_ok_def)
qed

lemma send_unseen:
  assumes "unseen [m]" "socket_send (send m) s = (ok, s')"
  shows "seen v0 (cn_wire (sk_conn s')) = seen v0 (cn_wire (sk_conn s))"
    and "\<exists>w. s' = s\<lparr>sk_conn := (sk_conn s)\<lparr>cn_wire := w\<rparr>\<rparr>"
proof -
  obtain w where w: "send m (cn_wire (sk_conn s)) = (ok, w)"
      "s' = s\<lparr>sk_conn := (sk_conn s)\<lparr>cn_wire := w\<rparr>\<rparr>"
    using assms(2) by (auto simp: socket_send_def split: prod.splits)
  then show "seen v0 (cn_wire (sk_conn s')) = seen v0 (cn_wire (sk_conn s))"
    using assms(1) by (auto simp: send_def unseen_def split: if_splits)
  show "\<exists>w. s' = s\<lparr>sk_conn := (sk_conn s)\<lparr>cn_wire := w\<rparr>\<rparr>" using w by blast
qed

lemma handle_event_ok:
  assumes ok: "terminal_ok ops (cn_terminal (sk_conn s)) st" "length st \<le> u64_max"
    and v: "viewed (seen v0 (cn_wire (sk_conn s))) st (sk_sequence s)"
    and pos: "sk_position s \<le> length (socket_log s)"
    and pend: "pending_ok (has_exited (cn_terminal (sk_conn s))) st (sk_sequence s)
        (Some event) (drop (sk_position s) (socket_log s))"
    and pc: "sk_pc s = AtLoop" "sk_deferred s = None"
  shows "socket_ok ops v0 (handle_event ops client observer event s) st"
proof (cases event)
  case (AnswerLagged n)
  then show ?thesis
    using socket_synchronize_ok [OF ok v pos _ pc, of None] by (simp add: handle_event_def)
next
  case AnswerClosed
  then show ?thesis using ok v pos by (auto simp: handle_event_def socket_ok_def)
next
  case (AnswerEvent ev)
  obtain m where m: "m \<le> sk_sequence s" "carried ev st"
      "chain m (ev # drop (sk_position s) (socket_log s)) (length st)"
    using pend by (auto simp: AnswerEvent pending_ok_def)
  show ?thesis
  proof (cases ev)
    case (ExitEvent code)
    obtain ok' s' where s': "socket_send (send (TextMessage (ExitMessage code))) s = (ok', s')"
      by fastforce
    from send_unseen [OF _ s'] have "seen v0 (cn_wire (sk_conn s')) = seen v0 (cn_wire (sk_conn s))"
      "\<exists>w. s' = s\<lparr>sk_conn := (sk_conn s)\<lparr>cn_wire := w\<rparr>\<rparr>" by simp_all
    then show ?thesis
      using ok v pos by (auto simp: handle_event_def AnswerEvent ExitEvent s' socket_ok_def)
  next
    case (SizeEvent g)
    obtain ok' s' where s': "socket_send (send (TextMessage (size_message g client))) s = (ok', s')"
      by fastforce
    from send_unseen [OF _ s'] have "seen v0 (cn_wire (sk_conn s')) = seen v0 (cn_wire (sk_conn s))"
      "\<exists>w. s' = s\<lparr>sk_conn := (sk_conn s)\<lparr>cn_wire := w\<rparr>\<rparr>" by simp_all
    then show ?thesis
      using ok v pos pc m by (auto simp: handle_event_def AnswerEvent SizeEvent s' socket_ok_def
          socket_reached_def pending_ok_def)
  next
    case (OutputEvent c)
    have c: "out_seq c \<le> sk_sequence s"
      and rest: "chain (end_sequence c) (drop (sk_position s) (socket_log s)) (length st)"
      using m by (auto simp: OutputEvent)
    show ?thesis
    proof (cases "end_sequence c \<le> sk_sequence s")
      case True
      then show ?thesis
        using ok v pos pc rest by (auto simp: handle_event_def AnswerEvent OutputEvent socket_ok_def
            socket_reached_def pending_ok_def)
    next
      case False
      then obtain part where p: "slice_from c (sk_sequence s) = Some part"
        by (auto simp: slice_from_def Let_def)
      note part = slice_from_part [OF p c m(2) [unfolded OutputEvent]]
      have "run_ok st (sk_sequence s) (merge_begin part)"
        using part by (simp add: run_ok_def merge_begin_def merge_result_def end_sequence_def)
      then show ?thesis
        using False c p ok v pos pc rest part(2)
        by (auto simp: handle_event_def AnswerEvent OutputEvent socket_ok_def socket_reached_def
            pending_ok_def merge_begin_def)
    qed
  qed
qed

lemma try_recv_pending:
  assumes "try_recv log position = (answer, position')" "position \<le> length log"
    and "\<exists>m \<le> q. chain m (drop position log) (length st)" "\<forall>ev \<in> set log. carried ev st \<and> exit_known ex ev"
  shows "position' \<le> length log \<and> pending_ok ex st q answer (drop position' log)"
proof -
  have "position < length log \<Longrightarrow> drop position log = log ! position # drop (Suc position) log"
    by (rule Cons_nth_drop_Suc [symmetric])
  then show ?thesis
    using assms by (auto simp: try_recv_def pending_ok_def Let_def split: if_splits)
qed

lemma socket_recv_ok:
  assumes ok: "socket_ok ops v0 s st" "length st \<le> u64_max" and pc: "sk_pc s = AtLoop"
  shows "socket_ok ops v0 (socket_recv ops client observer s) st"
proof (cases "sk_deferred s")
  case (Some event)
  then show ?thesis
    using ok pc handle_event_ok [of ops "s\<lparr>sk_deferred := None\<rparr>" st v0 event client observer]
    by (auto simp: socket_recv_def socket_ok_def [of ops v0 s] socket_reached_def)
next
  case None
  obtain answer position where r: "try_recv (socket_log s) (sk_position s) = (answer, position)"
    by fastforce
  from try_recv_pending [OF r, of "sk_sequence s" st "has_exited (cn_terminal (sk_conn s))"] ok pc None
  have "position \<le> length (socket_log s)
      \<and> pending_ok (has_exited (cn_terminal (sk_conn s))) st (sk_sequence s) answer
          (drop position (socket_log s))"
    by (auto simp: socket_ok_def socket_reached_def pending_ok_def terminal_ok_def)
  then show ?thesis
    using ok pc None handle_event_ok [of ops "s\<lparr>sk_position := position\<rparr>" st v0 _ client observer]
    by (cases answer) (auto simp: socket_recv_def r socket_ok_def [of ops v0 s])
qed

lemma socket_flush_ok:
  assumes ok: "terminal_ok ops (cn_terminal (sk_conn s)) st" "length st \<le> u64_max"
    and v: "viewed (seen v0 (cn_wire (sk_conn s))) st (sk_sequence s)"
    and pos: "sk_position s \<le> length (socket_log s)"
    and r: "run_ok st (sk_sequence s) r"
    and pend: "pending_ok (has_exited (cn_terminal (sk_conn s))) st (mr_end r) deferred
        (drop (sk_position s) (socket_log s))"
  shows "socket_ok ops v0 (socket_flush deferred r s) st"
proof -
  let ?o = "merge_result r"
  obtain fine w where w: "send_terminal_output ?o (cn_wire (sk_conn s)) = (fine, w)" by fastforce
  have e: "end_sequence ?o = mr_end r"
    using r by (simp add: run_ok_def end_sequence_def)
  have o: "viewed (fold viewer_receive (output_frames ?o) (seen v0 (cn_wire (sk_conn s)))) st (mr_end r)"
    "along (\<lambda>v. \<exists>m. viewed v st m) (output_frames ?o) (seen v0 (cn_wire (sk_conn s)))"
    using output_viewed [of "seen v0 (cn_wire (sk_conn s))" st ?o] v r ok(2) e
    by (simp_all add: run_ok_def slice_of_def end_sequence_def)
  from sends_viewed [OF sends_output w o(2)] o(1)
  have "\<exists>m. viewed (seen v0 w) st m" "fine \<Longrightarrow> viewed (seen v0 w) st (mr_end r)" by auto
  then show ?thesis
    using ok pos pend e
    by (auto simp: socket_flush_def socket_send_def w Let_def socket_ok_def socket_reached_def)
qed

lemma merge_answer_ok:
  assumes r: "run_ok st q r" and pend: "pending_ok ex st (mr_end r) answer rest"
  shows "case merge_answer answer r of
      Inl r' \<Rightarrow> run_ok st q r' \<and> pending_ok ex st (mr_end r') None rest
    | Inr deferred \<Rightarrow> deferred = answer"
proof (cases "\<exists>c. answer = Some (AnswerEvent (OutputEvent c))")
  case False
  then show ?thesis
    by (auto simp: merge_answer_def split: option.split channel_answer.split terminal_event.split)
next
  case True
  then obtain c where a: "answer = Some (AnswerEvent (OutputEvent c))" by blast
  have c: "out_seq c \<le> mr_end r" "carried (OutputEvent c) st"
    and rest: "chain (end_sequence c) rest (length st)"
    using pend by (auto simp: a pending_ok_def)
  show ?thesis
  proof (cases "end_sequence c \<le> mr_end r")
    case True
    then show ?thesis using r rest by (auto simp: merge_answer_def a pending_ok_def)
  next
    case False
    then obtain part where p: "slice_from c (mr_end r) = Some part"
      by (auto simp: slice_from_def Let_def)
    note part = slice_from_part [OF p c]
    let ?r = "r\<lparr>mr_end := end_sequence part, mr_merged := Some (out_bytes (merge_result r) @ out_bytes part)\<rparr>"
    have "run_ok st q ?r"
      using r part(1,3) slice_of_append [of st q "out_bytes (merge_result r)" "out_bytes part"]
      by (simp add: run_ok_def merge_result_some end_sequence_def)
    then show ?thesis
      using False p rest part(2) by (auto simp: merge_answer_def a pending_ok_def merge_result_old)
  qed
qed

lemma socket_merge_ok:
  assumes ok: "socket_ok ops v0 s st" "length st \<le> u64_max" and pc: "sk_pc s = Merging r"
  shows "socket_ok ops v0 (socket_merge r s) st"
proof -
  from ok pc have r: "run_ok st (sk_sequence s) r" and d: "sk_deferred s = None"
    and t: "terminal_ok ops (cn_terminal (sk_conn s)) st"
    and v: "viewed (seen v0 (cn_wire (sk_conn s))) st (sk_sequence s)"
    and pos: "sk_position s \<le> length (socket_log s)"
    and pend: "\<exists>m \<le> mr_end r. chain m (drop (sk_position s) (socket_log s)) (length st)"
    by (auto simp: socket_ok_def socket_reached_def pending_ok_def)
  show ?thesis
  proof (cases "merge_more r")
    case False
    then show ?thesis
      using socket_flush_ok [OF t ok(2) v pos r, of None] pend
      by (simp add: socket_merge_def pending_ok_def)
  next
    case True
    obtain answer position where a: "try_recv (socket_log s) (sk_position s) = (answer, position)"
      by fastforce
    have n: "position \<le> length (socket_log s)"
        "pending_ok (has_exited (cn_terminal (sk_conn s))) st (mr_end r) answer
           (drop position (socket_log s))"
      using try_recv_pending [OF a pos pend] t by (auto simp: terminal_ok_def)
    show ?thesis
    proof (cases "merge_answer answer r")
      case (Inl r')
      then show ?thesis
        using True a n t v d merge_answer_ok [OF r n(2)]
        by (auto simp: socket_merge_def socket_ok_def socket_reached_def)
    next
      case (Inr deferred)
      then show ?thesis
        using True a n merge_answer_ok [OF r n(2)]
          socket_flush_ok [of ops "s\<lparr>sk_position := position\<rparr>" st v0 r answer] t ok(2) v r
        by (simp add: socket_merge_def)
    qed
  qed
qed

text \<open>What others do to the terminal, and what handling a message does to it.\<close>

lemma pending_ok_grow:
  "pending_ok ex st q d rest \<Longrightarrow> chain (length st) es (length (st @ bs)) \<Longrightarrow> (ex \<Longrightarrow> ex') \<Longrightarrow>
     pending_ok ex' (st @ bs) q d (rest @ es)"
  unfolding pending_ok_def
  by (cases d) (auto split: channel_answer.splits simp: chain_append carried_append exit_known_mono
      simp flip: append_Cons simp del: length_append)

lemma run_ok_grow: "run_ok st q r \<Longrightarrow> run_ok (st @ bs) q r"
  by (simp add: run_ok_def slice_of_grow)

lemma socket_ok_grow:
  assumes ok: "socket_ok ops v0 s st" and g: "grows ops (cn_terminal (sk_conn s)) st bs (cn_terminal c)"
    and w: "seen v0 (cn_wire c) = seen v0 (cn_wire (sk_conn s))"
  shows "socket_ok ops v0 (s\<lparr>sk_conn := c\<rparr>) (st @ bs)"
proof -
  obtain es where es: "tl_log (cn_terminal c) = socket_log s @ es"
      "chain (length st) es (length (st @ bs))" and t: "terminal_ok ops (cn_terminal c) (st @ bs)"
      and x: "has_exited (cn_terminal (sk_conn s)) \<Longrightarrow> has_exited (cn_terminal c)"
    using g by (auto simp: grows_def)
  have reached: "socket_reached (s\<lparr>sk_conn := c\<rparr>) = socket_reached s"
    by (simp add: socket_reached_def split: socket_pc.split)
  show ?thesis
    using ok t es x pending_ok_grow [OF _ es(2), of "has_exited (cn_terminal (sk_conn s))"
        "socket_reached s" "sk_deferred s" "drop (sk_position s) (socket_log s)"
        "has_exited (cn_terminal c)"]
    by (auto simp: socket_ok_def w reached run_ok_grow intro: viewed_append)
qed

lemma socket_outcome_ok:
  assumes ok: "socket_ok ops v0 s st" and q: "quiet ops st (sk_conn s) (snd r)"
    and pc: "sk_pc s = AtLoop \<or> (\<exists>data. sk_pc s = Forwarding data)"
  shows "socket_ok ops v0 (socket_outcome r s) st"
proof -
  have "seen v0 (cn_wire (snd r)) = seen v0 (cn_wire (sk_conn s))"
    using q by (auto simp: quiet_def unseen_def)
  from socket_ok_grow [OF ok _ this, of "[]"] q pc show ?thesis
    by (auto simp: quiet_def socket_outcome_def socket_ok_def socket_reached_def split: handled.split)
qed

lemma socket_step_ok:
  "socket_step ops dec client observer s bs s' \<Longrightarrow> socket_ok ops v0 s st \<Longrightarrow>
     length st \<le> u64_max \<Longrightarrow> socket_ok ops v0 s' (st @ bs)"
proof (induction rule: socket_step.induct)
  case (message s b m)
  then show ?case
    using socket_outcome_ok quiet_message by (fastforce simp: socket_ok_def [of ops v0 s])
next
  case (attempt s data p)
  then show ?case
    using socket_outcome_ok quiet_write by (fastforce simp: socket_ok_def [of ops v0 s])
next
  case (world s bs t)
  then show ?case
    using terminal_step_grows [OF world(1), of st]
    by (intro socket_ok_grow) (auto simp: socket_ok_def)
next
  case (recv s)
  then show ?case using socket_recv_ok by fastforce
next
  case (merge s r)
  then show ?case using socket_merge_ok by fastforce
next
  case (lease s)
  then show ?case by (simp add: socket_ok_def)
qed

lemma viewer_start_viewed:
  "viewed (viewer_start requested st) st
     (case requested of None \<Rightarrow> 0 | Some r \<Rightarrow> min (rs_sequence r) (length st))"
  by (cases requested) (auto simp: viewed_def viewer_start_def min_def)

lemma socket_attach_ok:
  assumes "terminal_ok ops t st" "socket_attach ops client initial observer b t = Some t'"
  shows "terminal_ok ops t' st"
proof (cases observer)
  case True
  then show ?thesis using assms by (simp add: socket_attach_def)
next
  case False
  then obtain t1 where "t' = t1\<lparr>tl_flow := flow_attach (tl_flow t1)\<rparr>"
      "t1 = snd (terminal_viewports ops (AttachClient client initial) b t)"
    using assms(2) by (auto simp: socket_attach_def split: prod.splits sum.splits)
  then show ?thesis
    using grows_viewport [OF assms(1), of "AttachClient client initial" b]
    by (simp add: grows_def terminal_ok_def has_exited_def)
qed

lemma socket_start_ok:
  assumes t: "terminal_ok ops t st" and len: "length st \<le> u64_max"
  shows "socket_ok ops (viewer_start requested st)
    (socket_start ops client requested observer n t) st"
proof -
  obtain ok s where r: "socket_send (send (TextMessage (ReadyMessage
      (os_checkpoint_bytes (vs_output (tl_session t)))))) (socket_new n t) = (ok, s)" by fastforce
  from send_unseen(1) [OF _ r, of "viewer_start requested st"] send_unseen(2) [OF _ r]
  have w: "seen (viewer_start requested st) (cn_wire (sk_conn s)) = viewer_start requested st"
    "\<exists>w. s = (socket_new n t)\<lparr>sk_conn := (sk_conn (socket_new n t))\<lparr>cn_wire := w\<rparr>\<rparr>"
    by (simp_all add: socket_new_def)
  note v = viewer_start_viewed [of requested st]
  show ?thesis
  proof (cases ok)
    case True
    have "socket_ok ops (viewer_start requested st)
        (socket_synchronize ops client requested observer s) st"
      by (rule socket_synchronize_ok) (use w t len v in \<open>auto simp: socket_new_def\<close>)
    then show ?thesis using True by (simp add: socket_start_def r)
  next
    case False
    then have e: "socket_start ops client requested observer n t = s\<lparr>sk_pc := Ended\<rparr>"
      by (simp add: socket_start_def r)
    show ?thesis
      unfolding e using w t v by (auto simp: socket_ok_def socket_new_def)
  qed
qed

lemma socket_open_ok:
  "terminal_ok ops t st \<Longrightarrow> length st \<le> u64_max \<Longrightarrow>
     socket_open ops client initial requested observer b n t = Some s \<Longrightarrow>
     socket_ok ops (viewer_start requested st) s st"
  by (auto simp: socket_open_def intro: socket_start_ok socket_attach_ok)

lemma socket_reach_ok:
  "socket_reach ops dec client observer v s st \<Longrightarrow> length st \<le> u64_max \<Longrightarrow> socket_ok ops v s st"
proof (induction rule: socket_reach.induct)
  case (connect t st initial requested b n s)
  then show ?case using socket_open_ok terminal_reach_ok by blast
next
  case (step v s st bs s')
  then show ?case using socket_step_ok by fastforce
qed

end
