(* ===== verification/SocketProps.thy ===== *)
theory SocketProps
  imports SocketStream
begin

text \<open>
  The properties of the terminal socket: what a viewer holds, that it catches up, that an observer
  changes nothing, and that an uploaded checkpoint arrives whole and never as input.
\<close>

section \<open>A run to evaluate\<close>

text \<open>
  An observer opens a socket on a terminal that has printed \<open>abc\<close>; the terminal prints \<open>de\<close>, the
  socket looks at the event and sends it.
\<close>

definition demo_terminal :: "bytes terminal" where
  "demo_terminal = terminal_publish echo_ops ''abc'' (terminal_new echo_ops 131072)"

definition demo_open :: "bytes socket" where
  "demo_open = socket_start echo_ops 7 None True 10 demo_terminal"

definition demo_more :: "bytes socket" where
  "demo_more = demo_open\<lparr>sk_conn := (sk_conn demo_open)\<lparr>cn_terminal :=
     terminal_publish echo_ops ''de'' (cn_terminal (sk_conn demo_open))\<rparr>\<rparr>"

definition demo_sent :: "bytes socket" where
  "demo_sent = socket_merge (merge_begin \<lparr>out_seq = 3, out_bytes = ''de''\<rparr>)
     (socket_recv echo_ops 7 True demo_more)"

lemmas demo_eval = terminal_publish_def terminal_new_def view_session_new_def echo_eval clamp_def
  MIN_CHECKPOINT_BYTES_def MAX_CHECKPOINT_BYTES_def os_drain_responses_def DEFAULT_VIEWPORT_SIZE_def
  flow_default_def flow_published_def input_state_default_def viewports_default_def

lemmas socket_eval = socket_start_def socket_new_def socket_send_def send_def
  socket_synchronize_def synchronize_terminal_def subscribe_terminal_def os_sync_def
  browser_snapshot_def and_then_def send_terminal_sync_def send_terminal_bytes_def chunks.simps
  TERMINAL_OUTPUT_FRAME_BYTES_def size_message_def

lemma demo_open_eval:
  "sk_pc demo_open = AtLoop" "sk_position demo_open = 1" "sk_deferred demo_open = None"
  "sk_sequence demo_open = 3" "length (socket_log demo_open) = 1"
  "socket_log demo_open = [OutputEvent \<lparr>out_seq = 0, out_bytes = ''abc''\<rparr>]"
  "os_sequence (vs_output (tl_session (cn_terminal (sk_conn demo_open)))) = 3"
  "wr_left (cn_wire (sk_conn demo_open)) = 5"
  by (simp_all add: demo_open_def demo_terminal_def demo_eval socket_eval)

lemma terminal_publish_log:
  "tl_log (terminal_publish ops bs t) = tl_log t @
     [OutputEvent \<lparr>out_seq = os_sequence (vs_output (tl_session t)), out_bytes = bs\<rparr>]"
  by (simp add: terminal_publish_def os_publish_def Let_def split: prod.split)

lemma demo_more_eval:
  "sk_pc demo_more = AtLoop" "sk_position demo_more = 1" "sk_deferred demo_more = None"
  "sk_sequence demo_more = 3" "wr_left (cn_wire (sk_conn demo_more)) = 5"
  "socket_log demo_more = [OutputEvent \<lparr>out_seq = 0, out_bytes = ''abc''\<rparr>,
     OutputEvent \<lparr>out_seq = 3, out_bytes = ''de''\<rparr>]"
  by (simp_all add: demo_more_def demo_open_eval terminal_publish_log)

lemma demo_recv_eval:
  "socket_recv echo_ops 7 True demo_more = demo_more\<lparr>sk_position := 2,
     sk_pc := Merging (merge_begin \<lparr>out_seq = 3, out_bytes = ''de''\<rparr>)\<rparr>"
  by (simp add: socket_recv_def demo_more_eval try_recv_def TERMINAL_EVENT_CAPACITY_def
      handle_event_def slice_from_def end_sequence_def numeral_2_eq_2)

lemma demo_sent_eval:
  "sk_pc demo_sent = AtLoop" "sk_sequence demo_sent = 5" "sk_position demo_sent = 2"
  "sk_deferred demo_sent = None" "socket_log demo_sent = socket_log demo_more"
  by (simp_all add: demo_sent_def demo_recv_eval socket_merge_def demo_more_eval try_recv_def
      TERMINAL_EVENT_CAPACITY_def merge_more_def merge_begin_def merge_answer_def end_sequence_def
      TERMINAL_OUTPUT_FRAME_BYTES_def socket_flush_def merge_result_def send_terminal_output_def
      socket_send_def send_terminal_bytes_def chunks.simps and_then_def send_def)

lemma demo_terminal_reach: "terminal_reach echo_ops demo_terminal ''abc''"
proof -
  have "2 * max (131072 div 2) (64 * 1024) \<le> u64_max" by (simp add: u64_max_def)
  from terminal_reach.step [OF terminal_reach.new [OF this] terminal_step.publish]
  show ?thesis unfolding demo_terminal_def by (metis append_Nil)
qed

abbreviation demo_reach :: "bytes socket \<Rightarrow> bytes \<Rightarrow> bool" where
  "demo_reach \<equiv> socket_reach echo_ops (\<lambda>_. None) 7 True (viewer_start None ''abc'')"

lemma demo_more_reach: "demo_reach demo_more ''abcde''"
proof -
  have "socket_open echo_ops 7 None None True True 10 demo_terminal = Some demo_open"
    by (simp add: socket_open_def socket_attach_def demo_open_def)
  from socket_reach.connect [OF demo_terminal_reach this]
  have "demo_reach demo_open ''abc''" .
  from socket_reach.step [OF this socket_step.world [OF terminal_step.publish]]
  show ?thesis unfolding demo_more_def by (metis append_Cons append_Nil)
qed

lemma demo_sent_reach: "demo_reach demo_sent ''abcde''"
proof -
  have "demo_reach (socket_recv echo_ops 7 True demo_more) (''abcde'' @ [])"
    by (rule socket_reach.step [OF demo_more_reach socket_step.recv]) (rule demo_more_eval)
  then have "demo_reach demo_sent ((''abcde'' @ []) @ [])"
    unfolding demo_sent_def
    by (rule socket_reach.step [OF _ socket_step.merge]) (simp add: demo_recv_eval)
  then show ?thesis by simp
qed

section \<open>What a viewer holds\<close>

text \<open>
  C3. Whatever a program prints and other clients do, however far the socket's channel lags, however
  outputs are merged into frames and wherever a send fails: a viewer that follows the frames it was
  sent never sees a gap, and the bytes it holds are exactly those the terminal published from the
  sequence it started at. While the socket is open they reach to the socket's sequence, and when it
  has looked at every event that is all the terminal published.
\<close>

theorem socket_stream_exact:
  assumes "socket_reach ops decode client observer v s st" and "length st \<le> u64_max"
    and "v' = fold viewer_receive (socket_sent s) v"
  shows "vr_contiguous v' \<and> vr_from v' + length (vr_bytes v') \<le> length st
    \<and> vr_bytes v' = take (length (vr_bytes v')) (drop (vr_from v') st)
    \<and> (sk_pc s \<noteq> Ended \<longrightarrow> vr_from v' + length (vr_bytes v') = sk_sequence s)
    \<and> (sk_pc s = AtLoop \<and> sk_deferred s = None \<and> sk_position s = length (socket_log s)
         \<longrightarrow> sk_sequence s = length st)"
proof -
  have ok: "socket_ok ops v s st" by (rule socket_reach_ok [OF assms(1,2)])
  then obtain m where m: "viewed v' st m" by (auto simp: socket_ok_def assms(3))
  have "vr_bytes v' = take (m - vr_from v') (drop (vr_from v') st)"
    using m by (simp add: viewed_def drop_take)
  moreover have "length (vr_bytes v') = m - vr_from v'" "m \<le> length st"
    using m by (auto simp: viewed_def)
  moreover have "sk_sequence s = length st"
    if "sk_pc s = AtLoop" "sk_deferred s = None" "sk_position s = length (socket_log s)"
  proof -
    have "viewed v' st (sk_sequence s)" "\<exists>m \<le> sk_sequence s. m = length st"
      using ok that by (auto simp: socket_ok_def pending_ok_def socket_reached_def assms(3))
    then show ?thesis by (auto simp: viewed_def)
  qed
  moreover have "sk_pc s \<noteq> Ended \<Longrightarrow> viewed v' st (sk_sequence s)"
    using ok by (simp add: socket_ok_def assms(3))
  ultimately show ?thesis
    using m viewed_length [of v' st] by (auto simp: viewed_def)
qed

lemma socket_stream_exact_witness:
  "let v' = fold viewer_receive (socket_sent demo_sent) (viewer_start None ''abc'') in
   vr_contiguous v' \<and> vr_from v' + length (vr_bytes v') = 5
     \<and> vr_bytes v' = take (length (vr_bytes v')) (drop (vr_from v') ''abcde'')"
proof -
  have "length ''abcde'' \<le> u64_max" by (simp add: u64_max_def)
  from socket_stream_exact [OF demo_sent_reach this refl] show ?thesis
    by (simp add: demo_sent_eval Let_def)
qed

section \<open>Catching up\<close>

definition socket_poll :: "'t term_ops \<Rightarrow> uuid \<Rightarrow> bool \<Rightarrow> 't socket \<Rightarrow> 't socket" where
  "socket_poll ops client observer s =
     (case sk_pc s of
        AtLoop \<Rightarrow> socket_recv ops client observer s
      | Merging r \<Rightarrow> socket_merge r s
      | _ \<Rightarrow> s)"

definition socket_running :: "'t socket \<Rightarrow> bool" where
  "socket_running s \<longleftrightarrow> sk_pc s = AtLoop \<or> (\<exists>r. sk_pc s = Merging r)"

definition socket_idle :: "'t socket \<Rightarrow> bool" where
  "socket_idle s \<longleftrightarrow>
     sk_pc s = AtLoop \<and> sk_deferred s = None \<and> sk_position s = length (socket_log s)"

definition socket_work :: "'t socket \<Rightarrow> nat" where
  "socket_work s =
     3 * (length (socket_log s) - sk_position s) + (if sk_deferred s = None then 0 else 2)
       + (case sk_pc s of Merging _ \<Rightarrow> 1 | _ \<Rightarrow> 0)"

definition socket_cut :: "'t socket \<Rightarrow> bool" where
  "socket_cut s \<longleftrightarrow> wr_left (cn_wire (sk_conn s)) = 0 \<or> has_exited (cn_terminal (sk_conn s))"

text \<open>A poll never changes what the terminal has done, and ends the socket only where it is cut.\<close>

definition polled :: "'t socket \<Rightarrow> 't socket \<Rightarrow> nat \<Rightarrow> bool" where
  "polled s s' n \<longleftrightarrow>
     socket_log s' = socket_log s
     \<and> has_exited (cn_terminal (sk_conn s')) = has_exited (cn_terminal (sk_conn s))
     \<and> (sk_pc s' = Ended \<and> socket_cut s' \<or> socket_running s' \<and> socket_work s' < n)"

lemma sends_failed: "sends f ms \<Longrightarrow> f w = (fine, w') \<Longrightarrow> \<not> fine \<Longrightarrow> wr_left w' = 0"
  by (auto simp: sends_def)

lemma synchronize_polled:
  assumes "sk_pc s = AtLoop" "sk_deferred s = None" "0 < n"
  shows "polled s (socket_synchronize ops client requested observer s) n"
proof -
  let ?c = "sk_conn s"
  define y where "y = os_sync ops (vs_output (tl_session (cn_terminal ?c))) requested"
  define grid where "grid = TextMessage (size_message
    (cv_published (vs_viewports (tl_session (cn_terminal ?c)))) client)"
  define code where "code = os_exit (vs_output (tl_session (cn_terminal ?c)))"
  have f: "\<exists>ms. sends (and_then (send grid) (and_then (send_terminal_sync y)
      (case code of None \<Rightarrow> Pair True | Some n \<Rightarrow> send (TextMessage (ExitMessage n))))) ms"
    using sends_and_then [OF sends_send sends_and_then [OF sends_sync sends_nothing]]
      sends_and_then [OF sends_send sends_and_then [OF sends_sync sends_send]]
    by (cases code) (simp, blast)+
  obtain fine w where w: "and_then (send grid) (and_then (send_terminal_sync y)
      (case code of None \<Rightarrow> Pair True | Some n \<Rightarrow> send (TextMessage (ExitMessage n))))
      (cn_wire ?c) = (fine, w)" by fastforce
  obtain c where c: "synchronize_terminal ops client requested (\<not> observer) ?c
      = (if fine \<and> code = None then Some (length (socket_log s), sy_sequence y) else None, c)"
    "cn_wire c = w" "tl_log (cn_terminal c) = socket_log s"
    "tl_session (cn_terminal c) = tl_session (cn_terminal ?c)"
    using w by (auto simp: synchronize_terminal_def subscribe_terminal_def Let_def
        simp flip: y_def grid_def code_def)
  have x: "has_exited (cn_terminal c) = has_exited (cn_terminal ?c)"
    "code \<noteq> None \<Longrightarrow> has_exited (cn_terminal c)"
    using c(4) by (simp_all add: has_exited_def code_def)
  have "\<not> fine \<Longrightarrow> wr_left w = 0"
    using f w sends_failed by blast
  then show ?thesis
    using assms c x by (auto simp: socket_synchronize_def polled_def socket_running_def
        socket_work_def socket_cut_def)
qed

lemma send_polled:
  assumes "socket_send (send m) s = (ok, s')"
  shows "\<exists>w. s' = s\<lparr>sk_conn := (sk_conn s)\<lparr>cn_wire := w\<rparr>\<rparr> \<and> (ok \<or> wr_left w = 0)"
proof -
  obtain w where w: "send m (cn_wire (sk_conn s)) = (ok, w)"
      "s' = s\<lparr>sk_conn := (sk_conn s)\<lparr>cn_wire := w\<rparr>\<rparr>"
    using assms by (auto simp: socket_send_def split: prod.splits)
  with sends_failed [OF sends_send w(1)] show ?thesis by blast
qed

lemma handle_event_polled:
  assumes "sk_pc s = AtLoop" "sk_deferred s = None"
    and "pending_ok (has_exited (cn_terminal (sk_conn s))) st q (Some event) rest"
    and "socket_work s + 1 < n"
  shows "polled s (handle_event ops client observer event s) n"
proof (cases event)
  case AnswerClosed
  then show ?thesis using assms(3) by (simp add: pending_ok_def)
next
  case (AnswerLagged k)
  then show ?thesis using synchronize_polled [OF assms(1,2)] assms(4) by (simp add: handle_event_def)
next
  case (AnswerEvent ev)
  show ?thesis
  proof (cases ev)
    case (ExitEvent code)
    obtain ok s' where s': "socket_send (send (TextMessage (ExitMessage code))) s = (ok, s')"
      by fastforce
    with send_polled [OF s'] assms(3) show ?thesis
      by (auto simp: handle_event_def AnswerEvent ExitEvent polled_def socket_cut_def
          pending_ok_def exit_known_def)
  next
    case (SizeEvent g)
    obtain ok s' where s': "socket_send (send (TextMessage (size_message g client))) s = (ok, s')"
      by fastforce
    with send_polled [OF s'] assms show ?thesis
      by (auto simp: handle_event_def AnswerEvent SizeEvent polled_def socket_cut_def
          socket_running_def socket_work_def)
  next
    case (OutputEvent c)
    have "polled s s n" "polled s (s\<lparr>sk_pc := Merging r\<rparr>) n" for r
      using assms by (auto simp: polled_def socket_running_def socket_work_def)
    then show ?thesis
      using synchronize_polled [OF assms(1,2)] assms(4)
      by (auto simp: handle_event_def AnswerEvent OutputEvent split: option.split)
  qed
qed

lemma try_recv_work:
  "try_recv log position = (answer, position') \<Longrightarrow> position \<le> length log \<Longrightarrow> answer \<noteq> None \<Longrightarrow>
     position < position' \<and> position' \<le> length log"
  by (auto simp: try_recv_def Let_def split: if_splits)

lemma try_recv_None:
  "try_recv log position = (None, position') \<Longrightarrow> position \<le> length log \<Longrightarrow>
     position = length log \<and> position' = position"
  by (auto simp: try_recv_def Let_def split: if_splits)

lemma flush_polled:
  assumes "socket_work (s\<lparr>sk_deferred := d, sk_pc := AtLoop\<rparr>) < n"
  shows "polled s (socket_flush d r s) n"
proof -
  obtain fine w where w: "send_terminal_output (merge_result r) (cn_wire (sk_conn s)) = (fine, w)"
    by fastforce
  have "\<not> fine \<Longrightarrow> wr_left w = 0" using sends_failed [OF sends_output] w by blast
  then show ?thesis
    using assms by (auto simp: socket_flush_def socket_send_def w Let_def polled_def socket_cut_def
        socket_running_def socket_work_def)
qed

lemma poll_polled:
  assumes ok: "socket_ok ops v s st" and run: "socket_running s" and busy: "\<not> socket_idle s"
  shows "polled s (socket_poll ops client observer s) (socket_work s)"
proof (cases "sk_pc s")
  case AtLoop
  have pos: "sk_position s \<le> length (socket_log s)" using ok by (simp add: socket_ok_def)
  have pend: "pending_ok (has_exited (cn_terminal (sk_conn s))) st (sk_sequence s) (sk_deferred s)
      (drop (sk_position s) (socket_log s))"
    using ok AtLoop by (simp add: socket_ok_def socket_reached_def)
  show ?thesis
  proof (cases "sk_deferred s")
    case (Some event)
    have "polled (s\<lparr>sk_deferred := None\<rparr>)
        (handle_event ops client observer event (s\<lparr>sk_deferred := None\<rparr>)) (socket_work s)"
      using handle_event_polled [of "s\<lparr>sk_deferred := None\<rparr>" st "sk_sequence s" event] pend Some AtLoop
      by (simp add: socket_work_def)
    then show ?thesis
      by (simp add: socket_poll_def AtLoop socket_recv_def Some polled_def)
  next
    case None
    obtain answer position where a: "try_recv (socket_log s) (sk_position s) = (answer, position)"
      by fastforce
    have t: "\<forall>ev \<in> set (socket_log s). carried ev st
        \<and> exit_known (has_exited (cn_terminal (sk_conn s))) ev"
      using ok by (simp add: socket_ok_def terminal_ok_def)
    have p: "\<exists>m \<le> sk_sequence s. chain m (drop (sk_position s) (socket_log s)) (length st)"
      using pend None by (simp add: pending_ok_def)
    show ?thesis
    proof (cases answer)
      case None
      then show ?thesis
        using try_recv_None [of "socket_log s" "sk_position s"] a pos busy AtLoop \<open>sk_deferred s = None\<close>
        by (simp add: socket_idle_def)
    next
      case (Some event)
      have "3 * (length (socket_log s) - position) + 1
          < 3 * (length (socket_log s) - sk_position s)"
        using try_recv_work [OF a pos] Some by (simp, arith)
      then have "polled (s\<lparr>sk_position := position\<rparr>)
          (handle_event ops client observer event (s\<lparr>sk_position := position\<rparr>)) (socket_work s)"
        using try_recv_pending [OF a pos p t] Some AtLoop None
        by (intro handle_event_polled [where st = st and q = "sk_sequence s"
              and rest = "drop position (socket_log s)"]) (simp_all add: socket_work_def)
      then show ?thesis
        by (simp add: socket_poll_def AtLoop socket_recv_def None a Some polled_def)
    qed
  qed
next
  case (Merging r)
  have pos: "sk_position s \<le> length (socket_log s)" and d: "sk_deferred s = None"
    using ok Merging by (simp_all add: socket_ok_def)
  obtain answer position where a: "try_recv (socket_log s) (sk_position s) = (answer, position)"
    by fastforce
  show ?thesis
  proof (cases "merge_more r")
    case False
    then show ?thesis
      using flush_polled [where s = s and d = None] d Merging
      by (simp add: socket_poll_def socket_merge_def socket_work_def)
  next
    case True
    show ?thesis
    proof (cases "merge_answer answer r")
      case (Inl r')
      then have "answer \<noteq> None" by (cases answer) (simp_all add: merge_answer_def)
      then show ?thesis
        using True a Inl try_recv_work [OF a pos] d Merging
        by (auto simp: socket_poll_def socket_merge_def polled_def socket_running_def socket_work_def)
    next
      case (Inr deferred)
      then have e: "deferred = answer"
        by (auto simp: merge_answer_def split: option.splits channel_answer.splits
            terminal_event.splits if_splits)
      have "socket_work (s\<lparr>sk_position := position, sk_deferred := answer, sk_pc := AtLoop\<rparr>)
          < socket_work s"
        using try_recv_work [OF a pos] try_recv_None [of "socket_log s" "sk_position s"] a pos d Merging
        by (cases answer) (auto simp: socket_work_def)
      then show ?thesis
        using True a Inr e flush_polled [where s = "s\<lparr>sk_position := position\<rparr>" and d = answer]
        by (simp add: socket_poll_def socket_merge_def Merging polled_def)
    qed
  qed
qed (use run in \<open>simp_all add: socket_running_def\<close>)

lemma poll_ok:
  assumes "socket_ok ops v s st" "length st \<le> u64_max"
  shows "socket_ok ops v (socket_poll ops client observer s) st"
  using assms by (cases "sk_pc s") (simp_all add: socket_poll_def socket_recv_ok socket_merge_ok)

lemma polls_end:
  assumes "socket_ok ops v s st" "length st \<le> u64_max" "socket_running s"
  shows "\<exists>k \<le> socket_work s. let s' = (socket_poll ops client observer ^^ k) s in
    socket_ok ops v s' st \<and> (sk_pc s' = Ended \<and> socket_cut s' \<or> socket_idle s')"
  using assms
proof (induction "socket_work s" arbitrary: s rule: less_induct)
  case less
  show ?case
  proof (cases "socket_idle s")
    case True
    then show ?thesis using less.prems by (intro exI [of _ 0]) simp
  next
    case False
    let ?s = "socket_poll ops client observer s"
    have p: "polled s ?s (socket_work s)" by (rule poll_polled [OF less.prems(1,3) False])
    have ok: "socket_ok ops v ?s st" by (rule poll_ok [OF less.prems(1,2)])
    show ?thesis
    proof (cases "sk_pc ?s = Ended")
      case True
      then have "socket_cut ?s" using p by (auto simp: polled_def socket_running_def)
      moreover have "0 < socket_work s"
        using False less.prems(1,3)
        by (auto simp: socket_idle_def socket_running_def socket_work_def socket_ok_def)
      ultimately show ?thesis using ok True by (intro exI [of _ 1]) simp
    next
      case False
      then have w: "socket_work ?s < socket_work s" "socket_running ?s"
        using p by (auto simp: polled_def)
      from less.hyps [OF w(1) ok less.prems(2) w(2)] obtain k where k: "k \<le> socket_work ?s"
        "let s' = (socket_poll ops client observer ^^ k) ?s in
          socket_ok ops v s' st \<and> (sk_pc s' = Ended \<and> socket_cut s' \<or> socket_idle s')" by blast
      then show ?thesis
        using w(1) by (intro exI [of _ "Suc k"]) (simp add: funpow_swap1)
    qed
  qed
qed

text \<open>
  C5. A viewer catches up. From any reachable state of a running socket, a number of looks at the
  channel bounded by the events it has not seen either leaves it with nothing to look at and the
  viewer holding everything published up to now, or ends it, and it ends only because a send failed
  or the program has exited.
\<close>

theorem socket_catches_up:
  assumes "socket_reach ops decode client observer v s st" and "length st \<le> u64_max"
    and "socket_running s"
  shows "\<exists>k \<le> 3 * (length (socket_log s) - sk_position s) + 3.
    let s' = (socket_poll ops client observer ^^ k) s;
        v' = fold viewer_receive (socket_sent s') v
    in (sk_pc s' = Ended \<and> (wr_left (cn_wire (sk_conn s')) = 0 \<or> has_exited (cn_terminal (sk_conn s'))))
     \<or> (sk_pc s' = AtLoop \<and> sk_deferred s' = None \<and> sk_position s' = length (socket_log s')
        \<and> vr_from v' + length (vr_bytes v') = length st \<and> vr_bytes v' = drop (vr_from v') st)"
proof -
  obtain k where k: "k \<le> socket_work s"
    and s': "let s' = (socket_poll ops client observer ^^ k) s in
      socket_ok ops v s' st \<and> (sk_pc s' = Ended \<and> socket_cut s' \<or> socket_idle s')"
    using polls_end [OF socket_reach_ok [OF assms(1,2)] assms(2,3)] by blast
  let ?s = "(socket_poll ops client observer ^^ k) s"
  have "socket_work s \<le> 3 * (length (socket_log s) - sk_position s) + 3"
    by (simp add: socket_work_def split: socket_pc.split)
  moreover have "viewed (fold viewer_receive (socket_sent ?s) v) st (length st)" if "socket_idle ?s"
  proof -
    have "viewed (fold viewer_receive (socket_sent ?s) v) st (sk_sequence ?s)"
      "\<exists>m \<le> sk_sequence ?s. m = length st"
      using s' that by (auto simp: Let_def socket_ok_def socket_idle_def pending_ok_def socket_reached_def)
    then show ?thesis by (auto simp: viewed_def)
  qed
  ultimately show ?thesis
    using k s' viewed_length by (intro exI [of _ k])
      (fastforce simp: Let_def socket_cut_def socket_idle_def viewed_def)
qed

lemma socket_catches_up_witness:
  "\<exists>k. k \<le> 6 \<and> (let s' = (socket_poll echo_ops 7 True ^^ k) demo_more;
        v' = fold viewer_receive (socket_sent s') (viewer_start None ''abc'')
    in (sk_pc s' = Ended \<and> (wr_left (cn_wire (sk_conn s')) = 0 \<or> has_exited (cn_terminal (sk_conn s'))))
     \<or> (vr_from v' + length (vr_bytes v') = 5 \<and> vr_bytes v' = drop (vr_from v') ''abcde''))"
proof -
  have len: "length ''abcde'' \<le> u64_max" by (simp add: u64_max_def)
  have run: "socket_running demo_more" by (simp add: socket_running_def demo_more_eval)
  have "3 * (length (socket_log demo_more) - sk_position demo_more) + 3 = 6"
    by (simp add: demo_more_eval)
  with socket_catches_up [OF demo_more_reach len run] show ?thesis
    by (auto simp: Let_def)
qed

section \<open>Observers\<close>

lemma socket_send_terminal [simp]:
  "cn_terminal (sk_conn (snd (socket_send f s))) = cn_terminal (sk_conn s)"
  by (simp add: socket_send_def split: prod.split)

lemma socket_send_terminal' [simp]:
  "socket_send f s = (ok, s') \<Longrightarrow> cn_terminal (sk_conn s') = cn_terminal (sk_conn s)"
  using socket_send_terminal [of f s] by simp

lemma synchronize_observer:
  "cn_terminal (sk_conn (socket_synchronize ops client requested True s)) = cn_terminal (sk_conn s)"
  by (simp add: socket_synchronize_def synchronize_terminal_def subscribe_terminal_def Let_def
      split: prod.split option.split)

lemma handle_event_observer:
  "cn_terminal (sk_conn (handle_event ops client True event s)) = cn_terminal (sk_conn s)"
  by (auto simp: handle_event_def synchronize_observer
      split: channel_answer.split terminal_event.split option.split prod.split)

lemma socket_flush_terminal [simp]:
  "cn_terminal (sk_conn (socket_flush d r s)) = cn_terminal (sk_conn s)"
  by (auto simp: socket_flush_def Let_def split: prod.split dest: socket_send_terminal')

lemma reply_keeps [simp]:
  "cn_terminal (snd (reply m c)) = cn_terminal c" "cn_assembly (snd (reply m c)) = cn_assembly c"
  "fst (reply m c) \<noteq> Forward data"
  by (simp_all add: reply_def split: prod.split)

text \<open>
  An observer only looks. Opening a socket as an observer, every look at its channel, every
  frame it is sent and every message it sends leave the terminal exactly as it was: its size, its
  input, its flow control and its checkpoint. No message of an observer is forwarded as input.
\<close>

theorem observer_read_only:
  "(map_option (\<lambda>s. cn_terminal (sk_conn s)) (socket_open ops client size0 requested True ok n t) = Some t)
   \<and> cn_terminal (sk_conn (socket_recv ops client True s)) = cn_terminal (sk_conn s)
   \<and> cn_terminal (sk_conn (socket_merge r s)) = cn_terminal (sk_conn s)
   \<and> cn_terminal (snd (handle_client_message ops decode client True ok m c)) = cn_terminal c
   \<and> fst (handle_client_message ops decode client True ok m c) \<notin> range Forward"
proof -
  have "cn_terminal (sk_conn (socket_start ops client requested True n t)) = t"
  proof -
    obtain fine s' where s': "socket_send (send (TextMessage (ReadyMessage
        (os_checkpoint_bytes (vs_output (tl_session t)))))) (socket_new n t) = (fine, s')" by fastforce
    from socket_send_terminal' [OF s'] show ?thesis
      by (simp add: socket_start_def s' synchronize_observer) (simp add: socket_new_def)
  qed
  moreover have "cn_terminal (sk_conn (socket_recv ops client True s)) = cn_terminal (sk_conn s)"
    by (simp add: socket_recv_def handle_event_observer split: option.split prod.split)
  moreover have "cn_terminal (sk_conn (socket_merge r s)) = cn_terminal (sk_conn s)"
    by (simp add: socket_merge_def split: prod.split sum.split)
  moreover have "cn_terminal (snd (handle_client_message ops decode client True ok m c)) = cn_terminal c
      \<and> (\<forall>data. fst (handle_client_message ops decode client True ok m c) \<noteq> Forward data)"
    by (auto simp: handle_client_message_def reply_error_def
        split: incoming.split option.split client_message.split)
  ultimately show ?thesis by (auto simp: socket_open_def socket_attach_def)
qed

section \<open>Uploads\<close>

text \<open>One frame of a pending upload is absorbed or closes the connection.\<close>

definition upload_frame :: "nat \<Rightarrow> bytes \<Rightarrow> bool" where
  "upload_frame q d \<longleftrightarrow>
     d \<noteq> [] \<and> hd d = TERMINAL_CHECKPOINT_FRAME_KIND \<and> frame_sequence d = q
       \<and> TERMINAL_CHECKPOINT_FRAME_HEADER_BYTES < length d"

definition upload_payload :: "bytes list \<Rightarrow> nat" where
  "upload_payload ds = sum_list (map (\<lambda>d. length d - TERMINAL_CHECKPOINT_FRAME_HEADER_BYTES) ds)"

lemma binary_pending:
  assumes "ca_binary (cn_assembly c) = Some b"
    and "length (pb_bytes b) < pb_expected b" "pb_expected b < u64_max"
    and "handle_client_message ops decode client False ok (InBinary d) c = (r, c')"
  shows "r \<notin> range Forward \<and> (r = Handled \<longrightarrow>
     upload_frame (pb_sequence b) d
     \<and> (case ca_binary (cn_assembly c') of
          None \<Rightarrow> length (pb_bytes b) + (length d - TERMINAL_CHECKPOINT_FRAME_HEADER_BYTES) = pb_expected b
        | Some b' \<Rightarrow> pb_sequence b' = pb_sequence b \<and> pb_expected b' = pb_expected b
            \<and> length (pb_bytes b') = length (pb_bytes b)
                + (length d - TERMINAL_CHECKPOINT_FRAME_HEADER_BYTES)
            \<and> length (pb_bytes b') < pb_expected b'))"
proof -
  obtain res bin where a: "append_binary_checkpoint d (Some b) = (res, bin)" by fastforce
  have fit: "sat_add (length (pb_bytes b)) (length d - 9) \<le> pb_expected b \<Longrightarrow>
      length (pb_bytes b) + (length d - 9) \<le> pb_expected b"
    using sat_add_limit assms(3) by blast
  show ?thesis
  proof (cases res)
    case (Inl e)
    then show ?thesis
      using assms(1,4) a by (auto simp: handle_client_message_def handle_binary_def fail_error_def Let_def)
  next
    case (Inr fin)
    have n: "9 < length d"
      using a Inr by (auto simp: append_binary_checkpoint_def Let_def not_le
          TERMINAL_CHECKPOINT_FRAME_HEADER_BYTES_def split: if_splits)
    then have hd: "hd d = d ! 0" by (cases d) simp_all
    have d: "d \<noteq> []" "hd d = TERMINAL_CHECKPOINT_FRAME_KIND" "frame_sequence d = pb_sequence b"
      "9 < length d" "length (pb_bytes b) + (length d - 9) \<le> pb_expected b"
      using a Inr fit n
      by (auto simp: append_binary_checkpoint_def Let_def TERMINAL_CHECKPOINT_FRAME_HEADER_BYTES_def
          frame_sequence_def hd drop_Suc not_less split: if_splits)
    have bin: "bin = (if length (pb_bytes b) + (length d - 9) < pb_expected b
        then Some (b\<lparr>pb_bytes := pb_bytes b @ drop 9 d\<rparr>) else None)"
      using a Inr
      by (auto simp: append_binary_checkpoint_def Let_def TERMINAL_CHECKPOINT_FRAME_HEADER_BYTES_def
          split: if_splits)
    have "r = Handled \<and> ca_binary (cn_assembly c') = bin"
      using assms(1,4) a Inr
      by (auto simp: handle_client_message_def handle_binary_def Let_def split: option.splits)
    then show ?thesis
      using d bin by (auto simp: upload_frame_def TERMINAL_CHECKPOINT_FRAME_HEADER_BYTES_def)
  qed
qed

lemma upload_input_later:
  assumes "handle_all ops decode client False ok (map InBinary ds) c = (Forward x, c')"
    and "case ca_binary (cn_assembly c) of None \<Rightarrow> left = 0
         | Some b \<Rightarrow> pb_sequence b = q \<and> length (pb_bytes b) + left = pb_expected b \<and> 0 < left
             \<and> pb_expected b < u64_max"
  shows "\<exists>us es vs. ds = us @ es @ x # vs \<and> upload_payload us = left
    \<and> (\<forall>d \<in> set us. upload_frame q d) \<and> (\<forall>d \<in> set es. d = [])"
  using assms
proof (induction ds arbitrary: c left)
  case (Cons d ds)
  obtain r c1 where h: "handle_client_message ops decode client False ok (InBinary d) c = (r, c1)"
    by fastforce
  show ?case
  proof (cases "ca_binary (cn_assembly c)")
    case (Some b)
    with Cons.prems(2) have b: "pb_sequence b = q" "length (pb_bytes b) + left = pb_expected b"
      "0 < left" "pb_expected b < u64_max" by auto
    note p = binary_pending [OF Some _ b(4) h]
    have r: "r = Handled" and f: "upload_frame q d"
      using p b Cons.prems(1) h by (auto split: handled.splits)
    let ?k = "length d - TERMINAL_CHECKPOINT_FRAME_HEADER_BYTES"
    have "case ca_binary (cn_assembly c1) of None \<Rightarrow> left - ?k = 0
         | Some b \<Rightarrow> pb_sequence b = q \<and> length (pb_bytes b) + (left - ?k) = pb_expected b
             \<and> 0 < left - ?k \<and> pb_expected b < u64_max" and k: "?k \<le> left"
      using p r b by (auto split: option.splits)
    with Cons.IH [of c1 "left - ?k"] Cons.prems(1) h r obtain us es vs where
      "ds = us @ es @ x # vs" "upload_payload us = left - ?k" "\<forall>d \<in> set us. upload_frame q d"
      "\<forall>d \<in> set es. d = []" by auto
    then show ?thesis
      using f k by (intro exI [of _ "d # us"] exI [of _ es] exI [of _ vs]) (auto simp: upload_payload_def)
  next
    case None
    with Cons.prems(2) have l: "left = 0" by simp
    show ?thesis
    proof (cases "d = []")
      case True
      then have "r = Handled" "c1 = c"
        using h None by (auto simp: handle_client_message_def handle_binary_def)
      with Cons.IH [of c left] Cons.prems h l None obtain us es vs where
        u: "ds = us @ es @ x # vs" "upload_payload us = 0" "\<forall>d \<in> set us. upload_frame q d"
        "\<forall>d \<in> set es. d = []" by auto
      have "us = []"
        using u(2,3) by (cases us) (auto simp: upload_payload_def upload_frame_def)
      with u True l show ?thesis
        by (intro exI [of _ "[]"] exI [of _ "[] # es"] exI [of _ vs]) (auto simp: upload_payload_def)
    next
      case False
      then have "r = Forward d \<or> r = Halted"
        using h None by (auto simp: handle_client_message_def handle_binary_def
            forward_terminal_input_def split: prod.splits handled.splits)
      then have "x = d" using Cons.prems(1) h by auto
      then show ?thesis
        using l by (intro exI [of _ "[]"] exI [of _ "[]"] exI [of _ ds]) (auto simp: upload_payload_def)
    qed
  qed
qed simp


definition demo_connection :: "bytes connection" where
  "demo_connection = sk_conn demo_open"

lemma demo_forward:
  "fst (forward_terminal_input echo_ops 7 True data c) = Forward data"
  if "vs_viewports (tl_session (cn_terminal c)) = viewports_default"
  using that by (simp add: forward_terminal_input_def change_viewport_def terminal_viewports_def
      update_viewports_def Let_def split: prod.split)


text \<open>The pieces of a serialisation, as a browser sends them.\<close>

definition binary_upload :: "nat \<Rightarrow> nat \<Rightarrow> bytes list \<Rightarrow> incoming list" where
  "binary_upload q e cs =
     InText (Some (ClientCheckpointBinary q e (length (concat cs))))
       # map (\<lambda>c. InBinary (frame TERMINAL_CHECKPOINT_FRAME_KIND q c)) cs"

fun base64_upload :: "(bytes \<Rightarrow> ustring) \<Rightarrow> nat \<Rightarrow> nat \<Rightarrow> nat \<Rightarrow> bytes list \<Rightarrow> incoming list" where
  "base64_upload encode q e offset [] = []"
| "base64_upload encode q e offset (c # cs) =
     InText (Some (ClientCheckpoint q e offset (encode c) (cs = [])))
       # base64_upload encode q e (offset + length c) cs"

definition stored :: "nat \<Rightarrow> nat \<Rightarrow> bytes \<Rightarrow> 't terminal \<Rightarrow> 't terminal" where
  "stored q e bs t = set_output (snd (os_store_checkpoint (vs_output (tl_session t)) q e bs)) t"

lemma binary_frames_stored:
  assumes "cs \<noteq> []" "\<forall>c \<in> set cs. c \<noteq> [] \<and> length c \<le> TERMINAL_CHECKPOINT_CHUNK_BYTES"
    and "q \<le> u64_max" and "ca_binary (cn_assembly c) =
        Some \<lparr>pb_sequence = q, pb_epoch = e, pb_expected = length (bs @ concat cs), pb_bytes = bs\<rparr>"
    and "ca_chunked (cn_assembly c) = None"
  shows "handle_all ops decode client False ok
      (map (\<lambda>c. InBinary (frame TERMINAL_CHECKPOINT_FRAME_KIND q c)) cs) c
    = (Handled, c\<lparr>cn_assembly := assembly_default,
                  cn_terminal := stored q e (bs @ concat cs) (cn_terminal c)\<rparr>)"
  using assms
proof (induction cs arbitrary: bs c)
  case (Cons p ps)
  let ?b = "\<lparr>pb_sequence = q, pb_epoch = e, pb_expected = length (bs @ concat (p # ps)), pb_bytes = bs\<rparr>"
  have f: "append_binary_checkpoint (frame TERMINAL_CHECKPOINT_FRAME_KIND q p) (Some ?b)
      = (let b' = ?b\<lparr>pb_bytes := bs @ p\<rparr> in
         if length (bs @ p) < pb_expected ?b then (Inr None, Some b') else (Inr (Some b'), None))"
    using append_binary_frame [of p ?b] Cons.prems(2,3) by (simp add: Let_def)
  show ?case
  proof (cases ps)
    case Nil
    then show ?thesis
      using f Cons.prems(4,5) by (simp add: handle_client_message_def handle_binary_def Let_def
          assembly_default_def stored_def)
  next
    case (Cons p' ps')
    then have "length (bs @ p) < length (bs @ concat (p # ps))" using Cons.prems(2) by auto
    with f have f': "append_binary_checkpoint (frame TERMINAL_CHECKPOINT_FRAME_KIND q p) (Some ?b)
        = (Inr None, Some (?b\<lparr>pb_bytes := bs @ p\<rparr>))" by simp
    let ?c = "c\<lparr>cn_assembly := (cn_assembly c)\<lparr>ca_binary := Some (?b\<lparr>pb_bytes := bs @ p\<rparr>)\<rparr>\<rparr>"
    have "handle_client_message ops decode client False ok
        (InBinary (frame TERMINAL_CHECKPOINT_FRAME_KIND q p)) c = (Handled, ?c)"
      using f' Cons.prems(4) by (simp add: handle_client_message_def handle_binary_def Let_def)
    then show ?thesis
      using Cons.IH [where bs = "bs @ p" and c = ?c] Cons.prems Cons by simp
  qed
qed simp

lemma base64_chunks_stored:
  assumes "cs \<noteq> []" "\<forall>c \<in> set cs. c \<noteq> [] \<and> length c \<le> TERMINAL_CHECKPOINT_CHUNK_BYTES
      \<and> decode (encode c) = Some c \<and> utf8_len (encode c) \<le> TERMINAL_CHECKPOINT_CHUNK_BASE64_BYTES"
    and "length (bs @ concat cs) \<le> os_checkpoint_bytes (vs_output (tl_session (cn_terminal c)))"
    and "ca_chunked (cn_assembly c) = (if bs = [] then None
         else Some \<lparr>pc_sequence = q, pc_epoch = e, pc_bytes = bs\<rparr>)"
    and "ca_binary (cn_assembly c) = None"
  shows "handle_all ops decode client False ok (base64_upload encode q e (length bs) cs) c
    = (Handled, c\<lparr>cn_assembly := assembly_default,
                  cn_terminal := stored q e (bs @ concat cs) (cn_terminal c)\<rparr>)"
  using assms
proof (induction cs arbitrary: bs c)
  case (Cons p ps)
  let ?out = "vs_output (tl_session (cn_terminal c))"
  have f: "append_checkpoint decode q e (length bs) (encode p) (ps = []) (ca_chunked (cn_assembly c)) ?out
      = (if ps = [] then (Inr (fst (os_store_checkpoint ?out q e (bs @ p))), None,
                          snd (os_store_checkpoint ?out q e (bs @ p)))
         else (Inr False, Some \<lparr>pc_sequence = q, pc_epoch = e, pc_bytes = bs @ p\<rparr>, ?out))"
    using Cons.prems by (intro append_next_chunk) auto
  show ?case
  proof (cases ps)
    case Nil
    then show ?thesis
      using f Cons.prems(5) by (simp add: handle_client_message_def handle_command_def Let_def
          assembly_default_def stored_def)
  next
    case (Cons p' ps')
    let ?c = "c\<lparr>cn_assembly := (cn_assembly c)\<lparr>ca_chunked :=
        Some \<lparr>pc_sequence = q, pc_epoch = e, pc_bytes = bs @ p\<rparr>\<rparr>\<rparr>"
    have same: "set_output (vs_output (tl_session t)) t = t" for t :: "'a terminal"
      by (cases t) (simp add: set_output_def)
    have "handle_client_message ops decode client False ok
        (InText (Some (ClientCheckpoint q e (length bs) (encode p) (ps = [])))) c = (Handled, ?c)"
      using f Cons by (simp add: handle_client_message_def handle_command_def Let_def same)
    then show ?thesis
      using Cons.IH [where bs = "bs @ p" and c = ?c] Cons.prems Cons by simp
  qed
qed simp

text \<open>
  C35. The two ways to upload a checkpoint are the same. However a non-empty serialisation within the
  limit is cut into chunks, the announced binary frames and the base64 messages with their offsets
  both end in the state in which the terminal was given exactly that serialisation, with nothing
  pending, nothing forwarded as input and no error sent.
\<close>

theorem uploads_equivalent:
  assumes "cs \<noteq> []" and "\<forall>c \<in> set cs. c \<noteq> [] \<and> length c \<le> TERMINAL_CHECKPOINT_CHUNK_BYTES
      \<and> decode (encode c) = Some c \<and> utf8_len (encode c) \<le> TERMINAL_CHECKPOINT_CHUNK_BASE64_BYTES"
    and "length (concat cs) \<le> os_checkpoint_bytes (vs_output (tl_session (cn_terminal c)))"
    and "cn_assembly c = assembly_default" and "q \<le> u64_max"
    and "c' = c\<lparr>cn_terminal :=
       set_output (snd (os_store_checkpoint (vs_output (tl_session (cn_terminal c))) q e (concat cs)))
         (cn_terminal c)\<rparr>"
  shows "handle_all ops decode client False ok (binary_upload q e cs) c = (Handled, c')
    \<and> handle_all ops decode client False ok (base64_upload encode q e 0 cs) c = (Handled, c')"
proof -
  let ?c = "c\<lparr>cn_assembly := \<lparr>ca_chunked = None, ca_binary =
    Some \<lparr>pb_sequence = q, pb_epoch = e, pb_expected = length (concat cs), pb_bytes = []\<rparr>\<rparr>\<rparr>"
  have c': "c' = c\<lparr>cn_assembly := assembly_default, cn_terminal := stored q e (concat cs) (cn_terminal c)\<rparr>"
    using assms(4,6) by (cases c) (simp add: stored_def)
  have "concat cs \<noteq> []" using assms(1,2) by (cases cs) auto
  then have "handle_client_message ops decode client False ok
      (InText (Some (ClientCheckpointBinary q e (length (concat cs))))) c = (Handled, ?c)"
    using assms(3,4) by (auto simp: handle_client_message_def handle_command_def Let_def
        start_binary_checkpoint_def assembly_default_def)
  then have "handle_all ops decode client False ok (binary_upload q e cs) c = (Handled, c')"
    using binary_frames_stored [of cs q ?c e "[]" ops decode client ok] assms(1,2,5)
    by (simp add: binary_upload_def c')
  moreover have "handle_all ops decode client False ok (base64_upload encode q e 0 cs) c = (Handled, c')"
    using base64_chunks_stored [of cs decode encode "[]" c q e ops client ok] assms(1-4)
    by (simp add: c' assembly_default_def)
  ultimately show ?thesis by simp
qed

text \<open>A decoder for the witness: every scalar value is one byte.\<close>

lemma uploads_equivalent_witness:
  "let c' = demo_connection\<lparr>cn_terminal := set_output (snd (os_store_checkpoint
      (vs_output (tl_session (cn_terminal demo_connection))) 3 0 ''abc'')) (cn_terminal demo_connection)\<rparr>
   in handle_all echo_ops (\<lambda>d. Some (map char_of d)) 7 False True (binary_upload 3 0 [''ab'', ''c''])
        demo_connection = (Handled, c')
    \<and> handle_all echo_ops (\<lambda>d. Some (map char_of d)) 7 False True
        (base64_upload (map of_char) 3 0 0 [''ab'', ''c'']) demo_connection = (Handled, c')"
proof -
  have o: "os_checkpoint_bytes (vs_output (tl_session (cn_terminal demo_connection))) = 65536"
    "cn_assembly demo_connection = assembly_default"
    by (simp_all add: demo_connection_def demo_open_def demo_terminal_def demo_eval socket_eval)
  have small: "\<forall>c \<in> set [''ab'', ''c'']. c \<noteq> [] \<and> length c \<le> TERMINAL_CHECKPOINT_CHUNK_BYTES
      \<and> Some (map char_of (map of_char c :: nat list)) = Some c
      \<and> utf8_len (map of_char c) \<le> TERMINAL_CHECKPOINT_CHUNK_BASE64_BYTES"
    by (simp add: TERMINAL_CHECKPOINT_CHUNK_BYTES_def TERMINAL_CHECKPOINT_CHUNK_BASE64_BYTES_def
        scalar_width_def)
  show ?thesis
    unfolding Let_def
    using uploads_equivalent [OF _ small, of demo_connection 3 _ 0 echo_ops 7 True] o
    by (simp add: u64_max_def)
qed

end
