(* ===== verification/UpdateVersion.thy ===== *)
theory UpdateVersion
  imports Prelude "HOL-Library.List_Lexorder" "HOL-Library.Product_Lexorder"
begin

text \<open>
  Release versions of \<open>src/src/update.rs\<close>: \<open>ReleaseVersion\<close>, \<open>PrereleaseIdentifier\<close>, their parsers
  and orders, and \<open>update_state\<close>, which decides what a signed release is to the running build.

  The orders are the code's \<open>Ord\<close> implementations; both types are instances of \<open>linorder\<close>, so they
  are total orders, and the order on versions is shown to be the precedence of semantic versioning.
\<close>

section \<open>Orders\<close>

datatype ordering = Less | Equal | Greater

definition compare :: "'a::linorder \<Rightarrow> 'a \<Rightarrow> ordering" where
  "compare a b = (if a < b then Less else if a = b then Equal else Greater)"

definition then_with :: "ordering \<Rightarrow> ordering \<Rightarrow> ordering" where
  "then_with a b = (case a of Equal \<Rightarrow> b | _ \<Rightarrow> a)"

lemma compare_simps [simp]:
  "compare a b = Less \<longleftrightarrow> a < b" "compare a b = Equal \<longleftrightarrow> a = b" "compare a b = Greater \<longleftrightarrow> b < a"
  by (auto simp: compare_def)

lemma then_with_simps [simp]:
  "then_with a b = Less \<longleftrightarrow> a = Less \<or> a = Equal \<and> b = Less"
  "then_with a b = Equal \<longleftrightarrow> a = Equal \<and> b = Equal"
  "then_with a b = Greater \<longleftrightarrow> a = Greater \<or> a = Equal \<and> b = Greater"
  by (cases a; simp add: then_with_def)+

datatype prerelease_identifier = Numeric nat | Alphanumeric ustring

fun identifier_cmp :: "prerelease_identifier \<Rightarrow> prerelease_identifier \<Rightarrow> ordering" where
  "identifier_cmp (Numeric left) (Numeric right) = compare left right"
| "identifier_cmp (Alphanumeric left) (Alphanumeric right) = compare left right"
| "identifier_cmp (Numeric _) (Alphanumeric _) = Less"
| "identifier_cmp (Alphanumeric _) (Numeric _) = Greater"

instantiation prerelease_identifier :: linorder
begin

definition less_prerelease_identifier :: "prerelease_identifier \<Rightarrow> prerelease_identifier \<Rightarrow> bool" where
  "less_prerelease_identifier a b \<longleftrightarrow> identifier_cmp a b = Less"

definition less_eq_prerelease_identifier :: "prerelease_identifier \<Rightarrow> prerelease_identifier \<Rightarrow> bool" where
  "less_eq_prerelease_identifier a b \<longleftrightarrow> identifier_cmp a b \<noteq> Greater"

instance
proof
  fix a b c :: prerelease_identifier
  show "(a < b) = (a \<le> b \<and> \<not> b \<le> a)"
    by (cases a; cases b)
      (auto simp: less_prerelease_identifier_def less_eq_prerelease_identifier_def)
  show "a \<le> a" by (cases a) (simp_all add: less_eq_prerelease_identifier_def)
  show "a \<le> b \<Longrightarrow> b \<le> c \<Longrightarrow> a \<le> c"
    by (cases a; cases b; cases c) (auto simp: less_eq_prerelease_identifier_def)
  show "a \<le> b \<Longrightarrow> b \<le> a \<Longrightarrow> a = b"
    by (cases a; cases b) (auto simp: less_eq_prerelease_identifier_def)
  show "a \<le> b \<or> b \<le> a" by (cases a; cases b) (auto simp: less_eq_prerelease_identifier_def)
qed

end

datatype release_version =
  Release_Version (rv_major: nat) (rv_minor: nat) (rv_patch: nat)
    (rv_prerelease: "prerelease_identifier list")

text \<open>A release outranks a prerelease of the same version.\<close>

definition prerelease_cmp :: "prerelease_identifier list \<Rightarrow> prerelease_identifier list \<Rightarrow> ordering" where
  "prerelease_cmp a b =
     (if a = [] then (if b = [] then Equal else Greater)
      else if b = [] then Less else compare a b)"

lemma prerelease_cmp_simps [simp]:
  "prerelease_cmp a b = Less \<longleftrightarrow> a \<noteq> [] \<and> (b = [] \<or> a < b)"
  "prerelease_cmp a b = Equal \<longleftrightarrow> a = b"
  "prerelease_cmp a b = Greater \<longleftrightarrow> b \<noteq> [] \<and> (a = [] \<or> b < a)"
  by (auto simp: prerelease_cmp_def)

definition version_cmp :: "release_version \<Rightarrow> release_version \<Rightarrow> ordering" where
  "version_cmp a b =
     then_with
       (then_with (compare (rv_major a) (rv_major b))
         (then_with (compare (rv_minor a) (rv_minor b)) (compare (rv_patch a) (rv_patch b))))
       (prerelease_cmp (rv_prerelease a) (rv_prerelease b))"

text \<open>The same order on a key, whose components the library orders lexicographically.\<close>

definition version_key ::
    "release_version \<Rightarrow> nat \<times> nat \<times> nat \<times> bool \<times> prerelease_identifier list" where
  "version_key v =
     (rv_major v, rv_minor v, rv_patch v, rv_prerelease v = [], rv_prerelease v)"

lemma version_cmp_key: "version_cmp a b = compare (version_key a) (version_key b)"
proof (cases "version_cmp a b")
  case Less
  then have "version_key a < version_key b" by (auto simp: version_cmp_def version_key_def less_prod_def)
  with Less show ?thesis by (simp add: compare_def)
next
  case Equal
  then have "version_key a = version_key b" by (auto simp: version_cmp_def version_key_def)
  with Equal show ?thesis by (simp add: compare_def)
next
  case Greater
  then have "version_key b < version_key a" by (auto simp: version_cmp_def version_key_def less_prod_def)
  with Greater show ?thesis by (metis compare_simps(3))
qed

lemma version_key_inj: "version_key a = version_key b \<longleftrightarrow> a = b"
  by (cases a; cases b) (auto simp: version_key_def)

instantiation release_version :: linorder
begin

definition less_release_version :: "release_version \<Rightarrow> release_version \<Rightarrow> bool" where
  "less_release_version a b \<longleftrightarrow> version_cmp a b = Less"

definition less_eq_release_version :: "release_version \<Rightarrow> release_version \<Rightarrow> bool" where
  "less_eq_release_version a b \<longleftrightarrow> version_cmp a b \<noteq> Greater"

instance
  by standard
    (auto simp: less_release_version_def less_eq_release_version_def version_cmp_key not_less
      order_less_le simp flip: version_key_inj)

end

section \<open>Parsing\<close>

definition split_once :: "scalar \<Rightarrow> ustring \<Rightarrow> (ustring \<times> ustring) option" where
  "split_once c s =
     (if c \<in> set s then Some (takeWhile (\<lambda>x. x \<noteq> c) s, tl (dropWhile (\<lambda>x. x \<noteq> c) s)) else None)"

definition parse_version_number :: "ustring \<Rightarrow> nat option" where
  "parse_version_number value =
     (if value = [] \<or> (1 < utf8_len value \<and> hd value = 48) then None else parse_usize value)"

definition parse_prerelease_identifier :: "ustring \<Rightarrow> prerelease_identifier option" where
  "parse_prerelease_identifier value =
     (if value = [] then None
      else if list_all is_ascii_digit value then map_option Numeric (parse_version_number value)
      else if list_all (\<lambda>c. is_ascii_alphanumeric c \<or> c = 45) value then Some (Alphanumeric value)
      else None)"

fun collect_options :: "'a option list \<Rightarrow> 'a list option" where
  "collect_options [] = Some []"
| "collect_options (None # xs) = None"
| "collect_options (Some x # xs) = map_option (Cons x) (collect_options xs)"

definition parse_version :: "ustring \<Rightarrow> release_version option" where
  "parse_version value =
     (let value = (case split_once 43 value of None \<Rightarrow> value | Some (head, _) \<Rightarrow> head);
          (core, prerelease) = (case split_once 45 value of
                                  Some (core, prerelease) \<Rightarrow> (core, Some prerelease)
                                | None \<Rightarrow> (value, None))
      in case split_on 46 core of
           [major, minor, patch] \<Rightarrow>
             (case (parse_version_number major, parse_version_number minor,
                    parse_version_number patch,
                    case prerelease of None \<Rightarrow> Some []
                    | Some p \<Rightarrow> collect_options (map parse_prerelease_identifier (split_on 46 p))) of
                (Some a, Some b, Some c, Some p) \<Rightarrow> Some (Release_Version a b c p)
              | _ \<Rightarrow> None)
         | _ \<Rightarrow> None)"

datatype update_state = Current | Available | Older | Unavailable

text \<open>The running build's version and commit are arguments: the build script sets them.\<close>

definition update_state_of :: "ustring \<Rightarrow> ustring \<Rightarrow> ustring \<Rightarrow> ustring \<Rightarrow> update_state" where
  "update_state_of build_version build_commit version commit =
     (if commit = build_commit then Current
      else (case (parse_version version, parse_version build_version) of
              (Some release, Some running) \<Rightarrow> if release < running then Older else Available
            | _ \<Rightarrow> Available))"

section \<open>Versions as they are written\<close>

fun print_identifier :: "prerelease_identifier \<Rightarrow> ustring" where
  "print_identifier (Numeric n) = dec_digits n"
| "print_identifier (Alphanumeric s) = s"

definition print_version :: "release_version \<Rightarrow> ustring option \<Rightarrow> ustring" where
  "print_version v build =
     join_with [46] (map dec_digits [rv_major v, rv_minor v, rv_patch v])
     @ (if rv_prerelease v = [] then []
        else 45 # join_with [46] (map print_identifier (rv_prerelease v)))
     @ (case build of None \<Rightarrow> [] | Some b \<Rightarrow> 43 # b)"

fun identifier_ok :: "prerelease_identifier \<Rightarrow> bool" where
  "identifier_ok (Numeric n) \<longleftrightarrow> n \<le> u64_max"
| "identifier_ok (Alphanumeric s) \<longleftrightarrow>
     list_all (\<lambda>c. is_ascii_alphanumeric c \<or> c = 45) s \<and> \<not> list_all is_ascii_digit s"

definition version_ok :: "release_version \<Rightarrow> bool" where
  "version_ok v \<longleftrightarrow>
     rv_major v \<le> u64_max \<and> rv_minor v \<le> u64_max \<and> rv_patch v \<le> u64_max
     \<and> list_all identifier_ok (rv_prerelease v)"

lemma dec_digits_range: "c \<in> set (dec_digits n) \<Longrightarrow> 48 \<le> c \<and> c \<le> 57"
  using digits_dec [of n] by (auto simp: list_all_iff is_ascii_digit_def)

lemma dec_digits_single: "n < 10 \<Longrightarrow> dec_digits n = [48 + n]"
  by (subst dec_digits.simps) simp

lemma parse_number_dec: "n \<le> u64_max \<Longrightarrow> parse_version_number (dec_digits n) = Some n"
proof -
  assume n: "n \<le> u64_max"
  have "\<not> (1 < utf8_len (dec_digits n) \<and> hd (dec_digits n) = 48)"
  proof (cases "n = 0")
    case True
    then show ?thesis by (simp add: dec_digits_single scalar_width_def)
  next
    case False
    then show ?thesis using dec_digits_hd [of n] by simp
  qed
  then show ?thesis using n by (simp add: parse_version_number_def parse_dec)
qed

lemma identifier_chars:
  "identifier_ok i \<Longrightarrow> c \<in> set (print_identifier i) \<Longrightarrow> is_ascii_alphanumeric c \<or> c = 45"
  using dec_digits_range
  by (cases i) (auto simp: list_all_iff is_ascii_alphanumeric_def is_ascii_digit_def)

lemma parse_identifier_print: "identifier_ok i \<Longrightarrow> parse_prerelease_identifier (print_identifier i) = Some i"
proof (cases i)
  case (Numeric n)
  then show "identifier_ok i \<Longrightarrow> ?thesis"
    using digits_dec [of n] by (simp add: parse_prerelease_identifier_def parse_number_dec)
next
  case (Alphanumeric s)
  then show "identifier_ok i \<Longrightarrow> ?thesis"
    by (cases s) (simp_all add: parse_prerelease_identifier_def)
qed

lemma collect_identifiers:
  "list_all identifier_ok ps \<Longrightarrow>
     collect_options (map parse_prerelease_identifier (map print_identifier ps)) = Some ps"
  by (induction ps) (simp_all add: parse_identifier_print)

lemma split_once_at: "c \<notin> set a \<Longrightarrow> split_once c (a @ c # b) = Some (a, b)"
  by (induction a) (auto simp: split_once_def)

lemma split_once_none: "c \<notin> set a \<Longrightarrow> split_once c a = None"
  by (simp add: split_once_def)

lemma join_with_set: "set (join_with sep parts) \<subseteq> set sep \<union> \<Union> (set ` set parts)"
  by (induction sep parts rule: join_with.induct) auto

text \<open>Printing and parsing round trip, whatever build metadata follows.\<close>

lemma parse_print_version:
  assumes ok: "version_ok v"
  shows "parse_version (print_version v build) = Some v"
proof -
  obtain a b c p where v: "v = Release_Version a b c p" by (cases v)
  let ?core = "join_with [46] (map dec_digits [a, b, c])"
  let ?pre = "join_with [46] (map print_identifier p)"
  have digits: "x \<notin> set (dec_digits n)" if "x < 48 \<or> 57 < x" for x n
    using dec_digits_range [of x n] that by auto
  have core: "45 \<notin> set ?core" "43 \<notin> set ?core" "split_on 46 ?core = map dec_digits [a, b, c]"
    using split_join [of "map dec_digits [a, b, c]" 46] by (auto simp: digits)
  have pc: "is_ascii_alphanumeric x \<or> x = 45 \<or> x = 46" if "x \<in> set ?pre" for x
    using that join_with_set [of "[46]" "map print_identifier p"] identifier_chars ok
    by (fastforce simp: version_ok_def v list_all_iff)
  then have pre: "43 \<notin> set ?pre" by (force simp: is_ascii_alphanumeric_def is_ascii_alphabetic_def
        is_ascii_digit_def)
  have dot: "46 \<notin> set (print_identifier i)" if "i \<in> set p" for i
    using that identifier_chars [of i 46] ok
    by (auto simp: version_ok_def v list_all_iff is_ascii_alphanumeric_def is_ascii_alphabetic_def
        is_ascii_digit_def)
  have split: "split_on 46 ?pre = map print_identifier p" if "p \<noteq> []"
    using that dot by (intro split_join) auto
  let ?main = "?core @ (if p = [] then [] else 45 # ?pre)"
  have main: "43 \<notin> set ?main" using core(2) pre by auto
  have plus: "(case split_once 43 (print_version v build) of None \<Rightarrow> print_version v build
      | Some (head, _) \<Rightarrow> head) = ?main"
  proof (cases build)
    case None
    then have "print_version v build = ?main" by (simp add: print_version_def v)
    then show ?thesis using split_once_none [OF main] by (simp only: option.case)
  next
    case (Some m)
    then have "print_version v build = ?main @ 43 # m" by (simp add: print_version_def v)
    then show ?thesis using split_once_at [OF main, of m] by (simp only: option.case prod.case)
  qed
  have n: "parse_version_number (dec_digits a) = Some a" "parse_version_number (dec_digits b) = Some b"
    "parse_version_number (dec_digits c) = Some c"
    using ok by (simp_all add: version_ok_def v parse_number_dec)
  have i: "collect_options (map parse_prerelease_identifier (map print_identifier p)) = Some p"
    using ok by (intro collect_identifiers) (simp add: version_ok_def v)
  show ?thesis
  proof (cases "p = []")
    case True
    then have "split_once 45 ?main = None" using core(1) by (simp add: split_once_none)
    with True show ?thesis
      unfolding parse_version_def plus using core(3) n by (simp add: v Let_def)
  next
    case False
    then have "split_once 45 ?main = Some (?core, ?pre)"
      using split_once_at [OF core(1), of ?pre] by (simp only: if_False)
    with False show ?thesis
      unfolding parse_version_def plus using core(3) n i split by (simp add: v Let_def)
  qed
qed

section \<open>Semantic versioning precedence\<close>

text \<open>
  The rules of semantic versioning, written out: the numbers first; then a prerelease comes before
  its release; then the first identifiers that differ decide, a number before a word, and a list
  that ends earlier comes first.
\<close>

fun identifier_before :: "prerelease_identifier \<Rightarrow> prerelease_identifier \<Rightarrow> bool" where
  "identifier_before (Numeric a) (Numeric b) \<longleftrightarrow> a < b"
| "identifier_before (Numeric a) (Alphanumeric b) \<longleftrightarrow> True"
| "identifier_before (Alphanumeric a) (Numeric b) \<longleftrightarrow> False"
| "identifier_before (Alphanumeric a) (Alphanumeric b) \<longleftrightarrow>
     (\<exists>u x y v w. a = u @ x # v \<and> b = u @ y # w \<and> x < y) \<or> (\<exists>w. w \<noteq> [] \<and> b = a @ w)"

definition semver_before :: "release_version \<Rightarrow> release_version \<Rightarrow> bool" where
  "semver_before a b \<longleftrightarrow>
     rv_major a < rv_major b
     \<or> rv_major a = rv_major b \<and> rv_minor a < rv_minor b
     \<or> rv_major a = rv_major b \<and> rv_minor a = rv_minor b \<and> rv_patch a < rv_patch b
     \<or> rv_major a = rv_major b \<and> rv_minor a = rv_minor b \<and> rv_patch a = rv_patch b
       \<and> rv_prerelease a \<noteq> []
       \<and> (rv_prerelease b = []
          \<or> (\<exists>u x y v w. rv_prerelease a = u @ x # v \<and> rv_prerelease b = u @ y # w
               \<and> identifier_before x y)
          \<or> (\<exists>w. w \<noteq> [] \<and> rv_prerelease b = rv_prerelease a @ w))"

lemma list_less_first:
  "xs < ys \<longleftrightarrow>
     (\<exists>u x y v w. xs = u @ x # v \<and> ys = u @ y # w \<and> x < y) \<or> (\<exists>w. w \<noteq> [] \<and> ys = xs @ w)"
  for xs ys :: "'a::linorder list"
proof (induction xs arbitrary: ys)
  case Nil
  then show ?case by (cases ys) auto
next
  case (Cons a xs)
  show ?case
  proof (cases ys)
    case Nil
    then show ?thesis by simp
  next
    case (Cons b zs)
    have "(\<exists>u x y v w. a # xs = u @ x # v \<and> b # zs = u @ y # w \<and> x < y)
        \<longleftrightarrow> a < b \<or> a = b \<and> (\<exists>u x y v w. xs = u @ x # v \<and> zs = u @ y # w \<and> x < y)"
      (is "?L \<longleftrightarrow> ?R")
    proof
      assume ?L
      then obtain u x y v w where "a # xs = u @ x # v" "b # zs = u @ y # w" "x < y" by blast
      then show ?R by (cases u) auto
    next
      assume ?R
      then show ?L
      proof
        assume "a < b"
        then show ?L by (intro exI [of _ "[]"]) auto
      next
        assume "a = b \<and> (\<exists>u x y v w. xs = u @ x # v \<and> zs = u @ y # w \<and> x < y)"
        then show ?L by (metis append_Cons)
      qed
    qed
    then show ?thesis using Cons.IH [of zs] by (auto simp: Cons)
  qed
qed

lemma identifier_less: "a < b \<longleftrightarrow> identifier_before a b"
  by (cases a; cases b) (simp_all add: less_prerelease_identifier_def list_less_first)

lemma version_less: "a < b \<longleftrightarrow> semver_before a b"
proof -
  have "version_cmp a b = Less \<longleftrightarrow>
      rv_major a < rv_major b
     \<or> rv_major a = rv_major b \<and> rv_minor a < rv_minor b
     \<or> rv_major a = rv_major b \<and> rv_minor a = rv_minor b \<and> rv_patch a < rv_patch b
     \<or> rv_major a = rv_major b \<and> rv_minor a = rv_minor b \<and> rv_patch a = rv_patch b
       \<and> rv_prerelease a \<noteq> [] \<and> (rv_prerelease b = [] \<or> rv_prerelease a < rv_prerelease b)"
    by (auto simp: version_cmp_def)
  then show ?thesis
    by (simp add: less_release_version_def semver_before_def list_less_first identifier_less)
qed

text \<open>
  What a release is to the running build is decided by semantic versioning. For versions as they
  are written (with or without build metadata), the same commit is current, a release that comes
  before the running version in the precedence of semantic versioning is older, and every other
  release is an update; of two different versions exactly one comes before the other.
\<close>

theorem update_state_semver:
  assumes "version_ok release" and "version_ok running"
  shows "update_state_of (print_version running b1) build_commit (print_version release b2) commit
      = (if commit = build_commit then Current
         else if semver_before release running then Older else Available)
    \<and> (semver_before release running \<or> release = running \<or> semver_before running release)
    \<and> \<not> (semver_before release running \<and> semver_before running release)"
  using parse_print_version [OF assms(1), of b2] parse_print_version [OF assms(2), of b1]
  by (auto simp: update_state_of_def simp flip: version_less)

lemma update_state_semver_witness:
  "update_state_of (lit ''1.4.0'') (lit ''aaaa'') (lit ''1.4.0-beta.2+77'') (lit ''bbbb'') = Older"
proof -
  let ?v = "Release_Version 1 4 0 []" and ?r = "Release_Version 1 4 0 [Alphanumeric (lit ''beta''), Numeric 2]"
  have ok: "version_ok ?r" "version_ok ?v"
    by (simp_all add: version_ok_def u64_max_def is_ascii_alphanumeric_def is_ascii_alphabetic_def
        is_ascii_digit_def)
  have p: "print_version ?v None = lit ''1.4.0''" "print_version ?r (Some (lit ''77'')) = lit ''1.4.0-beta.2+77''"
    by (simp_all add: print_version_def dec_digits_single)
  have "semver_before ?r ?v" by (simp add: semver_before_def)
  then show ?thesis
    using update_state_semver [OF ok, of None "lit ''aaaa''" "Some (lit ''77'')" "lit ''bbbb''"]
    unfolding p by (simp add: lit_def)
qed

end
