(* ===== verification/UpdateInstall.thy ===== *)
theory UpdateInstall
  imports UpdateVersion Interfaces
begin

text \<open>
  The update service of \<open>src/src/update.rs\<close>: the stored channel, the verification of a release
  (signature, manifest, archive), and the replacement of the installed files with its rollback.

  Parameters: the HTTP responses, the signature check of \<open>ed25519_dalek\<close>, the JSON reader, SHA-256,
  the decoded archive, the facts about the unpacked package and the outcome of every rename.
\<close>

section \<open>Releases\<close>

definition MAX_METADATA_BYTES :: nat where "MAX_METADATA_BYTES = 1024 * 1024"
definition MAX_ARCHIVE_BYTES :: nat where "MAX_ARCHIVE_BYTES = 512 * 1024 * 1024"
definition MAX_EXTRACTED_BYTES :: nat where "MAX_EXTRACTED_BYTES = 1024 * 1024 * 1024"

record release_artifact =
  ra_target :: ustring
  ra_name :: ustring
  ra_sha256 :: ustring
  ra_size :: nat

record release_manifest =
  rm_schema :: nat
  rm_channel :: ustring
  rm_version :: ustring
  rm_commit :: ustring
  rm_published :: ustring
  rm_artifacts :: "release_artifact list"

record release_info =
  ri_version :: ustring
  ri_commit :: ustring
  ri_published :: ustring

record verified_release =
  vf_info :: release_info
  vf_artifact :: release_artifact

datatype update_error =
    Unsupported ustring | Busy | Stale | AlreadyCurrent | InvalidChannel | SettingsFailed
  | NetworkFailed | InvalidSignature | InvalidRelease ustring | ChecksumMismatch | InstallFailed

definition is_hex_lower :: "scalar \<Rightarrow> bool" where
  "is_hex_lower c \<longleftrightarrow> (48 \<le> c \<and> c \<le> 57) \<or> (97 \<le> c \<and> c \<le> 102)"

definition valid_channel :: "ustring \<Rightarrow> bool" where
  "valid_channel value \<longleftrightarrow>
     value \<noteq> [] \<and> utf8_len value \<le> 128
     \<and> list_all (\<lambda>c. is_ascii_alphanumeric c \<or> c \<in> set (lit ''._-'')) value"

definition valid_commit :: "ustring \<Rightarrow> bool" where
  "valid_commit value \<longleftrightarrow>
     (utf8_len value = 40 \<or> utf8_len value = 64) \<and> list_all is_hex_lower value"

definition hex_scalar :: "nat \<Rightarrow> scalar" where
  "hex_scalar n = (if n < 10 then 48 + n else 87 + n)"

definition hex_digest :: "bytes \<Rightarrow> ustring" where
  "hex_digest bs = concat (map (\<lambda>b. [hex_scalar (of_char b div 16), hex_scalar (of_char b mod 16)]) bs)"

text \<open>\<open>target\<close> is the build's target and archive name, None on an unsupported system.\<close>

definition validate_manifest ::
    "(ustring \<times> ustring) option \<Rightarrow> ustring \<Rightarrow> release_manifest \<Rightarrow> update_error + verified_release" where
  "validate_manifest target expected_channel m =
     (if rm_schema m \<noteq> 1
      then Inl (InvalidRelease (lit ''unsupported manifest schema '' @ dec_digits (rm_schema m)))
      else if rm_channel m \<noteq> expected_channel
      then Inl (InvalidRelease (lit ''release channel does not match the configured channel''))
      else if rm_version m = [] \<or> 64 < utf8_len (rm_version m)
              \<or> \<not> list_all (\<lambda>c. is_ascii_alphanumeric c \<or> c \<in> set (lit ''.+-'')) (rm_version m)
      then Inl (InvalidRelease (lit ''release version is malformed''))
      else if \<not> valid_commit (rm_commit m)
      then Inl (InvalidRelease (lit ''release commit is malformed''))
      else if rm_published m = [] \<or> 64 < utf8_len (rm_published m)
      then Inl (InvalidRelease (lit ''release publication time is malformed''))
      else (case target of
              None \<Rightarrow> Inl (Unsupported (lit ''this operating system or architecture is unsupported''))
            | Some (target, expected_name) \<Rightarrow>
                (case find (\<lambda>a. ra_target a = target) (rm_artifacts m) of
                   None \<Rightarrow> Inl (InvalidRelease (lit ''no release archive was published for '' @ target))
                 | Some artifact \<Rightarrow>
                     if ra_name artifact \<noteq> expected_name \<or> ra_size artifact = 0
                        \<or> MAX_ARCHIVE_BYTES < ra_size artifact \<or> utf8_len (ra_sha256 artifact) \<noteq> 64
                        \<or> \<not> list_all is_hex_lower (ra_sha256 artifact)
                     then Inl (InvalidRelease (lit ''release artifact metadata is malformed''))
                     else Inr \<lparr>vf_info = \<lparr>ri_version = rm_version m, ri_commit = rm_commit m,
                                         ri_published = rm_published m\<rparr>,
                               vf_artifact = artifact\<rparr>)))"

section \<open>Downloads\<close>

text \<open>
  A response is its declared length and the chunks of its body; None is an error of the connection.
  A request that fails, or that is answered with an error status, has no response.
\<close>

record response =
  rp_length :: "nat option"
  rp_chunks :: "bytes option list"

record archive_entry =
  ae_path :: "ustring option list"
  ae_plain :: bool
  ae_size :: nat
  ae_unpacked :: "bool option"

text \<open>
  A path component is Some for a normal one, None for the root, the parent or the current
  directory. \<open>ae_plain\<close>: a file or a directory; \<open>ae_unpacked\<close>: the answer of \<open>unpack_in\<close>, None for
  an error.
\<close>

record package_facts =
  pf_complete :: bool
  pf_mode :: "nat option"
  pf_version :: "(bool \<times> ustring) option"

record update_env =
  ue_get :: "ustring \<Rightarrow> response option"
  ue_verify :: "bytes \<Rightarrow> bytes \<Rightarrow> bool"
  ue_manifest :: "bytes \<Rightarrow> release_manifest option"
  ue_sha256 :: "bytes \<Rightarrow> bytes"
  ue_write :: "bytes \<Rightarrow> bytes \<Rightarrow> bool"
  ue_archive :: "bytes \<Rightarrow> archive_entry option list option"
  ue_synced :: bool
  ue_package :: package_facts
  ue_workdir :: bool
  ue_target :: "(ustring \<times> ustring) option"
  ue_commit :: ustring

definition release_url :: "ustring \<Rightarrow> ustring \<Rightarrow> ustring \<Rightarrow> ustring" where
  "release_url base channel name = base @ [47] @ channel @ [47] @ name"

fun collect_chunks :: "nat \<Rightarrow> ustring \<Rightarrow> bytes \<Rightarrow> bytes option list \<Rightarrow> update_error + bytes" where
  "collect_chunks limit name result [] = Inr result"
| "collect_chunks limit name result (None # cs) = Inl NetworkFailed"
| "collect_chunks limit name result (Some chunk # cs) =
     (if limit < length result + length chunk
      then Inl (InvalidRelease (name @ lit '' exceeds the size limit''))
      else collect_chunks limit name (result @ chunk) cs)"

definition fetch_small_file ::
    "update_env \<Rightarrow> ustring \<Rightarrow> ustring \<Rightarrow> ustring \<Rightarrow> nat \<Rightarrow> update_error + bytes" where
  "fetch_small_file env base channel name limit =
     (case ue_get env (release_url base channel name) of
        None \<Rightarrow> Inl NetworkFailed
      | Some response \<Rightarrow>
          if (case rp_length response of None \<Rightarrow> False | Some n \<Rightarrow> limit < n)
          then Inl (InvalidRelease (name @ lit '' exceeds the size limit''))
          else collect_chunks limit name [] (rp_chunks response))"

definition MANIFEST_NAME :: ustring where "MANIFEST_NAME = lit ''release-manifest.json''"
definition MANIFEST_SIGNATURE_NAME :: ustring where
  "MANIFEST_SIGNATURE_NAME = lit ''release-manifest.json.sig''"

definition fetch_verified_release ::
    "update_env \<Rightarrow> ustring \<Rightarrow> ustring \<Rightarrow> update_error + verified_release" where
  "fetch_verified_release env base channel =
     (case fetch_small_file env base channel MANIFEST_NAME MAX_METADATA_BYTES of
        Inl e \<Rightarrow> Inl e
      | Inr manifest_bytes \<Rightarrow>
     (case fetch_small_file env base channel MANIFEST_SIGNATURE_NAME 1024 of
        Inl e \<Rightarrow> Inl e
      | Inr signature_bytes \<Rightarrow>
          if \<not> ue_verify env manifest_bytes signature_bytes then Inl InvalidSignature
          else (case ue_manifest env manifest_bytes of
                  None \<Rightarrow> Inl (InvalidRelease (lit ''malformed''))
                | Some manifest \<Rightarrow> validate_manifest (ue_target env) channel manifest)))"

text \<open>The download writes each chunk to the archive file; the hash is of all of them.\<close>

fun receive_archive ::
    "update_env \<Rightarrow> nat \<Rightarrow> nat \<Rightarrow> bytes \<Rightarrow> bytes option list \<Rightarrow> update_error + (nat \<times> bytes)" where
  "receive_archive env declared received file [] = Inr (received, file)"
| "receive_archive env declared received file (None # cs) = Inl NetworkFailed"
| "receive_archive env declared received file (Some chunk # cs) =
     (let received = sat_add received (length chunk) in
      if declared < received \<or> MAX_ARCHIVE_BYTES < received
      then Inl (InvalidRelease (lit ''release archive exceeds its signed size''))
      else if \<not> ue_write env file chunk then Inl InstallFailed
      else receive_archive env declared received (file @ chunk) cs)"

definition download_artifact ::
    "update_env \<Rightarrow> ustring \<Rightarrow> ustring \<Rightarrow> release_artifact \<Rightarrow> update_error + bytes" where
  "download_artifact env base channel artifact =
     (case ue_get env (release_url base channel (ra_name artifact)) of
        None \<Rightarrow> Inl NetworkFailed
      | Some response \<Rightarrow>
          if (case rp_length response of None \<Rightarrow> False | Some n \<Rightarrow> n \<noteq> ra_size artifact)
          then Inl (InvalidRelease (lit ''release archive size does not match its signed manifest''))
          else (case receive_archive env (ra_size artifact) 0 [] (rp_chunks response) of
                  Inl e \<Rightarrow> Inl e
                | Inr (received, file) \<Rightarrow>
                    if received \<noteq> ra_size artifact
                    then Inl (InvalidRelease (lit ''release archive is incomplete''))
                    else if hex_digest (ue_sha256 env file) \<noteq> ra_sha256 artifact
                    then Inl ChecksumMismatch else Inr file))"

section \<open>The archive and the package\<close>

definition validate_archive_path :: "ustring option list \<Rightarrow> ustring \<Rightarrow> bool" where
  "validate_archive_path path package_name =
     (case path of [] \<Rightarrow> False
      | first # rest \<Rightarrow> first = Some package_name \<and> list_all (\<lambda>c. c \<noteq> None) rest)"

fun extract_entries :: "ustring \<Rightarrow> nat \<Rightarrow> archive_entry option list \<Rightarrow> update_error + archive_entry list" where
  "extract_entries package extracted [] = Inr []"
| "extract_entries package extracted (None # es) = Inl (InvalidRelease (lit ''malformed''))"
| "extract_entries package extracted (Some entry # es) =
     (if \<not> validate_archive_path (ae_path entry) package
      then Inl (InvalidRelease (lit ''release archive contains an unsafe path''))
      else if \<not> ae_plain entry
      then Inl (InvalidRelease (lit ''release archive contains a link or special file''))
      else let extracted = sat_add extracted (ae_size entry) in
      if MAX_EXTRACTED_BYTES < extracted
      then Inl (InvalidRelease (lit ''release archive expands beyond the size limit''))
      else (case ae_unpacked entry of
              None \<Rightarrow> Inl (InvalidRelease (lit ''malformed''))
            | Some False \<Rightarrow> Inl (InvalidRelease (lit ''release archive contains an unsafe path''))
            | Some True \<Rightarrow>
                (case extract_entries package extracted es of
                   Inl e \<Rightarrow> Inl e | Inr rest \<Rightarrow> Inr (entry # rest))))"

definition strip_suffix :: "ustring \<Rightarrow> ustring \<Rightarrow> ustring option" where
  "strip_suffix suffix s = map_option rev (strip_prefix (rev suffix) (rev s))"

definition extract_archive :: "update_env \<Rightarrow> bytes \<Rightarrow> ustring \<Rightarrow> update_error + archive_entry list" where
  "extract_archive env archive archive_name =
     (if \<not> ue_workdir env then Inl InstallFailed
      else (case strip_suffix (lit ''.tar.gz'') archive_name of
              None \<Rightarrow> Inl (InvalidRelease (lit ''release archive name is invalid''))
            | Some package_name \<Rightarrow>
                (case ue_archive env archive of
                   None \<Rightarrow> Inl (InvalidRelease (lit ''malformed''))
                 | Some entries \<Rightarrow>
                     (case extract_entries package_name 0 entries of
                        Inl e \<Rightarrow> Inl e
                      | Inr unpacked \<Rightarrow> if ue_synced env then Inr unpacked else Inl InstallFailed))))"

definition verify_package :: "package_facts \<Rightarrow> release_info \<Rightarrow> update_error + unit" where
  "verify_package facts release =
     (if \<not> pf_complete facts
      then Inl (InvalidRelease (lit
        ''release archive is missing its binary, browser client, or artifact skill''))
      else (case pf_mode facts of
              None \<Rightarrow> Inl InstallFailed
            | Some mode \<Rightarrow>
                if and mode 73 = 0
                then Inl (InvalidRelease (lit ''release binary is not executable''))
                else (case pf_version facts of
                        None \<Rightarrow> Inl InstallFailed
                      | Some (success, identity) \<Rightarrow>
                          if \<not> success \<or> \<not> contains_str (ri_version release) identity
                             \<or> \<not> contains_str (ri_commit release) identity
                          then Inl (InvalidRelease (lit
                            ''release binary identity does not match its signed manifest''))
                          else Inr ())))"

section \<open>Replacing the installation\<close>

text \<open>
  The nine paths the function names: the installed files, the candidates of the package and the
  places in the temporary directory the previous ones move to. A rename moves what is at one path
  to another; it fails where nothing is there, or where the system says so. Which renames the system
  fails is an argument, in the order they are tried; those after the list succeed.
\<close>

datatype place =
    ClientDirectory | SkillsDirectory | ExecutableFile
  | CandidateClient | CandidateSkills | CandidateBinary
  | PreviousClient | PreviousSkills | PreviousBinary

record 'c disk =
  dk_at :: "place \<Rightarrow> 'c option"
  dk_fails :: "bool list"

definition rename_path :: "place \<Rightarrow> place \<Rightarrow> 'c disk \<Rightarrow> bool \<times> 'c disk" where
  "rename_path a b d =
     (let failed = (case dk_fails d of [] \<Rightarrow> False | f # _ \<Rightarrow> f);
          d' = d\<lparr>dk_fails := tl (dk_fails d)\<rparr>
      in if failed \<or> dk_at d a = None then (False, d')
         else (True, d'\<lparr>dk_at := (dk_at d)(b := dk_at d a, a := None)\<rparr>))"

definition rollback_directory :: "place \<Rightarrow> place \<Rightarrow> place \<Rightarrow> bool \<Rightarrow> 'c disk \<Rightarrow> 'c disk" where
  "rollback_directory current candidate previous had_previous d =
     (let d = snd (rename_path current candidate d)
      in if had_previous then snd (rename_path previous current d) else d)"

definition rollback_client :: "'c disk \<Rightarrow> 'c disk" where
  "rollback_client = rollback_directory ClientDirectory CandidateClient PreviousClient True"

definition rollback_skills :: "bool \<Rightarrow> 'c disk \<Rightarrow> 'c disk" where
  "rollback_skills had_skills =
     rollback_directory SkillsDirectory CandidateSkills PreviousSkills had_skills"

text \<open>The flag says whether the installation was replaced.\<close>

definition replace_binary :: "bool \<Rightarrow> 'c disk \<Rightarrow> bool \<times> 'c disk" where
  "replace_binary had_skills d =
     (case rename_path ExecutableFile PreviousBinary d of
        (False, d) \<Rightarrow> (False, rollback_client (rollback_skills had_skills d))
      | (True, d) \<Rightarrow>
          (case rename_path CandidateBinary ExecutableFile d of
             (False, d) \<Rightarrow>
               (let d = snd (rename_path PreviousBinary ExecutableFile d)
                in (False, rollback_client (rollback_skills had_skills d)))
           | (True, d) \<Rightarrow> (True, d)))"

definition replace_skills :: "bool \<Rightarrow> 'c disk \<Rightarrow> bool \<times> 'c disk" where
  "replace_skills had_skills d =
     (case rename_path CandidateSkills SkillsDirectory d of
        (False, d) \<Rightarrow>
          (let d = (if had_skills then snd (rename_path PreviousSkills SkillsDirectory d) else d)
           in (False, rollback_client d))
      | (True, d) \<Rightarrow> replace_binary had_skills d)"

definition replace_installation :: "'c disk \<Rightarrow> bool \<times> 'c disk" where
  "replace_installation d =
     (case rename_path ClientDirectory PreviousClient d of
        (False, d) \<Rightarrow> (False, d)
      | (True, d) \<Rightarrow>
          (case rename_path CandidateClient ClientDirectory d of
             (False, d) \<Rightarrow> (False, snd (rename_path PreviousClient ClientDirectory d))
           | (True, d) \<Rightarrow>
               if dk_at d SkillsDirectory \<noteq> None
               then (case rename_path SkillsDirectory PreviousSkills d of
                       (False, d) \<Rightarrow> (False, rollback_client d)
                     | (True, d) \<Rightarrow> replace_skills True d)
               else replace_skills False d))"

section \<open>The service\<close>

record stored_settings =
  st_schema :: nat
  st_channel :: ustring

record update_service =
  us_channel :: ustring
  us_base :: ustring
  us_installed :: bool
  us_reason :: "ustring option"
  us_settings :: "stored_settings option"

definition UPDATE_SETTINGS_SCHEMA_VERSION :: nat where "UPDATE_SETTINGS_SCHEMA_VERSION = 1"

definition known_channel :: "ustring \<Rightarrow> bool" where
  "known_channel channel \<longleftrightarrow> channel = lit ''main'' \<or> channel = lit ''beta''"

definition load_update_channel :: "stored_settings read_outcome \<Rightarrow> ustring \<Rightarrow> ustring" where
  "load_update_channel file fallback =
     (case file of
        Read_ok (Some settings) \<Rightarrow>
          if st_schema settings = UPDATE_SETTINGS_SCHEMA_VERSION \<and> known_channel (st_channel settings)
          then st_channel settings else fallback
      | _ \<Rightarrow> fallback)"

text \<open>\<open>trim_end_matches\<close> of the slash.\<close>

definition trim_slashes :: "ustring \<Rightarrow> ustring" where
  "trim_slashes s = rev (dropWhile (\<lambda>c. c = 47) (rev s))"

text \<open>\<open>detected\<close> is what \<open>detect_installation\<close> answers: the reason why updates are unavailable, or None.\<close>

definition update_service_new ::
    "ustring \<Rightarrow> ustring \<Rightarrow> bool \<Rightarrow> ustring option \<Rightarrow> stored_settings option
       \<Rightarrow> stored_settings read_outcome \<Rightarrow> update_service" where
  "update_service_new channel base disabled detected file read =
     (let channel = (if known_channel channel then load_update_channel read channel else channel);
          reason = (if disabled then Some (lit ''automatic updates are disabled'')
                    else if \<not> valid_channel channel then Some (lit ''the update channel is invalid'')
                    else if \<not> starts_with base (lit ''https://'')
                    then Some (lit ''the release base URL must use HTTPS'')
                    else detected)
      in \<lparr>us_channel = channel, us_base = trim_slashes base, us_installed = (reason = None),
          us_reason = reason, us_settings = file\<rparr>)"

text \<open>\<open>busy\<close>: another installation or change of the channel holds the install lock.\<close>

definition set_channel ::
    "bool \<Rightarrow> 'e persist_outcome \<Rightarrow> ustring \<Rightarrow> update_service \<Rightarrow> (update_error + ustring) \<times> update_service" where
  "set_channel busy outcome channel s =
     (if \<not> known_channel channel then (Inl InvalidChannel, s)
      else if busy then (Inl Busy, s)
      else if us_channel s = channel then (Inr (us_channel s), s)
      else (case persist_document outcome
                    \<lparr>st_schema = UPDATE_SETTINGS_SCHEMA_VERSION, st_channel = channel\<rparr>
                    (us_settings s) of
              (Inl _, file) \<Rightarrow> (Inl SettingsFailed, s\<lparr>us_settings := file\<rparr>)
            | (Inr _, file) \<Rightarrow> (Inr channel, s\<lparr>us_settings := file, us_channel := channel\<rparr>)))"

definition check_update ::
    "update_env \<Rightarrow> ustring \<Rightarrow> update_service \<Rightarrow> update_error + (update_state \<times> release_info option)" where
  "check_update env build_version s =
     (if \<not> us_installed s then Inr (update_state.Unavailable, None)
      else (case fetch_verified_release env (us_base s) (us_channel s) of
              Inl e \<Rightarrow> Inl e
            | Inr release \<Rightarrow>
                Inr (update_state_of build_version (ue_commit env)
                       (ri_version (vf_info release)) (ri_commit (vf_info release)),
                     Some (vf_info release))))"

text \<open>
  \<open>temporary\<close>: the temporary directory could be made. It holds the package and the previous files, and
  is removed with them when the function returns, whatever it returns.
\<close>

definition drop_temporary :: "'c disk \<Rightarrow> 'c disk" where
  "drop_temporary d = d\<lparr>dk_at := (\<lambda>p.
     if p = ClientDirectory \<or> p = SkillsDirectory \<or> p = ExecutableFile then dk_at d p else None)\<rparr>"

definition install_release ::
    "update_env \<Rightarrow> update_service \<Rightarrow> verified_release \<Rightarrow> 'c disk
       \<Rightarrow> (update_error + release_info) \<times> 'c disk" where
  "install_release env s release d =
     (case download_artifact env (us_base s) (us_channel s) (vf_artifact release) of
        Inl e \<Rightarrow> (Inl e, d)
      | Inr archive \<Rightarrow>
          (case extract_archive env archive (ra_name (vf_artifact release)) of
             Inl e \<Rightarrow> (Inl e, d)
           | Inr _ \<Rightarrow>
               (case verify_package (ue_package env) (vf_info release) of
                  Inl e \<Rightarrow> (Inl e, d)
                | Inr _ \<Rightarrow>
                    (case replace_installation d of
                       (True, d') \<Rightarrow> (Inr (vf_info release), d')
                     | (False, d') \<Rightarrow> (Inl InstallFailed, d')))))"

definition install_update ::
    "update_env \<Rightarrow> bool \<Rightarrow> bool \<Rightarrow> ustring \<Rightarrow> update_service \<Rightarrow> 'c disk
       \<Rightarrow> (update_error + release_info) \<times> 'c disk" where
  "install_update env busy temporary expected_commit s d =
     (if \<not> us_installed s
      then (Inl (Unsupported (case us_reason s of
                   None \<Rightarrow> lit ''automatic updates are unavailable'' | Some r \<Rightarrow> r)), d)
      else if busy then (Inl Busy, d)
      else (case fetch_verified_release env (us_base s) (us_channel s) of
              Inl e \<Rightarrow> (Inl e, d)
            | Inr release \<Rightarrow>
                if ri_commit (vf_info release) \<noteq> expected_commit then (Inl Stale, d)
                else if ri_commit (vf_info release) = ue_commit env then (Inl AlreadyCurrent, d)
                else if \<not> temporary then (Inl InstallFailed, d)
                else (let (r, d') = install_release env s release d in (r, drop_temporary d'))))"

end
