(* ===== verification/UpdateProps.thy ===== *)
theory UpdateProps
  imports UpdateInstall
begin

text \<open>
  What an update can do to an installation: only a release that was signed, checked and asked for is
  installed, and the installed files are replaced together or kept.
\<close>

section \<open>What was downloaded is what was signed\<close>

lemma collect_chunks_bound:
  "collect_chunks limit name acc cs = Inr bs \<Longrightarrow> length acc \<le> limit \<Longrightarrow> length bs \<le> limit"
  by (induction limit name acc cs rule: collect_chunks.induct) (auto split: if_splits)

lemma receive_archive_exact:
  "receive_archive env declared received acc cs = Inr (n, bs) \<Longrightarrow> received = length acc \<Longrightarrow>
     declared \<le> MAX_ARCHIVE_BYTES \<Longrightarrow> n = length bs"
proof (induction env declared received acc cs rule: receive_archive.induct)
  case (3 env declared received acc chunk cs)
  have m: "MAX_ARCHIVE_BYTES < u64_max" by (simp add: MAX_ARCHIVE_BYTES_def u64_max_def)
  from 3 have le: "sat_add received (length chunk) \<le> declared"
    by (auto simp: Let_def split: if_splits)
  then have "received + length chunk \<le> declared"
    using 3(4) m by (intro sat_add_limit) auto
  then have "sat_add received (length chunk) = length (acc @ chunk)"
    using 3(3,4) m by (simp add: sat_add_exact)
  with 3 show ?case by (auto simp: Let_def split: if_splits)
qed auto

lemma download_exact:
  assumes "download_artifact env base channel a = Inr file" "ra_size a \<le> MAX_ARCHIVE_BYTES"
  shows "length file = ra_size a" "hex_digest (ue_sha256 env file) = ra_sha256 a"
  using assms receive_archive_exact
  by (fastforce simp: download_artifact_def split: option.splits if_splits sum.splits prod.splits)+

lemma validate_manifest_Inr:
  assumes "validate_manifest target channel m = Inr v"
  shows "rm_schema m = 1 \<and> rm_channel m = channel
    \<and> vf_info v = \<lparr>ri_version = rm_version m, ri_commit = rm_commit m, ri_published = rm_published m\<rparr>
    \<and> vf_artifact v \<in> set (rm_artifacts m) \<and> valid_commit (rm_commit m)
    \<and> target = Some (ra_target (vf_artifact v), ra_name (vf_artifact v))
    \<and> 0 < ra_size (vf_artifact v) \<and> ra_size (vf_artifact v) \<le> MAX_ARCHIVE_BYTES"
  using assms
  by (auto simp: validate_manifest_def find_Some_iff split: if_splits option.splits prod.splits)

lemma fetch_verified_Inr:
  assumes "fetch_verified_release env base channel = Inr v"
  shows "\<exists>mb sb m. ue_verify env mb sb \<and> length mb \<le> MAX_METADATA_BYTES \<and> ue_manifest env mb = Some m
    \<and> validate_manifest (ue_target env) channel m = Inr v"
  using assms collect_chunks_bound
  by (fastforce simp: fetch_verified_release_def fetch_small_file_def
      split: sum.splits option.splits if_splits)

text \<open>The entries that were unpacked stay inside the package directory.\<close>

definition inside_package :: "ustring \<Rightarrow> archive_entry \<Rightarrow> bool" where
  "inside_package package e \<longleftrightarrow>
     ae_plain e \<and> ae_unpacked e = Some True \<and> ae_path e \<noteq> [] \<and> hd (ae_path e) = Some package
       \<and> None \<notin> set (ae_path e)"

lemma extract_entries_Inr:
  "extract_entries package n es = Inr us \<Longrightarrow>
     es = map Some us \<and> list_all (inside_package package) us
     \<and> (n \<le> MAX_EXTRACTED_BYTES \<longrightarrow> n + sum_list (map ae_size us) \<le> MAX_EXTRACTED_BYTES)"
proof (induction package n es arbitrary: us rule: extract_entries.induct)
  case (3 package n entry es)
  have m: "MAX_EXTRACTED_BYTES < u64_max" by (simp add: MAX_EXTRACTED_BYTES_def u64_max_def)
  from 3(2) obtain rest where r: "extract_entries package (sat_add n (ae_size entry)) es = Inr rest"
    and us: "us = entry # rest" and p: "validate_archive_path (ae_path entry) package"
    and e: "ae_plain entry" "ae_unpacked entry = Some True"
    and le: "sat_add n (ae_size entry) \<le> MAX_EXTRACTED_BYTES"
    by (auto simp: Let_def not_less split: if_splits option.splits bool.splits sum.splits)
  have add: "sat_add n (ae_size entry) = n + ae_size entry"
    using sat_add_limit [OF le m] m by (simp add: sat_add_exact)
  have "inside_package package entry"
    using p e by (auto simp: inside_package_def validate_archive_path_def list_all_iff split: list.splits)
  with 3(1) [OF _ _ refl _ _ _ r] p e le add us show ?case
    by (auto simp: not_less add.assoc)
qed auto

text \<open>
  C37. Only a verified release is installed. When an installation succeeds, its manifest carries the
  release key's signature and is for the configured channel; it names the commit the user asked for,
  which is not the running one; the archive has exactly the size and SHA-256 of the manifest's entry
  for this system; every entry of the archive is a file or directory below the package's own
  directory and together they stay within the limit; the unpacked binary is executable and reports
  the signed version and commit; and only then were the installed files touched.
\<close>

theorem install_verified_only:
  assumes "install_update env busy temporary commit s d = (Inr info, d')"
  shows "\<exists>mb sb m a archive us.
    ue_verify env mb sb \<and> ue_manifest env mb = Some m \<and> rm_channel m = us_channel s
    \<and> info = \<lparr>ri_version = rm_version m, ri_commit = rm_commit m, ri_published = rm_published m\<rparr>
    \<and> rm_commit m = commit \<and> commit \<noteq> ue_commit env
    \<and> a \<in> set (rm_artifacts m) \<and> ue_target env = Some (ra_target a, ra_name a)
    \<and> length archive = ra_size a \<and> ra_size a \<le> MAX_ARCHIVE_BYTES
    \<and> hex_digest (ue_sha256 env archive) = ra_sha256 a
    \<and> ue_archive env archive = Some (map Some us)
    \<and> (\<exists>package. ra_name a = package @ lit ''.tar.gz'' \<and> list_all (inside_package package) us)
    \<and> sum_list (map ae_size us) \<le> MAX_EXTRACTED_BYTES
    \<and> verify_package (ue_package env) info = Inr ()
    \<and> \<not> busy \<and> fst (replace_installation d)"
proof -
  from assms obtain v archive us where b: "\<not> busy"
    and v: "fetch_verified_release env (us_base s) (us_channel s) = Inr v"
    and c: "ri_commit (vf_info v) = commit" "commit \<noteq> ue_commit env" "info = vf_info v"
    and a: "download_artifact env (us_base s) (us_channel s) (vf_artifact v) = Inr archive"
    and x: "extract_archive env archive (ra_name (vf_artifact v)) = Inr us"
    and p: "verify_package (ue_package env) (vf_info v) = Inr ()"
    and r: "fst (replace_installation d)"
    by (auto simp: install_update_def install_release_def split: if_splits sum.splits prod.splits
        bool.splits)
  from fetch_verified_Inr [OF v] obtain mb sb m where m: "ue_verify env mb sb" "ue_manifest env mb = Some m"
    "validate_manifest (ue_target env) (us_channel s) m = Inr v" by blast
  note man = validate_manifest_Inr [OF m(3)]
  from x obtain package entries where e: "strip_suffix (lit ''.tar.gz'') (ra_name (vf_artifact v)) = Some package"
    "ue_archive env archive = Some entries" "extract_entries package 0 entries = Inr us"
    by (auto simp del: lit_simps simp: extract_archive_def split: if_splits option.splits sum.splits)
  have "ra_name (vf_artifact v) = package @ lit ''.tar.gz''"
  proof -
    have "rev (ra_name (vf_artifact v)) = rev (lit ''.tar.gz'') @ rev package"
      using e(1) by (auto simp del: lit_simps simp: strip_suffix_def strip_prefix_def starts_with_iff
          split: if_splits)
    then show ?thesis by (metis rev_append rev_rev_ident)
  qed
  with extract_entries_Inr [OF e(3)] e(2) m man c b p r download_exact [OF a] show ?thesis
    by (intro exI [of _ mb] exI [of _ sb] exI [of _ m] exI [of _ "vf_artifact v"] exI [of _ archive]
        exI [of _ us]) (auto simp del: lit_simps)
qed

section \<open>The files are replaced together or kept\<close>

definition installed :: "(place \<Rightarrow> 'c option) \<Rightarrow> bool" where
  "installed at \<longleftrightarrow>
     at ClientDirectory \<noteq> None \<and> at ExecutableFile \<noteq> None
     \<and> at CandidateClient \<noteq> None \<and> at CandidateSkills \<noteq> None \<and> at CandidateBinary \<noteq> None
     \<and> at PreviousClient = None \<and> at PreviousSkills = None \<and> at PreviousBinary = None"

text \<open>Renames that succeed, and the one that fails.\<close>

lemma rename_ok:
  "dk_at d a = Some x \<Longrightarrow> True \<notin> set (dk_fails d) \<Longrightarrow>
     rename_path a b d = (True, \<lparr>dk_at = (dk_at d)(b := Some x, a := None), dk_fails = tl (dk_fails d)\<rparr>)"
  by (cases d; cases "dk_fails d") (auto simp: rename_path_def)

lemma rename_step:
  "dk_at d a = Some x \<Longrightarrow> dk_fails d = False # fs \<Longrightarrow>
     rename_path a b d = (True, \<lparr>dk_at = (dk_at d)(b := Some x, a := None), dk_fails = fs\<rparr>)"
  by (cases d) (auto simp: rename_path_def)

lemma rename_failed:
  "dk_fails d = True # fs \<Longrightarrow> rename_path a b d = (False, \<lparr>dk_at = dk_at d, dk_fails = fs\<rparr>)"
  by (cases d) (auto simp: rename_path_def)

lemma no_failure_tl: "True \<notin> set fs \<Longrightarrow> True \<notin> set (tl fs)"
  by (cases fs) auto

lemmas replace_defs = replace_installation_def replace_skills_def replace_binary_def
  rollback_client_def rollback_skills_def rollback_directory_def Let_def

lemmas rename_rules = rename_ok rename_step rename_failed no_failure_tl

lemma fails_shape:
  "count_list fs True \<le> 1 \<Longrightarrow>
     True \<notin> set fs \<or> (\<exists>i rest. fs = replicate i False @ True # rest \<and> True \<notin> set rest)"
proof (induction fs)
  case (Cons f fs)
  show ?case
  proof (cases f)
    case True
    then have "count_list fs True = 0" using Cons.prems by simp
    then have "f # fs = replicate 0 False @ True # fs \<and> True \<notin> set fs"
      using True by (simp add: count_list_0_iff)
    then show ?thesis by blast
  next
    case False
    then consider "True \<notin> set fs" | i rest where "fs = replicate i False @ True # rest" "True \<notin> set rest"
      using Cons by auto
    then show ?thesis
    proof cases
      case (2 i rest)
      then have "f # fs = replicate (Suc i) False @ True # rest" using False by simp
      with 2 show ?thesis by blast
    qed (use False in simp)
  qed
qed simp

text \<open>What the user has after the temporary directory is gone.\<close>

definition installation :: "(place \<Rightarrow> 'c option) \<Rightarrow> 'c option \<times> 'c option \<times> 'c option" where
  "installation at = (at ClientDirectory, at SkillsDirectory, at ExecutableFile)"

definition candidates :: "(place \<Rightarrow> 'c option) \<Rightarrow> 'c option \<times> 'c option \<times> 'c option" where
  "candidates at = (at CandidateClient, at CandidateSkills, at CandidateBinary)"

lemma replace_at_most_one:
  assumes "installed at" "count_list fs True \<le> 1"
    and "replace_installation \<lparr>dk_at = at, dk_fails = fs\<rparr> = (fine, d')"
  shows "installation (dk_at d') = (if fine then candidates at else installation at)"
proof -
  obtain cl ex cc cs cb where at: "at ClientDirectory = Some cl" "at ExecutableFile = Some ex"
    "at CandidateClient = Some cc" "at CandidateSkills = Some cs" "at CandidateBinary = Some cb"
    "at PreviousClient = None" "at PreviousSkills = None" "at PreviousBinary = None"
    using assms(1) by (auto simp: installed_def)
  note run = assms(3) [unfolded replace_defs]
  from fails_shape [OF assms(2)] show ?thesis
  proof (elim disjE exE conjE)
    assume "True \<notin> set fs"
    with run at show ?thesis
      by (cases "at SkillsDirectory") (auto simp: rename_rules installation_def candidates_def)
  next
    fix i rest assume fs: "fs = replicate i False @ True # rest" and rest: "True \<notin> set rest"
    consider "i = 0" | "i = 1" | "i = 2" | "i = 3" | "i = 4" | "i = 5" | "6 \<le> i" by linarith
    then show ?thesis
    proof cases
      case 1
      with run at fs rest show ?thesis
        by (auto simp: rename_rules installation_def candidates_def)
    next
      case 2
      with run at fs rest show ?thesis
        by (auto simp: rename_rules installation_def candidates_def)
    next
      case 3
      with run at fs rest show ?thesis
        by (cases "at SkillsDirectory")
          (auto simp: rename_rules installation_def candidates_def numeral_2_eq_2)
    next
      case 4
      with run at fs rest show ?thesis
        by (cases "at SkillsDirectory")
          (auto simp: rename_rules installation_def candidates_def numeral_3_eq_3)
    next
      case 5
      with run at fs rest show ?thesis
        by (cases "at SkillsDirectory")
          (auto simp: rename_rules installation_def candidates_def eval_nat_numeral)
    next
      case 6
      with run at fs rest show ?thesis
        by (cases "at SkillsDirectory")
          (auto simp: rename_rules installation_def candidates_def eval_nat_numeral)
    next
      case 7
      then obtain j where "i = 6 + j" by (metis le_iff_add)
      with run at fs rest show ?thesis
        by (cases "at SkillsDirectory")
          (auto simp: rename_rules installation_def candidates_def eval_nat_numeral)
    qed
  qed
qed

lemma installation_dropped [simp]: "installation (dk_at (drop_temporary d)) = installation (dk_at d)"
  by (simp add: installation_def drop_temporary_def)

text \<open>
  C36. An update replaces the installation as a whole or not at all. With the installation and the
  package in place and at most one rename failing, a successful update leaves the new browser client,
  skills and binary together, and an update that ends in any error, at whatever step, leaves exactly
  the client, the skills (or their absence) and the binary that were installed before.
\<close>

theorem install_atomic:
  assumes "installed (dk_at d)" and "count_list (dk_fails d) True \<le> 1"
    and "install_update env busy temporary commit s d = (r, d')"
  shows "installation (dk_at d') =
    (case r of Inr _ \<Rightarrow> candidates (dk_at d) | Inl _ \<Rightarrow> installation (dk_at d))"
proof (cases "d' = d")
  case True
  show ?thesis
  proof (cases r)
    case (Inr info)
    then obtain release d1 where "install_release env s release d = (Inr info, d1)"
        "d' = drop_temporary d1"
      using assms(3) by (auto simp: install_update_def split: if_splits sum.splits prod.splits)
    moreover have "installation (dk_at d1) = candidates (dk_at d)"
      using calculation(1) replace_at_most_one [OF assms(1,2)] by (cases d)
        (auto simp: install_release_def split: sum.splits prod.splits bool.splits)
    ultimately show ?thesis by (simp add: Inr)
  qed (simp add: True)
next
  case False
  then obtain release d1 where i: "install_release env s release d = (r, d1)" "d' = drop_temporary d1"
    using assms(3) by (auto simp: install_update_def split: if_splits sum.splits prod.splits)
  obtain at fs where d: "d = \<lparr>dk_at = at, dk_fails = fs\<rparr>" by (cases d)
  show ?thesis
    using i replace_at_most_one [of at fs] assms(1,2)
    by (auto simp: install_release_def d split: sum.splits prod.splits bool.splits)
qed

text \<open>
  The rollback is one rename of the previous files. When it fails too, the function has only the copy
  in the temporary directory, and that is removed: here the browser client is gone.
\<close>

lemma failed_rollback_loses_client:
  "installed at \<Longrightarrow>
     dk_at (drop_temporary (snd (replace_installation \<lparr>dk_at = at, dk_fails = [False, True, True]\<rparr>)))
       ClientDirectory = None"
  by (auto simp: installed_def replace_defs rename_path_def drop_temporary_def)

section \<open>The channel\<close>

text \<open>
  A change of the channel is all or nothing: the service runs on the new channel exactly when the
  call succeeds, and the next start runs on the same channel as this one unless the settings file
  was replaced by a write that then reported an error.
\<close>

lemma channel_survives_restart:
  assumes "us_channel s = load_update_channel (reread (us_settings s)) startup"
    and "\<And>e. outcome \<noteq> Fails_after_rename e"
    and "set_channel busy outcome channel s = (r, s')"
  shows "us_channel s' = load_update_channel (reread (us_settings s')) startup
    \<and> us_channel s' = (case r of Inr _ \<Rightarrow> channel | Inl _ \<Rightarrow> us_channel s)"
  using assms(1) assms(3) [symmetric]
  by (cases outcome)
    (auto simp: assms(2) set_channel_def persist_document_def reread_def load_update_channel_def
      split: if_splits)

section \<open>An update to evaluate\<close>

definition example_manifest :: release_manifest where
  "example_manifest = \<lparr>rm_schema = 1, rm_channel = lit ''main'', rm_version = lit ''2.0.0'',
     rm_commit = replicate 40 97, rm_published = lit ''now'',
     rm_artifacts = [\<lparr>ra_target = lit ''t'', ra_name = lit ''p.tar.gz'',
                      ra_sha256 = replicate 64 48, ra_size = 2\<rparr>]\<rparr>"

definition example_update :: update_env where
  "example_update =
     \<lparr>ue_get = \<lambda>_. Some \<lparr>rp_length = None, rp_chunks = [Some ''xy'']\<rparr>,
      ue_verify = \<lambda>_ _. True, ue_manifest = \<lambda>_. Some example_manifest,
      ue_sha256 = \<lambda>_. replicate 32 (char_of (0 :: nat)), ue_write = \<lambda>_ _. True,
      ue_archive = \<lambda>_. Some [Some \<lparr>ae_path = [Some (lit ''p''), Some (lit ''term-server'')],
                                   ae_plain = True, ae_size = 7, ae_unpacked = Some True\<rparr>],
      ue_synced = True,
      ue_package = \<lparr>pf_complete = True, pf_mode = Some 73,
                    pf_version = Some (True, lit ''2.0.0'' @ replicate 40 97)\<rparr>,
      ue_workdir = True, ue_target = Some (lit ''t'', lit ''p.tar.gz''),
      ue_commit = replicate 40 98\<rparr>"

definition example_service :: update_service where
  "example_service = \<lparr>us_channel = lit ''main'', us_base = lit ''https://r'', us_installed = True,
     us_reason = None, us_settings = None\<rparr>"

definition example_disk :: "bool list \<Rightarrow> nat disk" where
  "example_disk fs = \<lparr>dk_at = (\<lambda>p. case p of
       ClientDirectory \<Rightarrow> Some 1 | SkillsDirectory \<Rightarrow> None | ExecutableFile \<Rightarrow> Some 2
     | CandidateClient \<Rightarrow> Some 11 | CandidateSkills \<Rightarrow> Some 13 | CandidateBinary \<Rightarrow> Some 12
     | _ \<Rightarrow> None), dk_fails = fs\<rparr>"

lemma utf8_len_replicate: "utf8_len (replicate n c) = n * scalar_width c"
  by (induction n) simp_all

lemma contains_self: "contains_str p (p @ s)"
proof (cases "p @ s")
  case Nil
  then show ?thesis by simp
next
  case (Cons c t)
  then have "starts_with (c # t) p" by (metis starts_with_iff)
  with Cons show ?thesis by simp
qed

lemma contains_later: "contains_str p s \<Longrightarrow> contains_str p (q @ s)"
  by (induction q) auto

abbreviation example_artifact :: release_artifact where
  "example_artifact \<equiv> \<lparr>ra_target = lit ''t'', ra_name = lit ''p.tar.gz'',
     ra_sha256 = replicate 64 48, ra_size = 2\<rparr>"

abbreviation example_info :: release_info where
  "example_info \<equiv> \<lparr>ri_version = lit ''2.0.0'', ri_commit = replicate 40 97, ri_published = lit ''now''\<rparr>"

lemma example_fields:
  "ue_verify example_update mb sb = True" "ue_manifest example_update mb = Some example_manifest"
  "ue_target example_update = Some (lit ''t'', lit ''p.tar.gz'')"
  "us_channel example_service = lit ''main''" "us_installed example_service = True"
  "ue_commit example_update = replicate 40 98"
  by (simp_all add: example_update_def example_service_def)

lemma example_validate:
  "validate_manifest (Some (lit ''t'', lit ''p.tar.gz'')) (lit ''main'') example_manifest
     = Inr \<lparr>vf_info = example_info, vf_artifact = example_artifact\<rparr>"
proof -
  have v: "valid_commit (replicate 40 97)"
    by (simp add: valid_commit_def utf8_len_replicate scalar_width_def is_hex_lower_def list_all_iff)
  have h: "utf8_len (replicate 64 48) = 64" "list_all is_hex_lower (replicate 64 48)"
    by (simp_all add: utf8_len_replicate scalar_width_def is_hex_lower_def list_all_iff)
  show ?thesis
    by (simp add: validate_manifest_def example_manifest_def v h scalar_width_def
        is_ascii_alphanumeric_def is_ascii_alphabetic_def is_ascii_digit_def MAX_ARCHIVE_BYTES_def)
qed

lemma example_release:
  "fetch_verified_release example_update b (lit ''main'')
     = Inr \<lparr>vf_info = example_info, vf_artifact = example_artifact\<rparr>"
proof -
  have s: "fetch_small_file example_update b c name n = Inr ''xy''" if "1 < n" for c name n
    using that by (simp add: fetch_small_file_def example_update_def)
  have m: "1 < MAX_METADATA_BYTES" by (simp add: MAX_METADATA_BYTES_def)
  show ?thesis
    by (simp add: fetch_verified_release_def s [OF m] s example_fields example_validate
        del: lit_simps)
qed

lemma example_install:
  "fst (install_update example_update False True (replicate 40 97) example_service (example_disk fs))
     = (if fst (replace_installation (example_disk fs)) then Inr example_info else Inl InstallFailed)"
proof -
  have hex: "hex_digest (replicate 32 (char_of (0 :: nat))) = replicate 64 48"
  proof -
    have "concat (replicate 32 [48, 48]) = replicate 64 (48 :: nat)" by code_simp
    then show ?thesis by (simp add: hex_digest_def hex_scalar_def)
  qed
  have d: "download_artifact example_update b c example_artifact = Inr ''xy''" for b c
    using hex by (simp add: download_artifact_def example_update_def sat_add_def u64_max_def
        MAX_ARCHIVE_BYTES_def )
  have x: "\<exists>us. extract_archive example_update ''xy'' (lit ''p.tar.gz'') = Inr us"
    by (simp add: extract_archive_def example_update_def strip_suffix_def strip_prefix_def
        starts_with_def validate_archive_path_def sat_add_def u64_max_def MAX_EXTRACTED_BYTES_def)
  have f: "ue_package example_update = \<lparr>pf_complete = True, pf_mode = Some 73,
      pf_version = Some (True, lit ''2.0.0'' @ replicate 40 97)\<rparr>"
    by (simp add: example_update_def)
  have "contains_str (lit ''2.0.0'') (lit ''2.0.0'' @ replicate 40 97)"
    "contains_str (replicate 40 97) (lit ''2.0.0'' @ replicate 40 97)"
    using contains_self [of "lit ''2.0.0''" "replicate 40 97"]
      contains_later [OF contains_self [of "replicate 40 97" "[]"], of "lit ''2.0.0''"] by simp_all
  then have p: "verify_package (ue_package example_update) example_info = Inr ()"
    by (simp add: f verify_package_def del: lit_simps contains_str.simps)
  have n: "replicate 40 (97 :: nat) \<noteq> replicate 40 98" by simp
  obtain us where us: "extract_archive example_update ''xy'' (lit ''p.tar.gz'') = Inr us" using x by blast
  show ?thesis
    by (simp add: install_update_def install_release_def example_fields example_release d us p n
        case_prod_unfold del: lit_simps)
qed

lemma install_verified_only_witness:
  "\<exists>a. a \<in> set (rm_artifacts example_manifest) \<and> ra_size a \<le> MAX_ARCHIVE_BYTES
     \<and> rm_commit example_manifest = replicate 40 97 \<and> fst (replace_installation (example_disk []))"
proof -
  have r: "fst (replace_installation (example_disk []))"
    by (simp add: replace_defs rename_path_def example_disk_def)
  then obtain d' where "install_update example_update False True (replicate 40 97) example_service
      (example_disk []) = (Inr example_info, d')"
    using example_install [of "[]"] by (metis prod.collapse)
  from install_verified_only [OF this] obtain mb m a where
    "ue_manifest example_update mb = Some m" "rm_commit m = replicate 40 97"
    "a \<in> set (rm_artifacts m)" "ra_size a \<le> MAX_ARCHIVE_BYTES" by blast
  with r show ?thesis by (metis example_fields(2) option.inject)
qed

lemma install_atomic_witness:
  "let (r, d') = install_update example_update False True (replicate 40 97) example_service
      (example_disk [False, False, True])
   in r = Inl InstallFailed \<and> installation (dk_at d') = (Some 1, None, Some 2)"
proof -
  have i: "installed (dk_at (example_disk [False, False, True]))"
    "count_list (dk_fails (example_disk [False, False, True])) True \<le> 1"
    by (simp_all add: installed_def example_disk_def)
  obtain r d' where x: "install_update example_update False True (replicate 40 97) example_service
      (example_disk [False, False, True]) = (r, d')" by fastforce
  have "\<not> fst (replace_installation (example_disk [False, False, True]))"
    by (simp add: replace_defs rename_path_def example_disk_def)
  with example_install [of "[False, False, True]"] x have "r = Inl InstallFailed" by simp
  with install_atomic [OF i x] x show ?thesis
    by (simp add: installation_def example_disk_def)
qed

end
