(* ===== verification/EscapeState.thy ===== *)
theory EscapeState
  imports TextClean
begin

text \<open>
  What \<open>src/src/terminal_state.rs\<close> keeps beside the emulator's screen because the \<open>vt100\<close> package does
  not: the escape sequence a byte stream is inside of (\<open>EscapeSequence\<close>), the parts of a control
  sequence (\<open>csi_parts\<close>, \<open>numeric_params\<close>), the switches of the alternate screen (\<open>AlternateMode\<close>), the
  stacks of the Kitty keyboard protocol (\<open>KittyKeyboardState\<close>), the modes, margins and attributes a
  reconnecting browser must get back (\<open>ExecutionState\<close>), and the answers to a program's queries
  (\<open>terminal_query_response\<close>).

  The emulator's screen is the parameter \<open>scr\<close>: a record of the functions of \<open>vt100::Screen\<close> this code
  calls. Rows, columns and modes are the numbers below \<open>2 ^ 16\<close> of their \<open>u16\<close>; the keyboard flags,
  which are combined bit by bit, are words.
\<close>

unbundle bit_operations_syntax

section \<open>The screen\<close>

datatype mouse_protocol = MouseNone | MousePress | MousePressRelease | MouseButtonMotion | MouseAnyMotion

record 's screen_ops =
  sc_size :: "'s \<Rightarrow> nat \<times> nat"
  sc_cursor :: "'s \<Rightarrow> nat \<times> nat"
  sc_alternate :: "'s \<Rightarrow> bool"
  sc_hide_cursor :: "'s \<Rightarrow> bool"
  sc_mouse :: "'s \<Rightarrow> mouse_protocol"
  sc_input_modes :: "'s \<Rightarrow> bytes"

definition u16_max :: nat where "u16_max = 65535"

section \<open>Escape sequences\<close>

abbreviation byte_in :: "byte \<Rightarrow> nat \<Rightarrow> nat \<Rightarrow> bool" where
  "byte_in b lo hi \<equiv> lo \<le> byte_val b \<and> byte_val b \<le> hi"

datatype escape_sequence =
  SeqGround | SeqEscape | SeqIntermediate | SeqCsi | SeqOsc bool | SeqString bool

fun sequence_advance :: "escape_sequence \<Rightarrow> byte \<Rightarrow> escape_sequence" where
  "sequence_advance SeqGround b =
     (if byte_val b = 0x1b then SeqEscape
      else if byte_val b = 0x9b then SeqCsi
      else if byte_val b = 0x9d then SeqOsc False
      else if byte_val b \<in> {0x90, 0x98, 0x9e, 0x9f} then SeqString False
      else SeqGround)"
| "sequence_advance SeqEscape b =
     (if b = CHR ''['' then SeqCsi
      else if b = CHR '']'' then SeqOsc False
      else if b \<in> {CHR ''P'', CHR ''X'', CHR ''^'', CHR ''_''} then SeqString False
      else if byte_in b 0x20 0x2f then SeqIntermediate
      else if byte_val b = 0x1b then SeqEscape
      else SeqGround)"
| "sequence_advance SeqIntermediate b =
     (if byte_in b 0x20 0x2f then SeqIntermediate
      else if byte_val b = 0x1b then SeqEscape
      else SeqGround)"
| "sequence_advance SeqCsi b =
     (if byte_val b \<in> {0x18, 0x1a} then SeqGround
      else if byte_val b = 0x1b then SeqEscape
      else if byte_in b 0x40 0x7e then SeqGround
      else SeqCsi)"
| "sequence_advance (SeqOsc escape) b =
     (if byte_val b \<in> {0x07, 0x9c} then SeqGround
      else if b = CHR 0x5C \<and> escape then SeqGround
      else SeqOsc (byte_val b = 0x1b))"
| "sequence_advance (SeqString escape) b =
     (if byte_val b = 0x9c then SeqGround
      else if b = CHR 0x5C \<and> escape then SeqGround
      else SeqString (byte_val b = 0x1b))"

text \<open>The continuation bytes a leading byte of UTF-8 announces.\<close>

definition utf8_expected :: "byte \<Rightarrow> nat option" where
  "utf8_expected b =
     (if byte_in b 0xc2 0xdf then Some 1
      else if byte_in b 0xe0 0xef then Some 2
      else if byte_in b 0xf0 0xf4 then Some 3
      else None)"

definition is_printable_byte :: "byte \<Rightarrow> bool" where
  "is_printable_byte b \<longleftrightarrow> 0x20 \<le> byte_val b \<and> byte_val b \<noteq> 0x7f \<and> \<not> byte_in b 0x80 0x9f"

section \<open>Control sequences\<close>

abbreviation ESCAPE :: byte where "ESCAPE \<equiv> CHR 0x1B"

definition csi :: "bytes \<Rightarrow> bytes" where "csi body = ESCAPE # CHR ''['' # body"

text \<open>A number as \<open>format!\<close> writes it, and as \<open>str::parse\<close> reads a \<open>u16\<close> from bytes.\<close>

definition dec_bytes :: "nat \<Rightarrow> bytes" where "dec_bytes n = map char_of (dec_digits n)"

definition parse_u16 :: "bytes \<Rightarrow> nat option" where
  "parse_u16 bs =
     (case parse_usize (map byte_val bs) of
        None \<Rightarrow> None
      | Some n \<Rightarrow> if n \<le> u16_max then Some n else None)"

text \<open>Parameters, intermediate bytes and the final byte.\<close>

definition csi_body :: "bytes \<Rightarrow> bytes option" where
  "csi_body sequence =
     (if starts_with sequence [ESCAPE, CHR ''[''] then Some (drop 2 sequence)
      else if starts_with sequence [CHR 0x9B] then Some (drop 1 sequence)
      else None)"

definition csi_parts :: "bytes \<Rightarrow> (bytes \<times> bytes \<times> byte) option" where
  "csi_parts sequence =
     (case csi_body sequence of
        None \<Rightarrow> None
      | Some body \<Rightarrow>
          if body = [] then None
          else if \<not> byte_in (last body) 0x40 0x7e then None
          else (let before = butlast body in
                Some (takeWhile (\<lambda>b. \<not> byte_in b 0x20 0x2f) before,
                      dropWhile (\<lambda>b. \<not> byte_in b 0x20 0x2f) before, last body)))"

definition numeric_params :: "bytes \<Rightarrow> nat option list" where
  "numeric_params parameters =
     (if parameters = [] then [] else map parse_u16 (split_on (CHR '';'') parameters))"

text \<open>\<open>.get(i).copied().flatten()\<close>.\<close>

definition param :: "nat option list \<Rightarrow> nat \<Rightarrow> nat option" where
  "param ps i = (if i < length ps then ps ! i else None)"

definition param_or :: "nat \<Rightarrow> nat option list \<Rightarrow> nat \<Rightarrow> nat" where
  "param_or d ps i = (case param ps i of None \<Rightarrow> d | Some n \<Rightarrow> n)"

text \<open>Does a change of attributes reset them first? The parameters of a colour are skipped.\<close>

function sgr_resets_from :: "bytes list \<Rightarrow> nat \<Rightarrow> bool" where
  "sgr_resets_from ps i =
     (if length ps \<le> i then False
      else (case parse_u16 (ps ! i) of
              None \<Rightarrow> if ps ! i = [] then True else sgr_resets_from ps (i + 1)
            | Some v \<Rightarrow>
                if v = 0 then True
                else if v \<in> {38, 48, 58}
                then (case (if i + 1 < length ps then parse_u16 (ps ! (i + 1)) else None) of
                        None \<Rightarrow> sgr_resets_from ps (i + 1)
                      | Some mode \<Rightarrow>
                          sgr_resets_from ps (i + (if mode = 2 then 5 else if mode = 5 then 3 else 1)))
                else sgr_resets_from ps (i + 1)))"
  by pat_completeness auto
termination by (relation "measure (\<lambda>(ps, i). length ps - i)") auto

declare sgr_resets_from.simps [simp del]

definition sgr_resets :: "bytes \<Rightarrow> bool" where
  "sgr_resets parameters \<longleftrightarrow>
     parameters = [] \<or> sgr_resets_from (split_on (CHR '';'') parameters) 0"

section \<open>The alternate screen\<close>

datatype alternate_mode = AltNone | Enter47 | Enter1047 | Enter1049 | Exit47 | Exit1047 | Exit1049

datatype alternate_entry = Mode47 | Mode1047 | Mode1049

fun alternate_mode_entry :: "alternate_mode \<Rightarrow> alternate_entry option" where
  "alternate_mode_entry Enter47 = Some Mode47"
| "alternate_mode_entry Enter1047 = Some Mode1047"
| "alternate_mode_entry Enter1049 = Some Mode1049"
| "alternate_mode_entry _ = None"

definition exits_alternate :: "alternate_mode \<Rightarrow> bool" where
  "exits_alternate m \<longleftrightarrow> m \<in> {Exit47, Exit1047, Exit1049}"

fun entry_sequence :: "alternate_entry \<Rightarrow> bytes" where
  "entry_sequence Mode47 = csi ''?47h''"
| "entry_sequence Mode1047 = csi ''?1047h''"
| "entry_sequence Mode1049 = csi ''?1049h''"

text \<open>The modes are compared as text; bytes that are not UTF-8 have no mode.\<close>

definition alternate_mode_of :: "bytes \<Rightarrow> alternate_mode" where
  "alternate_mode_of sequence =
     (if length sequence < 5
       \<or> \<not> (starts_with sequence (csi ''?'') \<or> starts_with sequence [CHR 0x9B, CHR ''?''])
      then AltNone
      else if last sequence \<notin> {CHR ''h'', CHR ''l''} then AltNone
      else (let modes = butlast (drop (if hd sequence = ESCAPE then 3 else 2) sequence);
                parts = split_on (CHR '';'') modes;
                enters = (last sequence = CHR ''h'') in
            if utf8_strict modes = None then AltNone
            else if ''1049'' \<in> set parts then (if enters then Enter1049 else Exit1049)
            else if ''1047'' \<in> set parts then (if enters then Enter1047 else Exit1047)
            else if ''47'' \<in> set parts then (if enters then Enter47 else Exit47)
            else AltNone))"

definition erases_scrollback :: "bytes \<Rightarrow> bool" where
  "erases_scrollback sequence \<longleftrightarrow> sequence = csi ''3J'' \<or> sequence = [CHR 0x9B, CHR ''3'', CHR ''J'']"

section \<open>The Kitty keyboard protocol\<close>

record kitty_keyboard =
  kk_flags :: "16 word"
  kk_main_flags :: "16 word"
  kk_alt_flags :: "16 word"
  kk_main_stack :: "16 word list"
  kk_alt_stack :: "16 word list"

definition KITTY_KEYBOARD_STACK_LIMIT :: nat where "KITTY_KEYBOARD_STACK_LIMIT = 16"

definition kitty_default :: kitty_keyboard where
  "kitty_default = \<lparr>kk_flags = 0, kk_main_flags = 0, kk_alt_flags = 0,
     kk_main_stack = [], kk_alt_stack = []\<rparr>"

definition kitty_stack :: "bool \<Rightarrow> kitty_keyboard \<Rightarrow> 16 word list" where
  "kitty_stack alternate k = (if alternate then kk_alt_stack k else kk_main_stack k)"

definition set_kitty_stack :: "bool \<Rightarrow> 16 word list \<Rightarrow> kitty_keyboard \<Rightarrow> kitty_keyboard" where
  "set_kitty_stack alternate st k =
     (if alternate then k\<lparr>kk_alt_stack := st\<rparr> else k\<lparr>kk_main_stack := st\<rparr>)"

text \<open>A switch of the screen keeps the flags of the screen that is left.\<close>

definition kitty_switch :: "alternate_mode \<Rightarrow> kitty_keyboard \<Rightarrow> kitty_keyboard" where
  "kitty_switch m k =
     (if m \<in> {Enter47, Enter1047, Enter1049}
      then k\<lparr>kk_main_flags := kk_flags k, kk_flags := kk_alt_flags k\<rparr>
      else if m \<in> {Exit47, Exit1047, Exit1049}
      then k\<lparr>kk_alt_flags := kk_flags k, kk_flags := kk_main_flags k\<rparr>
      else k)"

text \<open>Stacks grow at the end of the list; \<open>count\<close> entries are popped as long as there are any.\<close>

fun kitty_pop :: "nat \<Rightarrow> 16 word \<Rightarrow> 16 word list \<Rightarrow> 16 word \<times> 16 word list" where
  "kitty_pop 0 flags st = (flags, st)"
| "kitty_pop (Suc count) flags st =
     (if st = [] then (flags, st) else kitty_pop count (last st) (butlast st))"

definition kitty_set :: "nat option list \<Rightarrow> kitty_keyboard \<Rightarrow> kitty_keyboard" where
  "kitty_set ps k =
     (let flags = of_nat (param_or 0 ps 0);
          mode = (case param ps 1 of None \<Rightarrow> 1 | Some m \<Rightarrow> if 0 < m then m else 1) in
      if mode = 1 then k\<lparr>kk_flags := flags\<rparr>
      else if mode = 2 then k\<lparr>kk_flags := kk_flags k OR flags\<rparr>
      else if mode = 3 then k\<lparr>kk_flags := kk_flags k AND NOT flags\<rparr>
      else k)"

definition kitty_push :: "bool \<Rightarrow> 16 word \<Rightarrow> kitty_keyboard \<Rightarrow> kitty_keyboard" where
  "kitty_push alternate flags k =
     (let st = kitty_stack alternate k;
          st = (if KITTY_KEYBOARD_STACK_LIMIT \<le> length st then tl st else st) in
      (set_kitty_stack alternate (st @ [kk_flags k]) k)\<lparr>kk_flags := flags\<rparr>)"

definition kitty_pop_flags :: "bool \<Rightarrow> nat \<Rightarrow> kitty_keyboard \<Rightarrow> kitty_keyboard" where
  "kitty_pop_flags alternate count k =
     (let (flags, st) = kitty_pop count (kk_flags k) (kitty_stack alternate k) in
      (set_kitty_stack alternate st k)\<lparr>kk_flags := if st = [] then 0 else flags\<rparr>)"

definition kitty_observe :: "bytes \<Rightarrow> bool \<Rightarrow> kitty_keyboard \<Rightarrow> kitty_keyboard" where
  "kitty_observe sequence alternate k =
     (if sequence = [ESCAPE, CHR ''c''] then kitty_default
      else (let k = kitty_switch (alternate_mode_of sequence) k in
            case csi_parts sequence of
              None \<Rightarrow> k
            | Some (parameters, intermediates, final) \<Rightarrow>
                if final \<noteq> CHR ''u'' \<or> intermediates \<noteq> [] \<or> parameters = [] then k
                else (let ps = numeric_params (tl parameters) in
                      if hd parameters = CHR ''='' then kitty_set ps k
                      else if hd parameters = CHR ''>''
                      then kitty_push alternate (of_nat (param_or 0 ps 0)) k
                      else if hd parameters = CHR ''<''
                      then kitty_pop_flags alternate (max (param_or 1 ps 0) 1) k
                      else k)))"

definition write_kitty_keyboard_restore :: "16 word \<Rightarrow> 16 word list \<Rightarrow> bytes" where
  "write_kitty_keyboard_restore flags st =
     (if flags = 0 \<and> st = [] then []
      else case st of
        [] \<Rightarrow> csi (''='' @ dec_bytes (unat flags) @ ''u'')
      | first # remaining \<Rightarrow>
          csi (''='' @ dec_bytes (unat first) @ ''u'')
          @ concat (map (\<lambda>saved. csi (''>'' @ dec_bytes (unat saved) @ ''u'')) remaining)
          @ csi (''>'' @ dec_bytes (unat flags) @ ''u''))"

definition write_buffer_restore :: "kitty_keyboard \<Rightarrow> bool \<Rightarrow> bool \<Rightarrow> bytes" where
  "write_buffer_restore k alternate_buffer active_alternate =
     write_kitty_keyboard_restore
       (if alternate_buffer = active_alternate then kk_flags k
        else if active_alternate then kk_main_flags k else kk_alt_flags k)
       (kitty_stack alternate_buffer k)"

definition write_hidden_alt_restore :: "kitty_keyboard \<Rightarrow> bytes" where
  "write_hidden_alt_restore k =
     (if kk_alt_flags k = 0 \<and> kk_alt_stack k = [] then []
      else csi ''?47h'' @ write_kitty_keyboard_restore (kk_alt_flags k) (kk_alt_stack k)
           @ csi ''?47l'')"

section \<open>Modes, margins and attributes\<close>

datatype mouse_encoding = MouseDefault | MouseSgr | MouseSgrPixels

record saved_cursor =
  sv_row :: nat
  sv_col :: nat
  sv_origin :: bool
  sv_attrs :: "bytes list"

record execution_state =
  ex_rows :: nat
  ex_region :: "(nat \<times> nat) option"
  ex_origin :: bool
  ex_insert :: bool
  ex_auto_wrap :: bool
  ex_reverse_wrap :: bool
  ex_focus :: bool
  ex_alternate_scroll :: bool
  ex_mouse :: mouse_encoding
  ex_synchronized :: bool
  ex_cursor_style :: nat
  ex_attrs :: "bytes list"
  ex_attrs_bytes :: nat
  ex_saved :: "saved_cursor option"

definition MAX_TRACKED_SGR_BYTES :: nat where "MAX_TRACKED_SGR_BYTES = 64 * 1024"

definition execution_new :: "nat \<Rightarrow> execution_state" where
  "execution_new rows = \<lparr>ex_rows = rows, ex_region = None, ex_origin = False, ex_insert = False,
     ex_auto_wrap = True, ex_reverse_wrap = False, ex_focus = False, ex_alternate_scroll = False,
     ex_mouse = MouseDefault, ex_synchronized = False, ex_cursor_style = 0, ex_attrs = [],
     ex_attrs_bytes = 0, ex_saved = None\<rparr>"

definition save_cursor :: "nat \<times> nat \<Rightarrow> execution_state \<Rightarrow> execution_state" where
  "save_cursor cursor e =
     e\<lparr>ex_saved := Some \<lparr>sv_row = fst cursor, sv_col = snd cursor, sv_origin = ex_origin e,
                        sv_attrs = ex_attrs e\<rparr>\<rparr>"

definition restore_cursor :: "execution_state \<Rightarrow> execution_state" where
  "restore_cursor e =
     (case ex_saved e of
        None \<Rightarrow> e
      | Some s \<Rightarrow> e\<lparr>ex_origin := sv_origin s, ex_attrs := sv_attrs s,
                     ex_attrs_bytes := sum_list (map length (sv_attrs s))\<rparr>)"

definition observe_sgr :: "bytes \<Rightarrow> bytes \<Rightarrow> execution_state \<Rightarrow> execution_state" where
  "observe_sgr sequence parameters e =
     (let ps = numeric_params parameters;
          e = (if sgr_resets parameters then e\<lparr>ex_attrs := [], ex_attrs_bytes := 0\<rparr> else e) in
      if parameters = [] \<or> length ps = 1 \<and> param_or 0 ps 0 = 0 then e
      else (let e = (if MAX_TRACKED_SGR_BYTES < sat_add (ex_attrs_bytes e) (length sequence)
                     then e\<lparr>ex_attrs := [], ex_attrs_bytes := 0\<rparr> else e) in
            e\<lparr>ex_attrs := ex_attrs e @ [sequence],
              ex_attrs_bytes := ex_attrs_bytes e + length sequence\<rparr>))"

definition set_region :: "nat option list \<Rightarrow> execution_state \<Rightarrow> execution_state" where
  "set_region ps e =
     (let upper = max (param_or 1 ps 0) 1; bottom = min (param_or (ex_rows e) ps 1) (ex_rows e) in
      e\<lparr>ex_region := if upper < bottom then Some (upper - 1, bottom - 1) else None\<rparr>)"

definition set_ansi_mode :: "bool \<Rightarrow> nat \<Rightarrow> execution_state \<Rightarrow> execution_state" where
  "set_ansi_mode enabled mode e = (if mode = 4 then e\<lparr>ex_insert := enabled\<rparr> else e)"

definition set_dec_mode :: "bool \<Rightarrow> nat \<Rightarrow> execution_state \<Rightarrow> execution_state" where
  "set_dec_mode enabled mode e =
     (if mode = 6 then e\<lparr>ex_origin := enabled\<rparr>
      else if mode = 7 then e\<lparr>ex_auto_wrap := enabled\<rparr>
      else if mode = 45 then e\<lparr>ex_reverse_wrap := enabled\<rparr>
      else if mode = 1004 then e\<lparr>ex_focus := enabled\<rparr>
      else if mode = 1007 then e\<lparr>ex_alternate_scroll := enabled\<rparr>
      else if mode = 1006 then e\<lparr>ex_mouse := if enabled then MouseSgr else MouseDefault\<rparr>
      else if mode = 1016 then e\<lparr>ex_mouse := if enabled then MouseSgrPixels else MouseDefault\<rparr>
      else if mode = 2026 then e\<lparr>ex_synchronized := enabled\<rparr>
      else e)"

definition flattened :: "'a option list \<Rightarrow> 'a list" where
  "flattened ps = List.map_filter id ps"

definition execution_observe ::
    "'s screen_ops \<Rightarrow> bytes \<Rightarrow> 's \<Rightarrow> execution_state \<Rightarrow> execution_state" where
  "execution_observe scr sequence screen e =
     (let e = e\<lparr>ex_rows := fst (sc_size scr screen)\<rparr> in
      if sequence = [ESCAPE, CHR ''c''] then execution_new (ex_rows e)
      else case csi_parts sequence of
        None \<Rightarrow>
          if sequence = [ESCAPE, CHR ''7''] then save_cursor (sc_cursor scr screen) e
          else if sequence = [ESCAPE, CHR ''8''] then restore_cursor e
          else e
      | Some (parameters, intermediates, final) \<Rightarrow>
          if intermediates = [] \<and> final = CHR ''r'' then set_region (numeric_params parameters) e
          else if intermediates = [] \<and> final \<in> {CHR ''h'', CHR ''l''} then
            (if \<not> starts_with parameters ''?''
             then fold (set_ansi_mode (final = CHR ''h'')) (flattened (numeric_params parameters)) e
             else fold (set_dec_mode (final = CHR ''h''))
                    (flattened (numeric_params (tl parameters))) e)
          else if intermediates = '' '' \<and> final = CHR ''q'' then
            e\<lparr>ex_cursor_style := min (param_or 0 (numeric_params parameters) 0) 6\<rparr>
          else if intermediates = [] \<and> final = CHR ''m'' then observe_sgr sequence parameters e
          else if intermediates = [] \<and> final = CHR ''s'' \<and> parameters = []
          then save_cursor (sc_cursor scr screen) e
          else if intermediates = [] \<and> final = CHR ''u'' \<and> parameters = [] then restore_cursor e
          else if intermediates = ''!'' \<and> final = CHR ''p'' then execution_new (ex_rows e)
          else e)"

subsection \<open>Writing the state back\<close>

definition write_ansi_mode :: "nat \<Rightarrow> bool \<Rightarrow> bytes" where
  "write_ansi_mode mode enabled = csi (dec_bytes mode @ (if enabled then ''h'' else ''l''))"

definition write_dec_mode :: "nat \<Rightarrow> bool \<Rightarrow> bytes" where
  "write_dec_mode mode enabled = csi (''?'' @ dec_bytes mode @ (if enabled then ''h'' else ''l''))"

definition write_attrs :: "bytes list \<Rightarrow> bytes" where
  "write_attrs attrs = csi ''m'' @ concat attrs"

definition write_scroll_region :: "execution_state \<Rightarrow> bytes" where
  "write_scroll_region e =
     (case ex_region e of
        None \<Rightarrow> csi ''r''
      | Some (upper, bottom) \<Rightarrow> csi (dec_bytes (upper + 1) @ '';'' @ dec_bytes (bottom + 1) @ ''r''))"

definition region_row :: "execution_state \<Rightarrow> bool \<Rightarrow> nat \<Rightarrow> nat" where
  "region_row e origin row =
     (if origin then row - (case ex_region e of None \<Rightarrow> 0 | Some (upper, _) \<Rightarrow> upper) else row)"

definition write_cursor_position :: "execution_state \<Rightarrow> nat \<Rightarrow> nat \<Rightarrow> bool \<Rightarrow> bytes" where
  "write_cursor_position e row col origin =
     csi (dec_bytes (region_row e origin row + 1) @ '';'' @ dec_bytes (col + 1) @ ''H'')"

definition write_mouse_encoding :: "mouse_encoding \<Rightarrow> bytes" where
  "write_mouse_encoding m =
     (case m of
        MouseDefault \<Rightarrow> write_dec_mode 1006 False @ write_dec_mode 1016 False
      | MouseSgr \<Rightarrow> write_dec_mode 1016 False @ write_dec_mode 1006 True
      | MouseSgrPixels \<Rightarrow> write_dec_mode 1006 False @ write_dec_mode 1016 True)"

record pending_wrap =
  pw_start :: nat
  pw_width :: nat
  pw_bytes :: bytes

definition write_saved_cursor :: "execution_state \<Rightarrow> bytes" where
  "write_saved_cursor e =
     (case ex_saved e of
        None \<Rightarrow> []
      | Some s \<Rightarrow>
          write_scroll_region e @ write_dec_mode 6 (sv_origin s) @ write_attrs (sv_attrs s)
          @ write_cursor_position e (sv_row s) (sv_col s) (sv_origin s) @ [ESCAPE, CHR ''7''])"

definition write_modes :: "execution_state \<Rightarrow> bytes" where
  "write_modes e =
     write_ansi_mode 4 (ex_insert e) @ write_dec_mode 7 (ex_auto_wrap e)
     @ write_dec_mode 45 (ex_reverse_wrap e) @ write_dec_mode 1004 (ex_focus e)
     @ write_dec_mode 1007 (ex_alternate_scroll e) @ write_mouse_encoding (ex_mouse e)
     @ write_scroll_region e @ write_dec_mode 6 (ex_origin e)
     @ csi (dec_bytes (ex_cursor_style e) @ '' q'')"

definition write_restore_at ::
    "execution_state \<Rightarrow> nat \<times> nat \<Rightarrow> pending_wrap option \<Rightarrow> bytes" where
  "write_restore_at e cursor pending =
     write_saved_cursor e @ write_modes e
     @ (case pending of
          Some p \<Rightarrow> write_cursor_position e (fst cursor) (pw_start p) (ex_origin e) @ pw_bytes p
                    @ write_attrs (ex_attrs e)
        | None \<Rightarrow> write_attrs (ex_attrs e)
                  @ write_cursor_position e (fst cursor) (snd cursor) (ex_origin e))"

section \<open>Answers to queries\<close>

definition mode_status :: "bool \<Rightarrow> nat" where "mode_status enabled = (if enabled then 1 else 2)"

definition formatted_mode_enabled :: "'s screen_ops \<Rightarrow> 's \<Rightarrow> bytes \<Rightarrow> bool" where
  "formatted_mode_enabled scr screen enabled = contains_str enabled (sc_input_modes scr screen)"

definition terminal_mode_status ::
    "'s screen_ops \<Rightarrow> nat \<Rightarrow> bool \<Rightarrow> 's \<Rightarrow> execution_state \<Rightarrow> nat" where
  "terminal_mode_status scr mode private screen e =
     (if private then
        (if mode = 1 then mode_status (formatted_mode_enabled scr screen (csi ''?1h''))
         else if mode = 3 then 0
         else if mode = 6 then mode_status (ex_origin e)
         else if mode = 7 then mode_status (ex_auto_wrap e)
         else if mode = 8 then 3
         else if mode = 9 then mode_status (sc_mouse scr screen = MousePress)
         else if mode = 12 then 1
         else if mode = 25 then mode_status (\<not> sc_hide_cursor scr screen)
         else if mode = 45 then mode_status (ex_reverse_wrap e)
         else if mode \<in> {47, 1047, 1049} then mode_status (sc_alternate scr screen)
         else if mode = 66
         then mode_status (formatted_mode_enabled scr screen [ESCAPE, CHR ''=''])
         else if mode = 67 then 4
         else if mode = 1000 then mode_status (sc_mouse scr screen = MousePressRelease)
         else if mode = 1002 then mode_status (sc_mouse scr screen = MouseButtonMotion)
         else if mode = 1003 then mode_status (sc_mouse scr screen = MouseAnyMotion)
         else if mode = 1004 then mode_status (ex_focus e)
         else if mode \<in> {1005, 1015} then 4
         else if mode = 1006 then mode_status (ex_mouse e = MouseSgr)
         else if mode = 1016 then mode_status (ex_mouse e = MouseSgrPixels)
         else if mode = 1048 then 1
         else if mode = 2004
         then mode_status (formatted_mode_enabled scr screen (csi ''?2004h''))
         else if mode = 2026 then mode_status (ex_synchronized e)
         else 0)
      else
        (if mode = 2 then 4
         else if mode = 4 then mode_status (ex_insert e)
         else if mode = 12 then 3
         else if mode = 20 then 2
         else 0))"

text \<open>\<open>version\<close> is the package version the build sets.\<close>

definition terminal_query_response ::
    "'s screen_ops \<Rightarrow> bytes \<Rightarrow> bytes \<Rightarrow> 's \<Rightarrow> execution_state \<Rightarrow> 16 word \<Rightarrow> nat \<Rightarrow> nat \<Rightarrow> bytes option" where
  "terminal_query_response scr version sequence screen e flags pixel_width pixel_height =
     (if sequence = [ESCAPE, CHR ''Z''] then Some (csi ''?1;2c'')
      else case csi_parts sequence of
        None \<Rightarrow> None
      | Some (parameters, intermediates, final) \<Rightarrow>
          if intermediates = ''$'' \<and> final = CHR ''p'' then
            (let private = starts_with parameters ''?'' in
             case param (numeric_params (if private then tl parameters else parameters)) 0 of
               None \<Rightarrow> None
             | Some mode \<Rightarrow>
                 Some (csi ((if private then ''?'' else []) @ dec_bytes mode @ '';''
                        @ dec_bytes (terminal_mode_status scr mode private screen e) @ ''$y'')))
          else if intermediates \<noteq> [] then None
          else if parameters = ''?'' \<and> final = CHR ''u''
          then Some (csi (''?'' @ dec_bytes (unat flags) @ ''u''))
          else if parameters = ''>'' \<and> final = CHR ''q''
          then Some (ESCAPE # ''P>|term-server('' @ version @ '')'' @ [ESCAPE, CHR 0x5C])
          else if parameters \<in> {[], ''0''} \<and> final = CHR ''c'' then Some (csi ''?1;2c'')
          else if parameters \<in> {''>'', ''>0''} \<and> final = CHR ''c'' then Some (csi ''>0;276;0c'')
          else if parameters = ''5'' \<and> final = CHR ''n'' then Some (csi ''0n'')
          else if parameters \<in> {''6'', ''?6''} \<and> final = CHR ''n'' then
            (let (row, col) = sc_cursor scr screen in
             Some (csi ((if starts_with parameters ''?'' then ''?'' else [])
                     @ dec_bytes (region_row e (ex_origin e) row + 1) @ '';''
                     @ dec_bytes (col + 1) @ ''R'')))
          else if parameters = ''18'' \<and> final = CHR ''t'' then
            (let (rows, cols) = sc_size scr screen in
             Some (csi (''8;'' @ dec_bytes rows @ '';'' @ dec_bytes cols @ ''t'')))
          else if parameters = ''14'' \<and> final = CHR ''t''
          then Some (csi (''4;'' @ dec_bytes pixel_height @ '';'' @ dec_bytes pixel_width @ ''t''))
          else if parameters = ''16'' \<and> final = CHR ''t'' then
            (let (rows, cols) = sc_size scr screen in
             Some (csi (''6;'' @ dec_bytes (pixel_height div rows) @ '';''
                     @ dec_bytes (pixel_width div cols) @ ''t'')))
          else None)"

end
