(* ===== verification/CanonicalTerminal.thy ===== *)
theory CanonicalTerminal
  imports EscapeState OutputState
begin

text \<open>
  \<open>CanonicalTerminal\<close> of \<open>src/src/terminal_state.rs\<close>: the emulator of a session with what it does not
  keep itself: the sequence the stream is inside of, modes and attributes, the keyboard stacks, the
  normal screen behind an alternate one, and the answers to queries. A resize replays a logical
  snapshot at the new size, computed by \<open>reflow_plan\<close>.

  The \<open>vt100\<close> package is the parameter \<open>vt\<close>: its parser \<open>'p\<close>, its screen \<open>'s\<close> and the functions this
  code calls on them; \<open>unicode-width\<close> is the field \<open>vt_char_width\<close>. The record of functions that
  \<open>TerminalOutputState\<close> uses is \<open>canonical_ops\<close> at the end.
\<close>

section \<open>The emulator\<close>

datatype vt_color = ColorDefault | ColorIdx nat | ColorRgb nat nat nat

record vt_cell =
  ce_contents :: bytes
  ce_has_contents :: bool
  ce_wide :: bool
  ce_continuation :: bool
  ce_fg :: vt_color
  ce_bg :: vt_color
  ce_bold :: bool
  ce_dim :: bool
  ce_italic :: bool
  ce_underline :: bool
  ce_inverse :: bool

record ('s, 'p) vt_ops = "'s screen_ops" +
  sc_formatted :: "'s \<Rightarrow> bytes"
  sc_set_scrollback :: "'s \<Rightarrow> nat \<Rightarrow> 's"
  sc_scrollback :: "'s \<Rightarrow> nat"
  sc_row_wrapped :: "'s \<Rightarrow> nat \<Rightarrow> bool"
  sc_cell :: "'s \<Rightarrow> nat \<Rightarrow> nat \<Rightarrow> vt_cell option"
  sc_rows_formatted :: "'s \<Rightarrow> nat \<Rightarrow> nat \<Rightarrow> bytes list"
  sc_rows :: "'s \<Rightarrow> nat \<Rightarrow> nat \<Rightarrow> ustring list"
  vt_new :: "nat \<Rightarrow> nat \<Rightarrow> nat \<Rightarrow> 'p"
  vt_process :: "'p \<Rightarrow> bytes \<Rightarrow> 'p"
  vt_screen :: "'p \<Rightarrow> 's"
  vt_set_size :: "'p \<Rightarrow> nat \<Rightarrow> nat \<Rightarrow> 'p"
  vt_char_width :: "scalar \<Rightarrow> nat option"
  vt_version :: bytes
  vt_cell_bytes :: nat

text \<open>\<open>vt100\<close> is called through the plain record of screen functions too.\<close>

abbreviation scr_of :: "('s, 'p) vt_ops \<Rightarrow> 's screen_ops" where
  "scr_of vt \<equiv> screen_ops.truncate vt"

section \<open>Tracking the stream\<close>

record tracker =
  tr_sequence :: escape_sequence
  tr_pending :: bytes
  tr_utf8_pending :: bytes
  tr_utf8_expected :: nat

record completed_sequence =
  cq_mode :: alternate_mode
  cq_erase :: bool
  cq_bytes :: bytes

definition MAX_PENDING_SEQUENCE_BYTES :: nat where "MAX_PENDING_SEQUENCE_BYTES = 64 * 1024"

definition tracker_new :: tracker where
  "tracker_new = \<lparr>tr_sequence = SeqGround, tr_pending = [], tr_utf8_pending = [], tr_utf8_expected = 0\<rparr>"

definition track_byte :: "byte \<Rightarrow> tracker \<Rightarrow> completed_sequence option \<times> tracker" where
  "track_byte b t =
     (let was_tracking = (tr_sequence t \<noteq> SeqGround \<or> tr_pending t \<noteq> []);
          next = sequence_advance (tr_sequence t) b;
          pending = (if tr_sequence t = SeqGround \<and> next \<noteq> SeqGround then [] else tr_pending t);
          pending = (if (next \<noteq> SeqGround \<or> pending \<noteq> [])
                       \<and> length pending < MAX_PENDING_SEQUENCE_BYTES
                     then pending @ [b] else pending);
          t = t\<lparr>tr_sequence := next, tr_pending := pending\<rparr> in
      if next \<noteq> SeqGround \<or> \<not> was_tracking then (None, t)
      else (Some \<lparr>cq_mode = alternate_mode_of pending, cq_erase = erases_scrollback pending,
                  cq_bytes = pending\<rparr>, t\<lparr>tr_pending := []\<rparr>))"

definition observe_byte :: "byte \<Rightarrow> tracker \<Rightarrow> completed_sequence option \<times> tracker" where
  "observe_byte b t =
     (if tr_sequence t \<noteq> SeqGround then track_byte b t
      else if 0 < tr_utf8_expected t \<and> is_cont b then
        (None, t\<lparr>tr_utf8_pending := if tr_utf8_expected t = 1 then [] else tr_utf8_pending t @ [b],
                 tr_utf8_expected := tr_utf8_expected t - 1\<rparr>)
      else (let t = (if 0 < tr_utf8_expected t then t\<lparr>tr_utf8_pending := []\<rparr> else t) in
            case utf8_expected b of
              Some n \<Rightarrow> (None, t\<lparr>tr_utf8_expected := n, tr_utf8_pending := [b]\<rparr>)
            | None \<Rightarrow> track_byte b (t\<lparr>tr_utf8_expected := 0\<rparr>)))"

section \<open>State\<close>

record ('s, 'p) canonical =
  ct_parser :: 'p
  ct_scrollback_rows :: nat
  ct_normal :: "'s option"
  ct_normal_execution :: "execution_state option"
  ct_entry :: "alternate_entry option"
  ct_execution :: execution_state
  ct_keyboard :: kitty_keyboard
  ct_tracker :: tracker
  ct_parser_pending :: bytes
  ct_parser_expected :: nat
  ct_responses :: "bytes list"
  ct_pixel_width :: nat
  ct_pixel_height :: nat

definition canonical_new :: "('s, 'p) vt_ops \<Rightarrow> nat \<Rightarrow> nat \<Rightarrow> nat \<Rightarrow> ('s, 'p) canonical" where
  "canonical_new vt rows cols scrollback_rows =
     \<lparr>ct_parser = vt_new vt rows cols scrollback_rows, ct_scrollback_rows = scrollback_rows,
      ct_normal = None, ct_normal_execution = None, ct_entry = None,
      ct_execution = execution_new rows, ct_keyboard = kitty_default, ct_tracker = tracker_new,
      ct_parser_pending = [], ct_parser_expected = 0, ct_responses = [], ct_pixel_width = 0,
      ct_pixel_height = 0\<rparr>"

abbreviation ct_screen :: "('s, 'p) vt_ops \<Rightarrow> ('s, 'p) canonical \<Rightarrow> 's" where
  "ct_screen vt c \<equiv> vt_screen vt (ct_parser c)"

definition parse_bytes :: "('s, 'p) vt_ops \<Rightarrow> bytes \<Rightarrow> ('s, 'p) canonical \<Rightarrow> ('s, 'p) canonical" where
  "parse_bytes vt bs c = c\<lparr>ct_parser := vt_process vt (ct_parser c) bs\<rparr>"

definition set_parser_size ::
    "('s, 'p) vt_ops \<Rightarrow> nat \<Rightarrow> nat \<Rightarrow> ('s, 'p) canonical \<Rightarrow> ('s, 'p) canonical" where
  "set_parser_size vt rows cols c = c\<lparr>ct_parser := vt_set_size vt (ct_parser c) rows cols\<rparr>"

definition flush_parser_utf8_pending ::
    "('s, 'p) vt_ops \<Rightarrow> ('s, 'p) canonical \<Rightarrow> ('s, 'p) canonical" where
  "flush_parser_utf8_pending vt c =
     (if ct_parser_pending c = [] then c\<lparr>ct_parser_expected := 0\<rparr>
      else parse_bytes vt (ct_parser_pending c)
             (c\<lparr>ct_parser_pending := [], ct_parser_expected := 0\<rparr>))"

section \<open>A terminal of one row\<close>

text \<open>The digits of a number as the code writes them, from the highest power of ten down.\<close>

function highest_divisor :: "nat \<Rightarrow> nat \<Rightarrow> nat" where
  "highest_divisor n d = (if 0 < d \<and> 10 \<le> n div d then highest_divisor n (d * 10) else d)"
  by pat_completeness auto
termination
proof (relation "measure (\<lambda>(n, d). Suc n - d)")
  fix n d :: nat
  assume a: "0 < d \<and> 10 \<le> n div d"
  then have "d \<le> n" by (cases "d \<le> n") auto
  with a show "((n, d * 10), (n, d)) \<in> measure (\<lambda>(n, d). Suc n - d)" by auto
qed simp

declare highest_divisor.simps [simp del]

fun write_digits :: "nat \<Rightarrow> nat \<Rightarrow> bytes" where
  "write_digits n d =
     (if d = 0 then [] else char_of (48 + n div d mod 10) # write_digits n (d div 10))"

declare write_digits.simps [simp del]

definition process_one_row_wrap ::
    "('s, 'p) vt_ops \<Rightarrow> bytes \<Rightarrow> ('s, 'p) canonical \<Rightarrow> ('s, 'p) canonical" where
  "process_one_row_wrap vt bs c =
     (let cols = snd (sc_size vt (ct_screen vt c));
          live_state = sc_formatted vt (ct_screen vt c);
          c = parse_bytes vt bs (parse_bytes vt live_state (set_parser_size vt 2 cols c));
          cursor_col = snd (sc_cursor vt (ct_screen vt c));
          c = parse_bytes vt (csi ''1S'') c;
          position = min (min cursor_col (cols - 1) + 1) u16_max;
          c = parse_bytes vt (csi (''1;'' @ write_digits position (highest_divisor position 1) @ ''H'')) c in
      set_parser_size vt 1 cols c)"

definition process_ground_scalar ::
    "('s, 'p) vt_ops \<Rightarrow> bytes \<Rightarrow> ('s, 'p) canonical \<Rightarrow> ('s, 'p) canonical" where
  "process_ground_scalar vt bs c =
     (let width = (case utf8_strict bs of
                     Some (ch # _) \<Rightarrow> (case vt_char_width vt ch of None \<Rightarrow> 0 | Some w \<Rightarrow> w)
                   | _ \<Rightarrow> 0);
          cols = snd (sc_size vt (ct_screen vt c));
          pending_wrap = (cols \<le> snd (sc_cursor vt (ct_screen vt c))) in
      if 0 < width \<and> pending_wrap then process_one_row_wrap vt bs c else parse_bytes vt bs c)"

definition process_ground_byte ::
    "('s, 'p) vt_ops \<Rightarrow> byte \<Rightarrow> ('s, 'p) canonical \<Rightarrow> ('s, 'p) canonical" where
  "process_ground_byte vt b c =
     (if is_printable_byte b then process_ground_scalar vt [b] c else parse_bytes vt [b] c)"

text \<open>One byte of the loop for a single row; a flush without progress is followed by the byte itself.\<close>

definition one_row_byte ::
    "('s, 'p) vt_ops \<Rightarrow> byte \<Rightarrow> escape_sequence \<times> ('s, 'p) canonical
       \<Rightarrow> escape_sequence \<times> ('s, 'p) canonical" where
  "one_row_byte vt b sc =
     (let (sequence, c) = sc in
      if sequence \<noteq> SeqGround
      then (sequence_advance sequence b, parse_bytes vt [b] (flush_parser_utf8_pending vt c))
      else if 0 < ct_parser_expected c \<and> is_cont b then
        (let pending = ct_parser_pending c @ [b];
             c = c\<lparr>ct_parser_pending := pending, ct_parser_expected := ct_parser_expected c - 1\<rparr> in
         (sequence,
          if ct_parser_expected c = 0
          then process_ground_scalar vt pending (c\<lparr>ct_parser_pending := []\<rparr>) else c))
      else (let c = (if 0 < ct_parser_expected c then flush_parser_utf8_pending vt c else c) in
            case utf8_expected b of
              Some n \<Rightarrow>
                (sequence, c\<lparr>ct_parser_pending := ct_parser_pending c @ [b], ct_parser_expected := n\<rparr>)
            | None \<Rightarrow> (sequence_advance sequence b, process_ground_byte vt b c)))"

definition process_parser_bytes ::
    "('s, 'p) vt_ops \<Rightarrow> bytes \<Rightarrow> escape_sequence \<Rightarrow> ('s, 'p) canonical \<Rightarrow> ('s, 'p) canonical" where
  "process_parser_bytes vt bs sequence c =
     (if fst (sc_size vt (ct_screen vt c)) \<noteq> 1
      then parse_bytes vt bs (flush_parser_utf8_pending vt c)
      else snd (fold (one_row_byte vt) bs (sequence, c)))"

section \<open>Processing output\<close>

definition clear_scrollback :: "('s, 'p) vt_ops \<Rightarrow> ('s, 'p) canonical \<Rightarrow> ('s, 'p) canonical" where
  "clear_scrollback vt c =
     (let (rows, cols) = sc_size vt (ct_screen vt c);
          visible_state = sc_formatted vt (ct_screen vt c) in
      parse_bytes vt visible_state
        (c\<lparr>ct_parser := vt_new vt rows cols (ct_scrollback_rows c)\<rparr>))"

definition enter_alternate ::
    "('s, 'p) vt_ops \<Rightarrow> completed_sequence \<Rightarrow> ('s, 'p) canonical \<Rightarrow> ('s, 'p) canonical" where
  "enter_alternate vt q c =
     (case alternate_mode_entry (cq_mode q) of
        None \<Rightarrow> c
      | Some entry \<Rightarrow>
          if sc_alternate vt (ct_screen vt c) then c
          else c\<lparr>ct_normal := Some (ct_screen vt c), ct_normal_execution := Some (ct_execution c),
                 ct_entry := Some entry\<rparr>)"

definition leave_alternate ::
    "('s, 'p) vt_ops \<Rightarrow> completed_sequence \<Rightarrow> ('s, 'p) canonical \<Rightarrow> ('s, 'p) canonical" where
  "leave_alternate vt q c =
     (if exits_alternate (cq_mode q) \<and> \<not> sc_alternate vt (ct_screen vt c)
      then c\<lparr>ct_normal := None, ct_entry := None, ct_normal_execution := None,
             ct_execution := case ct_normal_execution c of None \<Rightarrow> ct_execution c | Some e \<Rightarrow> e\<rparr>
      else c)"

definition observe_sequence ::
    "('s, 'p) vt_ops \<Rightarrow> completed_sequence \<Rightarrow> ('s, 'p) canonical \<Rightarrow> ('s, 'p) canonical" where
  "observe_sequence vt q c =
     (let c = c\<lparr>ct_execution :=
                  execution_observe (scr_of vt) (cq_bytes q) (ct_screen vt c) (ct_execution c)\<rparr>;
          c = c\<lparr>ct_keyboard :=
                  kitty_observe (cq_bytes q) (sc_alternate vt (ct_screen vt c)) (ct_keyboard c)\<rparr> in
      case terminal_query_response (scr_of vt) (vt_version vt) (cq_bytes q) (ct_screen vt c)
             (ct_execution c) (kk_flags (ct_keyboard c)) (ct_pixel_width c) (ct_pixel_height c) of
        None \<Rightarrow> c
      | Some response \<Rightarrow> c\<lparr>ct_responses := ct_responses c @ [response]\<rparr>)"

definition complete_sequence ::
    "('s, 'p) vt_ops \<Rightarrow> byte \<Rightarrow> escape_sequence \<Rightarrow> completed_sequence \<Rightarrow> ('s, 'p) canonical
       \<Rightarrow> ('s, 'p) canonical" where
  "complete_sequence vt b sequence_before q c =
     (let c = process_parser_bytes vt [b] sequence_before (enter_alternate vt q c);
          c = (if cq_mode q = Enter1047 then parse_bytes vt (csi ''?47h'') c
               else if cq_mode q = Exit1047 then parse_bytes vt (csi ''?47l'') c else c);
          c = (if cq_erase q \<and> \<not> sc_alternate vt (ct_screen vt c) then clear_scrollback vt c else c) in
      leave_alternate vt q (observe_sequence vt q c))"

text \<open>\<open>segment\<close> is the part of the chunk from \<open>start\<close> to the current byte.\<close>

fun process_from ::
    "('s, 'p) vt_ops \<Rightarrow> bytes \<Rightarrow> bytes \<Rightarrow> escape_sequence \<Rightarrow> ('s, 'p) canonical \<Rightarrow> ('s, 'p) canonical" where
  "process_from vt [] segment parser_sequence c = process_parser_bytes vt segment parser_sequence c"
| "process_from vt (b # bs) segment parser_sequence c =
     (let sequence_before = tr_sequence (ct_tracker c);
          (completed, t) = observe_byte b (ct_tracker c);
          c = c\<lparr>ct_tracker := t\<rparr> in
      case completed of
        None \<Rightarrow> process_from vt bs (segment @ [b]) parser_sequence c
      | Some q \<Rightarrow>
          process_from vt bs [] SeqGround
            (complete_sequence vt b sequence_before q
              (process_parser_bytes vt segment parser_sequence c)))"

definition canonical_process ::
    "('s, 'p) vt_ops \<Rightarrow> ('s, 'p) canonical \<Rightarrow> bytes \<Rightarrow> ('s, 'p) canonical" where
  "canonical_process vt c bs = process_from vt bs [] (tr_sequence (ct_tracker c)) c"

definition can_store_browser_checkpoint :: "('s, 'p) canonical \<Rightarrow> bool" where
  "can_store_browser_checkpoint c \<longleftrightarrow>
     tr_sequence (ct_tracker c) = SeqGround \<and> tr_pending (ct_tracker c) = []
     \<and> tr_utf8_expected (ct_tracker c) = 0 \<and> tr_utf8_pending (ct_tracker c) = []
     \<and> ct_parser_expected c = 0 \<and> ct_parser_pending c = []"

section \<open>Reflow\<close>

record flow_attrs =
  fa_fg :: vt_color
  fa_bg :: vt_color
  fa_bold :: bool
  fa_dim :: bool
  fa_italic :: bool
  fa_underline :: bool
  fa_inverse :: bool

definition flow_attrs_default :: flow_attrs where
  "flow_attrs_default = \<lparr>fa_fg = ColorDefault, fa_bg = ColorDefault, fa_bold = False,
     fa_dim = False, fa_italic = False, fa_underline = False, fa_inverse = False\<rparr>"

definition flow_attrs_of :: "vt_cell \<Rightarrow> flow_attrs" where
  "flow_attrs_of cell = \<lparr>fa_fg = ce_fg cell, fa_bg = ce_bg cell, fa_bold = ce_bold cell,
     fa_dim = ce_dim cell, fa_italic = ce_italic cell, fa_underline = ce_underline cell,
     fa_inverse = ce_inverse cell\<rparr>"

fun write_sgr_color :: "vt_color \<Rightarrow> nat \<Rightarrow> nat \<Rightarrow> nat \<Rightarrow> bytes" where
  "write_sgr_color ColorDefault base bright extended = []"
| "write_sgr_color (ColorIdx index) base bright extended =
     (if index < 8 then '';'' @ dec_bytes (base + index)
      else if index < 16 then '';'' @ dec_bytes (bright + (index - 8))
      else '';'' @ dec_bytes extended @ '';5;'' @ dec_bytes index)"
| "write_sgr_color (ColorRgb red green blue) base bright extended =
     '';'' @ dec_bytes extended @ '';2;'' @ dec_bytes red @ '';'' @ dec_bytes green @ '';''
       @ dec_bytes blue"

definition write_sgr :: "flow_attrs \<Rightarrow> bytes" where
  "write_sgr a =
     csi (''0'' @ (if fa_bold a then '';1'' else []) @ (if fa_dim a then '';2'' else [])
       @ (if fa_italic a then '';3'' else []) @ (if fa_underline a then '';4'' else [])
       @ (if fa_inverse a then '';7'' else []) @ write_sgr_color (fa_fg a) 30 90 38
       @ write_sgr_color (fa_bg a) 40 100 48 @ ''m'')"

definition cell_flows :: "vt_cell \<Rightarrow> bool" where
  "cell_flows cell \<longleftrightarrow>
     ce_has_contents cell \<or> ce_continuation cell \<or> flow_attrs_of cell \<noteq> flow_attrs_default"

definition row_flow_width :: "('s, 'p) vt_ops \<Rightarrow> 's \<Rightarrow> nat \<Rightarrow> nat \<Rightarrow> nat" where
  "row_flow_width vt screen row cols =
     (case List.find (\<lambda>col. case sc_cell vt screen row col of None \<Rightarrow> False | Some cell \<Rightarrow> cell_flows cell)
             (rev [0..<cols]) of
        None \<Rightarrow> 0
      | Some col \<Rightarrow> col + 1)"

function row_flow_from :: "(nat \<Rightarrow> vt_cell option) \<Rightarrow> nat \<Rightarrow> nat \<Rightarrow> flow_attrs \<Rightarrow> bytes" where
  "row_flow_from cells width col current =
     (let ending = (if current \<noteq> flow_attrs_default then csi ''m'' else []) in
      if width \<le> col then ending
      else case cells col of
        None \<Rightarrow> ending
      | Some cell \<Rightarrow>
          if ce_continuation cell then row_flow_from cells width (col + 1) current
          else (let attrs = flow_attrs_of cell in
                (if attrs \<noteq> current then write_sgr attrs else [])
                @ (if ce_contents cell = [] then '' '' else ce_contents cell)
                @ row_flow_from cells width (col + (if ce_wide cell then 2 else 1)) attrs))"
  by pat_completeness auto
termination by (relation "measure (\<lambda>(cells, width, col, current). width - col)") auto

declare row_flow_from.simps [simp del]

definition row_flow_bytes :: "('s, 'p) vt_ops \<Rightarrow> 's \<Rightarrow> nat \<Rightarrow> nat \<Rightarrow> bytes" where
  "row_flow_bytes vt screen row width = row_flow_from (sc_cell vt screen row) width 0 flow_attrs_default"

record reflow_row =
  rr_bytes :: bytes
  rr_wrapped :: bool
  rr_width :: nat

record reflow_group =
  rg_start :: nat
  rg_end :: nat
  rg_target :: nat

record reflow_plan =
  rp_bytes :: bytes
  rp_rows :: nat
  rp_cols :: nat
  rp_source_cols :: nat
  rp_history :: nat
  rp_groups :: "reflow_group list"
  rp_total :: nat
  rp_cursor :: "nat \<times> nat"
  rp_pending :: "pending_wrap option"

text \<open>A zero width never reaches this code: sizes are clamped before.\<close>

definition map_position :: "reflow_plan \<Rightarrow> nat \<Rightarrow> nat \<Rightarrow> nat \<times> nat" where
  "map_position plan row col =
     (let source_row = rp_history plan + row in
      case List.find (\<lambda>g. rg_start g \<le> source_row \<and> source_row \<le> rg_end g) (rp_groups plan) of
        None \<Rightarrow> (min row (rp_rows plan - 1), min col (rp_cols plan - 1))
      | Some g \<Rightarrow>
          (let offset = (source_row - rg_start g) * rp_source_cols plan + col;
               pending = (rp_source_cols plan \<le> col \<and> offset mod rp_cols plan = 0);
               target_row = rg_target g + offset div rp_cols plan - (if pending then 1 else 0);
               viewport_base = rp_total plan - rp_rows plan in
           (min (min (target_row - viewport_base) u16_max) (rp_rows plan - 1),
            if pending then rp_cols plan else offset mod rp_cols plan)))"

definition reflow_row_of :: "('s, 'p) vt_ops \<Rightarrow> 's \<Rightarrow> nat \<Rightarrow> nat \<Rightarrow> reflow_row" where
  "reflow_row_of vt screen row source_cols =
     (let wrapped = sc_row_wrapped vt screen row;
          content_width = row_flow_width vt screen row source_cols in
      \<lparr>rr_bytes = row_flow_bytes vt screen row (if wrapped then source_cols else content_width),
       rr_wrapped = wrapped, rr_width = content_width\<rparr>)"

definition source_rows :: "('s, 'p) vt_ops \<Rightarrow> 's \<Rightarrow> reflow_row list" where
  "source_rows vt screen =
     (let source_cols = snd (sc_size vt screen);
          all = sc_set_scrollback vt screen u64_max;
          history = sc_scrollback vt all;
          live = sc_set_scrollback vt all 0;
          live_rows = fst (sc_size vt live);
          occupied = filter (\<lambda>row. sc_row_wrapped vt live row
                             \<or> 0 < row_flow_width vt live row source_cols) [0..<live_rows];
          last_live_row = fold max occupied (fst (sc_cursor vt live)) in
      map (\<lambda>offset. reflow_row_of vt (sc_set_scrollback vt all offset) 0 source_cols)
        (rev [1..<history + 1])
      @ map (\<lambda>row. reflow_row_of vt live row source_cols)
          (filter (\<lambda>row. row \<le> last_live_row) [0..<live_rows]))"

definition div_ceil :: "nat \<Rightarrow> nat \<Rightarrow> nat" where
  "div_ceil a b = a div b + (if 0 < a mod b then 1 else 0)"

text \<open>Soft-wrapped rows form a group; \<open>start\<close>, \<open>width\<close> and \<open>target\<close> are the loop's variables.\<close>

fun reflow_groups ::
    "nat \<Rightarrow> nat \<Rightarrow> reflow_row list \<Rightarrow> nat \<Rightarrow> nat \<Rightarrow> nat \<Rightarrow> nat \<Rightarrow> bytes \<times> reflow_group list \<times> nat" where
  "reflow_groups cols source_cols [] index start width target = ([], [], target)"
| "reflow_groups cols source_cols (row # rows) index start width target =
     (let width = width + (if rr_wrapped row then source_cols else rr_width row) in
      if \<not> rr_wrapped row \<or> rows = [] then
        (let (bs, groups, after) =
               reflow_groups cols source_cols rows (index + 1) (index + 1) 0
                 (target + max (div_ceil width cols) 1) in
         (rr_bytes row @ (if rows \<noteq> [] then [CHR 0x0D, CHR 0x0A] else []) @ bs,
          \<lparr>rg_start = start, rg_end = index, rg_target = target\<rparr> # groups, after))
      else
        (let (bs, groups, after) =
               reflow_groups cols source_cols rows (index + 1) start width target in
         (rr_bytes row @ bs, groups, after)))"

definition pending_wrap_cell :: "('s, 'p) vt_ops \<Rightarrow> 's \<Rightarrow> pending_wrap option" where
  "pending_wrap_cell vt screen =
     (let (rows, cols) = sc_size vt screen; (row, col) = sc_cursor vt screen in
      if rows \<le> row \<or> col < cols \<or> cols = 0 then None
      else case sc_cell vt screen row (cols - 1) of
        None \<Rightarrow> None
      | Some cell \<Rightarrow>
          (let width = (if ce_continuation cell then min 2 cols else 1);
               formatted = sc_rows_formatted vt screen (cols - width) width in
           if row < length formatted \<and> formatted ! row \<noteq> []
           then Some \<lparr>pw_start = cols - width, pw_width = width, pw_bytes = formatted ! row\<rparr>
           else None))"

definition reflow_plan_of :: "('s, 'p) vt_ops \<Rightarrow> 's \<Rightarrow> nat \<Rightarrow> nat \<Rightarrow> reflow_plan" where
  "reflow_plan_of vt screen rows cols =
     (let source_cols = snd (sc_size vt screen);
          (bs, groups, total_rows) =
            reflow_groups cols source_cols (source_rows vt screen) 0 0 0 0;
          plan = \<lparr>rp_bytes = csi ''m'' @ csi ''H'' @ csi ''J'' @ bs, rp_rows = rows, rp_cols = cols,
                  rp_source_cols = source_cols,
                  rp_history = sc_scrollback vt (sc_set_scrollback vt screen u64_max),
                  rp_groups = groups, rp_total = total_rows, rp_cursor = (0, 0),
                  rp_pending = None\<rparr>;
          (row, col) = sc_cursor vt screen;
          plan = plan\<lparr>rp_cursor := map_position plan row col\<rparr> in
      if snd (rp_cursor plan) = cols
      then plan\<lparr>rp_pending := map_option (\<lambda>p. p\<lparr>pw_start := cols - pw_width p\<rparr>)
                               (pending_wrap_cell vt screen)\<rparr>
      else plan)"

definition remap_positions :: "reflow_plan \<Rightarrow> execution_state \<Rightarrow> execution_state" where
  "remap_positions plan e =
     e\<lparr>ex_rows := rp_rows plan, ex_region := None,
       ex_saved := map_option (\<lambda>s. s\<lparr>sv_row := fst (map_position plan (sv_row s) (sv_col s)),
                                      sv_col := snd (map_position plan (sv_row s) (sv_col s))\<rparr>)
                     (ex_saved e)\<rparr>"

section \<open>Snapshots\<close>

definition write_restore :: "('s, 'p) vt_ops \<Rightarrow> execution_state \<Rightarrow> 's \<Rightarrow> bytes" where
  "write_restore vt e screen = write_restore_at e (sc_cursor vt screen) (pending_wrap_cell vt screen)"

definition write_input_modes :: "('s, 'p) vt_ops \<Rightarrow> 's \<Rightarrow> bytes" where
  "write_input_modes vt screen =
     concat (map (\<lambda>mode. write_dec_mode mode False) [9, 1000, 1002, 1003]) @ sc_input_modes vt screen"

definition snapshot_history_row :: "('s, 'p) vt_ops \<Rightarrow> nat \<Rightarrow> 's \<Rightarrow> bytes" where
  "snapshot_history_row vt cols screen =
     csi ''m''
     @ (case sc_rows_formatted vt screen 0 cols of [] \<Rightarrow> [] | row # _ \<Rightarrow> row)
     @ (if sc_row_wrapped vt screen 0 then '' '' @ [CHR 0x08] @ csi ''X'' else [CHR 0x0D, CHR 0x0A])"

definition snapshot_screen :: "('s, 'p) vt_ops \<Rightarrow> 's \<Rightarrow> bytes" where
  "snapshot_screen vt screen =
     (let all = sc_set_scrollback vt screen u64_max;
          scrollback_rows = sc_scrollback vt all;
          live = sc_set_scrollback vt all 0 in
      if scrollback_rows = 0 then sc_formatted vt live
      else (let (rows, cols) = sc_size vt live in
            csi ''m'' @ csi ''H'' @ csi ''J''
            @ concat (map (\<lambda>offset. snapshot_history_row vt cols (sc_set_scrollback vt live offset))
                       (rev [1..<scrollback_rows + 1]))
            @ replicate (rows - 1) (CHR 0x0A)
            @ sc_formatted vt live))"

definition snapshot_screen_with_execution ::
    "('s, 'p) vt_ops \<Rightarrow> 's \<Rightarrow> execution_state \<Rightarrow> bytes" where
  "snapshot_screen_with_execution vt screen e =
     snapshot_screen vt screen @ write_input_modes vt screen @ write_restore vt e screen"

definition append_utf8_pending :: "('s, 'p) canonical \<Rightarrow> bytes" where
  "append_utf8_pending c =
     (if ct_parser_pending c = [] then tr_utf8_pending (ct_tracker c) else ct_parser_pending c)"

definition canonical_snapshot :: "('s, 'p) vt_ops \<Rightarrow> ('s, 'p) canonical \<Rightarrow> bytes" where
  "canonical_snapshot vt c =
     (let screen = ct_screen vt c in
      (if sc_alternate vt screen then
         (case (ct_normal c, ct_normal_execution c) of
            (Some normal, Some e) \<Rightarrow> snapshot_screen_with_execution vt normal e
          | (Some normal, None) \<Rightarrow> snapshot_screen vt normal
          | _ \<Rightarrow> [])
         @ write_buffer_restore (ct_keyboard c) False True
         @ entry_sequence (case ct_entry c of None \<Rightarrow> Mode1049 | Some entry \<Rightarrow> entry)
         @ sc_formatted vt screen @ write_input_modes vt screen
         @ write_restore vt (ct_execution c) screen
         @ write_buffer_restore (ct_keyboard c) True True
       else
         snapshot_screen_with_execution vt screen (ct_execution c)
         @ write_buffer_restore (ct_keyboard c) False False
         @ write_hidden_alt_restore (ct_keyboard c))
      @ tr_pending (ct_tracker c) @ append_utf8_pending c)"

definition reflowed :: "reflow_plan \<Rightarrow> execution_state \<Rightarrow> bytes" where
  "reflowed plan e = write_restore_at (remap_positions plan e) (rp_cursor plan) (rp_pending plan)"

definition resize_snapshot :: "('s, 'p) vt_ops \<Rightarrow> nat \<Rightarrow> nat \<Rightarrow> ('s, 'p) canonical \<Rightarrow> bytes" where
  "resize_snapshot vt rows cols c =
     (let screen = ct_screen vt c; plan = reflow_plan_of vt screen rows cols in
      (if sc_alternate vt screen then
         (case ct_normal c of
            None \<Rightarrow> []
          | Some normal \<Rightarrow>
              (let plan = reflow_plan_of vt normal rows cols in
               rp_bytes plan
               @ reflowed plan (case ct_normal_execution c of
                                  None \<Rightarrow> execution_new rows | Some e \<Rightarrow> e)))
         @ write_buffer_restore (ct_keyboard c) False True
         @ entry_sequence (case ct_entry c of None \<Rightarrow> Mode1049 | Some entry \<Rightarrow> entry)
         @ rp_bytes plan @ write_input_modes vt screen @ reflowed plan (ct_execution c)
         @ write_buffer_restore (ct_keyboard c) True True
       else
         rp_bytes plan @ write_input_modes vt screen @ reflowed plan (ct_execution c)
         @ write_buffer_restore (ct_keyboard c) False False
         @ write_hidden_alt_restore (ct_keyboard c))
      @ tr_pending (ct_tracker c) @ append_utf8_pending c)"

definition canonical_resize ::
    "('s, 'p) vt_ops \<Rightarrow> ('s, 'p) canonical \<Rightarrow> nat \<Rightarrow> nat \<Rightarrow> nat \<Rightarrow> nat \<Rightarrow> nat \<Rightarrow> ('s, 'p) canonical" where
  "canonical_resize vt c rows cols scrollback_rows pixel_width pixel_height =
     (if sc_size vt (ct_screen vt c) = (rows, cols) \<and> ct_scrollback_rows c = scrollback_rows
      then c\<lparr>ct_pixel_width := pixel_width, ct_pixel_height := pixel_height\<rparr>
      else (canonical_process vt (canonical_new vt rows cols scrollback_rows)
              (resize_snapshot vt rows cols c))
           \<lparr>ct_responses := [], ct_pixel_width := pixel_width, ct_pixel_height := pixel_height\<rparr>)"

definition drain_responses :: "('s, 'p) canonical \<Rightarrow> bytes list \<times> ('s, 'p) canonical" where
  "drain_responses c = (ct_responses c, c\<lparr>ct_responses := []\<rparr>)"

definition screen_text :: "('s, 'p) vt_ops \<Rightarrow> ('s, 'p) canonical \<Rightarrow> ustring" where
  "screen_text vt c =
     (let screen = ct_screen vt c in
      join_with (lit [CHR 0x0A]) (sc_rows vt screen 0 (snd (sc_size vt screen))))"

text \<open>What \<open>TerminalOutputState\<close> calls on its terminal.\<close>

definition canonical_ops :: "('s, 'p) vt_ops \<Rightarrow> ('s, 'p) canonical term_ops" where
  "canonical_ops vt =
     \<lparr>tm_new = canonical_new vt, tm_process = canonical_process vt,
      tm_safe = can_store_browser_checkpoint,
      tm_size = (\<lambda>c. sc_size vt (ct_screen vt c)), tm_resize = canonical_resize vt,
      tm_snapshot = canonical_snapshot vt, tm_drain = drain_responses,
      tm_cell_bytes = vt_cell_bytes vt\<rparr>"

end
