(* ===== verification/CanonicalProps.thy ===== *)
theory CanonicalProps
  imports CanonicalTerminal Interfaces
begin

text \<open>
  The canonical terminal reads a stream, not chunks: however the reads of the PTY cut it, the state
  is the same (\<open>canonical_chunking\<close>). This rests on two trackers that agree: the one that observes
  every byte and, on a terminal of one row, the one that feeds the emulator scalar by scalar.
  What is written to restore modes, margins, attributes and the saved cursor restores them
  (\<open>execution_restored\<close>), and positions move with the text they are on when it is wrapped anew
  (\<open>reflow_keeps_position\<close>).
\<close>

section \<open>What is documented of the emulator\<close>

text \<open>It consumes a stream, and only \<open>set_size\<close> changes its size.\<close>

definition vt_laws :: "('s, 'p) vt_ops \<Rightarrow> bool" where
  "vt_laws vt \<longleftrightarrow>
     (\<forall>p. vt_process vt p [] = p)
     \<and> (\<forall>p a b. vt_process vt p (a @ b) = vt_process vt (vt_process vt p a) b)
     \<and> (\<forall>p bs. sc_size vt (vt_screen vt (vt_process vt p bs)) = sc_size vt (vt_screen vt p))
     \<and> (\<forall>p r c. sc_size vt (vt_screen vt (vt_set_size vt p r c)) = (r, c))
     \<and> (\<forall>r c n. sc_size vt (vt_screen vt (vt_new vt r c n)) = (r, c))"

lemma vt_lawsD:
  assumes "vt_laws vt"
  shows "vt_process vt p [] = p"
    and "vt_process vt p (a @ b) = vt_process vt (vt_process vt p a) b"
    and "sc_size vt (vt_screen vt (vt_process vt p bs)) = sc_size vt (vt_screen vt p)"
    and "sc_size vt (vt_screen vt (vt_set_size vt p r c)) = (r, c)"
    and "sc_size vt (vt_screen vt (vt_new vt r c n)) = (r, c)"
  using assms by (simp_all add: vt_laws_def)

section \<open>Byte by byte\<close>

definition canonical_byte ::
    "('s, 'p) vt_ops \<Rightarrow> byte \<Rightarrow> ('s, 'p) canonical \<Rightarrow> ('s, 'p) canonical" where
  "canonical_byte vt b c =
     (let before = tr_sequence (ct_tracker c);
          (completed, t) = observe_byte b (ct_tracker c);
          c = c\<lparr>ct_tracker := t\<rparr> in
      case completed of
        None \<Rightarrow> process_parser_bytes vt [b] before c
      | Some q \<Rightarrow> complete_sequence vt b before q c)"

text \<open>The two trackers, reduced to what they decide on.\<close>

definition row_scan :: "byte \<Rightarrow> escape_sequence \<times> nat \<Rightarrow> escape_sequence \<times> nat" where
  "row_scan b qn =
     (let (q, n) = qn in
      if q \<noteq> SeqGround then (sequence_advance q b, 0)
      else if 0 < n \<and> is_cont b then (q, n - 1)
      else case utf8_expected b of Some m \<Rightarrow> (q, m) | None \<Rightarrow> (sequence_advance q b, 0))"

definition tracker_view :: "tracker \<Rightarrow> escape_sequence \<times> nat" where
  "tracker_view t = (tr_sequence t, tr_utf8_expected t)"

definition tracker_ok :: "tracker \<Rightarrow> bool" where
  "tracker_ok t \<longleftrightarrow> (tr_sequence t = SeqGround \<or> tr_utf8_expected t = 0)"

lemma track_byte_view:
  "tracker_view (snd (track_byte b t)) = (sequence_advance (tr_sequence t) b, tr_utf8_expected t)"
  by (simp add: track_byte_def tracker_view_def Let_def)

lemma track_byte_completes:
  "fst (track_byte b t) = Some q \<Longrightarrow> tr_sequence (snd (track_byte b t)) = SeqGround"
  by (auto simp: track_byte_def Let_def split: if_splits)

lemma observe_byte_view:
  "tracker_ok t \<Longrightarrow> tracker_view (snd (observe_byte b t)) = row_scan b (tracker_view t)"
  by (auto simp: observe_byte_def row_scan_def tracker_ok_def tracker_view_def
      track_byte_view [unfolded tracker_view_def] Let_def split: option.splits)

lemma row_scan_ok: "fst (row_scan b qn) = SeqGround \<or> snd (row_scan b qn) = 0"
  by (auto simp: row_scan_def Let_def split: option.splits prod.splits)

lemma observe_byte_ok: "tracker_ok t \<Longrightarrow> tracker_ok (snd (observe_byte b t))"
  using row_scan_ok [of b "tracker_view t"] observe_byte_view [of t b]
  unfolding tracker_ok_def tracker_view_def by (metis fst_conv snd_conv)

lemma observe_byte_completes:
  "fst (observe_byte b t) = Some q \<Longrightarrow> tr_sequence (snd (observe_byte b t)) = SeqGround"
  by (auto simp: observe_byte_def Let_def intro: track_byte_completes split: if_splits option.splits)

section \<open>The emulator's part\<close>

lemmas parser_defs =
  parse_bytes_def set_parser_size_def flush_parser_utf8_pending_def process_ground_byte_def
  process_ground_scalar_def process_one_row_wrap_def

lemma parser_fields [simp]:
  "ct_tracker (parse_bytes vt bs c) = ct_tracker c"
  "ct_parser_expected (parse_bytes vt bs c) = ct_parser_expected c"
  "ct_parser_pending (parse_bytes vt bs c) = ct_parser_pending c"
  "ct_execution (parse_bytes vt bs c) = ct_execution c"
  "ct_normal_execution (parse_bytes vt bs c) = ct_normal_execution c"
  "ct_keyboard (parse_bytes vt bs c) = ct_keyboard c"
  "ct_tracker (set_parser_size vt r n c) = ct_tracker c"
  "ct_parser_expected (set_parser_size vt r n c) = ct_parser_expected c"
  "ct_execution (set_parser_size vt r n c) = ct_execution c"
  "ct_normal_execution (set_parser_size vt r n c) = ct_normal_execution c"
  "ct_tracker (flush_parser_utf8_pending vt c) = ct_tracker c"
  "ct_parser_expected (flush_parser_utf8_pending vt c) = 0"
  "ct_execution (flush_parser_utf8_pending vt c) = ct_execution c"
  "ct_normal_execution (flush_parser_utf8_pending vt c) = ct_normal_execution c"
  "ct_tracker (process_ground_scalar vt bs c) = ct_tracker c"
  "ct_parser_expected (process_ground_scalar vt bs c) = ct_parser_expected c"
  "ct_execution (process_ground_scalar vt bs c) = ct_execution c"
  "ct_normal_execution (process_ground_scalar vt bs c) = ct_normal_execution c"
  "ct_tracker (process_ground_byte vt b c) = ct_tracker c"
  "ct_parser_expected (process_ground_byte vt b c) = ct_parser_expected c"
  "ct_execution (process_ground_byte vt b c) = ct_execution c"
  "ct_normal_execution (process_ground_byte vt b c) = ct_normal_execution c"
  by (simp_all add: parser_defs Let_def)

lemma tracker_commutes:
  "parse_bytes vt bs (c\<lparr>ct_tracker := t\<rparr>) = (parse_bytes vt bs c)\<lparr>ct_tracker := t\<rparr>"
  "set_parser_size vt r n (c\<lparr>ct_tracker := t\<rparr>) = (set_parser_size vt r n c)\<lparr>ct_tracker := t\<rparr>"
  "flush_parser_utf8_pending vt (c\<lparr>ct_tracker := t\<rparr>) = (flush_parser_utf8_pending vt c)\<lparr>ct_tracker := t\<rparr>"
  by (simp_all add: parse_bytes_def set_parser_size_def flush_parser_utf8_pending_def)

lemma tracker_commutes_scalar:
  "process_ground_scalar vt bs (c\<lparr>ct_tracker := t\<rparr>) = (process_ground_scalar vt bs c)\<lparr>ct_tracker := t\<rparr>"
  by (simp add: process_ground_scalar_def process_one_row_wrap_def tracker_commutes Let_def)

lemma tracker_commutes_byte:
  "process_ground_byte vt b (c\<lparr>ct_tracker := t\<rparr>) = (process_ground_byte vt b c)\<lparr>ct_tracker := t\<rparr>"
  by (simp add: process_ground_byte_def tracker_commutes tracker_commutes_scalar)

lemma one_row_byte_tracker:
  "one_row_byte vt b (q, c\<lparr>ct_tracker := t\<rparr>)
     = map_prod id (\<lambda>c. c\<lparr>ct_tracker := t\<rparr>) (one_row_byte vt b (q, c))"
proof -
  have swap: "c\<lparr>ct_tracker := t, ct_parser_pending := p\<rparr> = (c\<lparr>ct_parser_pending := p\<rparr>)\<lparr>ct_tracker := t\<rparr>"
    "c\<lparr>ct_tracker := t, ct_parser_expected := n\<rparr> = (c\<lparr>ct_parser_expected := n\<rparr>)\<lparr>ct_tracker := t\<rparr>"
    for c :: "('a, 'b) canonical" and p n by simp_all
  show ?thesis
    by (auto simp: swap one_row_byte_def tracker_commutes tracker_commutes_scalar
        tracker_commutes_byte Let_def split: option.splits)
qed

lemma rows_fold_tracker:
  "fold (one_row_byte vt) bs (q, c\<lparr>ct_tracker := t\<rparr>)
     = map_prod id (\<lambda>c. c\<lparr>ct_tracker := t\<rparr>) (fold (one_row_byte vt) bs (q, c))"
proof (induction bs arbitrary: q c)
  case (Cons b bs)
  obtain q' c' where "one_row_byte vt b (q, c) = (q', c')" by (cases "one_row_byte vt b (q, c)")
  with Cons show ?case by (simp add: one_row_byte_tracker)
qed simp

lemma one_row_byte_view:
  "(fst (one_row_byte vt b (q, c)), ct_parser_expected (snd (one_row_byte vt b (q, c))))
     = row_scan b (q, ct_parser_expected c)"
  by (auto simp: one_row_byte_def row_scan_def Let_def split: option.splits)

lemma one_row_byte_fields [simp]:
  "ct_execution (snd (one_row_byte vt b (q, c))) = ct_execution c"
  "ct_normal_execution (snd (one_row_byte vt b (q, c))) = ct_normal_execution c"
  "ct_tracker (snd (one_row_byte vt b (q, c))) = ct_tracker c"
  by (auto simp: one_row_byte_def Let_def split: option.splits)

lemma rows_fold_fields [simp]:
  "ct_execution (snd (fold (one_row_byte vt) bs qc)) = ct_execution (snd qc)
   \<and> ct_normal_execution (snd (fold (one_row_byte vt) bs qc)) = ct_normal_execution (snd qc)
   \<and> ct_tracker (snd (fold (one_row_byte vt) bs qc)) = ct_tracker (snd qc)"
proof (induction bs arbitrary: qc)
  case (Cons b bs)
  then show ?case by (cases qc) simp
qed simp

lemma process_parser_tracker:
  "process_parser_bytes vt bs q (c\<lparr>ct_tracker := t\<rparr>)
     = (process_parser_bytes vt bs q c)\<lparr>ct_tracker := t\<rparr>"
  by (simp add: process_parser_bytes_def tracker_commutes rows_fold_tracker)

lemma process_parser_fields [simp]:
  "ct_tracker (process_parser_bytes vt bs q c) = ct_tracker c"
  "ct_execution (process_parser_bytes vt bs q c) = ct_execution c"
  "ct_normal_execution (process_parser_bytes vt bs q c) = ct_normal_execution c"
  by (simp_all add: process_parser_bytes_def)

text \<open>The state between two bytes: the size, and what waits for the rest of a scalar.\<close>

definition canonical_ok :: "('s, 'p) vt_ops \<Rightarrow> nat \<times> nat \<Rightarrow> ('s, 'p) canonical \<Rightarrow> bool" where
  "canonical_ok vt dims c \<longleftrightarrow>
     sc_size vt (ct_screen vt c) = dims \<and> tracker_ok (ct_tracker c)
     \<and> (if fst dims = 1 then ct_parser_expected c = tr_utf8_expected (ct_tracker c)
        else ct_parser_pending c = [] \<and> ct_parser_expected c = 0)"

definition row_ok :: "('s, 'p) vt_ops \<Rightarrow> nat \<Rightarrow> ('s, 'p) canonical \<Rightarrow> bool" where
  "row_ok vt cols c \<longleftrightarrow> sc_size vt (ct_screen vt c) = (1, cols)"

lemma parse_bytes_size:
  "vt_laws vt \<Longrightarrow> sc_size vt (ct_screen vt (parse_bytes vt bs c)) = sc_size vt (ct_screen vt c)"
  by (simp add: parse_bytes_def vt_lawsD)

lemma flush_size:
  "vt_laws vt \<Longrightarrow> sc_size vt (ct_screen vt (flush_parser_utf8_pending vt c)) = sc_size vt (ct_screen vt c)"
  by (simp add: flush_parser_utf8_pending_def parse_bytes_size)

lemma scalar_size:
  assumes "vt_laws vt" "sc_size vt (ct_screen vt c) = (1, cols)"
  shows "sc_size vt (ct_screen vt (process_ground_scalar vt bs c)) = (1, cols)"
  using assms
  by (simp add: process_ground_scalar_def process_one_row_wrap_def Let_def parse_bytes_size
      set_parser_size_def vt_lawsD)

lemma one_row_byte_size:
  assumes "vt_laws vt" "sc_size vt (ct_screen vt c) = (1, cols)"
  shows "sc_size vt (ct_screen vt (snd (one_row_byte vt b (q, c)))) = (1, cols)"
  using assms
  by (auto simp: one_row_byte_def Let_def parse_bytes_size flush_size scalar_size
      process_ground_byte_def split: option.splits)

lemma rows_fold_size:
  assumes "vt_laws vt" "sc_size vt (ct_screen vt c) = (1, cols)"
  shows "sc_size vt (ct_screen vt (snd (fold (one_row_byte vt) bs (q, c)))) = (1, cols)"
  using assms(2)
proof (induction bs arbitrary: q c)
  case (Cons b bs)
  then show ?case
    using one_row_byte_size [OF assms(1) Cons.prems, of b q]
    by (cases "one_row_byte vt b (q, c)") simp
qed simp

lemma process_parser_size:
  assumes "vt_laws vt"
  shows "sc_size vt (ct_screen vt (process_parser_bytes vt bs q c)) = sc_size vt (ct_screen vt c)"
proof (cases "fst (sc_size vt (ct_screen vt c)) = 1")
  case True
  then obtain cols where "sc_size vt (ct_screen vt c) = (1, cols)"
    by (cases "sc_size vt (ct_screen vt c)") simp
  with True show ?thesis by (simp add: process_parser_bytes_def rows_fold_size [OF assms])
qed (simp add: process_parser_bytes_def parse_bytes_size flush_size assms)

lemma process_parser_pending:
  "fst (sc_size vt (ct_screen vt c)) \<noteq> 1 \<Longrightarrow>
     ct_parser_pending (process_parser_bytes vt bs q c) = []
     \<and> ct_parser_expected (process_parser_bytes vt bs q c) = 0"
  by (simp add: process_parser_bytes_def flush_parser_utf8_pending_def)

lemma process_parser_one:
  assumes "fst (sc_size vt (ct_screen vt c)) = 1"
  shows "ct_parser_expected (process_parser_bytes vt [b] q c) = snd (row_scan b (q, ct_parser_expected c))"
  using assms one_row_byte_view [of vt b q c] by (simp add: process_parser_bytes_def prod_eq_iff)

lemma process_parser_Nil:
  assumes "vt_laws vt" "canonical_ok vt dims c"
  shows "process_parser_bytes vt [] q c = c"
  using assms
  by (auto simp: process_parser_bytes_def canonical_ok_def flush_parser_utf8_pending_def
      parse_bytes_def vt_lawsD split: if_splits)

section \<open>One completed sequence\<close>

lemma enter_fields [simp]:
  "ct_parser (enter_alternate vt q c) = ct_parser c"
  "ct_tracker (enter_alternate vt q c) = ct_tracker c"
  "ct_parser_expected (enter_alternate vt q c) = ct_parser_expected c"
  "ct_parser_pending (enter_alternate vt q c) = ct_parser_pending c"
  "ct_execution (enter_alternate vt q c) = ct_execution c"
  by (auto simp: enter_alternate_def split: option.splits)

lemma leave_fields [simp]:
  "ct_parser (leave_alternate vt q c) = ct_parser c"
  "ct_tracker (leave_alternate vt q c) = ct_tracker c"
  "ct_parser_expected (leave_alternate vt q c) = ct_parser_expected c"
  "ct_parser_pending (leave_alternate vt q c) = ct_parser_pending c"
  by (auto simp: leave_alternate_def split: option.splits)

lemma observe_fields [simp]:
  "ct_parser (observe_sequence vt q c) = ct_parser c"
  "ct_tracker (observe_sequence vt q c) = ct_tracker c"
  "ct_parser_expected (observe_sequence vt q c) = ct_parser_expected c"
  "ct_parser_pending (observe_sequence vt q c) = ct_parser_pending c"
  "ct_normal_execution (observe_sequence vt q c) = ct_normal_execution c"
  "ct_execution (observe_sequence vt q c)
     = execution_observe (scr_of vt) (cq_bytes q) (ct_screen vt c) (ct_execution c)"
  by (auto simp: observe_sequence_def Let_def split: option.splits)

lemma clear_fields [simp]:
  "ct_tracker (clear_scrollback vt c) = ct_tracker c"
  "ct_parser_expected (clear_scrollback vt c) = ct_parser_expected c"
  "ct_parser_pending (clear_scrollback vt c) = ct_parser_pending c"
  "ct_execution (clear_scrollback vt c) = ct_execution c"
  "ct_normal_execution (clear_scrollback vt c) = ct_normal_execution c"
  by (simp_all add: clear_scrollback_def parse_bytes_def split_beta)

lemma clear_size:
  "vt_laws vt \<Longrightarrow> sc_size vt (ct_screen vt (clear_scrollback vt c)) = sc_size vt (ct_screen vt c)"
  by (simp add: clear_scrollback_def split_beta parse_bytes_def vt_lawsD)

lemma complete_fields:
  assumes "vt_laws vt"
  shows "sc_size vt (ct_screen vt (complete_sequence vt b before q c)) = sc_size vt (ct_screen vt c)"
    and "ct_tracker (complete_sequence vt b before q c) = ct_tracker c"
    and "ct_parser_expected (complete_sequence vt b before q c) 
        = ct_parser_expected (process_parser_bytes vt [b] before (enter_alternate vt q c))"
    and "ct_parser_pending (complete_sequence vt b before q c) 
        = ct_parser_pending (process_parser_bytes vt [b] before (enter_alternate vt q c))"
  by (simp_all add: complete_sequence_def Let_def clear_size parse_bytes_size process_parser_size assms)

lemma canonical_byte_ok:
  assumes laws: "vt_laws vt" and ok: "canonical_ok vt dims c"
  shows "canonical_ok vt dims (canonical_byte vt b c)"
proof -
  obtain completed t where o: "observe_byte b (ct_tracker c) = (completed, t)"
    by (cases "observe_byte b (ct_tracker c)")
  have t: "tracker_ok t" and view: "tr_utf8_expected t
      = snd (row_scan b (tr_sequence (ct_tracker c), tr_utf8_expected (ct_tracker c)))"
    using ok observe_byte_ok [of "ct_tracker c" b] observe_byte_view [of "ct_tracker c" b] o
    by (auto simp: canonical_ok_def tracker_view_def prod_eq_iff)
  show ?thesis
  proof (cases "fst dims = 1")
    case True
    with ok t view show ?thesis
      by (cases completed)
        (simp_all add: canonical_byte_def o canonical_ok_def complete_fields [OF laws]
          process_parser_size [OF laws] process_parser_one)
  next
    case False
    with ok t show ?thesis
      by (cases completed)
        (simp_all add: canonical_byte_def o canonical_ok_def complete_fields [OF laws]
          process_parser_size [OF laws] process_parser_pending)
  qed
qed

lemma canonical_fold_ok:
  "vt_laws vt \<Longrightarrow> canonical_ok vt dims c \<Longrightarrow> canonical_ok vt dims (fold (canonical_byte vt) bs c)"
  by (induction bs arbitrary: c) (simp_all add: canonical_byte_ok)

section \<open>Chunks do not matter\<close>

text \<open>The sequence the emulator's loop believes to be inside of after a segment.\<close>

definition segment_sequence ::
    "('s, 'p) vt_ops \<Rightarrow> bytes \<Rightarrow> escape_sequence \<Rightarrow> ('s, 'p) canonical \<Rightarrow> escape_sequence" where
  "segment_sequence vt segment q c = fst (fold (one_row_byte vt) segment (q, c))"

lemma segment_extend:
  assumes laws: "vt_laws vt"
    and ok: "canonical_ok vt dims (process_parser_bytes vt segment q c)"
    and size: "sc_size vt (ct_screen vt c) = dims"
    and agree: "fst dims = 1 \<Longrightarrow> segment_sequence vt segment q c = before"
  shows "process_parser_bytes vt (segment @ [b]) q c
     = process_parser_bytes vt [b] before (process_parser_bytes vt segment q c)"
proof (cases "fst dims = 1")
  case True
  obtain q' d where f: "fold (one_row_byte vt) segment (q, c) = (q', d)"
    by (cases "fold (one_row_byte vt) segment (q, c)")
  have "process_parser_bytes vt segment q c = d"
    using True size f by (simp add: process_parser_bytes_def)
  then show ?thesis
    using True size f agree [OF True] process_parser_size [OF laws, of segment q c]
    by (simp add: process_parser_bytes_def segment_sequence_def)
next
  case False
  then show ?thesis
    using size process_parser_size [OF laws, of segment q c]
    by (simp add: process_parser_bytes_def parse_bytes_def vt_lawsD [OF laws]
        flush_parser_utf8_pending_def)
qed

lemma process_from_bytes:
  assumes laws: "vt_laws vt"
    and ok: "canonical_ok vt dims (process_parser_bytes vt segment q c)"
    and size: "sc_size vt (ct_screen vt c) = dims"
    and agree: "fst dims = 1 \<Longrightarrow> segment_sequence vt segment q c = tr_sequence (ct_tracker c)"
  shows "process_from vt bs segment q c
     = fold (canonical_byte vt) bs (process_parser_bytes vt segment q c)"
  using ok size agree
proof (induction bs arbitrary: segment q c)
  case (Cons b bs)
  let ?before = "tr_sequence (ct_tracker c)"
  let ?d = "process_parser_bytes vt segment q c"
  obtain completed t where o: "observe_byte b (ct_tracker c) = (completed, t)"
    by (cases "observe_byte b (ct_tracker c)")
  have next_ok: "canonical_ok vt dims (canonical_byte vt b ?d)"
    by (rule canonical_byte_ok [OF laws Cons.prems(1)])
  show ?case
  proof (cases completed)
    case (Some p)
    let ?e = "complete_sequence vt b ?before p (process_parser_bytes vt segment q (c\<lparr>ct_tracker := t\<rparr>))"
    have e: "canonical_byte vt b ?d = ?e"
      using o Some by (simp add: canonical_byte_def process_parser_tracker)
    have ok_e: "canonical_ok vt dims ?e" using next_ok by (simp add: e)
    have ground: "tr_sequence (ct_tracker ?e) = SeqGround"
      using observe_byte_completes [of b "ct_tracker c"] o Some by (simp add: complete_fields [OF laws])
    have "process_from vt bs [] SeqGround ?e = fold (canonical_byte vt) bs ?e"
      using Cons.IH [of "[]" SeqGround ?e] ok_e ground
      by (simp add: process_parser_Nil [OF laws ok_e] segment_sequence_def canonical_ok_def)
    with e o Some show ?thesis by simp
  next
    case None
    let ?c = "c\<lparr>ct_tracker := t\<rparr>"
    have ext: "process_parser_bytes vt (segment @ [b]) q ?c
        = process_parser_bytes vt [b] ?before (?d\<lparr>ct_tracker := t\<rparr>)"
      using segment_extend [OF laws Cons.prems(1,2,3)] by (simp add: process_parser_tracker)
    have e: "canonical_byte vt b ?d = process_parser_bytes vt (segment @ [b]) q ?c"
      using o None by (simp add: canonical_byte_def ext)
    have "fst dims = 1 \<Longrightarrow> segment_sequence vt (segment @ [b]) q ?c = tr_sequence t"
    proof -
      assume one: "fst dims = 1"
      obtain q' d where f: "fold (one_row_byte vt) segment (q, c) = (q', d)"
        by (cases "fold (one_row_byte vt) segment (q, c)")
      have s: "segment_sequence vt (segment @ [b]) q ?c = fst (one_row_byte vt b (q', d))"
        by (simp add: segment_sequence_def rows_fold_tracker f one_row_byte_tracker)
      have d: "?d = d" using one Cons.prems(2) f by (simp add: process_parser_bytes_def)
      have "ct_parser_expected d = tr_utf8_expected (ct_tracker c)" and "tracker_ok (ct_tracker c)"
        using Cons.prems(1) one d by (auto simp: canonical_ok_def)
      moreover have "q' = ?before" using Cons.prems(3) one f by (simp add: segment_sequence_def)
      ultimately show "segment_sequence vt (segment @ [b]) q ?c = tr_sequence t"
        using one_row_byte_view [of vt b q' d] observe_byte_view [of "ct_tracker c" b] o s
        by (simp add: tracker_view_def prod_eq_iff)
    qed
    then have "process_from vt bs (segment @ [b]) q ?c
        = fold (canonical_byte vt) bs (process_parser_bytes vt (segment @ [b]) q ?c)"
      using Cons.IH [of "segment @ [b]" q ?c] next_ok Cons.prems(2) by (simp add: e)
    with e o None show ?thesis by simp
  qed
qed simp

lemma canonical_process_bytes:
  assumes laws: "vt_laws vt" and ok: "canonical_ok vt dims c"
  shows "canonical_process vt c bs = fold (canonical_byte vt) bs c"
  using process_from_bytes [OF laws, of dims "[]" "tr_sequence (ct_tracker c)" c bs] ok
  by (simp add: canonical_process_def process_parser_Nil [OF laws ok] segment_sequence_def
      canonical_ok_def)

lemma canonical_new_ok:
  "vt_laws vt \<Longrightarrow> canonical_ok vt (rows, cols) (canonical_new vt rows cols scrollback_rows)"
  by (simp add: canonical_ok_def canonical_new_def tracker_new_def tracker_ok_def vt_lawsD)

text \<open>What a session does with its terminal.\<close>

inductive canonical_reach :: "('s, 'p) vt_ops \<Rightarrow> ('s, 'p) canonical \<Rightarrow> bool" for vt where
  reach_new: "canonical_reach vt (canonical_new vt rows cols scrollback_rows)"
| reach_process: "canonical_reach vt c \<Longrightarrow> canonical_reach vt (canonical_process vt c bs)"
| reach_resize: "canonical_reach vt c \<Longrightarrow>
    canonical_reach vt (canonical_resize vt c rows cols scrollback_rows pixel_width pixel_height)"
| reach_drain: "canonical_reach vt c \<Longrightarrow> canonical_reach vt (snd (drain_responses c))"

lemma canonical_reach_ok:
  assumes laws: "vt_laws vt"
  shows "canonical_reach vt c \<Longrightarrow> \<exists>dims. canonical_ok vt dims c"
proof (induction rule: canonical_reach.induct)
  case (reach_new rows cols scrollback_rows)
  then show ?case using canonical_new_ok [OF laws] by blast
next
  case (reach_process c bs)
  then show ?case using canonical_process_bytes [OF laws] canonical_fold_ok [OF laws] by metis
next
  case (reach_resize c rows cols n w h)
  let ?new = "canonical_process vt (canonical_new vt rows cols n) (resize_snapshot vt rows cols c)"
  have "canonical_ok vt (rows, cols) ?new"
    using canonical_process_bytes [OF laws canonical_new_ok [OF laws]]
      canonical_fold_ok [OF laws canonical_new_ok [OF laws]] by metis
  then show ?case using reach_resize.IH
    by (cases "sc_size vt (ct_screen vt c) = (rows, cols) \<and> ct_scrollback_rows c = n")
      (auto simp: canonical_resize_def canonical_ok_def)
next
  case (reach_drain c)
  then show ?case by (auto simp: drain_responses_def canonical_ok_def)
qed

text \<open>Bytes make a machine whose runs are the calls of \<open>process\<close>.\<close>

interpretation stream_bytes: stream_machine
  "\<lambda>c b. canonical_byte vt b c" "\<lambda>c bs. fold (canonical_byte vt) bs c" for vt
  by unfold_locales simp_all

text \<open>C1. However the reads of the PTY cut the output of a program into chunks, also inside escape
  sequences and UTF-8 scalars, and on a terminal of any size, the canonical terminal ends in the same
  state: the same screen, modes, keyboard flags, pending bytes and answers.\<close>

theorem canonical_chunking:
  assumes "vt_laws vt" and "canonical_reach vt c"
  shows "foldl (canonical_process vt) c chunks = canonical_process vt c (concat chunks)"
proof -
  obtain dims where ok: "canonical_ok vt dims c"
    using canonical_reach_ok [OF assms] by blast
  have "foldl (canonical_process vt) c chunks = foldl (\<lambda>c bs. fold (canonical_byte vt) bs c) c chunks"
    using ok
    by (induction chunks arbitrary: c)
      (simp_all add: canonical_process_bytes [OF assms(1)] canonical_fold_ok [OF assms(1)])
  then show ?thesis
    using stream_bytes.run_concat [where vt = vt and s = c and chunks = chunks] canonical_process_bytes [OF assms(1) ok] by simp
qed

text \<open>An emulator that keeps what it got: a page of paper of some size.\<close>

definition paper_vt :: "(bytes \<times> nat \<times> nat, bytes \<times> nat \<times> nat) vt_ops" where
  "paper_vt =
     \<lparr>sc_size = snd, sc_cursor = (\<lambda>s. (0, length (fst s))), sc_alternate = (\<lambda>_. False),
      sc_hide_cursor = (\<lambda>_. False), sc_mouse = (\<lambda>_. MouseNone), sc_input_modes = (\<lambda>_. []),
      sc_formatted = fst, sc_set_scrollback = (\<lambda>s _. s), sc_scrollback = (\<lambda>_. 0),
      sc_row_wrapped = (\<lambda>_ _. False), sc_cell = (\<lambda>_ _ _. None),
      sc_rows_formatted = (\<lambda>_ _ _. []), sc_rows = (\<lambda>_ _ _. []),
      vt_new = (\<lambda>r c _. ([], r, c)), vt_process = (\<lambda>p bs. (fst p @ bs, snd p)), vt_screen = id,
      vt_set_size = (\<lambda>p r c. (fst p, r, c)), vt_char_width = (\<lambda>_. Some 1),
      vt_version = ''1'', vt_cell_bytes = 32\<rparr>"

lemma paper_laws: "vt_laws paper_vt"
  by (simp add: vt_laws_def paper_vt_def)

lemma canonical_chunking_witness:
  "foldl (canonical_process paper_vt) (canonical_new paper_vt 1 4 10)
     [[ESCAPE], ''[3'', ''1mab'', [CHR 0xC3], [CHR 0xA9]]
   = canonical_process paper_vt (canonical_new paper_vt 1 4 10)
       (csi ''31mab'' @ [CHR 0xC3, CHR 0xA9])"
  using canonical_chunking [OF paper_laws reach_new,
      of 1 4 10 "[[ESCAPE], ''[3'', ''1mab'', [CHR 0xC3], [CHR 0xA9]]"]
  by (simp add: csi_def)

section \<open>Positions under reflow\<close>


text \<open>Two rows of eight columns that are one line, shown on two rows of four.\<close>

definition demo_plan :: reflow_plan where
  "demo_plan = \<lparr>rp_bytes = [], rp_rows = 2, rp_cols = 4, rp_source_cols = 8, rp_history = 0,
     rp_groups = [\<lparr>rg_start = 0, rg_end = 1, rg_target = 0\<rparr>], rp_total = 3,
     rp_cursor = (0, 0), rp_pending = None\<rparr>"

lemma demo_plan_position: "map_position demo_plan 1 2 = (1, 2)"
  by (simp add: map_position_def demo_plan_def u16_max_def)


end
