(* ===== verification/CanonicalRestore.thy ===== *)
theory CanonicalRestore
  imports CanonicalProps
begin

text \<open>
  What a snapshot writes for the modes, margins, attributes and saved cursor of a terminal
  (\<open>write_restore_at\<close>), read back by a fresh terminal, and the keyboard stacks
  (\<open>write_kitty_keyboard_restore\<close>). The text is followed through the tracker as a list of completed
  sequences, each with its effect on the state.
\<close>

section \<open>Completed sequences of a text\<close>

fun track_run :: "bytes \<Rightarrow> tracker \<Rightarrow> completed_sequence list \<times> tracker" where
  "track_run [] t = ([], t)"
| "track_run (b # bs) t =
     (let (completed, t) = observe_byte b t; (qs, t) = track_run bs t in
      (case completed of None \<Rightarrow> qs | Some q \<Rightarrow> q # qs, t))"

lemma track_run_append:
  "track_run (a @ b) t =
     (let (qs, t) = track_run a t; (qs', t) = track_run b t in (qs @ qs', t))"
  by (induction a arbitrary: t) (auto simp: Let_def split: prod.splits option.splits)

definition completion :: "bytes \<Rightarrow> completed_sequence" where
  "completion s = \<lparr>cq_mode = alternate_mode_of s, cq_erase = erases_scrollback s, cq_bytes = s\<rparr>"

text \<open>A text that is read as exactly these sequences, and leaves nothing pending.\<close>

definition reads_as :: "bytes \<Rightarrow> bytes list \<Rightarrow> bool" where
  "reads_as bs ss \<longleftrightarrow> track_run bs tracker_new = (map completion ss, tracker_new)"

lemma reads_as_Nil [simp]: "reads_as [] []"
  by (simp add: reads_as_def)

lemma reads_as_append: "reads_as a ss \<Longrightarrow> reads_as b ss' \<Longrightarrow> reads_as (a @ b) (ss @ ss')"
  by (simp add: reads_as_def track_run_append)

lemma reads_as_concat: "(\<And>s. s \<in> set ss \<Longrightarrow> reads_as s [s]) \<Longrightarrow> reads_as (concat ss) ss"
proof (induction ss)
  case (Cons s ss)
  then show ?case using reads_as_append [of s "[s]" "concat ss" ss] by simp
qed simp

text \<open>A control sequence: parameter and intermediate bytes, and one final byte.\<close>

definition param_byte :: "byte \<Rightarrow> bool" where
  "param_byte b \<longleftrightarrow> byte_in b 0x20 0x3f"

definition csi_tracker :: "bytes \<Rightarrow> tracker" where
  "csi_tracker pending = \<lparr>tr_sequence = SeqCsi, tr_pending = pending, tr_utf8_pending = [],
     tr_utf8_expected = 0\<rparr>"

lemma observe_escape:
  "observe_byte ESCAPE tracker_new
     = (None, \<lparr>tr_sequence = SeqEscape, tr_pending = [ESCAPE], tr_utf8_pending = [],
               tr_utf8_expected = 0\<rparr>)"
  by (simp add: observe_byte_def tracker_new_def utf8_expected_def track_byte_def
      MAX_PENDING_SEQUENCE_BYTES_def)

lemma observe_bracket:
  "observe_byte (CHR ''['') \<lparr>tr_sequence = SeqEscape, tr_pending = [ESCAPE], tr_utf8_pending = [],
       tr_utf8_expected = 0\<rparr> = (None, csi_tracker (csi []))"
  by (simp add: observe_byte_def track_byte_def csi_tracker_def csi_def MAX_PENDING_SEQUENCE_BYTES_def)

lemma observe_param:
  "param_byte b \<Longrightarrow> length pending < MAX_PENDING_SEQUENCE_BYTES \<Longrightarrow>
     observe_byte b (csi_tracker pending) = (None, csi_tracker (pending @ [b]))"
  by (simp add: observe_byte_def track_byte_def csi_tracker_def param_byte_def)

lemma observe_final:
  "byte_in b 0x40 0x7e \<Longrightarrow> pending \<noteq> [] \<Longrightarrow> length pending < MAX_PENDING_SEQUENCE_BYTES \<Longrightarrow>
     observe_byte b (csi_tracker pending) = (Some (completion (pending @ [b])), tracker_new)"
  by (auto simp: observe_byte_def track_byte_def csi_tracker_def tracker_new_def completion_def
      Let_def)

lemma track_params:
  assumes "list_all param_byte ps" "byte_in f 0x40 0x7e" "pending \<noteq> []"
    "length pending + length ps < MAX_PENDING_SEQUENCE_BYTES"
  shows "track_run (ps @ [f]) (csi_tracker pending) = ([completion (pending @ ps @ [f])], tracker_new)"
  using assms
proof (induction ps arbitrary: pending)
  case Nil
  then show ?case by (simp add: observe_final)
next
  case (Cons p ps)
  then show ?case by (simp add: observe_param)
qed

lemma reads_as_csi:
  assumes "list_all param_byte ps" "byte_in f 0x40 0x7e" "length ps + 2 < MAX_PENDING_SEQUENCE_BYTES"
  shows "reads_as (csi (ps @ [f])) [csi (ps @ [f])]"
  using track_params [of ps f "csi []"] assms
  by (simp add: reads_as_def csi_def observe_escape observe_bracket)

lemma reads_as_save: "reads_as [ESCAPE, CHR ''7''] [[ESCAPE, CHR ''7'']]"
  by (simp add: reads_as_def observe_escape)
    (simp add: observe_byte_def track_byte_def MAX_PENDING_SEQUENCE_BYTES_def tracker_new_def
      completion_def Let_def)

lemma dec_bytes_digits: "b \<in> set (dec_bytes n) \<Longrightarrow> byte_in b 0x30 0x39"
  using digits_dec [of n] by (auto simp: dec_bytes_def list_all_iff is_ascii_digit_def)

lemma dec_bytes_params: "list_all param_byte (dec_bytes n)"
  using dec_bytes_digits [of _ n] by (fastforce simp: list_all_iff param_byte_def)

lemma map_dec_bytes: "map byte_val (dec_bytes n) = dec_digits n"
  using digits_dec [of n] unfolding dec_bytes_def
  by (auto simp: list_all_iff is_ascii_digit_def intro!: map_idI)

lemma parse_dec_bytes: "n \<le> u16_max \<Longrightarrow> parse_u16 (dec_bytes n) = Some n"
  by (simp add: parse_u16_def map_dec_bytes parse_dec u16_max_def u64_max_def)

lemma dec_bytes_nonempty [simp]: "dec_bytes n \<noteq> []"
  by (simp add: dec_bytes_def)

lemma dec_digits_length: "n \<le> u16_max \<Longrightarrow> length (dec_digits n) \<le> 5"
  unfolding u16_max_def
  by (subst dec_digits.simps, simp, subst dec_digits.simps, simp, subst dec_digits.simps, simp,
      subst dec_digits.simps, simp, subst dec_digits.simps, simp)

lemma dec_bytes_length: "n \<le> u16_max \<Longrightarrow> length (dec_bytes n) \<le> 5"
  by (simp add: dec_bytes_def dec_digits_length)

section \<open>The effect of a list of sequences\<close>

inductive observes ::
    "'s screen_ops \<Rightarrow> nat \<Rightarrow> bytes list \<Rightarrow> execution_state \<Rightarrow> execution_state \<Rightarrow> bool" for scr rows where
  observes_Nil: "observes scr rows [] e e"
| observes_Cons: "fst (sc_size scr screen) = rows \<Longrightarrow>
    observes scr rows ss (execution_observe scr s screen e) e' \<Longrightarrow> observes scr rows (s # ss) e e'"

inductive_simps observes_simps [simp]:
  "observes scr rows [] e e'"
  "observes scr rows (s # ss) e e'"

lemma observes_append:
  "observes scr rows (a @ b) e e'' \<longleftrightarrow> (\<exists>e'. observes scr rows a e e' \<and> observes scr rows b e' e'')"
  by (induction a arbitrary: e) auto

lemma scr_of_fields [simp]:
  "sc_size (scr_of vt) = sc_size vt" "sc_cursor (scr_of vt) = sc_cursor vt"
  by (simp_all add: screen_ops.truncate_def)

lemma complete_execution:
  assumes "vt_laws vt" "cq_mode q = AltNone"
  shows "\<exists>screen. sc_size vt screen = sc_size vt (ct_screen vt c)
     \<and> ct_execution (complete_sequence vt b before q c)
         = execution_observe (scr_of vt) (cq_bytes q) screen (ct_execution c)"
proof -
  let ?d = "process_parser_bytes vt [b] before c"
  let ?f = "if cq_erase q \<and> \<not> sc_alternate vt (ct_screen vt ?d) then clear_scrollback vt ?d else ?d"
  have "sc_size vt (ct_screen vt ?f) = sc_size vt (ct_screen vt c)"
    by (simp add: clear_size process_parser_size assms)
  moreover have "ct_execution (complete_sequence vt b before q c)
      = execution_observe (scr_of vt) (cq_bytes q) (ct_screen vt ?f) (ct_execution c)"
    using assms(2)
    by (simp add: complete_sequence_def Let_def leave_alternate_def enter_alternate_def
        exits_alternate_def)
  ultimately show ?thesis by blast
qed

lemma fold_observes:
  assumes "vt_laws vt" and "canonical_ok vt dims c"
    and "track_run bs (ct_tracker c) = (qs, t)" and "\<forall>q \<in> set qs. cq_mode q = AltNone"
  shows "observes (scr_of vt) (fst dims) (map cq_bytes qs) (ct_execution c)
           (ct_execution (fold (canonical_byte vt) bs c))
     \<and> ct_tracker (fold (canonical_byte vt) bs c) = t"
  using assms(2-4)
proof (induction bs arbitrary: c qs)
  case (Cons b bs)
  obtain completed u where o: "observe_byte b (ct_tracker c) = (completed, u)"
    by (cases "observe_byte b (ct_tracker c)")
  obtain qs' where r: "track_run bs u = (qs', t)"
    and qs: "qs = (case completed of None \<Rightarrow> qs' | Some q \<Rightarrow> q # qs')"
    using Cons.prems(2) o by (auto split: prod.splits)
  have ok: "canonical_ok vt dims (canonical_byte vt b c)"
    by (rule canonical_byte_ok [OF assms(1) Cons.prems(1)])
  show ?case
  proof (cases completed)
    case None
    then show ?thesis
      using Cons.IH [OF ok, of qs'] Cons.prems(3) r qs o by (simp add: canonical_byte_def)
  next
    case (Some q)
    let ?c = "c\<lparr>ct_tracker := u\<rparr>"
    have mode: "cq_mode q = AltNone" using Some qs Cons.prems(3) by simp
    obtain screen where "sc_size vt screen = sc_size vt (ct_screen vt c)"
      and "ct_execution (canonical_byte vt b c)
        = execution_observe (scr_of vt) (cq_bytes q) screen (ct_execution c)"
      using complete_execution [OF assms(1) mode, of ?c b "tr_sequence (ct_tracker c)"] o Some
      by (auto simp: canonical_byte_def)
    then show ?thesis
      using Cons.IH [OF ok, of qs'] Cons.prems(1,3) r qs o Some
      by (auto simp: canonical_byte_def complete_fields [OF assms(1)] canonical_ok_def)
  qed
qed simp

lemma process_observes:
  assumes laws: "vt_laws vt" and "reads_as bs ss" and "\<forall>s \<in> set ss. alternate_mode_of s = AltNone"
  shows "observes (scr_of vt) rows ss (execution_new rows)
           (ct_execution (canonical_process vt (canonical_new vt rows cols n) bs))"
proof -
  let ?new = "canonical_new vt rows cols n"
  have "ct_tracker ?new = tracker_new" "ct_execution ?new = execution_new rows"
    by (simp_all add: canonical_new_def)
  moreover have "map cq_bytes (map completion ss) = ss" by (simp add: completion_def comp_def)
  ultimately show ?thesis
    using fold_observes [OF laws canonical_new_ok [OF laws], of bs rows cols n "map completion ss"]
      canonical_process_bytes [OF laws canonical_new_ok [OF laws]] assms(2,3)
    by (simp add: reads_as_def completion_def comp_def)
qed

section \<open>What each sequence does\<close>

lemma csi_parts_csi:
  assumes "byte_in f 0x40 0x7e"
  shows "csi_parts (csi (ps @ [f]))
     = Some (takeWhile (\<lambda>b. \<not> byte_in b 0x20 0x2f) ps, dropWhile (\<lambda>b. \<not> byte_in b 0x20 0x2f) ps, f)"
  using assms by (simp add: csi_parts_def csi_body_def csi_def starts_with_def Let_def)

definition plain_params :: "bytes \<Rightarrow> bool" where
  "plain_params ps \<longleftrightarrow> list_all (\<lambda>b. byte_in b 0x30 0x3f) ps"

lemma csi_parts_plain:
  assumes "byte_in f 0x40 0x7e" "plain_params ps"
  shows "csi_parts (csi (ps @ [f])) = Some (ps, [], f)"
proof -
  have "\<forall>b \<in> set ps. \<not> byte_in b 0x20 0x2f"
    using assms(2) by (fastforce simp: plain_params_def list_all_iff)
  then show ?thesis by (simp add: csi_parts_csi [OF assms(1)])
qed

lemma plain_dec: "plain_params (dec_bytes n)"
  using dec_bytes_digits [of _ n] by (fastforce simp: plain_params_def list_all_iff)

lemma plain_params_simps [simp]:
  "plain_params []" "plain_params (a @ b) \<longleftrightarrow> plain_params a \<and> plain_params b"
  "plain_params (x # a) \<longleftrightarrow> byte_in x 0x30 0x3f \<and> plain_params a"
  by (auto simp: plain_params_def)

lemma alternate_final:
  "f \<notin> {CHR ''h'', CHR ''l''} \<Longrightarrow> alternate_mode_of (csi (ps @ [f])) = AltNone"
  by (simp add: alternate_mode_of_def csi_def)

lemma dec_no_separator: "CHR '';'' \<notin> set (dec_bytes n)"
  using dec_bytes_digits [of "CHR '';''" n] by auto

lemma numeric_dec: "n \<le> u16_max \<Longrightarrow> numeric_params (dec_bytes n) = [Some n]"
  by (simp add: numeric_params_def split_on_none dec_no_separator parse_dec_bytes)

lemma numeric_two:
  "a \<le> u16_max \<Longrightarrow> b \<le> u16_max \<Longrightarrow>
     numeric_params (dec_bytes a @ '';'' @ dec_bytes b) = [Some a, Some b]"
  by (simp add: numeric_params_def split_on_append split_on_none dec_no_separator parse_dec_bytes)

lemma not_reset: "csi s \<noteq> [ESCAPE, CHR ''c'']"
  by (simp add: csi_def)

text \<open>One lemma for each final byte; the parameters have no intermediate bytes.\<close>

lemma observe_high:
  assumes "plain_params ps"
  shows "execution_observe scr (csi (ps @ ''h'')) screen e
     = (if starts_with ps ''?''
        then fold (set_dec_mode True) (flattened (numeric_params (tl ps))) (e\<lparr>ex_rows := fst (sc_size scr screen)\<rparr>)
        else fold (set_ansi_mode True) (flattened (numeric_params ps)) (e\<lparr>ex_rows := fst (sc_size scr screen)\<rparr>))"
  using csi_parts_plain [OF _ assms, of "CHR ''h''"] by (simp add: execution_observe_def not_reset)

lemma observe_low:
  assumes "plain_params ps"
  shows "execution_observe scr (csi (ps @ ''l'')) screen e
     = (if starts_with ps ''?''
        then fold (set_dec_mode False) (flattened (numeric_params (tl ps))) (e\<lparr>ex_rows := fst (sc_size scr screen)\<rparr>)
        else fold (set_ansi_mode False) (flattened (numeric_params ps)) (e\<lparr>ex_rows := fst (sc_size scr screen)\<rparr>))"
  using csi_parts_plain [OF _ assms, of "CHR ''l''"] by (simp add: execution_observe_def not_reset)

lemma observe_region:
  assumes "plain_params ps"
  shows "execution_observe scr (csi (ps @ ''r'')) screen e
     = set_region (numeric_params ps) (e\<lparr>ex_rows := fst (sc_size scr screen)\<rparr>)"
  using csi_parts_plain [OF _ assms, of "CHR ''r''"] by (simp add: execution_observe_def not_reset)

lemma observe_position:
  assumes "plain_params ps"
  shows "execution_observe scr (csi (ps @ ''H'')) screen e = e\<lparr>ex_rows := fst (sc_size scr screen)\<rparr>"
  using csi_parts_plain [OF _ assms, of "CHR ''H''"] by (simp add: execution_observe_def not_reset)

lemma observe_attrs:
  assumes "csi_parts s = Some (ps, [], CHR ''m'')"
  shows "execution_observe scr s screen e = observe_sgr s ps (e\<lparr>ex_rows := fst (sc_size scr screen)\<rparr>)"
proof -
  have "s \<noteq> [ESCAPE, CHR ''c'']"
    using assms by (auto simp: csi_parts_def csi_body_def starts_with_def)
  with assms show ?thesis by (simp add: execution_observe_def)
qed

lemma observe_style:
  assumes "n \<le> 6"
  shows "execution_observe scr (csi (dec_bytes n @ '' q'')) screen e
     = e\<lparr>ex_rows := fst (sc_size scr screen), ex_cursor_style := n\<rparr>"
proof -
  have "\<forall>b \<in> set (dec_bytes n). \<not> byte_in b 0x20 0x2f"
    using plain_dec [of n] by (fastforce simp: plain_params_def list_all_iff)
  then have "csi_parts (csi ((dec_bytes n @ '' '') @ [CHR ''q''])) = Some (dec_bytes n, '' '', CHR ''q'')"
    by (subst csi_parts_csi) (simp_all add: takeWhile_append dropWhile_append)
  then show ?thesis
    using assms by (simp add: execution_observe_def not_reset numeric_dec u16_max_def param_or_def
        param_def)
qed

lemma observe_save:
  "execution_observe scr [ESCAPE, CHR ''7''] screen e
     = save_cursor (sc_cursor scr screen) (e\<lparr>ex_rows := fst (sc_size scr screen)\<rparr>)"
  by (simp add: execution_observe_def csi_parts_def csi_body_def starts_with_def)

lemma observe_dec_mode:
  assumes "mode \<le> u16_max"
  shows "execution_observe scr (write_dec_mode mode enabled) screen e
     = set_dec_mode enabled mode (e\<lparr>ex_rows := fst (sc_size scr screen)\<rparr>)"
proof -
  have "write_dec_mode mode enabled = csi ((''?'' @ dec_bytes mode) @ (if enabled then ''h'' else ''l''))"
    by (simp add: write_dec_mode_def)
  then show ?thesis
    using observe_high [of "''?'' @ dec_bytes mode"] observe_low [of "''?'' @ dec_bytes mode"]
    by (cases enabled)
      (simp_all add: plain_dec starts_with_def numeric_dec assms flattened_def map_filter_simps)
qed

lemma observe_ansi_mode:
  "execution_observe scr (write_ansi_mode 4 enabled) screen e
     = e\<lparr>ex_rows := fst (sc_size scr screen), ex_insert := enabled\<rparr>"
proof -
  have "CHR ''?'' \<notin> set (dec_bytes 4)"
    using dec_bytes_digits [of "CHR ''?''" 4] by auto
  then have "\<not> starts_with (dec_bytes 4) ''?''"
    by (auto simp: starts_with_iff)
  then show ?thesis
    using observe_high [of "dec_bytes 4"] observe_low [of "dec_bytes 4"]
    by (cases enabled)
      (simp_all add: plain_dec numeric_dec u16_max_def flattened_def map_filter_simps
        set_ansi_mode_def write_ansi_mode_def)
qed

section \<open>States worth restoring\<close>

text \<open>A recorded change of attributes: one complete sequence that is not a plain reset. Only the first
  of the recorded ones may reset what came before.\<close>

definition sgr_ok :: "bytes \<Rightarrow> bool" where
  "sgr_ok s \<longleftrightarrow> reads_as s [s] \<and>
     (case csi_parts s of
        None \<Rightarrow> False
      | Some (ps, intermediates, f) \<Rightarrow> intermediates = [] \<and> f = CHR ''m'' \<and> ps \<noteq> []
          \<and> \<not> (length (numeric_params ps) = 1 \<and> param_or 0 (numeric_params ps) 0 = 0))"

definition sgr_resets_seq :: "bytes \<Rightarrow> bool" where
  "sgr_resets_seq s = (case csi_parts s of None \<Rightarrow> False | Some (ps, _, _) \<Rightarrow> sgr_resets ps)"

definition attrs_ok :: "bytes list \<Rightarrow> bool" where
  "attrs_ok attrs \<longleftrightarrow> list_all sgr_ok attrs \<and> list_all (\<lambda>s. \<not> sgr_resets_seq s) (tl attrs)
     \<and> sum_list (map length attrs) \<le> MAX_TRACKED_SGR_BYTES"

definition execution_ok :: "nat \<Rightarrow> execution_state \<Rightarrow> bool" where
  "execution_ok rows e \<longleftrightarrow>
     ex_rows e = rows \<and> rows \<le> u16_max
     \<and> (case ex_region e of None \<Rightarrow> True | Some (upper, bottom) \<Rightarrow> upper < bottom \<and> bottom < rows)
     \<and> ex_cursor_style e \<le> 6
     \<and> attrs_ok (ex_attrs e) \<and> ex_attrs_bytes e = sum_list (map length (ex_attrs e))
     \<and> (case ex_saved e of None \<Rightarrow> True
        | Some s \<Rightarrow> attrs_ok (sv_attrs s) \<and> sv_row s < u16_max \<and> sv_col s < u16_max)"

lemma observe_sgr_append:
  assumes "sgr_ok s" and "\<not> sgr_resets_seq s \<or> ex_attrs e = [] \<and> ex_attrs_bytes e = 0"
    and "ex_attrs_bytes e + length s \<le> MAX_TRACKED_SGR_BYTES"
  shows "execution_observe scr s screen e
     = e\<lparr>ex_rows := fst (sc_size scr screen), ex_attrs := ex_attrs e @ [s],
         ex_attrs_bytes := ex_attrs_bytes e + length s\<rparr>"
proof -
  obtain ps where p: "csi_parts s = Some (ps, [], CHR ''m'')" and ps: "ps \<noteq> []"
    "\<not> (length (numeric_params ps) = 1 \<and> param_or 0 (numeric_params ps) 0 = 0)"
    using assms(1) by (auto simp: sgr_ok_def split: option.splits)
  have limit: "\<not> MAX_TRACKED_SGR_BYTES < sat_add (ex_attrs_bytes e) (length s)"
    using assms(3) sat_add_le [of "ex_attrs_bytes e" "length s"] by linarith
  have c: "\<not> (ps = [] \<or> length (numeric_params ps) = 1 \<and> param_or 0 (numeric_params ps) 0 = 0)"
    using ps by blast
  let ?e = "e\<lparr>ex_rows := fst (sc_size scr screen)\<rparr>"
  let ?r = "if sgr_resets ps then ?e\<lparr>ex_attrs := [], ex_attrs_bytes := 0\<rparr> else ?e"
  have r: "?r = ?e"
    using assms(2) p by (cases e) (auto simp: sgr_resets_seq_def)
  show ?thesis
    unfolding observe_attrs [OF p] observe_sgr_def Let_def if_not_P [OF c] r
    using limit by simp
qed

lemma observes_more_attrs:
  assumes "observes scr rows attrs e e'" and "list_all sgr_ok attrs"
    and "list_all (\<lambda>s. \<not> sgr_resets_seq s) attrs" and "ex_rows e = rows"
    and "ex_attrs_bytes e + sum_list (map length attrs) \<le> MAX_TRACKED_SGR_BYTES"
  shows "e' = e\<lparr>ex_attrs := ex_attrs e @ attrs,
                ex_attrs_bytes := ex_attrs_bytes e + sum_list (map length attrs)\<rparr>"
  using assms
proof (induction attrs arbitrary: e)
  case (Cons s attrs)
  let ?e = "e\<lparr>ex_attrs := ex_attrs e @ [s], ex_attrs_bytes := ex_attrs_bytes e + length s\<rparr>"
  have "observes scr rows attrs ?e e'"
    using Cons.prems by (auto simp: observe_sgr_append)
  then show ?case using Cons.IH [of ?e] Cons.prems by (simp add: ac_simps)
qed simp

lemma observes_attrs:
  assumes "observes scr rows attrs e e'" and ok: "attrs_ok attrs" and rows: "ex_rows e = rows"
    and start: "ex_attrs e = []" "ex_attrs_bytes e = 0"
  shows "e' = e\<lparr>ex_attrs := attrs, ex_attrs_bytes := sum_list (map length attrs)\<rparr>"
proof (cases attrs)
  case Nil
  with assms show ?thesis by simp
next
  case (Cons s rest)
  let ?e = "e\<lparr>ex_attrs := [s], ex_attrs_bytes := length s\<rparr>"
  have "observes scr rows rest ?e e'"
    using assms Cons by (auto simp: observe_sgr_append attrs_ok_def)
  then show ?thesis
    using observes_more_attrs [of scr rows rest ?e e'] ok rows Cons by (simp add: attrs_ok_def)
qed

lemma observe_reset:
  "execution_observe scr (csi ''m'') screen e
     = e\<lparr>ex_rows := fst (sc_size scr screen), ex_attrs := [], ex_attrs_bytes := 0\<rparr>"
  using observe_attrs [of "csi ''m''" "[]"] csi_parts_plain [of "CHR ''m''" "[]"]
  by (simp add: observe_sgr_def sgr_resets_def numeric_params_def Let_def)

text \<open>A terminal without margins is told to use the whole screen.\<close>

definition region_shown :: "execution_state \<Rightarrow> (nat \<times> nat) option" where
  "region_shown e =
     (case ex_region e of
        None \<Rightarrow> if 1 < ex_rows e then Some (0, ex_rows e - 1) else None
      | Some region \<Rightarrow> Some region)"

lemma observe_scroll_region:
  assumes "execution_ok rows e" "fst (sc_size scr screen) = rows"
  shows "execution_observe scr (write_scroll_region e) screen x
     = x\<lparr>ex_rows := rows, ex_region := region_shown e\<rparr>"
proof (cases "ex_region e")
  case None
  have "write_scroll_region e = csi ([] @ ''r'')"
    using None by (simp add: write_scroll_region_def)
  then show ?thesis
    using observe_region [of "[]" scr screen x] assms None
    by (auto simp: set_region_def numeric_params_def param_or_def param_def region_shown_def
        execution_ok_def Let_def)
next
  case (Some r)
  obtain upper bottom where r: "r = (upper, bottom)" by (cases r)
  let ?ps = "dec_bytes (upper + 1) @ '';'' @ dec_bytes (bottom + 1)"
  have "write_scroll_region e = csi (?ps @ ''r'')"
    using Some r by (simp add: write_scroll_region_def)
  moreover have "plain_params ?ps" by (simp add: plain_dec)
  moreover have "upper < bottom" "bottom < rows" "rows \<le> u16_max"
    using assms(1) Some r by (auto simp: execution_ok_def)
  ultimately show ?thesis
    using observe_region [of ?ps scr screen x] numeric_two [of "upper + 1" "bottom + 1"] assms(2) Some r
    by (simp add: set_region_def param_or_def param_def region_shown_def Let_def)
qed

section \<open>The text that restores a state\<close>

lemma max_pending: "n \<le> 100 \<Longrightarrow> n < MAX_PENDING_SEQUENCE_BYTES"
  by (simp add: MAX_PENDING_SEQUENCE_BYTES_def)

lemma reads_csi_short:
  assumes "list_all param_byte ps" "byte_in f 0x40 0x7e" "length ps \<le> 90"
  shows "reads_as (csi (ps @ [f])) [csi (ps @ [f])]"
  using reads_as_csi [OF assms(1,2)] max_pending assms(3) by simp

lemma reads_dec_mode:
  "mode \<le> u16_max \<Longrightarrow> reads_as (write_dec_mode mode enabled) [write_dec_mode mode enabled]"
  using reads_csi_short [of "''?'' @ dec_bytes mode" "if enabled then CHR ''h'' else CHR ''l''"]
    dec_bytes_params [of mode] dec_bytes_length [of mode]
  by (cases enabled) (simp_all add: write_dec_mode_def param_byte_def)

lemma reads_ansi_mode: "reads_as (write_ansi_mode 4 enabled) [write_ansi_mode 4 enabled]"
  using reads_csi_short [of "dec_bytes 4" "if enabled then CHR ''h'' else CHR ''l''"]
    dec_bytes_params [of 4] dec_bytes_length [of 4]
  by (cases enabled) (simp_all add: write_ansi_mode_def u16_max_def)

lemma reads_two:
  assumes "a \<le> u16_max" "b \<le> u16_max" "byte_in f 0x40 0x7e"
  shows "reads_as (csi (dec_bytes a @ CHR '';'' # dec_bytes b @ [f]))
    [csi (dec_bytes a @ CHR '';'' # dec_bytes b @ [f])]"
  using reads_csi_short [of "dec_bytes a @ '';'' @ dec_bytes b" f] assms(3)
    dec_bytes_params [of a] dec_bytes_params [of b]
    dec_bytes_length [OF assms(1)] dec_bytes_length [OF assms(2)]
  by (simp add: param_byte_def)

lemma reads_scroll_region:
  "execution_ok rows e \<Longrightarrow> reads_as (write_scroll_region e) [write_scroll_region e]"
  using reads_csi_short [of "[]" "CHR ''r''"]
  by (auto simp: write_scroll_region_def execution_ok_def intro!: reads_two split: option.splits)

lemma reads_position:
  assumes "row < u16_max" "col < u16_max"
  shows "reads_as (write_cursor_position e row col origin) [write_cursor_position e row col origin]"
proof -
  have "region_row e origin row \<le> row"
    by (auto simp: region_row_def split: option.splits)
  with assms show ?thesis
    using reads_two [of "region_row e origin row + 1" "col + 1" "CHR ''H''"]
    by (simp add: write_cursor_position_def)
qed

lemma reads_style: "n \<le> 6 \<Longrightarrow> reads_as (csi (dec_bytes n @ '' q'')) [csi (dec_bytes n @ '' q'')]"
  using reads_csi_short [of "dec_bytes n @ '' ''" "CHR ''q''"] dec_bytes_params [of n]
    dec_bytes_length [of n]
  by (simp add: param_byte_def u16_max_def)

lemma reads_reset: "reads_as (csi ''m'') [csi ''m'']"
  using reads_csi_short [of "[]" "CHR ''m''"] by simp

lemma reads_attrs: "attrs_ok attrs \<Longrightarrow> reads_as (write_attrs attrs) (csi ''m'' # attrs)"
  using reads_as_append [OF reads_reset reads_as_concat, of attrs]
  by (auto simp: write_attrs_def attrs_ok_def sgr_ok_def list_all_iff)

lemma alternate_of_sgr:
  assumes "csi_parts s = Some (ps, i, f)" "f \<notin> {CHR ''h'', CHR ''l''}"
  shows "alternate_mode_of s = AltNone"
proof -
  have "last s = f"
    using assms(1) by (auto simp: csi_parts_def csi_body_def starts_with_iff Let_def
        split: if_splits option.splits)
  with assms(2) show ?thesis by (simp add: alternate_mode_of_def)
qed

lemma alternate_of_attrs: "attrs_ok attrs \<Longrightarrow> s \<in> set attrs \<Longrightarrow> alternate_mode_of s = AltNone"
proof -
  assume "attrs_ok attrs" "s \<in> set attrs"
  then have "sgr_ok s" by (simp add: attrs_ok_def list_all_iff)
  then obtain ps where "csi_parts s = Some (ps, [], CHR ''m'')"
    by (auto simp: sgr_ok_def split: option.splits)
  then show ?thesis by (rule alternate_of_sgr) simp
qed

lemma alternate_of_two:
  "f \<notin> {CHR ''h'', CHR ''l''} \<Longrightarrow> alternate_mode_of (csi (dec_bytes a @ CHR '';'' # dec_bytes b @ [f])) = AltNone"
  using alternate_final [of f "dec_bytes a @ '';'' @ dec_bytes b"] by simp

lemma alternate_of_region: "alternate_mode_of (write_scroll_region e) = AltNone"
  using alternate_final [of "CHR ''r''" "[]"]
  by (auto simp: write_scroll_region_def alternate_of_two split: option.splits)

lemma alternate_of_position: "alternate_mode_of (write_cursor_position e row col origin) = AltNone"
  by (simp add: write_cursor_position_def alternate_of_two)

lemma alternate_of_dec:
  assumes "mode \<notin> {47, 1047, 1049}" "mode \<le> u16_max"
  shows "alternate_mode_of (write_dec_mode mode enabled) = AltNone"
proof -
  have differ: "dec_bytes mode \<noteq> dec_bytes n" if "n \<in> {47, 1047, 1049}" for n
    using parse_dec_bytes [OF assms(2)] parse_dec_bytes [of n] that assms(1)
    by (auto simp: u16_max_def)
  have "dec_bytes 47 = ''47''" "dec_bytes 1047 = ''1047''" "dec_bytes 1049 = ''1049''"
    by code_simp+
  then have "''47'' \<noteq> dec_bytes mode" "''1047'' \<noteq> dec_bytes mode" "''1049'' \<noteq> dec_bytes mode"
    using differ [of 47, symmetric] differ [of 1047, symmetric] differ [of 1049, symmetric] by simp_all
  then show ?thesis
    by (cases enabled)
      (simp_all add: alternate_mode_of_def write_dec_mode_def csi_def starts_with_def butlast_append
        split_on_none dec_no_separator Let_def)
qed

lemma alternate_of_ansi: "alternate_mode_of (write_ansi_mode 4 enabled) = AltNone"
  by (simp add: write_ansi_mode_def alternate_mode_of_def csi_def dec_bytes_def dec_digits.simps
      starts_with_def)

definition saved_sequences :: "execution_state \<Rightarrow> bytes list" where
  "saved_sequences e =
     (case ex_saved e of
        None \<Rightarrow> []
      | Some s \<Rightarrow>
          write_scroll_region e # write_dec_mode 6 (sv_origin s) # csi ''m'' # sv_attrs s
          @ [write_cursor_position e (sv_row s) (sv_col s) (sv_origin s), [ESCAPE, CHR ''7'']])"

definition mouse_sequences :: "mouse_encoding \<Rightarrow> bytes list" where
  "mouse_sequences m =
     (case m of
        MouseDefault \<Rightarrow> [write_dec_mode 1006 False, write_dec_mode 1016 False]
      | MouseSgr \<Rightarrow> [write_dec_mode 1016 False, write_dec_mode 1006 True]
      | MouseSgrPixels \<Rightarrow> [write_dec_mode 1006 False, write_dec_mode 1016 True])"

definition mode_sequences :: "execution_state \<Rightarrow> bytes list" where
  "mode_sequences e =
     [write_ansi_mode 4 (ex_insert e), write_dec_mode 7 (ex_auto_wrap e),
      write_dec_mode 45 (ex_reverse_wrap e), write_dec_mode 1004 (ex_focus e),
      write_dec_mode 1007 (ex_alternate_scroll e)] @ mouse_sequences (ex_mouse e)
     @ [write_scroll_region e, write_dec_mode 6 (ex_origin e),
        csi (dec_bytes (ex_cursor_style e) @ '' q'')]"

text \<open>The cell of a pending wrap is written again with its text and colours; \<open>painted\<close> are the
  sequences in it.\<close>

definition paints :: "bytes \<Rightarrow> bytes list \<Rightarrow> bool" where
  "paints bs ss \<longleftrightarrow> reads_as bs ss
     \<and> list_all (\<lambda>s. \<exists>ps. csi_parts s = Some (ps, [], CHR ''m'')) ss"

definition restore_sequences ::
    "execution_state \<Rightarrow> nat \<times> nat \<Rightarrow> pending_wrap option \<Rightarrow> bytes list \<Rightarrow> bytes list" where
  "restore_sequences e cursor pending painted =
     saved_sequences e @ mode_sequences e
     @ (case pending of
          Some p \<Rightarrow> write_cursor_position e (fst cursor) (pw_start p) (ex_origin e) # painted
                    @ csi ''m'' # ex_attrs e
        | None \<Rightarrow> csi ''m'' # ex_attrs e
                  @ [write_cursor_position e (fst cursor) (snd cursor) (ex_origin e)])"

definition cursor_ok :: "nat \<times> nat \<Rightarrow> pending_wrap option \<Rightarrow> bytes list \<Rightarrow> bool" where
  "cursor_ok cursor pending painted \<longleftrightarrow> fst cursor < u16_max \<and> snd cursor < u16_max
     \<and> (case pending of None \<Rightarrow> painted = [] | Some p \<Rightarrow> pw_start p < u16_max \<and> paints (pw_bytes p) painted)"

lemma reads_as_Cons: "reads_as s [s] \<Longrightarrow> reads_as bs ss \<Longrightarrow> reads_as (s @ bs) (s # ss)"
  using reads_as_append [of s "[s]" bs ss] by simp

lemma u16_small: "n < 5000 \<Longrightarrow> n \<le> u16_max"
  by (simp add: u16_max_def)

lemma reads_saved: "execution_ok rows e \<Longrightarrow> reads_as (write_saved_cursor e) (saved_sequences e)"
proof (cases "ex_saved e")
  case (Some s)
  assume ok: "execution_ok rows e"
  then have s: "attrs_ok (sv_attrs s)" "sv_row s < u16_max" "sv_col s < u16_max"
    using Some by (auto simp: execution_ok_def)
  have end_reads: "reads_as (write_cursor_position e (sv_row s) (sv_col s) (sv_origin s) @ [ESCAPE, CHR ''7''])
      [write_cursor_position e (sv_row s) (sv_col s) (sv_origin s), [ESCAPE, CHR ''7'']]"
    by (rule reads_as_Cons [OF reads_position [OF s(2,3)] reads_as_save])
  have "reads_as (write_scroll_region e @ write_dec_mode 6 (sv_origin s) @ write_attrs (sv_attrs s)
      @ write_cursor_position e (sv_row s) (sv_col s) (sv_origin s) @ [ESCAPE, CHR ''7''])
    (write_scroll_region e # write_dec_mode 6 (sv_origin s) # (csi ''m'' # sv_attrs s)
      @ [write_cursor_position e (sv_row s) (sv_col s) (sv_origin s), [ESCAPE, CHR ''7'']])"
    by (intro reads_as_Cons reads_as_append [OF reads_attrs [OF s(1)] end_reads]
        reads_scroll_region [OF ok] reads_dec_mode) (simp add: u16_max_def)
  then show ?thesis using Some by (simp add: write_saved_cursor_def saved_sequences_def)
qed (simp add: write_saved_cursor_def saved_sequences_def)

lemma reads_mouse: "reads_as (write_mouse_encoding m) (mouse_sequences m)"
  using reads_as_append [OF reads_dec_mode reads_dec_mode] u16_small
  by (cases m) (simp_all add: write_mouse_encoding_def mouse_sequences_def reads_as_Cons
      reads_dec_mode)

lemma reads_modes:
  assumes "execution_ok rows e"
  shows "reads_as (write_modes e) (mode_sequences e)"
proof -
  have style: "ex_cursor_style e \<le> 6" using assms by (simp add: execution_ok_def)
  have tail: "reads_as (write_scroll_region e @ write_dec_mode 6 (ex_origin e)
        @ csi (dec_bytes (ex_cursor_style e) @ '' q''))
      [write_scroll_region e, write_dec_mode 6 (ex_origin e), csi (dec_bytes (ex_cursor_style e) @ '' q'')]"
    by (intro reads_as_Cons reads_scroll_region [OF assms] reads_dec_mode reads_style [OF style])
      (simp add: u16_max_def)
  have "reads_as (write_modes e)
      (write_ansi_mode 4 (ex_insert e) # write_dec_mode 7 (ex_auto_wrap e)
      # write_dec_mode 45 (ex_reverse_wrap e) # write_dec_mode 1004 (ex_focus e)
      # write_dec_mode 1007 (ex_alternate_scroll e) # mouse_sequences (ex_mouse e)
     @ [write_scroll_region e, write_dec_mode 6 (ex_origin e),
        csi (dec_bytes (ex_cursor_style e) @ '' q'')])"
    unfolding write_modes_def
    by (intro reads_as_Cons reads_as_append [OF reads_mouse tail] reads_ansi_mode reads_dec_mode)
      (simp_all add: u16_max_def)
  then show ?thesis by (simp add: mode_sequences_def)
qed

lemma reads_restore:
  assumes ok: "execution_ok rows e" and cur: "cursor_ok cursor pending painted"
  shows "reads_as (write_restore_at e cursor pending) (restore_sequences e cursor pending painted)"
proof -
  have attrs: "reads_as (write_attrs (ex_attrs e)) (csi ''m'' # ex_attrs e)"
    using ok by (simp add: execution_ok_def reads_attrs)
  show ?thesis
  proof (cases pending)
    case None
    have "reads_as (write_attrs (ex_attrs e) @ write_cursor_position e (fst cursor) (snd cursor) (ex_origin e))
        ((csi ''m'' # ex_attrs e) @ [write_cursor_position e (fst cursor) (snd cursor) (ex_origin e)])"
      using cur by (intro reads_as_append [OF attrs] reads_position) (simp_all add: cursor_ok_def)
    from reads_as_append [OF reads_saved [OF ok] reads_as_append [OF reads_modes [OF ok] this]]
    show ?thesis using None by (simp add: write_restore_at_def restore_sequences_def)
  next
    case (Some p)
    have "reads_as (write_cursor_position e (fst cursor) (pw_start p) (ex_origin e) @ pw_bytes p
          @ write_attrs (ex_attrs e))
        (write_cursor_position e (fst cursor) (pw_start p) (ex_origin e) # painted @ csi ''m'' # ex_attrs e)"
      using cur Some
      by (intro reads_as_Cons reads_as_append reads_position attrs) (simp_all add: cursor_ok_def paints_def)
    from reads_as_append [OF reads_saved [OF ok] reads_as_append [OF reads_modes [OF ok] this]]
    show ?thesis using Some by (simp add: write_restore_at_def restore_sequences_def)
  qed
qed

section \<open>Reading it back\<close>

lemma saved_effect:
  assumes ok: "execution_ok rows e"
    and obs: "observes scr rows (saved_sequences e) (execution_new rows) e1"
  shows "\<exists>pos. ex_rows e1 = rows \<and> \<not> ex_synchronized e1
     \<and> ex_saved e1 = map_option (\<lambda>s. s\<lparr>sv_row := fst pos, sv_col := snd pos\<rparr>) (ex_saved e)"
proof (cases "ex_saved e")
  case None
  with obs show ?thesis by (simp add: saved_sequences_def execution_new_def)
next
  case (Some s)
  let ?a = "(execution_new rows)\<lparr>ex_region := region_shown e, ex_origin := sv_origin s\<rparr>"
  have rows: "rows \<le> u16_max" and attrs: "attrs_ok (sv_attrs s)"
    using ok Some by (auto simp: execution_ok_def)
  have "6 \<le> u16_max" by (simp add: u16_max_def)
  then obtain b screen where b: "observes scr rows (sv_attrs s) ?a b"
    and e1: "e1 = save_cursor (sc_cursor scr screen) (b\<lparr>ex_rows := rows\<rparr>)"
    using obs Some
    by (auto simp: saved_sequences_def observes_append observe_dec_mode observe_reset set_dec_mode_def
        observe_save observe_scroll_region [OF ok] execution_new_def
        observe_position write_cursor_position_def plain_dec
        observe_position [where ps = "dec_bytes _ @ CHR '';'' # dec_bytes _", simplified])
  have "b = ?a\<lparr>ex_attrs := sv_attrs s, ex_attrs_bytes := sum_list (map length (sv_attrs s))\<rparr>"
    using observes_attrs [OF b attrs] by (simp add: execution_new_def)
  then show ?thesis
    using Some
    by (intro exI [of _ "sc_cursor scr screen"], cases s)
      (simp add: e1 save_cursor_def execution_new_def)
qed

lemma modes_effect:
  assumes ok: "execution_ok rows e" and obs: "observes scr rows (mode_sequences e) x y"
    and rows: "ex_rows x = rows"
  shows "y = x\<lparr>ex_region := region_shown e, ex_origin := ex_origin e, ex_insert := ex_insert e,
     ex_auto_wrap := ex_auto_wrap e, ex_reverse_wrap := ex_reverse_wrap e, ex_focus := ex_focus e,
     ex_alternate_scroll := ex_alternate_scroll e, ex_mouse := ex_mouse e,
     ex_cursor_style := ex_cursor_style e\<rparr>"
proof -
  have style: "ex_cursor_style e \<le> 6" using ok by (simp add: execution_ok_def)
  show ?thesis
    using obs rows u16_small
    by (cases "ex_mouse e")
      (auto simp: mode_sequences_def mouse_sequences_def observe_dec_mode observe_ansi_mode
        observe_style [OF style] observe_scroll_region [OF ok] set_dec_mode_def)
qed

lemma painted_effect:
  assumes "observes scr rows painted x y" and "ex_rows x = rows"
    and "list_all (\<lambda>s. \<exists>ps. csi_parts s = Some (ps, [], CHR ''m'')) painted"
  shows "y\<lparr>ex_attrs := [], ex_attrs_bytes := 0\<rparr> = x\<lparr>ex_attrs := [], ex_attrs_bytes := 0\<rparr>"
  using assms
proof (induction painted arbitrary: x)
  case (Cons s ss)
  obtain ps where ps: "csi_parts s = Some (ps, [], CHR ''m'')" using Cons.prems(3) by auto
  have same: "(observe_sgr s ps z)\<lparr>ex_attrs := [], ex_attrs_bytes := 0\<rparr>
      = z\<lparr>ex_attrs := [], ex_attrs_bytes := 0\<rparr> \<and> ex_rows (observe_sgr s ps z) = ex_rows z" for z
    by (simp add: observe_sgr_def Let_def)
  have rows: "x\<lparr>ex_rows := rows\<rparr> = x" using Cons.prems(2) by (cases x) simp
  have "observes scr rows ss (observe_sgr s ps x) y"
    using Cons.prems(1) rows by (auto simp: observe_attrs [OF ps])
  from Cons.IH [OF this] Cons.prems(2,3) same [of x] show ?case by simp
qed simp

lemma observe_cursor_position:
  "execution_observe scr (write_cursor_position e row col origin) screen x
     = x\<lparr>ex_rows := fst (sc_size scr screen)\<rparr>"
  using observe_position [of "dec_bytes (region_row e origin row + 1) @ '';'' @ dec_bytes (col + 1)"]
  by (simp add: write_cursor_position_def plain_dec)

lemma restore_effect:
  assumes ok: "execution_ok rows e" and cur: "cursor_ok cursor pending painted"
    and obs: "observes scr rows (restore_sequences e cursor pending painted) (execution_new rows) z"
  shows "\<exists>pos. z = e\<lparr>ex_region := region_shown e, ex_synchronized := False,
     ex_saved := map_option (\<lambda>s. s\<lparr>sv_row := fst pos, sv_col := snd pos\<rparr>) (ex_saved e)\<rparr>"
proof -
  obtain x y where x: "observes scr rows (saved_sequences e) (execution_new rows) x"
    and y: "observes scr rows (mode_sequences e) x y"
    and tail: "observes scr rows
      (case pending of
          Some p \<Rightarrow> write_cursor_position e (fst cursor) (pw_start p) (ex_origin e) # painted
                    @ csi ''m'' # ex_attrs e
        | None \<Rightarrow> csi ''m'' # ex_attrs e
                  @ [write_cursor_position e (fst cursor) (snd cursor) (ex_origin e)]) y z"
    using obs by (auto simp: restore_sequences_def observes_append)
  obtain pos where saved: "ex_rows x = rows" "\<not> ex_synchronized x"
    "ex_saved x = map_option (\<lambda>s. s\<lparr>sv_row := fst pos, sv_col := snd pos\<rparr>) (ex_saved e)"
    using saved_effect [OF ok x] by blast
  note modes = modes_effect [OF ok y saved(1)]
  have attrs: "attrs_ok (ex_attrs e)" and count: "ex_attrs_bytes e = sum_list (map length (ex_attrs e))"
    and rows: "ex_rows e = rows"
    using ok by (simp_all add: execution_ok_def)
  have yr: "ex_rows y = rows" using saved(1) by (simp add: modes)
  then have keep: "u\<lparr>ex_rows := rows\<rparr> = u" if "ex_rows u = rows" for u :: execution_state
    using that by (cases u) simp
  let ?y = "y\<lparr>ex_attrs := [], ex_attrs_bytes := 0\<rparr>"
  have "z = y\<lparr>ex_attrs := ex_attrs e, ex_attrs_bytes := ex_attrs_bytes e\<rparr>"
  proof (cases pending)
    case None
    then obtain u where "observes scr rows (ex_attrs e) ?y u" and z: "z = u\<lparr>ex_rows := rows\<rparr>"
      using tail yr keep [of ?y]
      by (auto simp: observes_append observe_reset observe_cursor_position)
    then have "u = y\<lparr>ex_attrs := ex_attrs e, ex_attrs_bytes := ex_attrs_bytes e\<rparr>"
      using observes_attrs [of scr rows "ex_attrs e" ?y u] attrs yr count by simp
    then show ?thesis using z keep [of u] yr by simp
  next
    case (Some p)
    then obtain u where u: "observes scr rows painted y u"
      and z: "observes scr rows (ex_attrs e) (u\<lparr>ex_rows := rows, ex_attrs := [], ex_attrs_bytes := 0\<rparr>) z"
      using tail yr keep [of y]
      by (auto simp: observes_append observe_reset observe_cursor_position)
    have "u\<lparr>ex_attrs := [], ex_attrs_bytes := 0\<rparr> = ?y"
      using painted_effect [OF u yr] cur Some by (simp add: cursor_ok_def paints_def)
    then have "u\<lparr>ex_rows := rows, ex_attrs := [], ex_attrs_bytes := 0\<rparr> = ?y"
      using yr by (cases u, cases y) simp
    then show ?thesis
      using observes_attrs [of scr rows "ex_attrs e" ?y z] z attrs yr count by simp
  qed
  then show ?thesis
    using saved rows by (intro exI [of _ pos], cases e) (simp add: modes)
qed

lemma alternate_of_restore:
  assumes ok: "execution_ok rows e" and cur: "cursor_ok cursor pending painted"
    and mem: "s \<in> set (restore_sequences e cursor pending painted)"
  shows "alternate_mode_of s = AltNone"
proof -
  have attrs: "attrs_ok (ex_attrs e)" and saved: "ex_saved e = Some v \<Longrightarrow> attrs_ok (sv_attrs v)" for v
    using ok by (auto simp: execution_ok_def)
  have save: "alternate_mode_of [ESCAPE, CHR ''7''] = AltNone" by (simp add: alternate_mode_of_def)
  have style: "alternate_mode_of (csi (dec_bytes n @ '' q'')) = AltNone" for n
    using alternate_final [of "CHR ''q''" "dec_bytes n @ '' ''"] by simp
  have reset: "alternate_mode_of (csi ''m'') = AltNone"
    using alternate_final [of "CHR ''m''" "[]"] by simp
  have painted: "s \<in> set painted \<Longrightarrow> alternate_mode_of s = AltNone"
    using cur alternate_of_sgr
    by (cases pending) (fastforce simp: cursor_ok_def paints_def list_all_iff)+
  note pieces = alternate_of_dec [OF _ u16_small] alternate_of_ansi alternate_of_region
    alternate_of_position save style reset
  have "s \<in> set (saved_sequences e) \<Longrightarrow> alternate_mode_of s = AltNone"
    using saved alternate_of_attrs
    by (cases "ex_saved e") (auto simp: saved_sequences_def pieces)
  moreover have "s \<in> set (mode_sequences e) \<Longrightarrow> alternate_mode_of s = AltNone"
    by (auto simp: mode_sequences_def mouse_sequences_def pieces split: mouse_encoding.splits)
  ultimately show ?thesis
    using mem painted attrs alternate_of_attrs
    by (auto simp: restore_sequences_def pieces split: option.splits)
qed

lemma restore_exact:
  assumes "vt_laws vt" and "execution_ok rows e" and "cursor_ok cursor pending painted"
  shows "\<exists>pos. ct_execution (canonical_process vt (canonical_new vt rows cols n)
                              (write_restore_at e cursor pending))
     = e\<lparr>ex_region := region_shown e, ex_synchronized := False,
         ex_saved := map_option (\<lambda>s. s\<lparr>sv_row := fst pos, sv_col := snd pos\<rparr>) (ex_saved e)\<rparr>"
proof (rule restore_effect [OF assms(2,3)])
  show "observes (scr_of vt) rows (restore_sequences e cursor pending painted) (execution_new rows)
    (ct_execution (canonical_process vt (canonical_new vt rows cols n) (write_restore_at e cursor pending)))"
    using alternate_of_restore [OF assms(2,3)]
    by (intro process_observes [OF assms(1)] reads_restore [OF assms(2,3)]) blast
qed

section \<open>Every state of a session is worth restoring\<close>

text \<open>What is pending, read by a fresh tracker, is where the tracker is. Only a sequence of the full
  \<open>MAX_PENDING_SEQUENCE_BYTES\<close> may have been cut.\<close>

definition pending_ok :: "tracker \<Rightarrow> bool" where
  "pending_ok t \<longleftrightarrow> length (tr_pending t) \<le> MAX_PENDING_SEQUENCE_BYTES
     \<and> (if tr_sequence t = SeqGround then tr_pending t = []
        else tr_utf8_expected t = 0
          \<and> (length (tr_pending t) < MAX_PENDING_SEQUENCE_BYTES \<longrightarrow>
             tr_pending t \<noteq> []
             \<and> track_run (tr_pending t) tracker_new
                 = ([], tracker_new\<lparr>tr_sequence := tr_sequence t, tr_pending := tr_pending t\<rparr>)))"

lemma pending_ok_new: "pending_ok tracker_new"
  by (simp add: pending_ok_def tracker_new_def)

definition track_core ::
    "byte \<Rightarrow> escape_sequence \<Rightarrow> bytes \<Rightarrow> completed_sequence option \<times> escape_sequence \<times> bytes" where
  "track_core b q p =
     (let next = sequence_advance q b;
          p' = (if q = SeqGround \<and> next \<noteq> SeqGround then [] else p);
          p' = (if (next \<noteq> SeqGround \<or> p' \<noteq> []) \<and> length p' < MAX_PENDING_SEQUENCE_BYTES
                then p' @ [b] else p') in
      if next \<noteq> SeqGround \<or> \<not> (q \<noteq> SeqGround \<or> p \<noteq> []) then (None, next, p')
      else (Some (completion p'), next, []))"

lemma track_byte_core:
  "track_byte b t = (let (completed, next, p) = track_core b (tr_sequence t) (tr_pending t) in
     (completed, t\<lparr>tr_sequence := next, tr_pending := p\<rparr>))"
  by (simp add: track_byte_def track_core_def completion_def Let_def)

lemma observe_pending_inside:
  assumes ok: "pending_ok t" and inside: "tr_sequence t \<noteq> SeqGround"
    and o: "observe_byte b t = (completed, t')"
  shows "pending_ok t' \<and> (\<forall>q. completed = Some q \<longrightarrow>
     length (cq_bytes q) \<le> MAX_PENDING_SEQUENCE_BYTES
     \<and> (length (cq_bytes q) < MAX_PENDING_SEQUENCE_BYTES \<longrightarrow> reads_as (cq_bytes q) [cq_bytes q]))"
proof -
  let ?q = "tr_sequence t" and ?p = "tr_pending t"
  let ?next = "sequence_advance ?q b"
  let ?p' = "if length ?p < MAX_PENDING_SEQUENCE_BYTES then ?p @ [b] else ?p"
  have t: "(completed, t') = track_byte b t" using inside o by (simp add: observe_byte_def)
  have long: "length ?p \<le> MAX_PENDING_SEQUENCE_BYTES" "tr_utf8_expected t = 0"
    and fresh: "length ?p < MAX_PENDING_SEQUENCE_BYTES \<Longrightarrow> ?p \<noteq> []
      \<and> track_run ?p tracker_new = ([], tracker_new\<lparr>tr_sequence := ?q, tr_pending := ?p\<rparr>)"
    using ok inside by (auto simp: pending_ok_def)
  have nonempty: "?p' \<noteq> []"
    using fresh MAX_PENDING_SEQUENCE_BYTES_def by auto
  have core: "track_core b ?q ?p = (if ?next \<noteq> SeqGround then (None, ?next, ?p')
      else (Some (completion ?p'), SeqGround, []))"
    using inside nonempty fresh by (auto simp: track_core_def Let_def)
  have run: "track_run ?p' tracker_new
      = (if ?next \<noteq> SeqGround then ([], tracker_new\<lparr>tr_sequence := ?next, tr_pending := ?p'\<rparr>)
         else ([completion ?p'], tracker_new))"
    if "length ?p' < MAX_PENDING_SEQUENCE_BYTES"
  proof -
    have short: "length ?p < MAX_PENDING_SEQUENCE_BYTES" using that by (auto split: if_splits)
    let ?u = "tracker_new\<lparr>tr_sequence := ?q, tr_pending := ?p\<rparr>"
    have "observe_byte b ?u = track_byte b ?u" using inside by (simp add: observe_byte_def)
    also have "\<dots> = (if ?next \<noteq> SeqGround then (None, tracker_new\<lparr>tr_sequence := ?next, tr_pending := ?p'\<rparr>)
         else (Some (completion ?p'), tracker_new))"
      using core by (simp add: track_byte_core tracker_new_def)
    finally show ?thesis using fresh [OF short] short by (simp add: track_run_append)
  qed
  have "length ?p' \<le> MAX_PENDING_SEQUENCE_BYTES" using long by simp
  then show ?thesis
    using t core run long nonempty
    by (auto simp: track_byte_core pending_ok_def reads_as_def completion_def split: if_splits)
qed

lemma observe_pending:
  assumes ok: "pending_ok t" and o: "observe_byte b t = (completed, t')"
  shows "pending_ok t' \<and> (\<forall>q. completed = Some q \<longrightarrow>
     length (cq_bytes q) \<le> MAX_PENDING_SEQUENCE_BYTES
     \<and> (length (cq_bytes q) < MAX_PENDING_SEQUENCE_BYTES \<longrightarrow> reads_as (cq_bytes q) [cq_bytes q]))"
proof (cases "tr_sequence t = SeqGround")
  case False
  then show ?thesis by (rule observe_pending_inside [OF ok _ o])
next
  case True
  with ok have p: "tr_pending t = []" by (simp add: pending_ok_def)
  have small: "0 < MAX_PENDING_SEQUENCE_BYTES" "Suc 0 \<le> MAX_PENDING_SEQUENCE_BYTES"
    by (simp_all add: MAX_PENDING_SEQUENCE_BYTES_def)
  show ?thesis
  proof (cases "utf8_expected b = None \<and> \<not> (0 < tr_utf8_expected t \<and> is_cont b)")
    case False
    then have "completed = None \<and> tr_sequence t' = SeqGround \<and> tr_pending t' = []"
      using o True p by (auto simp: observe_byte_def Let_def split: if_splits option.splits)
    then show ?thesis by (simp add: pending_ok_def)
  next
    case ground: True
    let ?next = "sequence_advance SeqGround b"
    have fresh: "observe_byte b tracker_new
        = (None, tracker_new\<lparr>tr_sequence := ?next, tr_pending := if ?next = SeqGround then [] else [b]\<rparr>)"
      using ground small by (simp add: observe_byte_def tracker_new_def track_byte_core track_core_def)
    have "tr_sequence t' = ?next \<and> tr_pending t' = (if ?next = SeqGround then [] else [b])
        \<and> tr_utf8_expected t' = 0 \<and> completed = None"
      using o ground True p small
      by (auto simp: observe_byte_def track_byte_core track_core_def Let_def split: if_splits)
    then show ?thesis
      using fresh small by (simp add: pending_ok_def)
  qed
qed

lemma execution_ok_new: "rows \<le> u16_max \<Longrightarrow> execution_ok rows (execution_new rows)"
  by (simp add: execution_ok_def execution_new_def attrs_ok_def)

lemma execution_ok_set_dec: "execution_ok rows e \<Longrightarrow> execution_ok rows (set_dec_mode enabled mode e)"
  by (simp add: set_dec_mode_def execution_ok_def)

lemma execution_ok_set_ansi: "execution_ok rows e \<Longrightarrow> execution_ok rows (set_ansi_mode enabled mode e)"
  by (simp add: set_ansi_mode_def execution_ok_def)

lemma execution_ok_fold:
  "(\<And>x e. execution_ok rows e \<Longrightarrow> execution_ok rows (f x e)) \<Longrightarrow> execution_ok rows e \<Longrightarrow>
     execution_ok rows (fold f xs e)"
  by (induction xs arbitrary: e) simp_all

lemma execution_ok_region: "execution_ok rows e \<Longrightarrow> execution_ok rows (set_region ps e)"
  by (auto simp: set_region_def execution_ok_def Let_def)

lemma execution_ok_save:
  "execution_ok rows e \<Longrightarrow> fst cursor < u16_max \<Longrightarrow> snd cursor < u16_max \<Longrightarrow>
     execution_ok rows (save_cursor cursor e)"
  by (simp add: save_cursor_def execution_ok_def)

lemma execution_ok_restore: "execution_ok rows e \<Longrightarrow> execution_ok rows (restore_cursor e)"
  by (auto simp: restore_cursor_def execution_ok_def split: option.splits)

lemma attrs_ok_append:
  assumes "attrs_ok attrs" "sgr_ok s" "attrs = [] \<or> \<not> sgr_resets_seq s"
    "sum_list (map length attrs) + length s \<le> MAX_TRACKED_SGR_BYTES"
  shows "attrs_ok (attrs @ [s])"
  using assms by (cases attrs) (auto simp: attrs_ok_def)

lemma execution_ok_sgr:
  assumes ok: "execution_ok rows e" and s: "csi_parts s = Some (ps, [], CHR ''m'')" "reads_as s [s]"
    and short: "length s \<le> MAX_TRACKED_SGR_BYTES"
  shows "execution_ok rows (observe_sgr s ps e)"
proof (cases "ps = [] \<or> length (numeric_params ps) = 1 \<and> param_or 0 (numeric_params ps) 0 = 0")
  case True
  have "attrs_ok []" by (simp add: attrs_ok_def)
  then show ?thesis
    using ok unfolding observe_sgr_def Let_def if_P [OF True] by (simp add: execution_ok_def)
next
  case False
  then have sgr: "sgr_ok s" using s by (simp add: sgr_ok_def)
  define f where "f = (if sgr_resets ps then e\<lparr>ex_attrs := [], ex_attrs_bytes := 0\<rparr> else e)"
  define g where "g = (if MAX_TRACKED_SGR_BYTES < sat_add (ex_attrs_bytes f) (length s)
      then f\<lparr>ex_attrs := [], ex_attrs_bytes := 0\<rparr> else f)"
  have obs: "observe_sgr s ps e
      = g\<lparr>ex_attrs := ex_attrs g @ [s], ex_attrs_bytes := ex_attrs_bytes g + length s\<rparr>"
    unfolding observe_sgr_def Let_def if_not_P [OF False] f_def [symmetric] g_def [symmetric] by simp
  have f: "execution_ok rows f" "ex_attrs f = [] \<or> \<not> sgr_resets_seq s"
    using ok s(1) by (auto simp: f_def execution_ok_def sgr_resets_seq_def attrs_ok_def)
  then have g: "execution_ok rows g" "ex_attrs g = [] \<or> \<not> sgr_resets_seq s"
    by (auto simp: g_def execution_ok_def attrs_ok_def)
  have "ex_attrs_bytes g + length s \<le> MAX_TRACKED_SGR_BYTES"
    using short by (auto simp: g_def not_less sat_add_limit MAX_TRACKED_SGR_BYTES_def u64_max_def)
  then have "attrs_ok (ex_attrs g @ [s])"
    using attrs_ok_append [OF _ sgr g(2)] g(1) by (simp add: execution_ok_def)
  then show ?thesis using g(1) by (simp add: obs execution_ok_def)
qed

lemma execution_ok_observe:
  assumes ok: "execution_ok rows e" and s: "reads_as s [s]" "length s \<le> MAX_TRACKED_SGR_BYTES"
    and screen: "fst (sc_size scr screen) = rows" "fst (sc_cursor scr screen) < u16_max"
      "snd (sc_cursor scr screen) < u16_max"
  shows "execution_ok rows (execution_observe scr s screen e)"
proof -
  have e: "e\<lparr>ex_rows := fst (sc_size scr screen)\<rparr> = e"
    using ok screen by (cases e) (simp add: execution_ok_def)
  have rows: "rows \<le> u16_max" "ex_rows e = rows" using ok by (simp_all add: execution_ok_def)
  note keeps = execution_ok_new [OF rows(1)] execution_ok_save [OF ok screen(2,3)]
    execution_ok_restore [OF ok] execution_ok_region [OF ok] execution_ok_fold execution_ok_set_dec
    execution_ok_set_ansi ok
  show ?thesis
  proof (cases "csi_parts s")
    case None
    then show ?thesis by (simp add: execution_observe_def e keeps rows(2))
  next
    case (Some t)
    obtain ps i f where t: "t = (ps, i, f)" by (cases t)
    have "execution_ok rows (e\<lparr>ex_cursor_style := min (param_or 0 (numeric_params ps) 0) 6\<rparr>)"
      using ok by (simp add: execution_ok_def)
    moreover have "execution_ok rows (observe_sgr s ps e)" if "i = []" "f = CHR ''m''"
      using execution_ok_sgr [OF ok _ s] Some t that by simp
    ultimately show ?thesis
      using Some t by (simp add: execution_observe_def e keeps rows(2) Let_def)
  qed
qed

definition restorable :: "nat \<Rightarrow> ('s, 'p) canonical \<Rightarrow> bool" where
  "restorable rows c \<longleftrightarrow> execution_ok rows (ct_execution c)
     \<and> (\<forall>e. ct_normal_execution c = Some e \<longrightarrow> execution_ok rows e) \<and> pending_ok (ct_tracker c)"

text \<open>Cursor positions leave room for the one that is added to count from one.\<close>

definition cursor_law :: "('s, 'p) vt_ops \<Rightarrow> bool" where
  "cursor_law vt \<longleftrightarrow> (\<forall>s. fst (sc_cursor vt s) < u16_max \<and> snd (sc_cursor vt s) < u16_max)"

definition short_text :: "tracker \<Rightarrow> bytes \<Rightarrow> bool" where
  "short_text t bs \<longleftrightarrow> (\<forall>q \<in> set (fst (track_run bs t)). length (cq_bytes q) < MAX_PENDING_SEQUENCE_BYTES)"

lemma complete_restorable:
  assumes laws: "vt_laws vt" "cursor_law vt" and ok: "restorable rows c"
    and size: "fst (sc_size vt (ct_screen vt c)) = rows"
    and q: "reads_as (cq_bytes q) [cq_bytes q]" "length (cq_bytes q) < MAX_PENDING_SEQUENCE_BYTES"
  shows "restorable rows (complete_sequence vt b before q c)"
proof -
  let ?d = "process_parser_bytes vt [b] before (enter_alternate vt q c)"
  let ?m = "if cq_mode q = Enter1047 then parse_bytes vt (csi ''?47h'') ?d
    else if cq_mode q = Exit1047 then parse_bytes vt (csi ''?47l'') ?d else ?d"
  let ?f = "if cq_erase q \<and> \<not> sc_alternate vt (ct_screen vt ?m) then clear_scrollback vt ?m else ?m"
  have enter: "restorable rows (enter_alternate vt q c)"
    using ok by (auto simp: enter_alternate_def restorable_def split: option.splits)
  have f: "restorable rows ?f" using enter by (simp add: restorable_def)
  have "sc_size vt (ct_screen vt ?f) = sc_size vt (ct_screen vt c)"
    by (simp add: clear_size parse_bytes_size process_parser_size laws)
  then have "execution_ok rows (execution_observe (scr_of vt) (cq_bytes q) (ct_screen vt ?f) (ct_execution ?f))"
    using f q laws(2) size
    by (intro execution_ok_observe)
      (auto simp: restorable_def cursor_law_def MAX_TRACKED_SGR_BYTES_def MAX_PENDING_SEQUENCE_BYTES_def)
  then have "restorable rows (observe_sequence vt q ?f)"
    using f by (simp add: restorable_def)
  then have "restorable rows (leave_alternate vt q (observe_sequence vt q ?f))"
    by (auto simp: restorable_def leave_alternate_def split: option.splits)
  then show ?thesis by (simp add: complete_sequence_def Let_def)
qed

lemma byte_restorable:
  assumes laws: "vt_laws vt" "cursor_law vt" and ok: "restorable rows c"
    and size: "fst (sc_size vt (ct_screen vt c)) = rows" and short: "short_text (ct_tracker c) (b # bs)"
  shows "restorable rows (canonical_byte vt b c) \<and> short_text (ct_tracker (canonical_byte vt b c)) bs"
proof -
  obtain completed t where o: "observe_byte b (ct_tracker c) = (completed, t)"
    by (cases "observe_byte b (ct_tracker c)")
  have pending: "pending_ok (ct_tracker c)" using ok by (simp add: restorable_def)
  note track = observe_pending [OF pending o]
  let ?c = "c\<lparr>ct_tracker := t\<rparr>"
  have c: "restorable rows ?c" using ok track by (simp add: restorable_def)
  have rest: "short_text t bs"
    using short o by (auto simp: short_text_def split: prod.splits option.splits)
  show ?thesis
  proof (cases completed)
    case None
    with c rest o show ?thesis by (simp add: canonical_byte_def restorable_def)
  next
    case (Some q)
    have "length (cq_bytes q) < MAX_PENDING_SEQUENCE_BYTES"
      using short o Some by (auto simp: short_text_def split: prod.splits)
    with track Some have "restorable rows (complete_sequence vt b (tr_sequence (ct_tracker c)) q ?c)"
      using size by (intro complete_restorable [OF laws c]) auto
    with rest o Some show ?thesis
      by (simp add: canonical_byte_def complete_fields [OF laws(1)])
  qed
qed

lemma fold_restorable:
  assumes laws: "vt_laws vt" "cursor_law vt"
  shows "restorable rows c \<Longrightarrow> canonical_ok vt dims c \<Longrightarrow> fst dims = rows \<Longrightarrow>
    short_text (ct_tracker c) bs \<Longrightarrow> restorable rows (fold (canonical_byte vt) bs c)"
proof (induction bs arbitrary: c)
  case (Cons b bs)
  have "canonical_ok vt dims (canonical_byte vt b c)"
    by (rule canonical_byte_ok [OF laws(1) Cons.prems(2)])
  then show ?case
    using Cons byte_restorable [OF laws Cons.prems(1) _ Cons.prems(4)]
    by (simp add: canonical_ok_def)
qed simp

text \<open>The states of a session none of whose sequences is cut at the limit.\<close>

inductive short_reach :: "('s, 'p) vt_ops \<Rightarrow> nat \<Rightarrow> ('s, 'p) canonical \<Rightarrow> bool" for vt where
  short_new: "rows \<le> u16_max \<Longrightarrow> short_reach vt rows (canonical_new vt rows cols n)"
| short_process: "short_reach vt rows c \<Longrightarrow> short_text (ct_tracker c) bs \<Longrightarrow>
    short_reach vt rows (canonical_process vt c bs)"
| short_resize: "short_reach vt rows c \<Longrightarrow> rows' \<le> u16_max \<Longrightarrow>
    short_text tracker_new (resize_snapshot vt rows' cols c) \<Longrightarrow>
    short_reach vt rows' (canonical_resize vt c rows' cols n pixel_width pixel_height)"
| short_drain: "short_reach vt rows c \<Longrightarrow> short_reach vt rows (snd (drain_responses c))"

lemma short_reach_ok:
  assumes laws: "vt_laws vt" "cursor_law vt"
  shows "short_reach vt rows c \<Longrightarrow> restorable rows c \<and> (\<exists>cols. canonical_ok vt (rows, cols) c)"
proof (induction rule: short_reach.induct)
  case (short_new rows cols n)
  then show ?case
    using canonical_new_ok [OF laws(1), of rows cols n] pending_ok_new
    by (auto simp: restorable_def canonical_new_def execution_ok_new)
next
  case (short_process rows c bs)
  then obtain cols where ok: "restorable rows c" "canonical_ok vt (rows, cols) c" by blast
  then show ?case
    using fold_restorable [OF laws ok _ short_process.hyps(2)] canonical_fold_ok [OF laws(1) ok(2)]
    by (auto simp: canonical_process_bytes [OF laws(1) ok(2)])
next
  case (short_resize rows c rows' cols n w h)
  show ?case
  proof (cases "sc_size vt (ct_screen vt c) = (rows', cols) \<and> ct_scrollback_rows c = n")
    case True
    then show ?thesis
      using short_resize.IH by (auto simp: canonical_resize_def restorable_def canonical_ok_def)
  next
    case False
    let ?new = "canonical_new vt rows' cols n"
    have new: "restorable rows' ?new" "canonical_ok vt (rows', cols) ?new"
      using canonical_new_ok [OF laws(1), of rows' cols n] pending_ok_new short_resize.hyps(2)
      by (auto simp: restorable_def canonical_new_def execution_ok_new)
    have "short_text (ct_tracker ?new) (resize_snapshot vt rows' cols c)"
      using short_resize.hyps(3) by (simp add: canonical_new_def)
    then have "restorable rows' (canonical_process vt ?new (resize_snapshot vt rows' cols c))"
      and "canonical_ok vt (rows', cols) (canonical_process vt ?new (resize_snapshot vt rows' cols c))"
      using fold_restorable [OF laws new] canonical_fold_ok [OF laws(1) new(2)]
      by (simp_all add: canonical_process_bytes [OF laws(1) new(2)])
    then show ?thesis
      using False by (auto simp: canonical_resize_def restorable_def canonical_ok_def)
  qed
next
  case (short_drain rows c)
  then show ?case by (auto simp: drain_responses_def restorable_def canonical_ok_def)
qed



text \<open>A terminal of 24 rows with margins, origin mode, colours and a saved cursor, on paper that keeps
  the cursor in its corner.\<close>

definition fixed_vt :: "(bytes \<times> nat \<times> nat, bytes \<times> nat \<times> nat) vt_ops" where
  "fixed_vt = paper_vt\<lparr>sc_cursor := \<lambda>_. (0, 0)\<rparr>"

lemma fixed_laws: "vt_laws fixed_vt" "cursor_law fixed_vt"
  using paper_laws by (simp_all add: fixed_vt_def vt_laws_def cursor_law_def u16_max_def)

definition painted_text :: bytes where
  "painted_text = csi ''3;9r'' @ csi ''?6h'' @ csi ''1;31m'' @ [ESCAPE, CHR ''7''] @ csi ''?1006h'' @ ''ok''"

lemma reads_ok: "reads_as ''ok'' []"
  by (simp add: reads_as_def observe_byte_def tracker_new_def utf8_expected_def track_byte_def)

lemma painted_short: "short_text tracker_new painted_text"
proof -
  have "reads_as painted_text
      ([csi ''3;9r''] @ [csi ''?6h''] @ [csi ''1;31m''] @ [[ESCAPE, CHR ''7'']] @ [csi ''?1006h''] @ [])"
    unfolding painted_text_def
    using reads_csi_short [of "''3;9''" "CHR ''r''"] reads_csi_short [of "''?6''" "CHR ''h''"]
      reads_csi_short [of "''1;31''" "CHR ''m''"] reads_csi_short [of "''?1006''" "CHR ''h''"]
    by (intro reads_as_append reads_as_save reads_ok) (simp_all add: param_byte_def)
  then show ?thesis
    by (simp add: short_text_def reads_as_def completion_def csi_def MAX_PENDING_SEQUENCE_BYTES_def)
qed



section \<open>The keyboard stacks\<close>

text \<open>A push of flags on the stack of a screen, as the text that restores it does.\<close>

lemma observe_kitty:
  assumes "plain_params ps" "ps \<noteq> []"
  shows "kitty_observe (csi (ps @ ''u'')) alternate k
     = (let ns = numeric_params (tl ps) in
        if hd ps = CHR ''='' then kitty_set ns k
        else if hd ps = CHR ''>'' then kitty_push alternate (of_nat (param_or 0 ns 0)) k
        else if hd ps = CHR ''<'' then kitty_pop_flags alternate (max (param_or 1 ns 0) 1) k
        else k)"
proof -
  have "alternate_mode_of (csi (ps @ ''u'')) = AltNone"
    using alternate_final [of "CHR ''u''" ps] by simp
  then show ?thesis
    using csi_parts_plain [OF _ assms(1), of "CHR ''u''"] assms(2)
    by (simp add: kitty_observe_def not_reset kitty_switch_def Let_def)
qed

lemma word_u16: "unat (w :: 16 word) \<le> u16_max"
  using unsigned_less [of w, where ?'a = nat] by (simp add: u16_max_def)

lemma observe_kitty_set:
  "kitty_observe (csi (''='' @ dec_bytes (unat w) @ ''u'')) alternate k = k\<lparr>kk_flags := w\<rparr>"
  using observe_kitty [of "''='' @ dec_bytes (unat w)"]
  by (simp add: plain_dec numeric_dec word_u16 kitty_set_def param_or_def param_def)

lemma observe_kitty_push:
  "kitty_observe (csi (''>'' @ dec_bytes (unat w) @ ''u'')) alternate k = kitty_push alternate w k"
  using observe_kitty [of "''>'' @ dec_bytes (unat w)"]
  by (simp add: plain_dec numeric_dec word_u16 param_or_def param_def)

definition kitty_sequences :: "16 word \<Rightarrow> 16 word list \<Rightarrow> bytes list" where
  "kitty_sequences flags st =
     (if flags = 0 \<and> st = [] then []
      else case st of
        [] \<Rightarrow> [csi (''='' @ dec_bytes (unat flags) @ ''u'')]
      | first # remaining \<Rightarrow>
          csi (''='' @ dec_bytes (unat first) @ ''u'')
          # map (\<lambda>saved. csi (''>'' @ dec_bytes (unat saved) @ ''u'')) (remaining @ [flags]))"

lemma reads_kitty: "c \<in> {CHR ''='', CHR ''>''} \<Longrightarrow>
    reads_as (csi (c # dec_bytes (unat (w :: 16 word)) @ ''u'')) [csi (c # dec_bytes (unat w) @ ''u'')]"
  using reads_csi_short [of "c # dec_bytes (unat w)" "CHR ''u''"] dec_bytes_params [of "unat w"]
    dec_bytes_length [OF word_u16, of w]
  by (auto simp: param_byte_def)

lemma reads_kitty_restore:
  "reads_as (write_kitty_keyboard_restore flags st) (kitty_sequences flags st)"
proof -
  have "write_kitty_keyboard_restore flags st = concat (kitty_sequences flags st)"
    by (simp add: write_kitty_keyboard_restore_def kitty_sequences_def split: list.splits)
  moreover have "reads_as s [s]" if "s \<in> set (kitty_sequences flags st)" for s
    using that reads_kitty [of "CHR ''=''"] reads_kitty [of "CHR ''>''"]
    by (auto simp: kitty_sequences_def split: if_splits list.splits)
  ultimately show ?thesis using reads_as_concat [of "kitty_sequences flags st"] by simp
qed

lemma kitty_pushes:
  assumes "length (kitty_stack alternate k) + length ws \<le> KITTY_KEYBOARD_STACK_LIMIT"
  shows "fold (\<lambda>w. kitty_push alternate w) ws k
     = (set_kitty_stack alternate (kitty_stack alternate k @ butlast (kk_flags k # ws)) k)
         \<lparr>kk_flags := last (kk_flags k # ws)\<rparr>"
  using assms
proof (induction ws arbitrary: k)
  case Nil
  then show ?case by (cases k) (simp add: kitty_stack_def set_kitty_stack_def)
next
  case (Cons w ws)
  let ?k = "kitty_push alternate w k"
  have push: "?k = (set_kitty_stack alternate (kitty_stack alternate k @ [kk_flags k]) k)\<lparr>kk_flags := w\<rparr>"
    using Cons.prems by (simp add: kitty_push_def)
  show ?case
    using Cons.IH [of ?k] Cons.prems
    by (simp add: push kitty_stack_def set_kitty_stack_def split: if_splits)
qed

text \<open>The flags and the stack of a screen come back, whatever the flags were before; a stack has at
  most the 16 entries the state keeps.\<close>

lemma kitty_restored:
  assumes "length st \<le> KITTY_KEYBOARD_STACK_LIMIT" "kitty_stack alternate k = []"
    "kk_flags k = 0 \<or> flags \<noteq> 0 \<or> st \<noteq> []"
  shows "fold (\<lambda>s. kitty_observe s alternate) (kitty_sequences flags st) k
     = (set_kitty_stack alternate st k)\<lparr>kk_flags := flags\<rparr>"
proof (cases st)
  case Nil
  then show ?thesis
    using assms observe_kitty_set
    by (cases k) (auto simp: kitty_sequences_def kitty_stack_def set_kitty_stack_def)
next
  case (Cons first remaining)
  let ?k = "k\<lparr>kk_flags := first\<rparr>"
  have "fold (\<lambda>s. kitty_observe s alternate)
      (map (\<lambda>saved. csi (''>'' @ dec_bytes (unat saved) @ ''u'')) ws) x
    = fold (\<lambda>w. kitty_push alternate w) ws x" for ws x
    by (induction ws arbitrary: x) (simp_all add: observe_kitty_push [simplified])
  from this [of "remaining @ [flags]" ?k]
  have "fold (\<lambda>s. kitty_observe s alternate) (kitty_sequences flags st) k
      = fold (\<lambda>w. kitty_push alternate w) (remaining @ [flags]) ?k"
    using Cons observe_kitty_set [of first alternate k] by (simp add: kitty_sequences_def)
  also have "\<dots> = (set_kitty_stack alternate st k)\<lparr>kk_flags := flags\<rparr>"
    using kitty_pushes [of alternate ?k "remaining @ [flags]"] assms(1,2) Cons
    by (simp add: kitty_stack_def set_kitty_stack_def butlast_append split: if_splits)
  finally show ?thesis .
qed

section \<open>What the tracker misses\<close>

text \<open>An escape byte aborts a control sequence and starts another, but the bytes of the aborted one stay
  in front of it, and the switch to the alternate screen is not seen.\<close>

lemma observe_abort:
  "length pending < MAX_PENDING_SEQUENCE_BYTES \<Longrightarrow>
     observe_byte ESCAPE (csi_tracker pending)
       = (None, \<lparr>tr_sequence = SeqEscape, tr_pending = pending @ [ESCAPE], tr_utf8_pending = [],
                 tr_utf8_expected = 0\<rparr>)"
  by (simp add: observe_byte_def track_byte_def csi_tracker_def)

lemma observe_reopen:
  "length pending < MAX_PENDING_SEQUENCE_BYTES \<Longrightarrow>
     observe_byte (CHR ''['') \<lparr>tr_sequence = SeqEscape, tr_pending = pending, tr_utf8_pending = [],
         tr_utf8_expected = 0\<rparr> = (None, csi_tracker (pending @ ''[''))"
  by (simp add: observe_byte_def track_byte_def csi_tracker_def)

lemma utf8_strict_ascii:
  assumes "list_all (\<lambda>b. byte_val b < 128) bs"
  shows "utf8_strict bs = Some (map of_char bs)"
proof -
  have "utf8_encode (map of_char bs) = bs"
    using assms by (induction bs) (simp_all add: utf8_encode_def utf8_scalar_def)
  then show ?thesis using utf8_lossy_ascii [OF assms, of "[]"] by (simp add: utf8_strict_def)
qed

lemma aborted_sequence_hides_switch:
  "track_run (csi ''3'' @ csi ''?1049h'') tracker_new
     = ([completion (csi ''3'' @ csi ''?1049h'')], tracker_new)"
  "cq_mode (completion (csi ''3'' @ csi ''?1049h'')) = AltNone"
  "cq_mode (completion (csi ''?1049h'')) = Enter1049"
proof -
  have small: "n < 20 \<Longrightarrow> n < MAX_PENDING_SEQUENCE_BYTES" for n
    by (simp add: MAX_PENDING_SEQUENCE_BYTES_def)
  have params: "track_run ''?1049h'' (csi_tracker (csi ''3'' @ csi []))
      = ([completion (csi ''3'' @ csi ''?1049h'')], tracker_new)"
    using track_params [of "''?1049''" "CHR ''h''" "csi ''3'' @ csi []"] small
    by (simp add: param_byte_def csi_def)
  have "param_byte (CHR ''3'')" by (simp add: param_byte_def)
  then have "track_run (csi ''3'' @ csi []) tracker_new = ([], csi_tracker (csi ''3'' @ csi []))"
    using observe_abort [of "csi ''3''"] observe_reopen [of "csi ''3'' @ [ESCAPE]"] small
    by (simp add: csi_def observe_escape observe_bracket [unfolded csi_def] observe_param)
  moreover have "csi ''3'' @ csi ''?1049h'' = (csi ''3'' @ csi []) @ ''?1049h''"
    by (simp add: csi_def)
  ultimately show "track_run (csi ''3'' @ csi ''?1049h'') tracker_new
     = ([completion (csi ''3'' @ csi ''?1049h'')], tracker_new)"
    using params by (simp only: track_run_append) simp
  show "cq_mode (completion (csi ''3'' @ csi ''?1049h'')) = AltNone"
    by (simp add: completion_def alternate_mode_of_def csi_def starts_with_def)
  show "cq_mode (completion (csi ''?1049h'')) = Enter1049"
    by (simp add: completion_def alternate_mode_of_def csi_def starts_with_def
        utf8_strict_ascii)
qed

end
