(* ===== verification/ProcessTree.thy ===== *)
theory ProcessTree
  imports AgentSession TextClean "HOL-Library.Product_Lexorder"
begin

text \<open>
  The processes of a terminal (\<open>src/src/terminal.rs\<close>: \<open>ProcessSnapshot\<close>, \<open>ProcessTracker\<close>,
  \<open>collect_descendant_pids\<close>, the parsers of \<open>/proc\<close>, \<open>agent_kind\<close>, \<open>terminate_process\<close>,
  \<open>signal_pty_session\<close>): who descends from a shell, what runs in its foreground, and who may be
  signalled.

  \<open>/proc\<close> is given by its answers: a listing of entries (\<open>proc_entry\<close>), each file with the text that
  was read (by lines where the code reads lines), or None when the read failed. A signal is the list of process identifiers it is sent to.
  The percentage of CPU time is kept as the fraction it is computed from.
\<close>

section \<open>Text\<close>

text \<open>\<open>str::split_whitespace\<close>: the words between runs of white space.\<close>

fun split_words :: "ustring \<Rightarrow> ustring \<Rightarrow> ustring list" where
  "split_words word [] = (if word = [] then [] else [word])"
| "split_words word (c # s) =
     (if is_whitespace c then (if word = [] then [] else [word]) @ split_words [] s
      else split_words (word @ [c]) s)"

definition split_whitespace :: "ustring \<Rightarrow> ustring list" where
  "split_whitespace s = split_words [] s"

definition nth_opt :: "'a list \<Rightarrow> nat \<Rightarrow> 'a option" where
  "nth_opt xs i = (if i < length xs then Some (xs ! i) else None)"

text \<open>The text before the first and after the last occurrence of a character.\<close>

definition before_first :: "scalar \<Rightarrow> ustring \<Rightarrow> ustring option" where
  "before_first c s = (if c \<in> set s then Some (takeWhile (\<lambda>d. d \<noteq> c) s) else None)"

definition after_last :: "scalar \<Rightarrow> ustring \<Rightarrow> ustring option" where
  "after_last c s = (if c \<in> set s then Some (rev (takeWhile (\<lambda>d. d \<noteq> c) (rev s))) else None)"

definition ends_with :: "ustring \<Rightarrow> ustring \<Rightarrow> bool" where
  "ends_with s suffix \<longleftrightarrow> starts_with (rev s) (rev suffix)"

text \<open>\<open>trim_end_matches\<close> of a suffix, and \<open>trim_start_matches\<close> of a dash.\<close>

function trim_end_matches :: "ustring \<Rightarrow> ustring \<Rightarrow> ustring" where
  "trim_end_matches suffix s =
     (if suffix \<noteq> [] \<and> ends_with s suffix
      then trim_end_matches suffix (take (length s - length suffix) s) else s)"
  by pat_completeness auto
termination
  by (relation "measure (\<lambda>(suffix, s). length s)")
    (auto simp: ends_with_def starts_with_iff dest: arg_cong [where f = length])

declare trim_end_matches.simps [simp del]

definition trim_dashes :: "ustring \<Rightarrow> ustring" where
  "trim_dashes s = dropWhile (\<lambda>c. c = 45) s"

definition parse_u32 :: "ustring \<Rightarrow> nat option" where
  "parse_u32 s = (case parse_usize s of None \<Rightarrow> None | Some n \<Rightarrow> if n < 2 ^ 32 then Some n else None)"

definition parse_i32 :: "ustring \<Rightarrow> int option" where
  "parse_i32 s =
     (case s of
        c # r \<Rightarrow>
          if c = 45
          then (if r \<noteq> [] \<and> list_all is_ascii_digit r \<and> digits_value r \<le> 2 ^ 31
                then Some (- int (digits_value r)) else None)
          else (case parse_usize s of
                  None \<Rightarrow> None | Some n \<Rightarrow> if n < 2 ^ 31 then Some (int n) else None)
      | [] \<Rightarrow> None)"

text \<open>\<open>Path::file_name\<close> on a Unix path.\<close>

definition path_file_name :: "ustring \<Rightarrow> ustring option" where
  "path_file_name s =
     (let parts = filter (\<lambda>p. p \<noteq> [] \<and> p \<noteq> [46]) (split_on 47 s) in
      if parts = [] \<or> last parts = [46, 46] then None else Some (last parts))"

section \<open>Records of /proc\<close>

record process_identity =
  id_pid :: nat
  id_start_ticks :: nat

definition identity_label :: "process_identity \<Rightarrow> ustring" where
  "identity_label i = dec_digits (id_pid i) @ [58] @ dec_digits (id_start_ticks i)"

record process_info =
  pr_pid :: nat
  pr_parent :: nat
  pr_group :: int
  pr_foreground_group :: int
  pr_command :: ustring
  pr_arguments :: "ustring list"
  pr_cwd :: "ustring option"
  pr_start_ticks :: nat
  pr_cpu_ticks :: nat
  pr_memory_bytes :: nat

definition process_identity_of :: "process_info \<Rightarrow> process_identity" where
  "process_identity_of p = \<lparr>id_pid = pr_pid p, id_start_ticks = pr_start_ticks p\<rparr>"

record cpu_sample =
  cs_total_ticks :: nat
  cs_cpu_count :: nat

definition parse_process_parent :: "ustring \<Rightarrow> nat option" where
  "parse_process_parent stat =
     (case after_last 41 stat of
        None \<Rightarrow> None
      | Some rest \<Rightarrow> Option.bind (nth_opt (split_whitespace rest) 1) parse_u32)"

definition parse_process_session :: "ustring \<Rightarrow> nat option" where
  "parse_process_session stat =
     (case after_last 41 stat of
        None \<Rightarrow> None
      | Some rest \<Rightarrow> Option.bind (nth_opt (split_whitespace rest) 3) parse_u32)"

definition parse_process_identity :: "nat \<Rightarrow> ustring \<Rightarrow> process_identity option" where
  "parse_process_identity pid stat =
     (case after_last 41 stat of
        None \<Rightarrow> None
      | Some rest \<Rightarrow>
          map_option (\<lambda>ticks. \<lparr>id_pid = pid, id_start_ticks = ticks\<rparr>)
            (Option.bind (nth_opt (split_whitespace rest) 19) parse_usize))"

definition parse_foreground_group :: "ustring \<Rightarrow> int option" where
  "parse_foreground_group stat =
     (case after_last 41 stat of
        None \<Rightarrow> None
      | Some rest \<Rightarrow>
          (let fields = split_whitespace rest in
           case (Option.bind (nth_opt fields 2) parse_i32, Option.bind (nth_opt fields 5) parse_i32) of
             (Some pgroup, Some foreground) \<Rightarrow>
               if 0 < foreground \<and> foreground \<noteq> pgroup then Some foreground else None
           | _ \<Rightarrow> None))"

text \<open>Arguments that look like secrets are not kept.\<close>

definition sensitive_argument_name :: "ustring \<Rightarrow> bool" where
  "sensitive_argument_name value =
     (let normalized = map (\<lambda>c. if c = 95 then 45 else c) (map ascii_lower (trim_dashes value)) in
      list_ex (\<lambda>name. normalized = lit name \<or> ends_with normalized (45 # lit name))
        [''password'', ''passwd'', ''token'', ''secret'', ''api-key'', ''apikey'', ''access-key'',
         ''private-key'', ''client-secret'', ''auth-token''])"

fun redact_from :: "bool \<Rightarrow> ustring list \<Rightarrow> ustring list" where
  "redact_from redact_next [] = []"
| "redact_from redact_next (argument # arguments) =
     (if redact_next then lit ''[redacted]'' # redact_from False arguments
      else if contains_str (lit ''authorization:'') (map ascii_lower argument)
      then lit ''[redacted authorization]'' # redact_from False arguments
      else (case before_first 61 argument of
              Some key \<Rightarrow>
                if sensitive_argument_name key
                then (key @ lit ''=[redacted]'') # redact_from False arguments
                else argument # redact_from (sensitive_argument_name argument) arguments
            | None \<Rightarrow> argument # redact_from (sensitive_argument_name argument) arguments))"

definition redact_process_arguments :: "ustring list \<Rightarrow> ustring list" where
  "redact_process_arguments arguments = redact_from False arguments"

definition process_arguments :: "bytes \<Rightarrow> ustring list" where
  "process_arguments cmdline =
     redact_process_arguments
       (map (\<lambda>value. truncate_utf8 (utf8_lossy value) 1024)
         (take 64 (filter (\<lambda>value. value \<noteq> []) (split_on (CHR 0x00) cmdline))))"

fun find_some :: "('a \<Rightarrow> 'b option) \<Rightarrow> 'a list \<Rightarrow> 'b option" where
  "find_some f [] = None"
| "find_some f (x # xs) = (case f x of None \<Rightarrow> find_some f xs | Some y \<Rightarrow> Some y)"

definition parse_resident_memory_bytes :: "ustring list \<Rightarrow> nat option" where
  "parse_resident_memory_bytes status_lines =
     map_option (\<lambda>kib. min (kib * 1024) u64_max)
       (find_some (\<lambda>line. case strip_prefix (lit ''VmRSS:'') line of
                     None \<Rightarrow> None
                   | Some rest \<Rightarrow> Option.bind (nth_opt (split_whitespace rest) 0) parse_usize) status_lines)"

fun sum_ticks :: "nat \<Rightarrow> ustring list \<Rightarrow> nat option" where
  "sum_ticks n [] = Some n"
| "sum_ticks n (v # vs) =
     (case parse_usize v of None \<Rightarrow> None | Some ticks \<Rightarrow> sum_ticks (sat_add n ticks) vs)"

definition is_cpu_line :: "ustring \<Rightarrow> bool" where
  "is_cpu_line line =
     (case split_whitespace line of
        [] \<Rightarrow> False
      | label # _ \<Rightarrow>
          (case strip_prefix (lit ''cpu'') label of
             None \<Rightarrow> False
           | Some suffix \<Rightarrow> suffix \<noteq> [] \<and> list_all is_ascii_digit suffix))"

definition parse_cpu_sample :: "ustring list \<Rightarrow> cpu_sample option" where
  "parse_cpu_sample stat_lines =
     (case stat_lines of
        [] \<Rightarrow> None
      | first # rest \<Rightarrow>
          (case strip_prefix (lit ''cpu '') first of
             None \<Rightarrow> None
           | Some values \<Rightarrow>
               map_option (\<lambda>ticks. \<lparr>cs_total_ticks = ticks,
                                    cs_cpu_count = max (length (filter is_cpu_line rest)) 1\<rparr>)
                 (sum_ticks 0 (take 8 (split_whitespace values)))))"

text \<open>One directory of \<open>/proc\<close>. \<open>cmdline\<close>, \<open>cwd\<close> and \<open>status\<close> are read after \<open>stat\<close> and may be gone.\<close>

record proc_entry =
  pe_name :: ustring
  pe_stat :: "ustring option"
  pe_cmdline :: "bytes option"
  pe_cwd :: "ustring option"
  pe_status :: "ustring list option"

text \<open>The kernel puts the command in parentheses, so the first opening one comes before the last
  closing one.\<close>

definition stat_command :: "ustring \<Rightarrow> ustring option" where
  "stat_command stat =
     (case (before_first 40 stat, after_last 41 stat) of
        (Some before, Some rest) \<Rightarrow>
          Some (take (length stat - length rest - 1 - (length before + 1)) (drop (length before + 1) stat))
      | _ \<Rightarrow> None)"

definition parse_process_stat :: "nat \<Rightarrow> ustring \<Rightarrow> proc_entry \<Rightarrow> process_info option" where
  "parse_process_stat pid stat entry =
     (case (stat_command stat, after_last 41 stat) of
        (Some command, Some rest) \<Rightarrow>
          (let fields = split_whitespace rest;
               number = (\<lambda>i. Option.bind (nth_opt fields i) parse_usize) in
           case (Option.bind (nth_opt fields 1) parse_u32, Option.bind (nth_opt fields 2) parse_i32,
                 Option.bind (nth_opt fields 5) parse_i32, number 11, number 12, number 19) of
             (Some parent, Some pgroup, Some foreground, Some user, Some system, Some start) \<Rightarrow>
               Some \<lparr>pr_pid = pid, pr_parent = parent, pr_group = pgroup,
                     pr_foreground_group = foreground, pr_command = command,
                     pr_arguments = (case pe_cmdline entry of
                                       None \<Rightarrow> [] | Some cmdline \<Rightarrow> process_arguments cmdline),
                     pr_cwd = pe_cwd entry, pr_start_ticks = start,
                     pr_cpu_ticks = sat_add user system,
                     pr_memory_bytes = (case Option.bind (pe_status entry) parse_resident_memory_bytes of
                                          None \<Rightarrow> 0 | Some n \<Rightarrow> n)\<rparr>
           | _ \<Rightarrow> None)
      | _ \<Rightarrow> None)"

section \<open>Descendants\<close>

type_synonym child_map = "(nat \<times> nat list) list"

definition children_of :: "child_map \<Rightarrow> nat \<Rightarrow> nat list" where
  "children_of children pid = (case map_of children pid of None \<Rightarrow> [] | Some pids \<Rightarrow> pids)"

definition known_pids :: "child_map \<Rightarrow> nat set" where
  "known_pids children = \<Union> (set ` snd ` set children)"

lemma children_known: "set (children_of children pid) \<subseteq> known_pids children"
  by (cases "map_of children pid") (auto simp: children_of_def known_pids_def dest!: map_of_SomeD)

lemma finite_known: "finite (known_pids children)"
  by (simp add: known_pids_def)

text \<open>The stack's top is the head of the list; \<open>visited\<close> is in the order of the visits.\<close>

function visit_pids :: "child_map \<Rightarrow> nat list \<Rightarrow> nat list \<Rightarrow> nat list" where
  "visit_pids children visited [] = visited"
| "visit_pids children visited (pid # pending) =
     (if pid \<in> set visited then visit_pids children visited pending
      else visit_pids children (visited @ [pid]) (rev (children_of children pid) @ pending))"
  by pat_completeness auto
termination
proof (relation "inv_image (less_than <*lex*> less_than)
    (\<lambda>(children, visited, pending).
       (card (known_pids children \<union> set pending - set visited), length pending))", goal_cases)
  case 1
  then show ?case by auto
next
  case (2 children visited pid pending)
  have "known_pids children \<union> set pending - set visited
      = known_pids children \<union> set (pid # pending) - set visited"
    using 2 by auto
  then show ?case by simp
next
  case (3 children visited pid pending)
  have fewer: "known_pids children \<union> set (rev (children_of children pid) @ pending) - set (visited @ [pid])
      \<subset> known_pids children \<union> set (pid # pending) - set visited"
    using 3 children_known [of children pid] by auto
  then show ?case
    using psubset_card_mono [OF _ fewer] finite_known [of children] by simp
qed

definition collect_descendant_pids :: "nat list \<Rightarrow> child_map \<Rightarrow> nat list" where
  "collect_descendant_pids roots children = visit_pids children [] (rev roots)"

section \<open>The snapshot\<close>

record process_snapshot =
  sn_processes :: "(nat \<times> process_info) list"
  sn_children :: child_map
  sn_cpu_sample :: "cpu_sample option"

definition snapshot_default :: process_snapshot where
  "snapshot_default = \<lparr>sn_processes = [], sn_children = [], sn_cpu_sample = None\<rparr>"

definition add_child :: "nat \<Rightarrow> nat \<Rightarrow> child_map \<Rightarrow> child_map" where
  "add_child parent pid children = AList.update parent (children_of children parent @ [pid]) children"

text \<open>The entries with a number for a name and a readable parent.\<close>

definition process_candidate :: "proc_entry \<Rightarrow> (nat \<times> nat \<times> ustring) option" where
  "process_candidate entry =
     (case (parse_u32 (pe_name entry), pe_stat entry) of
        (Some pid, Some stat) \<Rightarrow>
          map_option (\<lambda>parent. (pid, parent, stat)) (parse_process_parent stat)
      | _ \<Rightarrow> None)"

fun scan_entries ::
    "proc_entry list \<Rightarrow> child_map \<times> (nat \<times> proc_entry \<times> ustring) list
       \<Rightarrow> child_map \<times> (nat \<times> proc_entry \<times> ustring) list" where
  "scan_entries [] acc = acc"
| "scan_entries (entry # entries) (children, candidates) =
     (case process_candidate entry of
        None \<Rightarrow> scan_entries entries (children, candidates)
      | Some (pid, parent, stat) \<Rightarrow>
          scan_entries entries
            (add_child parent pid children, AList.update pid (entry, stat) candidates))"

definition read_snapshot :: "proc_entry list option \<Rightarrow> ustring list option \<Rightarrow> nat list \<Rightarrow> process_snapshot" where
  "read_snapshot listing cpu_lines shell_pids =
     (case listing of
        None \<Rightarrow> snapshot_default
      | Some entries \<Rightarrow>
          (let (children, candidates) = scan_entries entries ([], []);
               descendants = collect_descendant_pids shell_pids children in
           \<lparr>sn_processes =
              List.map_filter (\<lambda>pid. case map_of candidates pid of
                                 None \<Rightarrow> None
                               | Some (entry, stat) \<Rightarrow>
                                   map_option (\<lambda>p. (pid, p)) (parse_process_stat pid stat entry))
                descendants,
            sn_children =
              map (\<lambda>(parent, pids). (parent, filter (\<lambda>pid. pid \<in> set descendants) pids))
                (filter (\<lambda>(parent, _). parent \<in> set descendants) children),
            sn_cpu_sample = Option.bind cpu_lines parse_cpu_sample\<rparr>))"

definition snapshot_descendants :: "process_snapshot \<Rightarrow> nat \<Rightarrow> process_info list" where
  "snapshot_descendants sn shell_pid =
     List.map_filter (map_of (sn_processes sn)) (visit_pids (sn_children sn) [] [shell_pid])"

section \<open>What runs in the foreground\<close>

definition process_tokens :: "process_info \<Rightarrow> ustring list" where
  "process_tokens p =
     map (\<lambda>value. map ascii_lower (trim_end_matches (lit ''.js'')
                    (case path_file_name value of None \<Rightarrow> value | Some name \<Rightarrow> name)))
       (pr_command p # pr_arguments p)"

definition agent_kind :: "process_info \<Rightarrow> ustring option" where
  "agent_kind p =
     (let command_line = join_with (lit '' '') (map (map ascii_lower) (pr_command p # pr_arguments p));
          tokens = process_tokens p in
      if contains_str (lit ''@openai/codex'') command_line
         \<or> list_ex (\<lambda>t. t = lit ''codex'' \<or> starts_with t (lit ''codex-'')) tokens
      then Some (lit ''codex'')
      else if contains_str (lit ''claude-code'') command_line
         \<or> list_ex (\<lambda>t. t = lit ''claude'' \<or> starts_with t (lit ''claude-'')
                         \<or> contains_str (lit ''claude-code'') t) tokens
      then Some (lit ''claude'')
      else if contains_str (lit ''pi-coding-agent'') command_line
         \<or> list_ex (\<lambda>t. t = lit ''pi'' \<or> contains_str (lit ''pi-coding-agent'') t) tokens
      then Some (lit ''pi'')
      else if list_ex (\<lambda>t. t = lit ''omp'') tokens then Some (lit ''omp'')
      else if list_ex (\<lambda>t. t = lit ''hermes'' \<or> t = lit ''hermes-agent'') tokens
      then Some (lit ''hermes'')
      else if list_ex (\<lambda>t. t = lit ''agy'' \<or> t = lit ''antigravity-cli'') tokens
      then Some (lit ''agy'')
      else None)"

definition executable_name :: "ustring \<Rightarrow> ustring" where
  "executable_name command =
     trim_dashes (case path_file_name command of
                    None \<Rightarrow> command | Some name \<Rightarrow> if name = [] then command else name)"

definition INTERPRETERS :: "string list" where
  "INTERPRETERS = [''node'', ''nodejs'', ''python'', ''python3'', ''bun'', ''bash'', ''dash'', ''sh'',
     ''zsh'', ''fish'', ''ruby'', ''perl'', ''php'']"

definition SCRIPT_SUFFIXES :: "string list" where
  "SCRIPT_SUFFIXES = [''.js'', ''.mjs'', ''.cjs'', ''.ts'', ''.py'', ''.sh'', ''.rb'', ''.pl'', ''.php'']"

definition process_program :: "process_info \<Rightarrow> ustring" where
  "process_program p =
     (let first_name = (case pr_arguments p of [] \<Rightarrow> pr_command p | a # _ \<Rightarrow> executable_name a);
          script_name = (case pr_arguments p of
                           _ # script # _ \<Rightarrow>
                             if starts_with script (lit ''-'') then []
                             else fold (\<lambda>suffix s. trim_end_matches (lit suffix) s) SCRIPT_SUFFIXES
                                    (executable_name script)
                         | _ \<Rightarrow> []) in
      if first_name \<in> lit ` set INTERPRETERS \<and> script_name \<noteq> [] then script_name
      else if first_name = [] then lit ''process'' else first_name)"

definition shell_observation :: "ustring \<Rightarrow> process_observation" where
  "shell_observation shell_name =
     \<lparr>po_program = shell_name, po_shell_foreground = True, po_agent = None, po_foreground = None\<rparr>"

text \<open>\<open>candidates\<close> are in the order of the hash map's iteration.\<close>

definition observe_candidates :: "int \<Rightarrow> process_info list \<Rightarrow> process_observation" where
  "observe_candidates foreground_group candidates =
     (let pids = map pr_pid candidates;
          root = (case min_by_key pr_pid (filter (\<lambda>p. pr_parent p \<notin> set pids) candidates) of
                    None \<Rightarrow> hd candidates | Some p \<Rightarrow> p);
          program = process_program root;
          agent = map_option (\<lambda>kind. \<lparr>ob_kind = kind, ob_pid = pr_pid root,
                                ob_start_ticks = pr_start_ticks root,
                                ob_cpu_ticks = sum_list (map pr_cpu_ticks candidates)\<rparr>)
                    (find_some agent_kind candidates) in
      \<lparr>po_program = (case agent of None \<Rightarrow> program | Some a \<Rightarrow> ob_kind a),
       po_shell_foreground = False, po_agent = agent,
       po_foreground = Some \<lparr>fo_group = foreground_group, fo_name = program\<rparr>\<rparr>)"

definition observe_processes :: "process_snapshot \<Rightarrow> nat \<Rightarrow> ustring \<Rightarrow> process_observation" where
  "observe_processes sn shell_pid shell_name =
     (case map_of (sn_processes sn) shell_pid of
        None \<Rightarrow> shell_observation shell_name
      | Some shell \<Rightarrow>
          if pr_foreground_group shell \<le> 0 \<or> pr_foreground_group shell = pr_group shell
          then shell_observation shell_name
          else (let candidates = filter (\<lambda>p. pr_group p = pr_foreground_group shell)
                                   (map snd (sn_processes sn)) in
                if candidates = [] then shell_observation shell_name
                else observe_candidates (pr_foreground_group shell) candidates))"

end
