(* ===== verification/ProcessOps.thy ===== *)
theory ProcessOps
  imports ProcessTree
begin

text \<open>
  What is done with the processes of a terminal (\<open>src/src/terminal.rs\<close>): the inspector's records
  (\<open>ProcessTracker\<close>), the request to terminate one of them (\<open>terminate_process\<close>,
  \<open>terminate_descendant_process\<close>, \<open>signal_process\<close>), the signals when a terminal is closed
  (\<open>signal_pty_session\<close>), and the manager's names, colours and its pruning of exited sessions.

  The identity of a process is its number with its start time, and it is checked again on the last
  reading before a signal; what \<open>pidfd_open\<close> holds in between cannot be given to another process.
\<close>

unbundle bit_operations_syntax

section \<open>The inspector\<close>

record process_record =
  rec_id :: ustring
  rec_pid :: nat
  rec_parent_id :: "ustring option"
  rec_command :: ustring
  rec_arguments :: "ustring list"
  rec_cwd :: "ustring option"
  rec_foreground :: bool
  rec_cpu :: "(nat \<times> nat \<times> nat) option"
  rec_memory_bytes :: nat

record process_tracker =
  pt_records :: "process_record list"
  pt_previous_ticks :: "(process_identity \<times> nat) list"
  pt_previous_total :: "nat option"

definition tracker_default :: process_tracker where
  "tracker_default = \<lparr>pt_records = [], pt_previous_ticks = [], pt_previous_total = None\<rparr>"

text \<open>The CPU share is \<open>process delta * processors * 100 / total delta\<close>, zero when it is None; the code
  computes it in floating point and rounds it to a tenth.\<close>

definition cpu_share :: "process_tracker \<Rightarrow> cpu_sample option \<Rightarrow> process_info \<Rightarrow> (nat \<times> nat \<times> nat) option" where
  "cpu_share t sample p =
     (case (sample, pt_previous_total t, map_of (pt_previous_ticks t) (process_identity_of p)) of
        (Some current, Some previous_total, Some previous) \<Rightarrow>
          if previous_total < cs_total_ticks current \<and> previous \<le> pr_cpu_ticks p
          then Some (pr_cpu_ticks p - previous, cs_cpu_count current, cs_total_ticks current - previous_total)
          else None
      | _ \<Rightarrow> None)"

definition process_record_of ::
    "process_tracker \<Rightarrow> cpu_sample option \<Rightarrow> (nat \<times> process_identity) list \<Rightarrow> int option \<Rightarrow> process_info
       \<Rightarrow> process_record" where
  "process_record_of t sample identities foreground_group p =
     \<lparr>rec_id = identity_label (case map_of identities (pr_pid p) of
                                 None \<Rightarrow> process_identity_of p | Some i \<Rightarrow> i),
      rec_pid = pr_pid p,
      rec_parent_id = map_option identity_label (map_of identities (pr_parent p)),
      rec_command = pr_command p, rec_arguments = pr_arguments p, rec_cwd = pr_cwd p,
      rec_foreground = (foreground_group = Some (pr_group p)), rec_cpu = cpu_share t sample p,
      rec_memory_bytes = pr_memory_bytes p\<rparr>"

text \<open>\<open>collect\<close> into a hash map: a later entry of the same key replaces an earlier one.\<close>

definition collect_map :: "('k \<times> 'v) list \<Rightarrow> ('k \<times> 'v) list" where
  "collect_map entries = fold (\<lambda>(k, v). AList.update k v) entries []"

definition tracker_update ::
    "nat \<Rightarrow> process_info list \<Rightarrow> cpu_sample option \<Rightarrow> process_tracker \<Rightarrow> process_tracker" where
  "tracker_update shell_pid processes sample t =
     (let identities = collect_map (map (\<lambda>p. (pr_pid p, process_identity_of p)) processes);
          foreground_group =
            (case List.find (\<lambda>p. pr_pid p = shell_pid) processes of
               None \<Rightarrow> None
             | Some p \<Rightarrow> if 0 < pr_foreground_group p then Some (pr_foreground_group p) else None) in
      \<lparr>pt_records = map (process_record_of t sample identities foreground_group) processes,
       pt_previous_ticks = collect_map (map (\<lambda>p. (process_identity_of p, pr_cpu_ticks p)) processes),
       pt_previous_total = map_option cs_total_ticks sample\<rparr>)"

text \<open>Foreground processes first, then by number.\<close>

definition tracker_snapshot :: "process_tracker \<Rightarrow> process_record list" where
  "tracker_snapshot t = sort_key (\<lambda>r. (\<not> rec_foreground r, rec_pid r)) (pt_records t)"

section \<open>Terminating a process\<close>

datatype signal_error = SignalNotFound | SignalUnsupported | SignalIo

datatype send_outcome = SendOk | SendNoProcess | SendFailed

text \<open>\<open>stat\<close> is read after the process was opened; \<open>outcome\<close> is what the system call answers. The list
  has the process the signal is sent to.\<close>

definition signal_process ::
    "nat \<Rightarrow> ustring \<Rightarrow> ustring option \<Rightarrow> send_outcome \<Rightarrow> (signal_error + unit) \<times> nat list" where
  "signal_process pid process_id stat outcome =
     (if pid = 0 \<or> 2 ^ 31 \<le> pid then (Inl SignalNotFound, [])
      else case Option.bind stat (parse_process_identity pid) of
        None \<Rightarrow> (Inl SignalNotFound, [])
      | Some current \<Rightarrow>
          if identity_label current \<noteq> process_id then (Inl SignalNotFound, [])
          else (case outcome of
                  SendOk \<Rightarrow> Inr ()
                | SendNoProcess \<Rightarrow> Inl SignalNotFound
                | SendFailed \<Rightarrow> Inl SignalIo, [pid]))"

definition terminate_descendant_process ::
    "process_snapshot \<Rightarrow> nat \<Rightarrow> ustring \<Rightarrow> (nat \<Rightarrow> ustring option) \<Rightarrow> send_outcome
       \<Rightarrow> (signal_error + unit) \<times> nat list" where
  "terminate_descendant_process sn shell_pid process_id stat_of outcome =
     (case List.find (\<lambda>p. identity_label (process_identity_of p) = process_id)
             (snapshot_descendants sn shell_pid) of
        None \<Rightarrow> (Inl SignalNotFound, [])
      | Some p \<Rightarrow> signal_process (pr_pid p) process_id (stat_of (pr_pid p)) outcome)"

definition terminate_process ::
    "process_tracker \<Rightarrow> nat option \<Rightarrow> process_snapshot \<Rightarrow> ustring \<Rightarrow> (nat \<Rightarrow> ustring option) \<Rightarrow> send_outcome
       \<Rightarrow> (signal_error + unit) \<times> nat list" where
  "terminate_process t shell_pid sn process_id stat_of outcome =
     (if \<not> list_ex (\<lambda>r. rec_id r = process_id) (pt_records t) then (Inl SignalNotFound, [])
      else case shell_pid of
        None \<Rightarrow> (Inl SignalNotFound, [])
      | Some pid \<Rightarrow> terminate_descendant_process sn pid process_id stat_of outcome)"

definition is_terminal_descendant :: "process_snapshot \<Rightarrow> nat \<Rightarrow> nat \<Rightarrow> nat \<Rightarrow> bool" where
  "is_terminal_descendant sn shell_pid pid start_ticks \<longleftrightarrow>
     list_ex (\<lambda>p. pr_pid p = pid \<and> pr_start_ticks p = start_ticks) (snapshot_descendants sn shell_pid)"

text \<open>The processes of a PTY session. \<open>shell_stat\<close> is the shell's record when it can be read.\<close>

definition signal_pty_session ::
    "process_identity \<Rightarrow> ustring option \<Rightarrow> (ustring \<times> ustring option) list option \<Rightarrow> nat list" where
  "signal_pty_session shell shell_stat listing =
     (if (case shell_stat of
            None \<Rightarrow> False
          | Some stat \<Rightarrow> parse_process_identity (id_pid shell) stat \<noteq> Some shell) then []
      else case listing of
        None \<Rightarrow> []
      | Some entries \<Rightarrow>
          List.map_filter
            (\<lambda>(name, stat).
               case (parse_u32 name, stat) of
                 (Some pid, Some text) \<Rightarrow>
                   if parse_process_session text = Some (id_pid shell) \<and> 0 < pid \<and> pid < 2 ^ 31
                   then Some pid else None
               | _ \<Rightarrow> None)
            entries)"

section \<open>The manager\<close>

definition normalize_terminal_path :: "ustring \<Rightarrow> ustring option" where
  "normalize_terminal_path input =
     (let normalized =
            join_with [47] (filter (\<lambda>segment. segment \<noteq> [])
              (split_on 47 (map (\<lambda>c. if c = 92 then 47 else c) (trim input)))) in
      if normalized = [] \<or> 256 < utf8_len normalized
         \<or> list_ex (\<lambda>segment. segment = [46] \<or> segment = [46, 46] \<or> list_ex is_control segment)
             (split_on 47 normalized)
      then None else Some normalized)"

definition path_hash :: "bytes \<Rightarrow> 32 word" where
  "path_hash bs = fold (\<lambda>b hash. (hash XOR of_nat (byte_val b)) * 16777619) bs 2166136261"

text \<open>The place of the colour in the palette of 64.\<close>

definition color_index :: "ustring \<Rightarrow> nat" where
  "color_index path = unat (path_hash (utf8_encode path)) mod 64"

definition MAX_RETAINED_EXITED_SESSIONS :: nat where "MAX_RETAINED_EXITED_SESSIONS = 32"

text \<open>A session with its status and the order of its exit; \<open>id\<close> breaks ties.\<close>

record retained_session =
  rt_exited :: bool
  rt_order :: nat

definition prune_exited :: "(nat \<times> retained_session) list \<Rightarrow> (nat \<times> retained_session) list" where
  "prune_exited sessions =
     (let exited = filter (\<lambda>(_, s). rt_exited s) sessions in
      if length exited \<le> MAX_RETAINED_EXITED_SESSIONS then sessions
      else (let oldest = sort_key (\<lambda>(sid, s). (rt_order s, sid)) exited;
                removed = map fst (take (length exited - MAX_RETAINED_EXITED_SESSIONS) oldest) in
            filter (\<lambda>(sid, _). sid \<notin> set removed) sessions))"

end
