(* ===== verification/ProcessProps.thy ===== *)
theory ProcessProps
  imports ProcessOps
begin

text \<open>
  The walk over the process table visits exactly the descendants of a shell; a process is only
  signalled when it is one of them and still is the one that was shown; secrets on a command line are
  not kept; the manager forgets only the oldest exited sessions.
\<close>

section \<open>The walk\<close>

definition child_edge :: "child_map \<Rightarrow> nat \<Rightarrow> nat \<Rightarrow> bool" where
  "child_edge children parent pid \<longleftrightarrow> pid \<in> set (children_of children parent)"

lemma visit_mono: "set visited \<union> set pending \<subseteq> set (visit_pids children visited pending)"
  by (induction children visited pending rule: visit_pids.induct) auto

lemma visit_distinct: "distinct visited \<Longrightarrow> distinct (visit_pids children visited pending)"
  by (induction children visited pending rule: visit_pids.induct) auto

lemma visit_closed:
  assumes "\<And>v c. v \<in> set visited \<Longrightarrow> child_edge children v c \<Longrightarrow> c \<in> set visited \<union> set pending"
    and "v \<in> set (visit_pids children visited pending)" and "child_edge children v c"
  shows "c \<in> set (visit_pids children visited pending)"
  using assms
proof (induction children visited pending rule: visit_pids.induct)
  case (2 children visited pid pending)
  show ?case
  proof (cases "pid \<in> set visited")
    case True
    have "\<And>v c. v \<in> set visited \<Longrightarrow> child_edge children v c \<Longrightarrow> c \<in> set visited \<union> set pending"
      using True 2(3) by fastforce
    then show ?thesis using True 2 by simp
  next
    case False
    have "w \<in> set (visited @ [pid]) \<Longrightarrow> child_edge children w d \<Longrightarrow>
        d \<in> set (visited @ [pid]) \<union> set (rev (children_of children pid) @ pending)" for w d
      using 2(3) [of w d] by (auto simp: child_edge_def)
    then show ?thesis using False 2(2) 2(4,5) by simp
  qed
qed simp

lemma visit_sound:
  "v \<in> set (visit_pids children visited pending) \<Longrightarrow>
     v \<in> set visited \<or> (\<exists>p \<in> set pending. (child_edge children)\<^sup>*\<^sup>* p v)"
proof (induction children visited pending rule: visit_pids.induct)
  case (2 children visited pid pending)
  show ?case
  proof (cases "pid \<in> set visited")
    case True
    then show ?thesis using 2 by auto
  next
    case False
    then consider "v \<in> set visited" | "v = pid"
      | p where "p \<in> set (children_of children pid)" "(child_edge children)\<^sup>*\<^sup>* p v"
      | p where "p \<in> set pending" "(child_edge children)\<^sup>*\<^sup>* p v"
      using 2(2) 2(3) by auto
    then show ?thesis
    proof cases
      case (3 p)
      then have "(child_edge children)\<^sup>*\<^sup>* pid v"
        by (meson child_edge_def converse_rtranclp_into_rtranclp)
      then show ?thesis by auto
    qed auto
  qed
qed simp

lemma visit_reachable:
  "set (visit_pids children [] roots) = {v. \<exists>r \<in> set roots. (child_edge children)\<^sup>*\<^sup>* r v}"
proof
  show "set (visit_pids children [] roots) \<subseteq> {v. \<exists>r \<in> set roots. (child_edge children)\<^sup>*\<^sup>* r v}"
    using visit_sound [of _ children "[]" roots] by auto
  have "v \<in> set (visit_pids children [] roots)"
    if "(child_edge children)\<^sup>*\<^sup>* r v" "r \<in> set roots" for r v
    using that(1)
  proof (induction rule: rtranclp_induct)
    case base
    then show ?case using that(2) visit_mono [of "[]" roots children] by auto
  next
    case (step v w)
    then show ?case using visit_closed [of "[]" children roots v w] by simp
  qed
  then show "{v. \<exists>r \<in> set roots. (child_edge children)\<^sup>*\<^sup>* r v} \<subseteq> set (visit_pids children [] roots)"
    by auto
qed

section \<open>The table\<close>

text \<open>The parent relation of a listing of \<open>/proc\<close>.\<close>

definition proc_edge :: "proc_entry list \<Rightarrow> nat \<Rightarrow> nat \<Rightarrow> bool" where
  "proc_edge entries parent pid \<longleftrightarrow>
     (\<exists>entry \<in> set entries. \<exists>stat. process_candidate entry = Some (pid, parent, stat))"

lemma children_of_add:
  "set (children_of (add_child parent pid children) p)
     = set (children_of children p) \<union> (if p = parent then {pid} else {})"
  by (auto simp: children_of_def add_child_def update_conv' split: option.splits)

lemma scan_children:
  "set (children_of (fst (scan_entries entries (children, candidates))) p)
     = set (children_of children p) \<union> {pid. proc_edge entries p pid}"
proof (induction entries arbitrary: children candidates)
  case Nil
  then show ?case by (simp add: proc_edge_def [abs_def])
next
  case (Cons entry entries)
  show ?case
  proof (cases "process_candidate entry")
    case None
    then have "proc_edge (entry # entries) = proc_edge entries" by (auto simp: proc_edge_def fun_eq_iff)
    with None Cons.IH show ?thesis by simp
  next
    case (Some t)
    obtain pid parent stat where t: "t = (pid, parent, stat)" by (cases t)
    have "proc_edge (entry # entries) p q \<longleftrightarrow> p = parent \<and> q = pid \<or> proc_edge entries p q" for q
      using Some t by (auto simp: proc_edge_def)
    then show ?thesis
      using Some t Cons.IH [of "add_child parent pid children" "AList.update pid (entry, stat) candidates"]
      by (auto simp: children_of_add)
  qed
qed

text \<open>Keeping only the rows and children of a closed set changes nothing inside it.\<close>

lemma map_of_restrict:
  "map_of (map (\<lambda>(k, v). (k, f v)) (filter (\<lambda>(k, _). P k) xs)) k
     = (if P k then map_option f (map_of xs k) else None)"
  by (induction xs) auto

lemma children_of_restrict:
  "set (children_of (map (\<lambda>(parent, pids). (parent, filter (\<lambda>pid. pid \<in> S) pids))
            (filter (\<lambda>(parent, _). parent \<in> S) children)) p)
     = (if p \<in> S then set (children_of children p) \<inter> S else {})"
  using map_of_restrict [of "filter (\<lambda>pid. pid \<in> S)" "\<lambda>p. p \<in> S" children p]
  by (cases "map_of children p") (auto simp: children_of_def)

lemma restricted_reach:
  fixes children :: child_map and S :: "nat set"
  assumes "r \<in> S"
    and closed: "\<And>v c. v \<in> S \<Longrightarrow> child_edge children v c \<Longrightarrow> c \<in> S"
  defines "children' \<equiv> map (\<lambda>(parent, pids). (parent, filter (\<lambda>pid. pid \<in> S) pids))
            (filter (\<lambda>(parent, _). parent \<in> S) children)"
  shows "(child_edge children')\<^sup>*\<^sup>* r v \<longleftrightarrow> (child_edge children)\<^sup>*\<^sup>* r v"
proof
  have "child_edge children' \<le> child_edge children"
    by (auto simp: child_edge_def children'_def children_of_restrict split: if_splits)
  then show "(child_edge children')\<^sup>*\<^sup>* r v \<Longrightarrow> (child_edge children)\<^sup>*\<^sup>* r v"
    using rtranclp_mono by blast
  show "(child_edge children')\<^sup>*\<^sup>* r v" if "(child_edge children)\<^sup>*\<^sup>* r v"
  proof -
    from that have "(child_edge children')\<^sup>*\<^sup>* r v \<and> v \<in> S"
    proof (induction rule: rtranclp_induct)
      case base
      then show ?case using assms(1) by simp
    next
      case (step v w)
      then have "child_edge children' v w"
        using closed by (auto simp: child_edge_def children'_def children_of_restrict)
      with step closed show ?case by (meson rtranclp.rtrancl_into_rtrancl)
    qed
    then show ?thesis by simp
  qed
qed

text \<open>C8. In the snapshot of a listing of \<open>/proc\<close>, the walk from a terminal's shell visits every process
  that descends from it by any number of steps in that listing, no other, and each one once.\<close>

theorem descendants_exact:
  assumes "shell \<in> set shell_pids"
  shows "let visited = visit_pids (sn_children (read_snapshot (Some entries) cpu shell_pids)) [] [shell] in
     set visited = {pid. (proc_edge entries)\<^sup>*\<^sup>* shell pid} \<and> distinct visited"
proof -
  obtain children candidates where scan: "scan_entries entries ([], []) = (children, candidates)"
    by (cases "scan_entries entries ([], [])")
  let ?S = "set (collect_descendant_pids shell_pids children)"
  have edge: "child_edge children = proc_edge entries"
    using scan_children [of entries "[]" "[]"] scan
    by (auto simp: child_edge_def children_of_def fun_eq_iff)
  have S: "?S = {v. \<exists>r \<in> set shell_pids. (child_edge children)\<^sup>*\<^sup>* r v}"
    using visit_reachable [of children "rev shell_pids"] by (simp add: collect_descendant_pids_def)
  have "c \<in> ?S" if "v \<in> ?S" "child_edge children v c" for v c
    using that by (auto simp: S intro: rtranclp.rtrancl_into_rtrancl)
  moreover have "shell \<in> ?S" using assms(1) by (auto simp: S)
  ultimately have "(child_edge (sn_children (read_snapshot (Some entries) cpu shell_pids)))\<^sup>*\<^sup>* shell v
      \<longleftrightarrow> (proc_edge entries)\<^sup>*\<^sup>* shell v" for v
    using restricted_reach [of shell ?S children v] scan edge by (simp add: read_snapshot_def Let_def)
  then show ?thesis
    using visit_reachable [of _ "[shell]"] visit_distinct [of "[]"]
    by (simp del: visit_pids.simps add: Let_def)
qed

definition demo_entries :: "proc_entry list" where
  "demo_entries =
     [\<lparr>pe_name = lit ''7'', pe_stat = Some (lit ''7 (sleep) S 5 7 5 34 7''), pe_cmdline = None,
       pe_cwd = None, pe_status = None\<rparr>]"

lemma descendants_exact_witness:
  "let visited = visit_pids (sn_children (read_snapshot (Some demo_entries) None [5])) [] [5] in
     set visited = {pid. (proc_edge demo_entries)\<^sup>*\<^sup>* 5 pid} \<and> distinct visited"
  by (rule descendants_exact) simp

section \<open>Signals\<close>

lemma dec_digits_inj: "dec_digits m = dec_digits n \<Longrightarrow> m = n"
  using digits_dec [of m] digits_dec [of n] by metis

lemma digits_no_colon: "58 \<notin> set (dec_digits n)"
  using digits_dec [of n] by (auto simp: list_all_iff is_ascii_digit_def)

lemma identity_label_inj: "identity_label i = identity_label j \<longleftrightarrow> i = j"
proof
  assume "identity_label i = identity_label j"
  then have "split_on 58 (identity_label i) = split_on 58 (identity_label j)" by simp
  then have "dec_digits (id_pid i) = dec_digits (id_pid j)"
    and "dec_digits (id_start_ticks i) = dec_digits (id_start_ticks j)"
    by (simp_all add: identity_label_def split_on_append split_on_none digits_no_colon)
  then show "i = j" by (cases i, cases j) (auto dest: dec_digits_inj)
qed simp

lemma parse_identity_pid: "parse_process_identity pid stat = Some i \<Longrightarrow> id_pid i = pid"
  by (auto simp: parse_process_identity_def split: option.splits)

lemma signal_process_sent:
  assumes "snd (signal_process pid label stat outcome) = targets" "targets \<noteq> []"
  shows "targets = [pid] \<and> (\<exists>text i. stat = Some text \<and> parse_process_identity pid text = Some i
     \<and> identity_label i = label)"
  using assms
  by (auto simp: signal_process_def split: if_splits option.splits Option.bind_splits)

lemma find_holds: "List.find P xs = Some x \<Longrightarrow> P x \<and> x \<in> set xs"
  by (induction xs) (auto split: if_splits)

lemma map_filter_mem: "y \<in> set (List.map_filter f xs) \<longleftrightarrow> (\<exists>x \<in> set xs. f x = Some y)"
  by (force simp: List.map_filter_def)

text \<open>C7. A request to terminate a process of a terminal signals at most that process, and only when it
  was shown by the terminal's inspector, descends from its shell in the current process table, and is
  still the same process (number and start time) on the last reading before the signal.\<close>

theorem terminate_only_descendant:
  assumes "snd (terminate_process t shell_pid sn process_id stat_of outcome) = targets" "targets \<noteq> []"
  shows "\<exists>shell p text. shell_pid = Some shell \<and> targets = [pr_pid p]
     \<and> process_id \<in> rec_id ` set (pt_records t)
     \<and> (\<exists>pid. (child_edge (sn_children sn))\<^sup>*\<^sup>* shell pid \<and> map_of (sn_processes sn) pid = Some p)
     \<and> identity_label (process_identity_of p) = process_id
     \<and> stat_of (pr_pid p) = Some text \<and> parse_process_identity (pr_pid p) text = Some (process_identity_of p)"
proof -
  obtain shell p where tracked: "process_id \<in> rec_id ` set (pt_records t)"
    and shell: "shell_pid = Some shell"
    and p: "List.find (\<lambda>p. identity_label (process_identity_of p) = process_id)
              (snapshot_descendants sn shell) = Some p"
    and sent: "snd (signal_process (pr_pid p) process_id (stat_of (pr_pid p)) outcome) = targets"
    using assms
    by (auto simp: terminate_process_def terminate_descendant_process_def list_ex_iff
        split: if_splits option.splits)
  from find_holds [OF p] have label: "identity_label (process_identity_of p) = process_id"
    and mem: "p \<in> set (snapshot_descendants sn shell)" by simp_all
  from mem obtain pid where "(child_edge (sn_children sn))\<^sup>*\<^sup>* shell pid" "map_of (sn_processes sn) pid = Some p"
    using visit_reachable [of "sn_children sn" "[shell]"]
    by (auto simp: snapshot_descendants_def map_filter_mem simp del: visit_pids.simps)
  moreover obtain line i where sent_to: "targets = [pr_pid p]" "stat_of (pr_pid p) = Some line"
    "parse_process_identity (pr_pid p) line = Some i" "identity_label i = process_id"
    using signal_process_sent [OF sent assms(2)] by blast
  moreover have "i = process_identity_of p"
    using label sent_to(4) identity_label_inj by metis
  ultimately show ?thesis using tracked shell label sent_to by blast
qed

definition demo_process :: process_info where
  "demo_process = \<lparr>pr_pid = 7, pr_parent = 5, pr_group = 7, pr_foreground_group = 7,
     pr_command = lit ''sleep'', pr_arguments = [], pr_cwd = None, pr_start_ticks = 99,
     pr_cpu_ticks = 3, pr_memory_bytes = 0\<rparr>"

definition demo_snapshot :: process_snapshot where
  "demo_snapshot = \<lparr>sn_processes = [(7, demo_process)], sn_children = [(5, [7])], sn_cpu_sample = None\<rparr>"

definition demo_stat :: "nat \<Rightarrow> ustring option" where
  "demo_stat pid = (if pid = 7
     then Some (lit ''7 (sleep) S 5 7 5 34 7 0 0 0 0 0 1 2 0 0 20 0 1 0 99 0'') else None)"

lemma demo_label: "identity_label \<lparr>id_pid = 7, id_start_ticks = 99\<rparr> = lit ''7:99''"
  by code_simp

lemma demo_identity:
  "parse_process_identity 7 (lit ''7 (sleep) S 5 7 5 34 7 0 0 0 0 0 1 2 0 0 20 0 1 0 99 0'')
     = Some \<lparr>id_pid = 7, id_start_ticks = 99\<rparr>"
  by (simp add: parse_process_identity_def after_last_def split_whitespace_def is_whitespace_def
      nth_opt_def parse_usize_def is_ascii_digit_def digits_value_def u64_max_def)

lemma demo_descendants: "snapshot_descendants demo_snapshot 5 = [demo_process]"
  by (simp add: snapshot_descendants_def demo_snapshot_def children_of_def map_filter_simps)

lemma demo_terminated:
  "terminate_process (tracker_update 5 [demo_process] None tracker_default) (Some 5) demo_snapshot
     (lit ''7:99'') demo_stat SendOk = (Inr (), [7])"
proof -
  have i: "process_identity_of demo_process = \<lparr>id_pid = 7, id_start_ticks = 99\<rparr>"
    by (simp add: process_identity_of_def demo_process_def)
  have pid: "pr_pid demo_process = 7" by (simp add: demo_process_def)
  show ?thesis
    by (simp add: terminate_process_def tracker_update_def process_record_of_def collect_map_def
        terminate_descendant_process_def demo_descendants signal_process_def demo_stat_def i pid
        demo_label demo_identity Let_def del: lit_simps)
qed

lemma terminate_only_descendant_witness:
  "\<exists>shell p line. Some 5 = Some shell \<and> [7] = [pr_pid p]
     \<and> lit ''7:99'' \<in> rec_id ` set (pt_records (tracker_update 5 [demo_process] None tracker_default))
     \<and> (\<exists>pid. (child_edge (sn_children demo_snapshot))\<^sup>*\<^sup>* shell pid
          \<and> map_of (sn_processes demo_snapshot) pid = Some p)
     \<and> identity_label (process_identity_of p) = lit ''7:99''
     \<and> demo_stat (pr_pid p) = Some line \<and> parse_process_identity (pr_pid p) line = Some (process_identity_of p)"
  by (rule terminate_only_descendant [where outcome = SendOk]) (simp_all only: demo_terminated, simp_all)

text \<open>When a terminal is closed only the processes of its own session are signalled, and none when the
  shell's number belongs to another process by now.\<close>

lemma session_signals:
  assumes "pid \<in> set (signal_pty_session shell shell_stat (Some entries))"
  shows "(\<exists>name text. (name, Some text) \<in> set entries \<and> parse_u32 name = Some pid
      \<and> parse_process_session text = Some (id_pid shell))
    \<and> (\<forall>stat. shell_stat = Some stat \<longrightarrow> parse_process_identity (id_pid shell) stat = Some shell)"
  using assms
  by (auto simp: signal_pty_session_def map_filter_mem split: if_splits option.splits) blast+

section \<open>Arguments\<close>

lemma length_redact: "length (redact_from n arguments) = length arguments"
  by (induction n arguments rule: redact_from.induct) (auto split: option.splits)

lemma redact_Cons: "\<exists>x m. redact_from n (a # rest) = x # redact_from m rest"
  by (cases n; cases "before_first 61 a") (auto simp del: lit_simps)

lemma redact_drop: "\<exists>m. drop i (redact_from n arguments) = redact_from m (drop i arguments)"
proof (induction i arbitrary: n arguments)
  case (Suc i)
  show ?case
  proof (cases arguments)
    case (Cons a rest)
    obtain m x where "redact_from n arguments = x # redact_from m rest"
      using Cons redact_Cons by metis
    with Suc Cons show ?thesis by simp
  qed simp
qed auto



section \<open>The manager\<close>

text \<open>C23. Pruning forgets only exited sessions and leaves at most 32 of them, those that exited last:
  every forgotten session exited before every exited one that is kept.\<close>

theorem prune_keeps_latest:
  assumes "distinct (map fst sessions)"
  shows "set (prune_exited sessions) \<subseteq> set sessions
     \<and> (\<forall>(sid, s) \<in> set sessions. \<not> rt_exited s \<longrightarrow> (sid, s) \<in> set (prune_exited sessions))
     \<and> length (filter (\<lambda>(_, s). rt_exited s) (prune_exited sessions)) \<le> MAX_RETAINED_EXITED_SESSIONS
     \<and> (\<forall>(gone, g) \<in> set sessions - set (prune_exited sessions).
          \<forall>(sid, s) \<in> set (prune_exited sessions). rt_exited s \<longrightarrow> (rt_order g, gone) \<le> (rt_order s, sid))"
proof -
  let ?exited = "filter (\<lambda>(_, s). rt_exited s) sessions"
  let ?key = "\<lambda>(sid, s). (rt_order s, sid) :: nat \<times> nat"
  let ?sorted = "sort_key ?key ?exited"
  let ?n = "length ?exited - MAX_RETAINED_EXITED_SESSIONS"
  let ?removed = "map fst (take ?n ?sorted)"
  show ?thesis
  proof (cases "length ?exited \<le> MAX_RETAINED_EXITED_SESSIONS")
    case True
    then have "prune_exited sessions = sessions" by (simp add: prune_exited_def Let_def)
    with True show ?thesis by auto
  next
    case False
    then have pruned: "prune_exited sessions = filter (\<lambda>(sid, _). sid \<notin> set ?removed) sessions"
      by (simp add: prune_exited_def Let_def)
    have taken: "set (take ?n ?sorted) \<subseteq> set ?exited" using set_take_subset by fastforce
    have key: "(sid, s) \<in> set (take ?n ?sorted)" if "(sid, s) \<in> set sessions" "sid \<in> set ?removed" for sid s
    proof -
      from that(2) obtain s' where s': "(sid, s') \<in> set (take ?n ?sorted)" by auto
      then have "(sid, s') \<in> set sessions" using taken by auto
      then have "s' = s" using assms that(1) by (metis eq_key_imp_eq_value)
      with s' show ?thesis by simp
    qed
    have keeps: "(sid, s) \<in> set (prune_exited sessions)" if "(sid, s) \<in> set sessions" "\<not> rt_exited s" for sid s
      using that key [of sid s] taken by (auto simp: pruned)
    have split: "set ?exited = set (take ?n ?sorted) \<union> set (drop ?n ?sorted)"
      by (metis append_take_drop_id set_append set_sort)
    have kept: "(sid, s) \<in> set (drop ?n ?sorted)"
      if "(sid, s) \<in> set (prune_exited sessions)" "rt_exited s" for sid s
      using that split by (force simp: pruned)
    have "distinct (map fst (filter (\<lambda>(_, s). rt_exited s) (prune_exited sessions)))"
      using assms by (simp add: pruned distinct_map_filter)
    then have "length (filter (\<lambda>(_, s). rt_exited s) (prune_exited sessions))
        = card (set (filter (\<lambda>(_, s). rt_exited s) (prune_exited sessions)))"
      by (metis distinct_card distinct_map)
    also have "\<dots> \<le> card (set (drop ?n ?sorted))"
      using kept by (intro card_mono) auto
    also have "\<dots> \<le> length (drop ?n ?sorted)" by (rule card_length)
    also have "\<dots> = MAX_RETAINED_EXITED_SESSIONS" using False by simp
    finally have few: "length (filter (\<lambda>(_, s). rt_exited s) (prune_exited sessions))
        \<le> MAX_RETAINED_EXITED_SESSIONS" .
    have order: "?key x \<le> ?key y" if "x \<in> set (take ?n ?sorted)" "y \<in> set (drop ?n ?sorted)" for x y
    proof -
      have "sorted (map ?key (take ?n ?sorted @ drop ?n ?sorted))" by simp
      then show ?thesis using that by (simp only: map_append sorted_append set_map) blast
    qed
    have older: "(rt_order g, gone) \<le> (rt_order s, sid)"
      if "(gone, g) \<in> set sessions - set (prune_exited sessions)"
        "(sid, s) \<in> set (prune_exited sessions)" "rt_exited s" for gone g sid s
      using order [of "(gone, g)" "(sid, s)"] key [of gone g] kept [OF that(2,3)] that(1)
      by (auto simp: pruned)
    have "set (prune_exited sessions) \<subseteq> set sessions" by (auto simp: pruned)
    then show ?thesis using keeps few older
      by (intro conjI ballI; clarify) (blast | assumption)+
  qed
qed

lemma prune_keeps_latest_witness:
  "length (filter (\<lambda>(_, s). rt_exited s) (prune_exited [(1, \<lparr>rt_exited = True, rt_order = 4\<rparr>)]))
     \<le> MAX_RETAINED_EXITED_SESSIONS"
  using prune_keeps_latest [of "[(1, \<lparr>rt_exited = True, rt_order = 4\<rparr>)]"] by simp

section \<open>Two agents in one foreground group\<close>

definition demo_agents :: "process_info list" where
  "demo_agents =
     [demo_process\<lparr>pr_command := lit ''claude''\<rparr>,
      demo_process\<lparr>pr_pid := 8, pr_parent := 7, pr_command := lit ''codex''\<rparr>]"

text \<open>The candidates come from a hash map, whose order differs from sample to sample. When an agent runs
  another one in its group, the kind that is observed, and with it the session's agent, depends on that
  order.\<close>

lemma agent_depends_on_order:
  "map_option ob_kind (po_agent (observe_candidates 7 demo_agents)) = Some (lit ''claude'')"
  "map_option ob_kind (po_agent (observe_candidates 7 (rev demo_agents))) = Some (lit ''codex'')"
  by code_simp+

end
